(* ===== verification/Prelude.thy ===== *)
theory Prelude
  imports Main "HOL-Library.Word"
begin

text \<open>
  Shared vocabulary of the development: how a C++ computation that can fail is written
  (a sum of an error and a value), the C++ integer types the sources use, readers and writers
  over a byte buffer, and the list operations of \<open>std::vector\<close> with their undefined cases.
\<close>

section \<open>Failure\<close>

text \<open>
  A run of the C++ code either returns a value, leaves by a \<open>throw\<close> (the sources throw string
  literals; the standard library throws \<open>std::length_error\<close> and \<open>std::invalid_argument\<close>), or
  reaches undefined behaviour. Undefined behaviour is kept as a value of its own, with the reason,
  so that a theorem that an operation returns a value says that none of these is reached.
\<close>

datatype ub =
    NullDeref
  | Dangling
  | OutOfBounds
  | SignedOverflow
  | BadBool
  | EraseEnd
  | Uninit
  | EmptyContainer
  | NoReturn
  | BadCast

datatype err = Undefined ub | Exception string

type_synonym 'a result = "err + 'a"

definition bindR :: "'a result \<Rightarrow> ('a \<Rightarrow> 'b result) \<Rightarrow> 'b result" where
  "bindR m f = (case m of Inl e \<Rightarrow> Inl e | Inr x \<Rightarrow> f x)"

named_theorems run_simps \<open>equations that run a modelled operation\<close>
named_theorems wf_intros \<open>introduction rules for well-formedness of the components\<close>

lemma bindR_Inl [simp, run_simps]: "bindR (Inl e) f = Inl e"
  by (simp add: bindR_def)

lemma bindR_Inr [simp, run_simps]: "bindR (Inr x) f = f x"
  by (simp add: bindR_def)

lemma bindR_assoc: "bindR (bindR m f) g = bindR m (\<lambda>x. bindR (f x) g)"
  by (cases m) simp_all

lemma bindR_eq_Inr [simp]: "bindR m f = Inr y \<longleftrightarrow> (\<exists>x. m = Inr x \<and> f x = Inr y)"
  by (cases m) simp_all

lemma bindR_eq_InrE: "bindR m f = Inr y \<Longrightarrow> (\<And>x. m = Inr x \<Longrightarrow> f x = Inr y \<Longrightarrow> P) \<Longrightarrow> P"
  by auto

lemma bindR_cong [fundef_cong]:
  "m = m' \<Longrightarrow> (\<And>x. m' = Inr x \<Longrightarrow> f x = f' x) \<Longrightarrow> bindR m f = bindR m' f'"
  by (cases m') simp_all

definition guardR :: "bool \<Rightarrow> err \<Rightarrow> unit result" where
  "guardR P e = (if P then Inr () else Inl e)"

lemma guardR_simps [simp, run_simps]: "guardR True e = Inr ()" "guardR False e = Inl e"
  by (simp_all add: guardR_def)

lemma guardR_eq_Inr [simp]: "guardR P e = Inr u \<longleftrightarrow> P"
  by (simp add: guardR_def)

text \<open>A pointer that is null, or the address it holds.\<close>

definition deref :: "'a option \<Rightarrow> 'a result" where
  "deref p = (case p of None \<Rightarrow> Inl (Undefined NullDeref) | Some a \<Rightarrow> Inr a)"

lemma deref_simps [simp, run_simps]: "deref None = Inl (Undefined NullDeref)" "deref (Some a) = Inr a"
  by (simp_all add: deref_def)

lemma deref_eq_Inr [simp]: "deref p = Inr a \<longleftrightarrow> p = Some a"
  by (cases p) simp_all

text \<open>A range-\<open>for\<close> whose body updates a state and may fail.\<close>

fun foldR :: "('a \<Rightarrow> 's \<Rightarrow> 's result) \<Rightarrow> 'a list \<Rightarrow> 's \<Rightarrow> 's result" where
  "foldR f [] s = Inr s"
| "foldR f (x # xs) s = bindR (f x s) (foldR f xs)"

lemma foldR_append: "foldR f (xs @ ys) s = bindR (foldR f xs s) (foldR f ys)"
  by (induction xs arbitrary: s) (simp_all add: bindR_assoc cong: bindR_cong)

lemma foldR_invariant:
  assumes "foldR f xs s = Inr s'" and "I s"
    and "\<And>x t t'. x \<in> set xs \<Longrightarrow> I t \<Longrightarrow> f x t = Inr t' \<Longrightarrow> I t'"
  shows "I s'"
  using assms by (induction xs arbitrary: s) auto

lemma foldR_total:
  assumes "I s" and "\<And>x t. x \<in> set xs \<Longrightarrow> I t \<Longrightarrow> \<exists>t'. f x t = Inr t' \<and> I t'"
  shows "\<exists>s'. foldR f xs s = Inr s' \<and> I s'"
  using assms
proof (induction xs arbitrary: s)
  case Nil
  then show ?case by simp
next
  case (Cons x xs)
  obtain t where t: "f x s = Inr t" "I t"
    using Cons.prems(1) Cons.prems(2)[of x s] by auto
  then show ?case using Cons.IH[of t] Cons.prems(2) by auto
qed


lemma length_concat_ge:
  assumes "\<And>x. 1 \<le> length (f x)"
  shows "length xs \<le> length (concat (map f xs))"
proof (induction xs)
  case Nil
  then show ?case by simp
next
  case (Cons x xs)
  then show ?case using assms[of x] by simp
qed


section \<open>C++ integers\<close>

text \<open>
  \<open>int\<close> is 32 bits wide and kept as a mathematical integer with its range: signed overflow is
  undefined behaviour, so arithmetic that leaves the range is an error and never wraps.
  \<open>size_t\<close> is the 64-bit unsigned type of the x64 build (the one that wrote
  \<open>Serializer/test.bin\<close>); its arithmetic wraps modulo \<open>2 ^ 64\<close>.
\<close>

definition int_ok :: "int \<Rightarrow> bool" where
  "int_ok i \<longleftrightarrow> - 2147483648 \<le> i \<and> i \<le> 2147483647"

definition checked_int :: "int \<Rightarrow> int result" where
  "checked_int i = (if int_ok i then Inr i else Inl (Undefined SignedOverflow))"

lemma checked_int_ok [simp]: "int_ok i \<Longrightarrow> checked_int i = Inr i"
  by (simp add: checked_int_def)

lemma checked_int_eq_Inr: "checked_int i = Inr j \<longleftrightarrow> int_ok i \<and> j = i"
  by (auto simp: checked_int_def)

type_synonym size_t = "64 word"

text \<open>Conversion of a \<open>size_t\<close> to \<open>int\<close> keeps the low 32 bits, read as two's complement.\<close>

definition wrap32 :: "int \<Rightarrow> int" where
  "wrap32 i = (i + 2147483648) mod 4294967296 - 2147483648"

definition int_of_size :: "nat \<Rightarrow> int" where
  "int_of_size n = wrap32 (int n)"

text \<open>Conversion of an \<open>int\<close> to \<open>size_t\<close> is modulo \<open>2 ^ 64\<close>.\<close>

definition size_of_int :: "int \<Rightarrow> nat" where
  "size_of_int i = nat (i mod 18446744073709551616)"

lemma wrap32_id [simp]: "int_ok i \<Longrightarrow> wrap32 i = i"
  by (simp add: wrap32_def int_ok_def)

lemma int_ok_wrap32 [simp]: "int_ok (wrap32 i)"
  by (simp add: wrap32_def int_ok_def)

lemma int_of_size_small [simp]: "n < 2147483648 \<Longrightarrow> int_of_size n = int n"
  by (simp add: int_of_size_def int_ok_def)

lemma int_ok_of_nat: "n < 2147483648 \<Longrightarrow> int_ok (int n)"
  by (simp add: int_ok_def)

lemma int_ok_int_of_size [simp]: "int_ok (int_of_size n)"
  by (simp add: int_of_size_def)

lemma size_of_int_nonneg [simp]: "0 \<le> i \<Longrightarrow> int_ok i \<Longrightarrow> size_of_int i = nat i"
  by (simp add: size_of_int_def int_ok_def)


section \<open>\<open>std::vector\<close>\<close>

text \<open>\<open>v[i]\<close> is undefined out of range; \<open>v.erase(v.begin() + i)\<close> removes one element.\<close>

definition vec_at :: "'a list \<Rightarrow> nat \<Rightarrow> 'a result" where
  "vec_at xs i = (if i < length xs then Inr (xs ! i) else Inl (Undefined OutOfBounds))"

lemma vec_at_in [simp]: "i < length xs \<Longrightarrow> vec_at xs i = Inr (xs ! i)"
  by (simp add: vec_at_def)

lemma vec_at_out [simp]: "length xs \<le> i \<Longrightarrow> vec_at xs i = Inl (Undefined OutOfBounds)"
  by (simp add: vec_at_def)

definition vec_erase :: "nat \<Rightarrow> 'a list \<Rightarrow> 'a list" where
  "vec_erase i xs = take i xs @ drop (Suc i) xs"

lemma length_vec_erase [simp]: "i < length xs \<Longrightarrow> length (vec_erase i xs) = length xs - 1"
  by (simp add: vec_erase_def)

lemma vec_erase_0 [simp]: "vec_erase 0 (x # xs) = xs"
  by (simp add: vec_erase_def)

lemma vec_erase_Suc [simp]: "vec_erase (Suc i) (x # xs) = x # vec_erase i xs"
  by (simp add: vec_erase_def)

lemma vec_erase_map: "vec_erase i (map f xs) = map f (vec_erase i xs)"
  by (simp add: vec_erase_def take_map drop_map)

lemma set_vec_erase_subset: "set (vec_erase i xs) \<subseteq> set xs"
  by (auto simp: vec_erase_def dest: in_set_takeD in_set_dropD)

lemma list_all2_vec_erase: "list_all2 R xs ys \<Longrightarrow> list_all2 R (vec_erase i xs) (vec_erase i ys)"
  unfolding vec_erase_def by (intro list_all2_appendI list_all2_takeI list_all2_dropI)

text \<open>The loop \<open>for (i = 0; i < v.size(); i++) if (P(v[i])) ...\<close>: the first hit.\<close>

fun find_index :: "('a \<Rightarrow> bool) \<Rightarrow> 'a list \<Rightarrow> nat option" where
  "find_index P [] = None"
| "find_index P (x # xs) = (if P x then Some 0 else map_option Suc (find_index P xs))"

lemma find_index_None [simp]: "find_index P xs = None \<longleftrightarrow> (\<forall>x \<in> set xs. \<not> P x)"
  by (induction xs) auto

lemma find_index_SomeD:
  "find_index P xs = Some i \<Longrightarrow> i < length xs \<and> P (xs ! i) \<and> (\<forall>j < i. \<not> P (xs ! j))"
proof (induction xs arbitrary: i)
  case Nil
  then show ?case by simp
next
  case (Cons x xs)
  show ?case
  proof (cases "P x")
    case True
    with Cons.prems show ?thesis by simp
  next
    case False
    with Cons.prems obtain k where k: "find_index P xs = Some k" "i = Suc k" by auto
    with Cons.IH[OF k(1)] False show ?thesis by (auto simp: nth_Cons split: nat.splits)
  qed
qed

lemma vec_erase_find_index_remove1:
  "find_index (\<lambda>y. y = x) xs = Some i \<Longrightarrow> vec_erase i xs = remove1 x xs"
  by (induction xs arbitrary: i) (auto split: if_splits)

end
