(* ===== verification/Serializer.thy ===== *)
theory Serializer
  imports Prelude
begin

text \<open>
  \<open>Serializer/Serializer.h\<close>: \<open>SerializedObject\<close> is a byte vector used as a stack. Every
  \<open>operator <<\<close> appends the object representation of its argument at the end, every
  \<open>operator >>\<close> reads it back from the end and shortens the vector. Strings are followed by an
  \<open>int\<close> length, nested objects by a \<open>size_t\<close> length. The operators are modelled through
  \<open>resize\<close> and \<open>memcpy\<close> with their bounds, on the little-endian x64 target.
  A contract locale \<open>codec\<close> states what a pair of operators promises; it is closed under the
  counted loops that all \<open>serialize\<close>/\<open>set\<close> methods of the repository use.
\<close>

type_synonym byte = "8 word"
type_synonym serialized_object = "byte list"
type_synonym writer = "byte list \<Rightarrow> byte list result"
type_synonym ('w, 'a) reader = "byte list \<times> 'w \<Rightarrow> ('a \<times> (byte list \<times> 'w)) result"


section \<open>Object representations\<close>

lemma unat_byte: "unat (b :: byte) < 256"
proof -
  have "unat b < 2 ^ LENGTH(8)" by (rule unsigned_less)
  then show ?thesis by simp
qed

fun le_nat :: "nat \<Rightarrow> nat \<Rightarrow> byte list" where
  "le_nat 0 v = []"
| "le_nat (Suc n) v = word_of_nat (v mod 256) # le_nat n (v div 256)"

fun nat_le :: "byte list \<Rightarrow> nat" where
  "nat_le [] = 0"
| "nat_le (b # bs) = unat b + 256 * nat_le bs"

lemma length_le_nat [simp]: "length (le_nat n v) = n"
  by (induction n arbitrary: v) simp_all

lemma nat_le_le_nat [simp]: "nat_le (le_nat n v) = v mod 256 ^ n"
proof (induction n arbitrary: v)
  case 0
  then show ?case by simp
next
  case (Suc n)
  have "unat (word_of_nat (v mod 256) :: byte) = v mod 256"
    by (simp add: unat_of_nat)
  with Suc show ?case by (simp add: mod_mult2_eq)
qed

lemma nat_le_bound: "nat_le bs < 256 ^ length bs"
proof (induction bs)
  case Nil
  then show ?case by simp
next
  case (Cons b bs)
  have "unat b < 256" by (rule unat_byte)
  with Cons show ?case by simp
qed

lemma le_nat_nat_le [simp]: "length bs = n \<Longrightarrow> le_nat n (nat_le bs) = bs"
proof (induction bs arbitrary: n)
  case Nil
  then show ?case by simp
next
  case (Cons b bs)
  have "unat b < 256" by (rule unat_byte)
  then show ?case using Cons by (auto simp: mod_mult2_eq)
qed

text \<open>\<open>int\<close>: four bytes, two's complement. \<open>size_t\<close>: eight bytes.\<close>

definition int_bytes :: "int \<Rightarrow> byte list" where
  "int_bytes i = le_nat 4 (nat (i mod 4294967296))"

definition bytes_int :: "byte list \<Rightarrow> int" where
  "bytes_int bs = wrap32 (int (nat_le bs))"

definition size_bytes :: "nat \<Rightarrow> byte list" where
  "size_bytes n = le_nat 8 n"

definition bytes_size :: "byte list \<Rightarrow> nat" where
  "bytes_size bs = nat_le bs"

definition bool_bytes :: "bool \<Rightarrow> byte list" where
  "bool_bytes b = [if b then 1 else 0]"

definition bytes_bool :: "byte list \<Rightarrow> bool result" where
  "bytes_bool bs = (if bs = [0] then Inr False else if bs = [1] then Inr True else Inl (Undefined BadBool))"

definition string_bytes :: "string \<Rightarrow> byte list" where
  "string_bytes s = map (\<lambda>c. word_of_nat (of_char c)) s"

definition bytes_string :: "byte list \<Rightarrow> string" where
  "bytes_string bs = map (\<lambda>b. char_of (unat b)) bs"

lemma length_int_bytes [simp]: "length (int_bytes i) = 4"
  by (simp add: int_bytes_def)

lemma length_size_bytes [simp]: "length (size_bytes i) = 8"
  by (simp add: size_bytes_def)

lemma length_bool_bytes [simp]: "length (bool_bytes b) = 1"
  by (simp add: bool_bytes_def)

lemma length_string_bytes [simp]: "length (string_bytes s) = length s"
  by (simp add: string_bytes_def)

lemma wrap32_mod [simp]: "wrap32 (i mod 4294967296) = wrap32 i"
  by (simp add: wrap32_def mod_simps)

lemma bytes_int_bytes: "bytes_int (int_bytes i) = wrap32 i"
proof -
  have "nat (i mod 4294967296) mod 4294967296 = nat (i mod 4294967296)" by simp
  then show ?thesis by (simp add: bytes_int_def int_bytes_def)
qed

lemma bytes_int_ok [simp]: "int_ok i \<Longrightarrow> bytes_int (int_bytes i) = i"
  by (simp add: bytes_int_bytes)

lemma int_ok_bytes_int [simp]: "int_ok (bytes_int bs)"
  by (simp add: bytes_int_def)

lemma bytes_size_bytes [simp]: "n < 18446744073709551616 \<Longrightarrow> bytes_size (size_bytes n) = n"
  by (simp add: bytes_size_def size_bytes_def)

lemma bytes_bool_bytes [simp]: "bytes_bool (bool_bytes b) = Inr b"
  by (simp add: bytes_bool_def bool_bytes_def)

lemma bytes_string_bytes [simp]: "bytes_string (string_bytes s) = s"
proof -
  have "char_of (unat (word_of_nat (of_char c) :: byte)) = c" for c
  proof -
    have "of_char c < (256 :: nat)" by simp
    then have "unat (word_of_nat (of_char c) :: byte) = of_char c" by (simp add: unat_of_nat)
    then show ?thesis by simp
  qed
  then show ?thesis by (simp add: bytes_string_def string_bytes_def o_def)
qed

lemma string_bytes_bytes [simp]: "string_bytes (bytes_string bs) = bs"
proof -
  have "word_of_nat (of_char (char_of (unat b) :: char)) = b" for b :: byte
  proof -
    have "unat b < 256" by (rule unat_byte)
    then have "of_char (char_of (unat b) :: char) = unat b" by (simp add: of_char_of)
    then show ?thesis by simp
  qed
  then show ?thesis by (simp add: bytes_string_def string_bytes_def o_def)
qed


section \<open>\<open>resize\<close> and \<open>memcpy\<close>\<close>

text \<open>
  \<open>resize(n)\<close> keeps a prefix or pads with zero and throws \<open>length_error\<close> past \<open>max_size\<close>.
  \<open>memcpy\<close> is undefined as soon as one byte of either range lies outside the vector.
\<close>

definition vec_resize :: "nat \<Rightarrow> byte list \<Rightarrow> byte list result" where
  "vec_resize n xs =
     (if 9223372036854775808 \<le> n then Inl (Exception ''length_error'')
      else Inr (take n xs @ replicate (n - length xs) 0))"

definition memcpy_in :: "byte list \<Rightarrow> int \<Rightarrow> byte list \<Rightarrow> byte list result" where
  "memcpy_in dst off src =
     (if 0 \<le> off \<and> off + int (length src) \<le> int (length dst)
      then Inr (take (nat off) dst @ src @ drop (nat off + length src) dst)
      else Inl (Undefined OutOfBounds))"

definition memcpy_out :: "byte list \<Rightarrow> int \<Rightarrow> nat \<Rightarrow> byte list result" where
  "memcpy_out src off n =
     (if 0 \<le> off \<and> off + int n \<le> int (length src) then Inr (take n (drop (nat off) src))
      else Inl (Undefined OutOfBounds))"

lemma vec_resize_grow: "length xs + k < 9223372036854775808 \<Longrightarrow>
    vec_resize (length xs + k) xs = Inr (xs @ replicate k 0)"
  by (simp add: vec_resize_def)

lemma vec_resize_prefix: "length xs < 9223372036854775808 \<Longrightarrow> vec_resize (length xs) (xs @ ys) = Inr xs"
  by (simp add: vec_resize_def)

lemma memcpy_in_tail: "length bs \<le> length zs \<Longrightarrow>
    memcpy_in (xs @ zs) (int (length xs)) bs = Inr (xs @ bs @ drop (length bs) zs)"
  by (simp add: memcpy_in_def)

lemma memcpy_out_tail: "n = length ys \<Longrightarrow> off = int (length xs) \<Longrightarrow> memcpy_out (xs @ ys @ zs) off n = Inr ys"
  by (simp add: memcpy_out_def)

lemma memcpy_out_length: "memcpy_out src off n = Inr bs \<Longrightarrow> length bs = n"
  by (auto simp: memcpy_out_def split: if_splits)


section \<open>The operators\<close>

text \<open>The templates for standard-layout types, on the object representation.\<close>

definition push_pod :: "byte list \<Rightarrow> writer" where
  "push_pod data msg =
     (let i = length msg in
      bindR (vec_resize (i + length data) msg) (\<lambda>msg.
      memcpy_in msg (int i) data))"

definition pop_pod :: "nat \<Rightarrow> ('w, byte list) reader" where
  "pop_pod n = (\<lambda>(msg, w).
     let i = int (length msg) - int n in
      bindR (memcpy_out msg i n) (\<lambda>data.
      bindR (vec_resize (size_of_int i) msg) (\<lambda>msg.
      Inr (data, (msg, w)))))"

text \<open>\<open>std::string\<close>: the characters, then their number as an \<open>int\<close>.\<close>

definition push_string :: "string \<Rightarrow> writer" where
  "push_string data msg =
     (let start = int_of_size (length msg);
          nameSize = int_of_size (length data) in
      bindR (checked_int (start + nameSize)) (\<lambda>sum.
      bindR (vec_resize ((size_of_int sum + 4) mod 18446744073709551616) msg) (\<lambda>msg.
      bindR (memcpy_out (string_bytes data) 0 (size_of_int nameSize)) (\<lambda>src.
      bindR (memcpy_in msg start src) (\<lambda>msg.
      memcpy_in msg (start + nameSize) (int_bytes nameSize))))))"

definition pop_string :: "('w, string) reader" where
  "pop_string = (\<lambda>(msg, w).
     let ende = int_of_size (length msg) in
      bindR (memcpy_out msg (ende - 4) 4) (\<lambda>sz.
      let nameSize = bytes_int sz in
      bindR (vec_resize (size_of_int nameSize) []) (\<lambda>_.
      bindR (memcpy_out msg (ende - 4 - nameSize) (size_of_int nameSize)) (\<lambda>data.
      bindR (vec_resize (size_of_int (ende - 4 - nameSize)) msg) (\<lambda>msg.
      Inr (bytes_string data, (msg, w)))))))"

text \<open>\<open>const char*\<close>: the same layout, the length is \<open>strlen\<close>.\<close>

definition c_strlen :: "string \<Rightarrow> nat" where
  "c_strlen s = length (takeWhile (\<lambda>c. c \<noteq> CHR 0x00) s)"

definition push_cstr :: "string \<Rightarrow> writer" where
  "push_cstr data msg =
     (let start = int_of_size (length msg);
          nameSize = int_of_size (c_strlen data) in
      bindR (checked_int (start + nameSize)) (\<lambda>sum.
      bindR (vec_resize ((size_of_int sum + 4) mod 18446744073709551616) msg) (\<lambda>msg.
      bindR (memcpy_out (string_bytes data) 0 (size_of_int nameSize)) (\<lambda>src.
      bindR (memcpy_in msg start src) (\<lambda>msg.
      memcpy_in msg (start + nameSize) (int_bytes nameSize))))))"

text \<open>A nested \<open>SerializedObject\<close>: its bytes, then their number as a \<open>size_t\<close>.\<close>

definition push_object :: "serialized_object \<Rightarrow> writer" where
  "push_object data msg =
     (let start = length msg; bodySize = length data in
      bindR (vec_resize (start + bodySize + 8) msg) (\<lambda>msg.
      bindR (memcpy_in msg (int start) data) (\<lambda>msg.
      memcpy_in msg (int start + int bodySize) (size_bytes bodySize))))"

definition pop_object :: "('w, serialized_object) reader" where
  "pop_object = (\<lambda>(msg, w).
     let ende = int (length msg) in
      bindR (memcpy_out msg (ende - 8) 8) (\<lambda>sz.
      let bodySize = bytes_size sz in
      bindR (vec_resize bodySize []) (\<lambda>_.
      bindR (memcpy_out msg (ende - 8 - int bodySize) bodySize) (\<lambda>data.
      bindR (vec_resize (size_of_int (ende - 8 - int bodySize)) msg) (\<lambda>msg.
      Inr (data, (msg, w)))))))"

end
