(* ===== verification/Codec.thy ===== *)
theory Codec
  imports Serializer
begin

text \<open>
  What the operators of \<open>SerializedObject\<close> promise. \<open>appends w bs\<close>: the writer adds exactly
  \<open>bs\<close> at the end of any buffer that stays below \<open>2 ^ 31\<close> bytes (the range in which the
  \<open>int\<close> offsets of the string operators are exact). \<open>reads r bs x e\<close>: on any buffer that ends
  in \<open>bs\<close> the reader returns \<open>x\<close>, removes exactly \<open>bs\<close> and has the side effect \<open>e\<close>.
  The locale \<open>codec\<close> is the contract of a \<open>serialize\<close>/\<open>set\<close> pair.
\<close>

definition appends :: "writer \<Rightarrow> byte list \<Rightarrow> bool" where
  "appends w bs \<longleftrightarrow> (\<forall>b. length b + length bs < 2147483648 \<longrightarrow> w b = Inr (b @ bs))"

definition reads :: "('w, 'a) reader \<Rightarrow> byte list \<Rightarrow> 'a \<Rightarrow> ('w \<Rightarrow> 'w) \<Rightarrow> bool" where
  "reads r bs x e \<longleftrightarrow>
     (\<forall>b w. length b + length bs < 2147483648 \<longrightarrow> r (b @ bs, w) = Inr (x, (b, e w)))"

named_theorems appends_intros \<open>what the writers append\<close>
named_theorems reads_intros \<open>what the readers read back\<close>

lemma appendsD: "appends w bs \<Longrightarrow> length b + length bs < 2147483648 \<Longrightarrow> w b = Inr (b @ bs)"
  by (simp add: appends_def)

lemma readsD: "reads r bs x e \<Longrightarrow> length b + length bs < 2147483648 \<Longrightarrow> r (b @ bs, w) = Inr (x, (b, e w))"
  by (simp add: reads_def)


section \<open>Sequences of operators\<close>

text \<open>\<open>msg << a << b\<close> and the statements of a \<open>serialize\<close> body.\<close>

definition write_all :: "writer list \<Rightarrow> writer" where
  "write_all ws = foldR (\<lambda>w b. w b) ws"

definition retP :: "'a \<Rightarrow> ('w, 'a) reader" where
  "retP x = (\<lambda>s. Inr (x, s))"

definition bindP :: "('w, 'a) reader \<Rightarrow> ('a \<Rightarrow> ('w, 'b) reader) \<Rightarrow> ('w, 'b) reader" where
  "bindP r f = (\<lambda>s. bindR (r s) (\<lambda>(x, s'). f x s'))"

fun times_read :: "nat \<Rightarrow> ('w, 'a) reader \<Rightarrow> ('w, 'a list) reader" where
  "times_read 0 r = retP []"
| "times_read (Suc n) r = bindP r (\<lambda>x. bindP (times_read n r) (\<lambda>xs. retP (x # xs)))"

lemma write_all_Nil [simp]: "write_all [] b = Inr b"
  by (simp add: write_all_def)

lemma write_all_Cons [simp]: "write_all (w # ws) b = bindR (w b) (write_all ws)"
  by (simp add: write_all_def)

lemma appends_Nil [appends_intros]: "appends (write_all []) []"
  by (simp add: appends_def)

lemma appends_Cons [appends_intros]:
  "appends w bs \<Longrightarrow> appends (write_all ws) cs \<Longrightarrow> appends (write_all (w # ws)) (bs @ cs)"
  by (auto simp: appends_def)

lemma appends_write_all_map:
  "(\<And>x. x \<in> set xs \<Longrightarrow> appends (f x) (g x)) \<Longrightarrow>
     appends (write_all (map f xs)) (concat (map g xs))"
  by (induction xs) (auto intro: appends_intros)

lemma appends_write_all_append:
  assumes "appends (write_all ws) bs" and "appends (write_all vs) cs"
  shows "appends (write_all (ws @ vs)) (bs @ cs)"
  using assms by (auto simp: appends_def write_all_def foldR_append)

lemma reads_ret [reads_intros]: "reads (retP x) [] x (\<lambda>w. w)"
  by (simp add: reads_def retP_def)

lemma reads_bind [reads_intros]:
  "reads r bs x e \<Longrightarrow> reads (f x) cs y e' \<Longrightarrow> reads (bindP r f) (cs @ bs) y (\<lambda>w. e' (e w))"
proof -
  assume r: "reads r bs x e" and f: "reads (f x) cs y e'"
  show ?thesis
    unfolding reads_def bindP_def
  proof (intro allI impI)
    fix b :: "byte list" and w :: 'a
    assume l: "length b + length (cs @ bs) < 2147483648"
    have "r ((b @ cs) @ bs, w) = Inr (x, (b @ cs, e w))"
      by (rule readsD[OF r]) (use l in simp)
    moreover have "f x (b @ cs, e w) = Inr (y, (b, e' (e w)))"
      by (rule readsD[OF f]) (use l in simp)
    ultimately show "bindR (r (b @ cs @ bs, w)) (\<lambda>(x, s'). f x s') = Inr (y, b, e' (e w))"
      by simp
  qed
qed

text \<open>Reading with an equation for the bytes and the effect, for use as a rule.\<close>

lemma reads_eq: "reads r bs x e \<Longrightarrow> bs = bs' \<Longrightarrow> x = x' \<Longrightarrow> e = e' \<Longrightarrow> reads r bs' x' e'"
  by simp

lemma appends_eq: "appends w bs \<Longrightarrow> bs = bs' \<Longrightarrow> appends w bs'"
  by simp


section \<open>The primitive operators\<close>

lemma appends_pod [appends_intros]: "appends (push_pod bs) bs"
  unfolding appends_def
proof (intro allI impI)
  fix b :: "byte list"
  assume "length b + length bs < 2147483648"
  then have "vec_resize (length b + length bs) b = Inr (b @ replicate (length bs) 0)"
    by (intro vec_resize_grow) simp
  then show "push_pod bs b = Inr (b @ bs)"
    by (simp add: push_pod_def memcpy_in_tail)
qed

lemma reads_pod [reads_intros]: "n = length bs \<Longrightarrow> reads (pop_pod n) bs bs (\<lambda>w. w)"
  unfolding reads_def
proof (intro allI impI)
  fix b :: "byte list" and w :: 'a
  assume n: "n = length bs" and l: "length b + length bs < 2147483648"
  have "int_ok (int (length b))" by (rule int_ok_of_nat) (use l in simp)
  then have "size_of_int (int (length b)) = length b" by simp
  then show "pop_pod n (b @ bs, w) = Inr (bs, b, w)"
    using n l memcpy_out_tail[of n bs "int (length b)" b "[]"]
    by (simp add: pop_pod_def vec_resize_prefix)
qed

lemma push_string_layout:
  assumes "length b + (length s + 4) < 2147483648"
  shows "push_string s b = Inr (b @ string_bytes s @ int_bytes (int (length s)))"
proof -
  have sum: "int_ok (int (length b) + int (length s))"
    using assms by (simp add: int_ok_def)
  have sz: "(size_of_int (int (length b) + int (length s)) + 4) mod 18446744073709551616
              = length b + (length s + 4)"
    using assms sum by (simp add: nat_add_distrib)
  have ns: "size_of_int (int (length s)) = length s"
    using assms by (simp add: int_ok_def)
  have rs: "vec_resize (length b + (length s + 4)) b = Inr (b @ replicate (length s + 4) 0)"
    by (rule vec_resize_grow) (use assms in simp)
  have src: "memcpy_out (string_bytes s) 0 (length s) = Inr (string_bytes s)"
    using memcpy_out_tail[of "length s" "string_bytes s" 0 "[]" "[]"] by simp
  have m1: "memcpy_in (b @ replicate (length s + 4) 0) (int (length b)) (string_bytes s)
              = Inr (b @ string_bytes s @ replicate 4 0)"
    by (subst memcpy_in_tail) simp_all
  have m2: "memcpy_in (b @ string_bytes s @ replicate 4 0) (int (length b) + int (length s))
              (int_bytes (int (length s)))
            = Inr (b @ string_bytes s @ int_bytes (int (length s)))"
    using memcpy_in_tail[of "int_bytes (int (length s))" "replicate 4 0" "b @ string_bytes s"]
    by simp
  have lb: "int_of_size (length b) = int (length b)" and ls: "int_of_size (length s) = int (length s)"
    using assms by simp_all
  show ?thesis
    by (simp only: push_string_def Let_def lb ls checked_int_ok[OF sum] bindR_Inr sz ns rs src m1 m2)
qed

lemma appends_string [appends_intros]:
  "appends (push_string s) (string_bytes s @ int_bytes (int (length s)))"
  using push_string_layout by (auto simp: appends_def)

lemma c_strlen_NoNul: "CHR 0x00 \<notin> set s \<Longrightarrow> c_strlen s = length s"
proof -
  assume "CHR 0x00 \<notin> set s"
  then have "takeWhile (\<lambda>c. c \<noteq> CHR 0x00) s = s" by (auto simp: takeWhile_eq_all_conv)
  then show ?thesis by (simp only: c_strlen_def)
qed

lemma push_cstr_string: "CHR 0x00 \<notin> set s \<Longrightarrow> push_cstr s = push_string s"
  by (rule ext) (simp add: push_cstr_def push_string_def c_strlen_NoNul)

lemma appends_cstr [appends_intros]:
  "CHR 0x00 \<notin> set s \<Longrightarrow> appends (push_cstr s) (string_bytes s @ int_bytes (int (length s)))"
  by (simp add: push_cstr_string appends_string)

lemma pop_string_layout:
  assumes "length b + (length s + 4) < 2147483648"
  shows "pop_string (b @ string_bytes s @ int_bytes (int (length s)), w) = Inr (s, (b, w))"
proof -
  let ?m = "b @ string_bytes s @ int_bytes (int (length s))"
  have lm: "int_of_size (length ?m) = int (length b) + int (length s) + 4"
    using assms by simp
  have ok: "int_ok (int (length s))" and okb: "int_ok (int (length b))"
    using assms by (simp_all add: int_ok_def)
  have sz: "memcpy_out ?m (int (length b) + int (length s)) 4 = Inr (int_bytes (int (length s)))"
    using memcpy_out_tail[of 4 "int_bytes (int (length s))" "int (length (b @ string_bytes s))"
        "b @ string_bytes s" "[]"] by simp
  have data: "memcpy_out ?m (int (length b)) (length s) = Inr (string_bytes s)"
    by (rule memcpy_out_tail) simp_all
  have r0: "vec_resize (length s) [] = Inr (replicate (length s) 0)"
    using assms by (simp add: vec_resize_def)
  have rs: "vec_resize (length b) ?m = Inr b"
    by (rule vec_resize_prefix) (use assms in simp)
  show ?thesis
    unfolding pop_string_def Let_def prod.case lm
    by (simp add: sz ok okb r0 data rs)
qed

lemma reads_string [reads_intros]:
  "reads pop_string (string_bytes s @ int_bytes (int (length s))) s (\<lambda>w. w)"
  using pop_string_layout by (auto simp: reads_def)

lemma appends_object: "appends (push_object d) (d @ size_bytes (length d))"
  unfolding appends_def
proof (intro allI impI)
  fix b :: "byte list"
  assume l: "length b + length (d @ size_bytes (length d)) < 2147483648"
  have rs: "vec_resize (length b + length d + 8) b = Inr (b @ replicate (length d + 8) 0)"
    using vec_resize_grow[of b "length d + 8"] l by (simp add: add.assoc)
  have m1: "memcpy_in (b @ replicate (length d + 8) 0) (int (length b)) d = Inr (b @ d @ replicate 8 0)"
    by (subst memcpy_in_tail) simp_all
  have m2: "memcpy_in (b @ d @ replicate 8 0) (int (length b) + int (length d)) (size_bytes (length d))
              = Inr (b @ d @ size_bytes (length d))"
    using memcpy_in_tail[of "size_bytes (length d)" "replicate 8 0" "b @ d"] by simp
  show "push_object d b = Inr (b @ d @ size_bytes (length d))"
    by (simp add: push_object_def Let_def rs m1 m2)
qed

lemma reads_object: "reads pop_object (d @ size_bytes (length d)) d (\<lambda>w. w)"
  unfolding reads_def
proof (intro allI impI)
  fix b :: "byte list" and w :: 'a
  assume l: "length b + length (d @ size_bytes (length d)) < 2147483648"
  let ?m = "b @ d @ size_bytes (length d)"
  have okb: "int_ok (int (length b))" using l by (simp add: int_ok_def)
  have sz: "memcpy_out ?m (int (length b) + int (length d)) 8 = Inr (size_bytes (length d))"
    using memcpy_out_tail[of 8 "size_bytes (length d)" "int (length (b @ d))" "b @ d" "[]"] by simp
  have data: "memcpy_out ?m (int (length b)) (length d) = Inr d"
    by (rule memcpy_out_tail) simp_all
  have bs: "bytes_size (size_bytes (length d)) = length d"
    by (rule bytes_size_bytes) (use l in simp)
  have r0: "vec_resize (length d) [] = Inr (replicate (length d) 0)"
    using l by (simp add: vec_resize_def)
  have rs: "vec_resize (length b) ?m = Inr b"
    by (rule vec_resize_prefix) (use l in simp)
  show "pop_object (?m, w) = Inr (d, b, w)"
    by (simp add: pop_object_def Let_def sz bs r0 data okb rs)
qed


section \<open>The template operators at the types the repository uses\<close>

text \<open>\<open>float\<close> is carried as its 32-bit pattern; \<open>uint8_t\<close> is one byte.\<close>

type_synonym f32 = "32 word"

definition f32_bytes :: "f32 \<Rightarrow> byte list" where
  "f32_bytes x = le_nat 4 (unat x)"

definition bytes_f32 :: "byte list \<Rightarrow> f32" where
  "bytes_f32 bs = word_of_nat (nat_le bs)"

lemma length_f32_bytes [simp]: "length (f32_bytes x) = 4"
  by (simp add: f32_bytes_def)

lemma bytes_f32_bytes [simp]: "bytes_f32 (f32_bytes x) = x"
proof -
  have "unat x < 2 ^ LENGTH(32)" by (rule unsigned_less)
  then have "unat x mod 4294967296 = unat x" by simp
  then show ?thesis by (simp add: bytes_f32_def f32_bytes_def)
qed

abbreviation push_int :: "int \<Rightarrow> writer" where "push_int i \<equiv> push_pod (int_bytes i)"
abbreviation push_size :: "nat \<Rightarrow> writer" where "push_size n \<equiv> push_pod (size_bytes n)"
abbreviation push_byte :: "byte \<Rightarrow> writer" where "push_byte b \<equiv> push_pod [b]"
abbreviation push_bool :: "bool \<Rightarrow> writer" where "push_bool b \<equiv> push_pod (bool_bytes b)"
abbreviation push_f32 :: "f32 \<Rightarrow> writer" where "push_f32 x \<equiv> push_pod (f32_bytes x)"

definition pop_int :: "('w, int) reader" where
  "pop_int = bindP (pop_pod 4) (\<lambda>bs. retP (bytes_int bs))"

definition pop_size :: "('w, nat) reader" where
  "pop_size = bindP (pop_pod 8) (\<lambda>bs. retP (bytes_size bs))"

definition pop_byte :: "('w, byte) reader" where
  "pop_byte = bindP (pop_pod 1) (\<lambda>bs. retP (hd bs))"

definition pop_bool :: "('w, bool) reader" where
  "pop_bool = bindP (pop_pod 1) (\<lambda>bs s. bindR (bytes_bool bs) (\<lambda>b. Inr (b, s)))"

definition pop_f32 :: "('w, f32) reader" where
  "pop_f32 = bindP (pop_pod 4) (\<lambda>bs. retP (bytes_f32 bs))"

text \<open>A reader that decodes the bytes a template operator returns.\<close>

lemma reads_decode:
  assumes "n = length bs" and "f bs = x"
  shows "reads (bindP (pop_pod n) (\<lambda>bs. retP (f bs))) bs x (\<lambda>w. w)"
  using reads_bind[where f = "\<lambda>bs. retP (f bs)", OF reads_pod[OF assms(1)] reads_ret] assms(2)
  by simp

lemma reads_int [reads_intros]: "int_ok i \<Longrightarrow> reads pop_int (int_bytes i) i (\<lambda>w. w)"
  unfolding pop_int_def by (rule reads_decode) simp_all

lemma reads_size [reads_intros]:
  "n < 18446744073709551616 \<Longrightarrow> reads pop_size (size_bytes n) n (\<lambda>w. w)"
  unfolding pop_size_def by (rule reads_decode) simp_all

lemma reads_byte [reads_intros]: "reads pop_byte [b] b (\<lambda>w. w)"
  unfolding pop_byte_def by (rule reads_decode) simp_all

lemma reads_f32 [reads_intros]: "reads pop_f32 (f32_bytes x) x (\<lambda>w. w)"
  unfolding pop_f32_def by (rule reads_decode) simp_all

lemma reads_bool [reads_intros]: "reads pop_bool (bool_bytes b) b (\<lambda>w. w)"
proof -
  have "reads (\<lambda>s. bindR (bytes_bool (bool_bytes b)) (\<lambda>x. Inr (x, s))) [] b (\<lambda>w. w)"
    by (simp add: reads_def)
  from reads_bind[where f = "\<lambda>bs s. bindR (bytes_bool bs) (\<lambda>b. Inr (b, s))", OF reads_pod[of 1 "bool_bytes b"] this]
  show ?thesis by (simp add: pop_bool_def)
qed


section \<open>The contract, and the counted loops that keep it\<close>

text \<open>
  \<open>wr\<close> and \<open>rd\<close> are the two directions, \<open>enc\<close> the layout, \<open>img\<close> what is read back (members that
  are not serialised are lost), \<open>eff\<close> the side effect of reading, \<open>ok\<close> the values in range.
\<close>

locale codec =
  fixes wr :: "'a \<Rightarrow> writer"
    and rd :: "('w, 'b) reader"
    and enc :: "'a \<Rightarrow> byte list"
    and img :: "'a \<Rightarrow> 'b"
    and eff :: "'a \<Rightarrow> 'w \<Rightarrow> 'w"
    and ok :: "'a \<Rightarrow> bool"
  assumes wr_appends: "ok x \<Longrightarrow> appends (wr x) (enc x)"
    and rd_back: "ok x \<Longrightarrow> reads rd (enc x) (img x) (eff x)"

text \<open>
  The loops of the sources: the elements are pushed from the last to the first, then the count
  as an \<open>int\<close>; reading pops the count and then the elements in their original order.
\<close>

definition write_rev :: "('a \<Rightarrow> writer) \<Rightarrow> 'a list \<Rightarrow> writer" where
  "write_rev f xs = write_all (map f (rev (take (nat (int_of_size (length xs))) xs)))"

definition write_vec :: "('a \<Rightarrow> writer) \<Rightarrow> 'a list \<Rightarrow> writer" where
  "write_vec f xs = write_all [write_rev f xs, push_int (int_of_size (length xs))]"

definition read_vec :: "('w, 'a) reader \<Rightarrow> ('w, 'a list) reader" where
  "read_vec r = bindP pop_int (\<lambda>size. times_read (nat size) r)"

definition enc_vec :: "('a \<Rightarrow> byte list) \<Rightarrow> 'a list \<Rightarrow> byte list" where
  "enc_vec e xs = concat (map e (rev xs)) @ int_bytes (int (length xs))"

definition eff_vec :: "('a \<Rightarrow> 'w \<Rightarrow> 'w) \<Rightarrow> 'a list \<Rightarrow> 'w \<Rightarrow> 'w" where
  "eff_vec e xs = fold e xs"

definition ok_vec :: "('a \<Rightarrow> bool) \<Rightarrow> 'a list \<Rightarrow> bool" where
  "ok_vec p xs \<longleftrightarrow> list_all p xs \<and> length xs < 2147483648"

context codec
begin

lemma roundtrip:
  assumes "ok x" and "length b + length (enc x) < 2147483648"
  shows "bindR (wr x b) (\<lambda>b'. rd (b', w)) = Inr (img x, (b, eff x w))"
  using appendsD[OF wr_appends[OF assms(1)] assms(2)] readsD[OF rd_back[OF assms(1)] assms(2)]
  by simp

lemma times_read_back:
  "list_all ok xs \<Longrightarrow>
     reads (times_read (length xs) rd) (concat (map enc (rev xs))) (map img xs) (fold eff xs)"
proof (induction xs)
  case Nil
  then show ?case using reads_ret[of "[]"] by (simp add: id_def)
next
  case (Cons x xs)
  have "reads (times_read (length xs) rd) (concat (map enc (rev xs))) (map img xs) (fold eff xs)"
    using Cons by simp
  from reads_bind[OF this reads_ret]
  have "reads (bindP (times_read (length xs) rd) (\<lambda>ys. retP (img x # ys)))
          (concat (map enc (rev xs))) (map img (x # xs)) (fold eff xs)"
    by simp
  then have "reads (bindP rd (\<lambda>y. bindP (times_read (length xs) rd) (\<lambda>ys. retP (y # ys))))
      (concat (map enc (rev xs)) @ enc x) (map img (x # xs)) (\<lambda>w. fold eff xs (eff x w))"
    by (rule reads_bind[OF rd_back, rotated]) (use Cons.prems in simp)
  moreover have "fold eff (x # xs) = (\<lambda>w. fold eff xs (eff x w))" by (simp add: fun_eq_iff)
  ultimately show ?case by simp
qed

lemma write_rev_appends:
  assumes "list_all ok xs" and "length xs < 2147483648"
  shows "appends (write_rev wr xs) (concat (map enc (rev xs)))"
proof -
  have "appends (write_all (map wr (rev xs))) (concat (map enc (rev xs)))"
    by (rule appends_write_all_map) (use assms(1) in \<open>auto simp: list_all_iff intro: wr_appends\<close>)
  then show ?thesis using assms(2) by (simp add: write_rev_def)
qed

lemma vec_codec: "codec (write_vec wr) (read_vec rd) (enc_vec enc) (map img) (eff_vec eff) (ok_vec ok)"
proof
  fix xs
  assume ok: "ok_vec ok xs"
  then have xs: "list_all ok xs" and l: "length xs < 2147483648"
    by (simp_all add: ok_vec_def)
  show "appends (write_vec wr xs) (enc_vec enc xs)"
    using appends_Cons[OF write_rev_appends[OF xs l] appends_Cons[OF appends_pod appends_Nil]] l
    by (simp add: write_vec_def enc_vec_def)
  have i: "reads pop_int (int_bytes (int (length xs))) (int (length xs)) (\<lambda>w. w)"
    by (rule reads_int) (rule int_ok_of_nat[OF l])
  have t: "reads (times_read (nat (int (length xs))) rd) (concat (map enc (rev xs)))
             (map img xs) (fold eff xs)"
    using times_read_back[OF xs] by simp
  show "reads (read_vec rd) (enc_vec enc xs) (map img xs) (eff_vec eff xs)"
    using reads_bind[where f = "\<lambda>size. times_read (nat size) rd", OF i t]
    by (simp add: read_vec_def enc_vec_def eff_vec_def)
qed

end

interpretation int_codec: codec push_int pop_int int_bytes id "\<lambda>_ w. w" int_ok
  by unfold_locales (auto intro: appends_intros reads_intros)

interpretation byte_codec: codec push_byte pop_byte "\<lambda>b. [b]" id "\<lambda>_ w. w" "\<lambda>_. True"
  by unfold_locales (auto intro: appends_intros reads_intros)

interpretation size_codec: codec push_size pop_size size_bytes id "\<lambda>_ w. w" "\<lambda>n. n < 18446744073709551616"
  by unfold_locales (auto intro: appends_intros reads_intros)

interpretation bool_codec: codec push_bool pop_bool bool_bytes id "\<lambda>_ w. w" "\<lambda>_. True"
  by unfold_locales (auto intro: appends_intros reads_intros)

interpretation f32_codec: codec push_f32 pop_f32 f32_bytes id "\<lambda>_ w. w" "\<lambda>_. True"
  by unfold_locales (auto intro: appends_intros reads_intros)

definition enc_string :: "string \<Rightarrow> byte list" where
  "enc_string s = string_bytes s @ int_bytes (int (length s))"

interpretation string_codec: codec push_string pop_string enc_string id "\<lambda>_ w. w" "\<lambda>_. True"
  by unfold_locales (auto simp: enc_string_def intro: appends_intros reads_intros)

interpretation object_codec: codec push_object pop_object "\<lambda>d. d @ size_bytes (length d)" id "\<lambda>_ w. w" "\<lambda>_. True"
  by unfold_locales (auto intro: appends_object reads_object)

interpretation int_vec: codec "write_vec push_int" "read_vec pop_int" "enc_vec int_bytes"
    "map id" "eff_vec (\<lambda>_ w. w)" "ok_vec int_ok"
  by (rule int_codec.vec_codec)

lemma eff_vec_id [simp]: "eff_vec (\<lambda>_ w. w) xs = (\<lambda>w. w)"
  by (induction xs) (simp_all add: eff_vec_def fun_eq_iff)

lemma length_enc_string [simp]: "length (enc_string s) = length s + 4"
  by (simp add: enc_string_def)



section \<open>Properties\<close>

text \<open>
  C14. Every pair of stream operators is a stack: on a buffer with room below \<open>2 ^ 31\<close> bytes, what
  \<open><<\<close> has appended \<open>>>\<close> returns and removes, leaving the buffer as it was. This holds for \<open>int\<close>,
  \<open>size_t\<close>, bytes, \<open>bool\<close>, \<open>float\<close> bit patterns, strings with any characters and nested objects.
\<close>

theorem operators_are_a_stack:
  assumes "length b + 8 < 2147483648" and "length b + (length s + 4) < 2147483648"
    and "length b + (length d + 8) < 2147483648" and "int_ok i" and "n < 18446744073709551616"
  shows "bindR (push_int i b) (\<lambda>m. pop_int (m, w)) = Inr (i, (b, w)) \<and>
    bindR (push_size n b) (\<lambda>m. pop_size (m, w)) = Inr (n, (b, w)) \<and>
    bindR (push_byte y b) (\<lambda>m. pop_byte (m, w)) = Inr (y, (b, w)) \<and>
    bindR (push_bool t b) (\<lambda>m. pop_bool (m, w)) = Inr (t, (b, w)) \<and>
    bindR (push_f32 x b) (\<lambda>m. pop_f32 (m, w)) = Inr (x, (b, w)) \<and>
    bindR (push_string s b) (\<lambda>m. pop_string (m, w)) = Inr (s, (b, w)) \<and>
    bindR (push_object d b) (\<lambda>m. pop_object (m, w)) = Inr (d, (b, w))"
  using int_codec.roundtrip[where x = i and b = b and w = w] size_codec.roundtrip[where x = n and b = b and w = w]
    byte_codec.roundtrip[where x = y and b = b and w = w] bool_codec.roundtrip[where x = t and b = b and w = w]
    f32_codec.roundtrip[where x = x and b = b and w = w] string_codec.roundtrip[where x = s and b = b and w = w]
    object_codec.roundtrip[where x = d and b = b and w = w] assms
  by simp

theorem operators_are_a_stack_witness:
  "bindR (push_string ''Entry'' [7]) (\<lambda>m. pop_string (m, ())) = Inr (''Entry'', ([7], ())) \<and>
   bindR (push_int (- 2) [7]) (\<lambda>m. pop_int (m, ())) = Inr (- 2, ([7], ()))"
  using operators_are_a_stack[where b = "[7]" and s = "''Entry''" and d = "[]" and i = "- 2" and n = 0 and w = "()"]
  by (simp add: int_ok_def)

text \<open>
  No operator checks that the value is there: reading more bytes than the buffer holds copies from
  in front of it.
\<close>

theorem read_past_start_undefined:
  assumes "length b < n"
  shows "pop_pod n (b, w) = Inl (Undefined OutOfBounds)"
  using assms by (simp add: pop_pod_def memcpy_out_def Let_def)

theorem read_past_start_undefined_witness: "pop_pod 4 ([1, 2], ()) = Inl (Undefined OutOfBounds)"
  by (rule read_past_start_undefined) simp


end
