(* ===== verification/Float32.thy ===== *)
theory Float32
  imports Codec
begin

text \<open>
  The \<open>float\<close> of the x64 build: IEEE 754 single precision on the 32-bit pattern, rounded to nearest
  even, as the SSE instructions compute it. Every finite value is a whole number of steps of
  \<open>2 ^ -149\<close>, so values are integers here and rounding is integer division.
\<close>

section \<open>Decoding\<close>

definition f32_sign :: "f32 \<Rightarrow> bool" where
  "f32_sign x = (2147483648 \<le> unat x)"

text \<open>The pattern without its sign: exponent and fraction.\<close>

definition f32_mag :: "f32 \<Rightarrow> nat" where
  "f32_mag x = unat x mod 2147483648"

definition f32_is_nan :: "f32 \<Rightarrow> bool" where
  "f32_is_nan x = (2139095040 < f32_mag x)"

definition f32_is_inf :: "f32 \<Rightarrow> bool" where
  "f32_is_inf x = (f32_mag x = 2139095040)"

text \<open>The steps of a magnitude pattern, and the signed steps of a finite value.\<close>

definition mag_steps :: "nat \<Rightarrow> nat" where
  "mag_steps b = (if b < 8388608 then b else (8388608 + b mod 8388608) * 2 ^ (b div 8388608 - 1))"

definition f32_steps :: "f32 \<Rightarrow> int" where
  "f32_steps x = (if f32_sign x then - int (mag_steps (f32_mag x)) else int (mag_steps (f32_mag x)))"


section \<open>Rounding\<close>

text \<open>\<open>round_div p q\<close> is \<open>p / q\<close> to the nearest whole number, ties to even.\<close>

definition round_div :: "nat \<Rightarrow> nat \<Rightarrow> nat" where
  "round_div p q =
     (let d = p div q; r = p mod q in
      if 2 * r < q then d else if q < 2 * r then Suc d else if even d then d else Suc d)"

fun floor_log2 :: "nat \<Rightarrow> nat" where
  "floor_log2 n = (if n < 2 then 0 else Suc (floor_log2 (n div 2)))"

declare floor_log2.simps [simp del]

text \<open>
  The pattern nearest to \<open>p / q\<close> steps. With \<open>k\<close> the binary exponent the significand has 24 bits; a
  significand that rounds up to \<open>2 ^ 24\<close> carries into the exponent by itself.
\<close>

definition round_mag :: "nat \<Rightarrow> nat \<Rightarrow> nat" where
  "round_mag p q =
     (let n = p div q; k = (if n < 16777216 then 0 else floor_log2 n - 23) in
      min 2139095040 (k * 8388608 + round_div p (q * 2 ^ k)))"

definition f32_make :: "bool \<Rightarrow> nat \<Rightarrow> f32" where
  "f32_make neg b = word_of_nat ((if neg then 2147483648 else 0) + b)"


section \<open>Arithmetic\<close>

text \<open>Invalid operations give the default NaN; a NaN operand is passed on, made quiet.\<close>

definition f32_default_nan :: f32 where
  "f32_default_nan = 4290772992"

definition f32_pass_nan :: "f32 \<Rightarrow> f32 \<Rightarrow> f32" where
  "f32_pass_nan a b = or (if f32_is_nan a then a else b) 4194304"

definition f32_neg :: "f32 \<Rightarrow> f32" where
  "f32_neg a = xor a 2147483648"

definition f32_add :: "f32 \<Rightarrow> f32 \<Rightarrow> f32" where
  "f32_add a b =
     (if f32_is_nan a \<or> f32_is_nan b then f32_pass_nan a b
      else if f32_is_inf a then (if f32_is_inf b \<and> f32_sign a \<noteq> f32_sign b then f32_default_nan else a)
      else if f32_is_inf b then b
      else let s = f32_steps a + f32_steps b in
        if s = 0 then f32_make (f32_sign a \<and> f32_sign b) 0
        else f32_make (s < 0) (round_mag (nat \<bar>s\<bar>) 1))"

definition f32_sub :: "f32 \<Rightarrow> f32 \<Rightarrow> f32" where
  "f32_sub a b = (if f32_is_nan a \<or> f32_is_nan b then f32_pass_nan a b else f32_add a (f32_neg b))"

definition f32_mul :: "f32 \<Rightarrow> f32 \<Rightarrow> f32" where
  "f32_mul a b =
     (let neg = (f32_sign a \<noteq> f32_sign b) in
      if f32_is_nan a \<or> f32_is_nan b then f32_pass_nan a b
      else if f32_is_inf a \<or> f32_is_inf b
        then (if f32_mag a = 0 \<or> f32_mag b = 0 then f32_default_nan else f32_make neg 2139095040)
      else f32_make neg (round_mag (mag_steps (f32_mag a) * mag_steps (f32_mag b)) (2 ^ 149)))"

definition f32_div :: "f32 \<Rightarrow> f32 \<Rightarrow> f32" where
  "f32_div a b =
     (let neg = (f32_sign a \<noteq> f32_sign b) in
      if f32_is_nan a \<or> f32_is_nan b then f32_pass_nan a b
      else if f32_is_inf a then (if f32_is_inf b then f32_default_nan else f32_make neg 2139095040)
      else if f32_is_inf b then f32_make neg 0
      else if f32_mag b = 0 then (if f32_mag a = 0 then f32_default_nan else f32_make neg 2139095040)
      else f32_make neg (round_mag (mag_steps (f32_mag a) * 2 ^ 149) (mag_steps (f32_mag b))))"

text \<open>Comparison: a NaN is unordered, the zeros are equal.\<close>

definition f32_order :: "f32 \<Rightarrow> int" where
  "f32_order x = (if f32_sign x then - int (f32_mag x) else int (f32_mag x))"

definition f32_lt :: "f32 \<Rightarrow> f32 \<Rightarrow> bool" where
  "f32_lt a b = (\<not> f32_is_nan a \<and> \<not> f32_is_nan b \<and> f32_order a < f32_order b)"

text \<open>Conversion of an integer, and the constants of the sources.\<close>

definition f32_of_int :: "int \<Rightarrow> f32" where
  "f32_of_int i = f32_make (i < 0) (round_mag (nat \<bar>i\<bar> * 2 ^ 149) 1)"

definition f32_zero :: f32 where "f32_zero = 0"
definition f32_one :: f32 where "f32_one = 1065353216"
definition f32_half :: f32 where "f32_half = 1056964608"
definition f32_two :: f32 where "f32_two = 1073741824"


section \<open>Exact results\<close>

lemma floor_log2_eq: "2 ^ j \<le> n \<Longrightarrow> n < 2 ^ Suc j \<Longrightarrow> floor_log2 n = j"
proof (induction j arbitrary: n)
  case 0
  then show ?case by (simp add: floor_log2.simps[of n])
next
  case (Suc j)
  have "2 \<le> n" using Suc.prems(1) by (simp add: order_trans[rotated])
  moreover have "floor_log2 (n div 2) = j"
    by (rule Suc.IH) (use Suc.prems in \<open>simp_all add: less_mult_imp_div_less\<close>)
  ultimately show ?case by (simp add: floor_log2.simps[of n])
qed

lemma round_div_exact [simp]: "0 < q \<Longrightarrow> round_div (m * q) q = m"
  by (simp add: round_div_def Let_def)

lemma round_mag_small: "p < 16777216 \<Longrightarrow> round_mag p 1 = p"
  using round_div_exact[of 1 p] by (simp add: round_mag_def Let_def)

lemma mag_steps_small: "p < 16777216 \<Longrightarrow> mag_steps p = p"
  by (auto simp: mag_steps_def mod_if)

lemma mag_steps_at:
  assumes "f < 8388608"
  shows "mag_steps (f + (e + 1) * 8388608) = (8388608 + f) * 2 ^ e"
proof -
  have d: "(f + (e + 1) * 8388608) div 8388608 = e + 1"
    using assms by (subst div_mult_self1) simp_all
  have m: "(f + (e + 1) * 8388608) mod 8388608 = f"
    using assms by (subst mod_mult_self1) simp_all
  have l: "\<not> f + (e + 1) * 8388608 < 8388608" by simp
  show ?thesis unfolding mag_steps_def d m using l by (simp only: if_False diff_add_inverse2)
qed

text \<open>A magnitude with a 24-bit significand is its own rounding.\<close>

lemma round_mag_exact:
  assumes "8388608 \<le> m" and "m < 16777216" and "k < 254"
  shows "round_mag (m * 2 ^ k) 1 = k * 8388608 + m" and "mag_steps (k * 8388608 + m) = m * 2 ^ k"
    and "k * 8388608 + m < 2139095040"
proof -
  show bound: "k * 8388608 + m < 2139095040" using assms by simp
  have pos: "(1 :: nat) \<le> 2 ^ k" by simp
  show "round_mag (m * 2 ^ k) 1 = k * 8388608 + m"
  proof (cases "m * 2 ^ k < 16777216")
    case True
    have "k = 0"
    proof (rule ccontr)
      assume "k \<noteq> 0"
      then have "(2 :: nat) ^ 1 \<le> 2 ^ k" by (intro power_increasing) simp_all
      with assms(1) have "8388608 * 2 \<le> m * 2 ^ k" by (intro mult_le_mono) simp_all
      with True show False by simp
    qed
    then show ?thesis using round_mag_small[of m] assms by simp
  next
    case False
    have "floor_log2 (m * 2 ^ k) = 23 + k"
    proof (rule floor_log2_eq)
      have "(8388608 :: nat) * 2 ^ k \<le> m * 2 ^ k" using assms(1) by (rule mult_le_mono1)
      then show "2 ^ (23 + k) \<le> m * 2 ^ k" by (simp add: power_add)
      have "m * 2 ^ k < 16777216 * 2 ^ k" using assms(2) by simp
      then show "m * 2 ^ k < 2 ^ Suc (23 + k)" by (simp add: power_add)
    qed
    then show ?thesis using False bound round_div_exact[of "2 ^ k" m]
      by (simp add: round_mag_def Let_def)
  qed
  obtain f where f: "m = 8388608 + f" "f < 8388608" using assms(1,2) le_Suc_ex by fastforce
  have "k * 8388608 + m = f + (k + 1) * 8388608" by (simp add: f algebra_simps)
  then show "mag_steps (k * 8388608 + m) = m * 2 ^ k"
    using f mag_steps_at[of f k] by (simp only:)
qed

lemma mag_steps_less_Suc: "mag_steps b < mag_steps (Suc b)"
proof (cases "Suc b < 16777216")
  case True
  then show ?thesis by (simp add: mag_steps_small)
next
  case False
  define e where "e = b div 8388608 - 1"
  define f where "f = b mod 8388608"
  have b: "b = f + (e + 1) * 8388608" and fl: "f < 8388608"
    using False by (simp_all add: e_def f_def)
  have s: "mag_steps b = (8388608 + f) * 2 ^ e" using mag_steps_at[OF fl] b by simp
  show ?thesis
  proof (cases "Suc f < 8388608")
    case True
    have "Suc b = Suc f + (e + 1) * 8388608" using b by simp
    then have "mag_steps (Suc b) = (8388608 + Suc f) * 2 ^ e" using mag_steps_at[OF True, of e] by (simp only:)
    then show ?thesis using s by simp
  next
    case False
    then have f: "f = 8388607" using fl by simp
    then have "Suc b = 0 + (Suc e + 1) * 8388608" using b by simp
    then have "mag_steps (Suc b) = (8388608 + 0) * 2 ^ Suc e" using mag_steps_at[of 0 "Suc e"] by (simp only:)
    then show ?thesis using s f by simp
  qed
qed

lemma mag_steps_mono: "strict_mono mag_steps"
  by (rule strict_mono_Suc_iff[THEN iffD2]) (simp add: mag_steps_less_Suc)

lemma mag_steps_0 [simp]: "mag_steps 0 = 0"
  by (simp add: mag_steps_def)


section \<open>Whole numbers\<close>

text \<open>Integers of at most 24 bits are represented exactly; sums and comparisons of them are exact.\<close>

definition int24 :: "int \<Rightarrow> bool" where
  "int24 i \<longleftrightarrow> - 16777216 < i \<and> i < 16777216"

lemma int_mag_exact:
  assumes "n < 16777216"
  shows "round_mag (n * 2 ^ 149) 1 < 2139095040 \<and> mag_steps (round_mag (n * 2 ^ 149) 1) = n * 2 ^ 149"
proof (cases "n = 0")
  case True
  then show ?thesis using round_mag_small[of 0] by simp
next
  case False
  define j where "j = floor_log2 n"
  have j: "2 ^ j \<le> n \<and> n < 2 ^ Suc j"
  proof -
    have "\<exists>i. 2 ^ i \<le> n \<and> n < 2 ^ Suc i" using False ex_power_ivl1[of 2 n] by auto
    then obtain i where "2 ^ i \<le> n \<and> n < 2 ^ Suc i" by blast
    moreover from this have "j = i" unfolding j_def by (intro floor_log2_eq) simp_all
    ultimately show ?thesis by simp
  qed
  have "(2 :: nat) ^ j < 2 ^ 24" using j assms by simp
  then have "j < 24" by (rule power_less_imp_less_exp[rotated]) simp
  then have j23: "j \<le> 23" by simp
  have m: "8388608 \<le> n * 2 ^ (23 - j)" "n * 2 ^ (23 - j) < 16777216"
  proof -
    have "2 ^ j * 2 ^ (23 - j) \<le> n * 2 ^ (23 - j)" using j by simp
    moreover have "(2 :: nat) ^ j * 2 ^ (23 - j) = 2 ^ 23" using j23 by (simp only: power_add[symmetric] le_add_diff_inverse)
    ultimately show "8388608 \<le> n * 2 ^ (23 - j)" by simp
    have "n * 2 ^ (23 - j) < 2 ^ Suc j * 2 ^ (23 - j)" using j by simp
    moreover have "(2 :: nat) ^ Suc j * 2 ^ (23 - j) = 2 ^ 24"
    proof -
      have "Suc j + (23 - j) = 24" using j23 by simp
      then show ?thesis by (simp only: power_add[symmetric])
    qed
    ultimately have "n * 2 ^ (23 - j) < 2 ^ 24" by (simp only:)
    then show "n * 2 ^ (23 - j) < 16777216" by simp
  qed
  have e: "n * 2 ^ 149 = n * 2 ^ (23 - j) * 2 ^ (126 + j)"
  proof -
    have "(2 :: nat) ^ 149 = 2 ^ (23 - j + (126 + j))" using j23 by simp
    then show ?thesis by (simp only: power_add mult.assoc)
  qed
  have "126 + j < 254" using j23 by simp
  note x = round_mag_exact[OF m this]
  show ?thesis unfolding e x(1) using x(2,3) by (rule conjI[rotated])
qed

lemma unat_f32_make: "b < 2147483648 \<Longrightarrow> unat (f32_make neg b) = (if neg then 2147483648 else 0) + b"
proof -
  assume "b < 2147483648"
  then have "(if neg then 2147483648 else 0) + b < 2 ^ LENGTH(32)" by simp
  then show ?thesis unfolding f32_make_def unat_of_nat by (rule mod_less)
qed

lemma f32_make_sign: "b < 2147483648 \<Longrightarrow> f32_sign (f32_make neg b) = neg"
  by (simp add: f32_sign_def unat_f32_make)

lemma f32_make_mag: "b < 2147483648 \<Longrightarrow> f32_mag (f32_make neg b) = b"
  by (simp add: f32_mag_def unat_f32_make)

lemma f32_of_int_int24:
  assumes "int24 i"
  shows "f32_steps (f32_of_int i) = i * 2 ^ 149" and "\<not> f32_is_nan (f32_of_int i)"
    and "\<not> f32_is_inf (f32_of_int i)" and "f32_sign (f32_of_int i) = (i < 0)"
proof -
  have n: "nat \<bar>i\<bar> < 16777216" using assms by (auto simp: int24_def)
  note e = int_mag_exact[OF n]
  have b: "round_mag (nat \<bar>i\<bar> * 2 ^ 149) 1 < 2147483648" by (rule less_trans[OF e[THEN conjunct1]]) simp
  show sg: "f32_sign (f32_of_int i) = (i < 0)"
    unfolding f32_of_int_def by (rule f32_make_sign[OF b])
  have mg: "f32_mag (f32_of_int i) = round_mag (nat \<bar>i\<bar> * 2 ^ 149) 1"
    unfolding f32_of_int_def by (rule f32_make_mag[OF b])
  show "\<not> f32_is_nan (f32_of_int i)" and "\<not> f32_is_inf (f32_of_int i)"
    using e unfolding f32_is_nan_def f32_is_inf_def mg by linarith+
  have "mag_steps (f32_mag (f32_of_int i)) = nat \<bar>i\<bar> * 2 ^ 149" unfolding mg using e by (rule conjunct2)
  then show "f32_steps (f32_of_int i) = i * 2 ^ 149"
    unfolding f32_steps_def sg by (simp add: nat_mult_distrib)
qed

lemma f32_add_of_int:
  assumes "int24 i" and "int24 j" and "int24 (i + j)"
  shows "f32_add (f32_of_int i) (f32_of_int j) = f32_of_int (i + j)"
proof -
  note ij = f32_of_int_int24[OF assms(1)] f32_of_int_int24[OF assms(2)]
  have z: "((i + j) * 2 ^ 149 = (0 :: int)) = (i + j = 0)" and l: "((i + j) * 2 ^ 149 < (0 :: int)) = (i + j < 0)"
    by (simp_all only: mult_eq_0_iff mult_less_0_iff) simp_all
  have a: "nat \<bar>(i + j) * 2 ^ 149\<bar> = nat \<bar>i + j\<bar> * 2 ^ 149"
    by (simp add: abs_mult nat_mult_distrib)
  show ?thesis
  proof (cases "i + j = 0")
    case True
    then have "\<not> (i < 0 \<and> j < 0)" by linarith
    moreover have "f32_of_int 0 = f32_make False 0" by (simp add: f32_of_int_def round_mag_small[of 0, simplified])
    ultimately show ?thesis using True by (simp only: f32_add_def mult_zero_left ij distrib_right[symmetric] z Let_def if_True if_False simp_thms)
  next
    case False
    then show ?thesis unfolding f32_of_int_def[of "i + j"]
      by (simp only: f32_add_def ij distrib_right[symmetric] z l a Let_def if_True if_False simp_thms)
  qed
qed

lemma f32_order_steps:
  assumes "\<not> f32_is_nan x" and "\<not> f32_is_nan y"
  shows "f32_lt x y \<longleftrightarrow> f32_steps x < f32_steps y"
proof -
  have m: "mag_steps a < mag_steps b \<longleftrightarrow> a < b" for a b
    using mag_steps_mono by (rule strict_mono_less)
  have z: "0 < mag_steps b \<longleftrightarrow> 0 < b" for b using m[of 0 b] by simp
  have n: "- int p < int q \<longleftrightarrow> 0 < p \<or> 0 < q" and f: "\<not> int p < - int q" for p q
    by arith+
  show ?thesis using assms
    by (cases "f32_sign x"; cases "f32_sign y")
      (simp_all only: f32_lt_def f32_order_def f32_steps_def if_True if_False m z n f neg_less_iff_less of_nat_less_iff simp_thms)
qed

lemma f32_lt_of_int:
  assumes "int24 i" and "int24 j"
  shows "f32_lt (f32_of_int i) (f32_of_int j) \<longleftrightarrow> i < j"
proof -
  have c: "i * 2 ^ 149 < j * 2 ^ 149 \<longleftrightarrow> i < j" by (rule mult_less_cancel_right_pos) simp
  show ?thesis
    using f32_order_steps[OF f32_of_int_int24(2)[OF assms(1)] f32_of_int_int24(2)[OF assms(2)]]
    unfolding f32_of_int_int24(1)[OF assms(1)] f32_of_int_int24(1)[OF assms(2)] c .
qed

lemma f32_of_int_inj: "int24 i \<Longrightarrow> int24 j \<Longrightarrow> f32_of_int i = f32_of_int j \<longleftrightarrow> i = j"
proof -
  assume i: "int24 i" and j: "int24 j"
  show "f32_of_int i = f32_of_int j \<longleftrightarrow> i = j"
  proof
    assume "f32_of_int i = f32_of_int j"
    then have "i * 2 ^ 149 = j * 2 ^ 149"
      using f32_of_int_int24(1)[OF i] f32_of_int_int24(1)[OF j] by (simp only:)
    then show "i = j" by (simp only: mult_cancel_right) simp
  qed simp
qed


section \<open>Running the operations on numerals\<close>

lemma floor_log2_run:
  "floor_log2 0 = 0" "floor_log2 1 = 0" "floor_log2 (Suc 0) = 0"
  "floor_log2 (numeral w) = (if (numeral w :: nat) < 2 then 0 else Suc (floor_log2 (numeral w div 2)))"
  by (simp_all add: floor_log2.simps)

lemmas f32_of_int_run = f32_of_int_def f32_make_def round_mag_def round_div_def floor_log2_run Let_def

lemmas f32_run = f32_make_def f32_is_nan_def f32_is_inf_def f32_sign_def f32_mag_def f32_steps_def
  round_mag_def round_div_def floor_log2_run mag_steps_def f32_neg_def f32_add_def f32_sub_def
  f32_mul_def f32_div_def Let_def

lemma f32_constants: "f32_of_int 1 = f32_one" "f32_of_int 2 = f32_two" "f32_of_int 0 = f32_zero"
  by (simp_all add: f32_of_int_run f32_one_def f32_two_def f32_zero_def)

end
