(* ===== verification/Std_Map.thy ===== *)
theory Std_Map
  imports Prelude
begin

text \<open>
  \<open>std::map\<close>: an association list kept sorted by key. Iteration is the list itself;
  \<open>insert\<close> leaves an existing entry alone, \<open>m[k] = v\<close> overwrites. The locale \<open>ordered_map\<close>
  states what the clients (the object storage, the component factory, the shader cache) use of it.
\<close>

locale ordered_map =
  fixes emp :: "'m"
    and ins :: "'k \<Rightarrow> 'v \<Rightarrow> 'm \<Rightarrow> 'm"
    and find :: "'m \<Rightarrow> 'k \<Rightarrow> 'v option"
    and inv :: "'m \<Rightarrow> bool"
  assumes find_emp: "find emp k = None"
    and inv_emp: "inv emp"
    and inv_ins: "inv m \<Longrightarrow> inv (ins k v m)"
    and find_ins: "inv m \<Longrightarrow> find (ins k v m) k' = (if k' = k \<and> find m k = None then Some v else find m k')"
begin

lemma ins_keeps: "inv m \<Longrightarrow> find m k = Some v \<Longrightarrow> find (ins k' v' m) k = Some v"
  by (auto simp: find_ins)

lemma ins_new: "inv m \<Longrightarrow> find m k = None \<Longrightarrow> find (ins k v m) k = Some v"
  by (simp add: find_ins)

lemma ins_other: "inv m \<Longrightarrow> k' \<noteq> k \<Longrightarrow> find (ins k v m) k' = find m k'"
  by (simp add: find_ins)

text \<open>Inserting a sequence of entries: the first binding of a key is the one that stays.\<close>

lemma inv_fold_ins: "inv m \<Longrightarrow> inv (fold (\<lambda>(k, v). ins k v) kvs m)"
  by (induction kvs arbitrary: m) (auto intro: inv_ins)

lemma find_fold_ins:
  "inv m \<Longrightarrow> find (fold (\<lambda>(k, v). ins k v) kvs m) k =
     (case find m k of Some v \<Rightarrow> Some v | None \<Rightarrow> map_of kvs k)"
proof (induction kvs arbitrary: m)
  case Nil
  then show ?case by (simp split: option.split)
next
  case (Cons kv kvs)
  obtain a v where kv: "kv = (a, v)" by fastforce
  have "inv (ins a v m)" using Cons.prems by (rule inv_ins)
  from Cons.IH[OF this] show ?case
    using Cons.prems by (auto simp: kv find_ins split: option.split)
qed

end


fun smap_insert :: "'k::linorder \<Rightarrow> 'v \<Rightarrow> ('k \<times> 'v) list \<Rightarrow> ('k \<times> 'v) list" where
  "smap_insert k v [] = [(k, v)]"
| "smap_insert k v ((a, b) # m) =
     (if k < a then (k, v) # (a, b) # m
      else if k = a then (a, b) # m
      else (a, b) # smap_insert k v m)"

fun smap_assign :: "'k::linorder \<Rightarrow> 'v \<Rightarrow> ('k \<times> 'v) list \<Rightarrow> ('k \<times> 'v) list" where
  "smap_assign k v [] = [(k, v)]"
| "smap_assign k v ((a, b) # m) =
     (if k < a then (k, v) # (a, b) # m
      else if k = a then (a, v) # m
      else (a, b) # smap_assign k v m)"

fun smap_find :: "('k \<times> 'v) list \<Rightarrow> 'k \<Rightarrow> 'v option" where
  "smap_find [] k = None"
| "smap_find ((a, b) # m) k = (if a = k then Some b else smap_find m k)"

definition smap_inv :: "('k::linorder \<times> 'v) list \<Rightarrow> bool" where
  "smap_inv m \<longleftrightarrow> sorted_wrt (<) (map fst m)"

lemma smap_find_map_of: "smap_find m = map_of m"
proof
  fix k show "smap_find m k = map_of m k" by (induction m) auto
qed

lemma smap_inv_Nil [simp]: "smap_inv []"
  by (simp add: smap_inv_def)

lemma smap_inv_single [simp]: "smap_inv [p]"
  by (simp add: smap_inv_def)

lemma smap_inv_Cons: "smap_inv ((k, v) # m) \<longleftrightarrow> (\<forall>a \<in> fst ` set m. k < a) \<and> smap_inv m"
  by (auto simp: smap_inv_def)

lemma smap_inv_distinct: "smap_inv m \<Longrightarrow> distinct (map fst m)"
  unfolding smap_inv_def by (rule strict_sorted_iff[THEN iffD1, THEN conjunct2])

lemma fst_set_smap_insert: "fst ` set (smap_insert k v m) = insert k (fst ` set m)"
  by (induction k v m rule: smap_insert.induct) auto

lemma smap_inv_insert: "smap_inv m \<Longrightarrow> smap_inv (smap_insert k v m)"
proof (induction k v m rule: smap_insert.induct)
  case (1 k v)
  then show ?case by (simp add: smap_inv_def)
next
  case (2 k v a b m)
  then show ?case by (auto simp: smap_inv_Cons fst_set_smap_insert)
qed

lemma smap_find_insert:
  "smap_inv m \<Longrightarrow>
     smap_find (smap_insert k v m) k' = (if k' = k \<and> smap_find m k = None then Some v else smap_find m k')"
proof (induction k v m rule: smap_insert.induct)
  case (1 k v)
  then show ?case by simp
next
  case (2 k v a b m)
  have "smap_find m k = None" if "k < a"
  proof -
    have "k \<notin> fst ` set m" using 2(2) that by (auto simp: smap_inv_Cons)
    then show ?thesis by (simp add: smap_find_map_of map_of_eq_None_iff)
  qed
  then show ?case using 2 by (auto simp: smap_inv_Cons)
qed

interpretation std_map: ordered_map "[] :: ('k::linorder \<times> 'v) list" smap_insert smap_find smap_inv
  by unfold_locales (auto simp: smap_inv_insert smap_find_insert)

lemma fst_set_smap_assign: "fst ` set (smap_assign k v m) = insert k (fst ` set m)"
  by (induction k v m rule: smap_assign.induct) auto

lemma smap_inv_assign: "smap_inv m \<Longrightarrow> smap_inv (smap_assign k v m)"
proof (induction k v m rule: smap_assign.induct)
  case (1 k v)
  then show ?case by (simp add: smap_inv_def)
next
  case (2 k v a b m)
  then show ?case by (auto simp: smap_inv_Cons fst_set_smap_assign)
qed

lemma smap_find_assign: "smap_inv m \<Longrightarrow> smap_find (smap_assign k v m) k' = (if k' = k then Some v else smap_find m k')"
  by (induction k v m rule: smap_assign.induct) (auto simp: smap_inv_Cons)

lemma smap_insert_front: "(\<forall>a \<in> fst ` set m. k < a) \<Longrightarrow> smap_insert k v m = (k, v) # m"
  by (cases m) auto

lemma smap_insert_back: "(\<forall>a \<in> fst ` set m. a < k) \<Longrightarrow> smap_insert k v m = m @ [(k, v)]"
proof (induction m)
  case Nil
  then show ?case by simp
next
  case (Cons p m)
  then show ?case by (cases p) auto
qed

lemma smap_find_Some_iff: "smap_inv m \<Longrightarrow> smap_find m k = Some v \<longleftrightarrow> (k, v) \<in> set m"
  by (simp add: smap_find_map_of smap_inv_distinct)

lemma smap_find_in_set: "smap_find m k = Some v \<Longrightarrow> (k, v) \<in> set m"
  by (simp add: smap_find_map_of map_of_SomeD)

lemma smap_find_None_iff: "smap_find m k = None \<longleftrightarrow> k \<notin> fst ` set m"
  by (simp add: smap_find_map_of map_of_eq_None_iff)

end
