(* ===== verification/Base_Storage.thy ===== *)
theory Base_Storage
  imports Std_Map "HOL-Library.List_Lexorder" "HOL-Library.Char_ord"
begin

text \<open>
  \<open>Serializer/baseSingleton.h\<close> and \<open>Serializer/baseFactory.h\<close>: the lazily created singleton, the
  two storages keyed by an identifier, and the component factory with its registration.
  Pointers are addresses; the null pointer is \<open>None\<close>.
\<close>

type_synonym addr = nat


section \<open>\<open>baseSingleton\<close>\<close>

text \<open>\<open>alloc\<close> is \<open>new T()\<close> on the heap of the client; the static \<open>instance\<close> is the second state.\<close>

definition getInstance :: "('h \<Rightarrow> addr \<times> 'h) \<Rightarrow> addr option \<times> 'h \<Rightarrow> addr \<times> (addr option \<times> 'h)" where
  "getInstance alloc = (\<lambda>(inst, h).
     case inst of
       None \<Rightarrow> (let (p, h') = alloc h in (p, (Some p, h')))
     | Some p \<Rightarrow> (p, (Some p, h)))"

lemma getInstance_creates: "alloc h = (p, h') \<Longrightarrow> getInstance alloc (None, h) = (p, (Some p, h'))"
  by (simp add: getInstance_def)

lemma getInstance_same: "getInstance alloc (Some p, h) = (p, (Some p, h))"
  by (simp add: getInstance_def)


section \<open>\<open>baseMapStorrage\<close>\<close>

definition map_addOnId :: "int \<Rightarrow> 'p \<Rightarrow> (int \<times> 'p) list \<Rightarrow> (int \<times> 'p) list" where
  "map_addOnId i p objects = smap_insert i p objects"

definition map_getById :: "(int \<times> 'p) list \<Rightarrow> int \<Rightarrow> 'p option" where
  "map_getById objects i = smap_find objects i"

interpretation map_storage: ordered_map "[]" map_addOnId map_getById smap_inv
  by unfold_locales
    (auto simp: map_addOnId_def map_getById_def smap_inv_insert smap_find_insert)


section \<open>\<open>baseVectorStorrage\<close>\<close>

definition vec_addOnId :: "'p option \<Rightarrow> 'p option list \<Rightarrow> int \<times> 'p option list" where
  "vec_addOnId p objects = (let objects' = objects @ [p] in (int_of_size (length objects' - 1), objects'))"

definition vec_getById :: "'p option list \<Rightarrow> int \<Rightarrow> 'p option" where
  "vec_getById objects i = (if i < 0 \<or> length objects \<le> size_of_int i then None else objects ! size_of_int i)"

lemma vec_getById_nat: "n < 2147483648 \<Longrightarrow> vec_getById objects (int n) = (if n < length objects then objects ! n else None)"
  by (auto simp: vec_getById_def int_ok_def)

lemma vec_addOnId_size: "length objects < 2147483648 \<Longrightarrow> vec_addOnId p objects = (int (length objects), objects @ [p])"
  by (simp add: vec_addOnId_def)


section \<open>\<open>baseFactory\<close>\<close>

text \<open>
  The static \<open>map\<close> is a pointer that \<open>getMap\<close> sets on first use. An entry is the function
  \<open>createT<T, Component>\<close>; \<open>ComponentRegister<T>\<close> is run once per class, before \<open>main\<close>.
\<close>

type_synonym 'c factory = "(string \<times> (unit \<Rightarrow> 'c)) list option"

definition getMap :: "'c factory \<Rightarrow> (string \<times> (unit \<Rightarrow> 'c)) list \<times> 'c factory" where
  "getMap m = (case m of None \<Rightarrow> ([], Some []) | Some entries \<Rightarrow> (entries, Some entries))"

definition createInstance :: "string \<Rightarrow> 'c factory \<Rightarrow> 'c option \<times> 'c factory" where
  "createInstance s m =
     (let (entries, m') = getMap m in
      case smap_find entries s of
        None \<Rightarrow> (None, m')
      | Some create \<Rightarrow> (Some (create ()), m'))"

definition componentRegister :: "string \<Rightarrow> (unit \<Rightarrow> 'c) \<Rightarrow> 'c factory \<Rightarrow> 'c factory" where
  "componentRegister s create m = (let (entries, m') = getMap m in Some (smap_insert s create entries))"

definition registerAll :: "(string \<times> (unit \<Rightarrow> 'c)) list \<Rightarrow> 'c factory \<Rightarrow> 'c factory" where
  "registerAll regs m = fold (\<lambda>(s, create). componentRegister s create) regs m"

definition factory_inv :: "'c factory \<Rightarrow> bool" where
  "factory_inv m \<longleftrightarrow> smap_inv (fst (getMap m))"

definition factory_find :: "'c factory \<Rightarrow> string \<Rightarrow> (unit \<Rightarrow> 'c) option" where
  "factory_find m s = smap_find (fst (getMap m)) s"

text \<open>Seen through \<open>getMap\<close>, the factory is a map as well.\<close>

interpretation factory_map: ordered_map None componentRegister factory_find factory_inv
  by unfold_locales
    (auto simp: componentRegister_def factory_find_def factory_inv_def getMap_def Let_def
       smap_inv_insert smap_find_insert split: prod.splits option.splits)

lemma fst_createInstance: "fst (createInstance s m) = map_option (\<lambda>create. create ()) (factory_find m s)"
  by (auto simp: createInstance_def factory_find_def Let_def split: prod.splits option.splits)

lemma createInstance_keeps: "factory_find (snd (createInstance s m)) = factory_find m"
  by (auto simp: createInstance_def factory_find_def getMap_def Let_def split: prod.splits option.splits)

text \<open>Each class is found under the name it registered, whatever the static initialisation order.\<close>

lemma createInstance_registerAll:
  "fst (createInstance s (registerAll regs None)) = map_option (\<lambda>create. create ()) (map_of regs s)"
proof -
  have "factory_find (registerAll regs None) s = map_of regs s"
    by (simp add: registerAll_def factory_map.find_fold_ins[OF factory_map.inv_emp] factory_map.find_emp)
  then show ?thesis by (simp add: fst_createInstance)
qed

end
