(* ===== verification/File_Writer.thy ===== *)
theory File_Writer
  imports Serializer
begin

text \<open>
  \<open>Serializer/FileWriter.h\<close>: whole files are written and read byte by byte through streams.
  The file system is a map from paths to contents; whether the operating system lets a path be
  opened for writing is a parameter of the state, as the code cannot know it. The writing loops of the code count
  in an \<open>int\<close>: the definitions are theirs for contents below \<open>2 ^ 31\<close> bytes, which every theorem on saving assumes.
\<close>

record file_system =
  files :: "string \<Rightarrow> byte list option"
  writable :: "string \<Rightarrow> bool"

text \<open>\<open>ofstream(path, out | binary)\<close> truncates or creates the file when it may be written.\<close>

definition open_out :: "string \<Rightarrow> file_system \<Rightarrow> file_system option" where
  "open_out path fs = (if writable fs path then Some (fs\<lparr>files := (files fs)(path \<mapsto> [])\<rparr>) else None)"

definition put_byte :: "string \<Rightarrow> byte \<Rightarrow> file_system \<Rightarrow> file_system" where
  "put_byte path b fs = fs\<lparr>files := (files fs)(path := map_option (\<lambda>c. c @ [b]) (files fs path))\<rparr>"

text \<open>\<open>ifstream::get\<close>: the next byte, or the stream is no longer good.\<close>

fun get_byte :: "byte list \<Rightarrow> byte option \<times> byte list" where
  "get_byte [] = (None, [])"
| "get_byte (b # bs) = (Some b, bs)"

definition createFileWith :: "string \<Rightarrow> byte list \<Rightarrow> file_system \<Rightarrow> file_system" where
  "createFileWith path content fs =
     (case open_out path fs of
        None \<Rightarrow> fs
      | Some fs \<Rightarrow> fold (put_byte path) content fs)"

text \<open>\<open>get(temp); while (good()) { push_back(temp); get(temp); }\<close>\<close>

fun get_while_good :: "byte list \<Rightarrow> byte option \<times> byte list \<Rightarrow> byte list" where
  "get_while_good toRet (None, rest) = toRet"
| "get_while_good toRet (Some temp, []) = toRet @ [temp]"
| "get_while_good toRet (Some temp, b # rest) = get_while_good (toRet @ [temp]) (Some b, rest)"

definition readDataFromFile :: "string \<Rightarrow> file_system \<Rightarrow> byte list" where
  "readDataFromFile path fs =
     (case files fs path of
        None \<Rightarrow> []
      | Some content \<Rightarrow> get_while_good [] (get_byte content))"

definition deleteFile :: "string \<Rightarrow> file_system \<Rightarrow> file_system" where
  "deleteFile path fs = fs\<lparr>files := (files fs)(path := None)\<rparr>"

definition writeToFile :: "serialized_object \<Rightarrow> string \<Rightarrow> file_system \<Rightarrow> file_system" where
  "writeToFile so path fs =
     (case open_out path fs of
        None \<Rightarrow> fs
      | Some fs \<Rightarrow> fold (put_byte path) so fs)"

text \<open>\<open>while (get(temp)) push_back(temp);\<close>\<close>

fun while_get :: "byte list \<Rightarrow> byte list \<Rightarrow> byte list" where
  "while_get body [] = body"
| "while_get body (temp # rest) = while_get (body @ [temp]) rest"

definition readSerializedObjectFromFile :: "string \<Rightarrow> file_system \<Rightarrow> serialized_object" where
  "readSerializedObjectFromFile path fs =
     (case files fs path of None \<Rightarrow> [] | Some content \<Rightarrow> while_get [] content)"


section \<open>Both loops return the whole content\<close>

lemma get_while_good_content: "get_while_good toRet (Some b, bs) = toRet @ b # bs"
  by (induction bs arbitrary: toRet b) simp_all

lemma while_get_content: "while_get body bs = body @ bs"
  by (induction bs arbitrary: body) simp_all

lemma readDataFromFile_eq: "readDataFromFile path fs = (case files fs path of None \<Rightarrow> [] | Some c \<Rightarrow> c)"
proof (cases "files fs path")
  case None
  then show ?thesis by (simp add: readDataFromFile_def)
next
  case (Some c)
  then show ?thesis by (cases c) (simp_all add: readDataFromFile_def get_while_good_content)
qed

lemma readSerializedObjectFromFile_eq:
  "readSerializedObjectFromFile path fs = (case files fs path of None \<Rightarrow> [] | Some c \<Rightarrow> c)"
  by (simp add: readSerializedObjectFromFile_def while_get_content split: option.split)

lemma fold_put_byte:
  "files fs path = Some c \<Longrightarrow>
     fold (put_byte path) content fs = fs\<lparr>files := (files fs)(path \<mapsto> c @ content)\<rparr>"
proof (induction content arbitrary: fs c)
  case Nil
  then have "(files fs)(path \<mapsto> c) = files fs" by (auto simp: fun_eq_iff)
  then show ?case by simp
next
  case (Cons b content)
  have put: "put_byte path b fs = fs\<lparr>files := (files fs)(path \<mapsto> c @ [b])\<rparr>"
    by (simp add: put_byte_def Cons.prems)
  have "fold (put_byte path) content (put_byte path b fs)
          = (put_byte path b fs)\<lparr>files := (files (put_byte path b fs))(path \<mapsto> (c @ [b]) @ content)\<rparr>"
    by (rule Cons.IH) (simp add: put)
  also have "\<dots> = fs\<lparr>files := (files fs)(path \<mapsto> c @ b # content)\<rparr>"
    by (simp add: put)
  finally show ?case by (simp only: fold_simps)
qed

lemma createFileWith_eq:
  "createFileWith path content fs =
     (if writable fs path then fs\<lparr>files := (files fs)(path \<mapsto> content)\<rparr> else fs)"
  by (auto simp: createFileWith_def open_out_def fold_put_byte)

lemma writeToFile_createFileWith: "writeToFile so path fs = createFileWith path so fs"
  by (simp add: writeToFile_def createFileWith_def)

lemma writable_createFileWith [simp]: "writable (createFileWith path content fs) = writable fs"
  by (simp add: createFileWith_eq)

end
