(* ===== verification/Objects.thy ===== *)
theory Objects
  imports Codec Base_Storage File_Writer
begin

text \<open>
  \<open>Serializer/Objects.h\<close>: game objects with their components and child identifiers, and the
  \<open>ObjectStorrage\<close> that owns them. Objects live on a heap; a storage maps identifiers to
  addresses. A component is identified by its owner and its position in \<open>componenten\<close>, which only
  grows. The virtual functions of the component classes are the fields of \<open>component_class\<close>; every
  function that calls one takes the class table as an argument.
\<close>

section \<open>Data\<close>

abbreviation EMPTY_ID :: int where "EMPTY_ID \<equiv> -1"

text \<open>
  An uninitialised member (\<open>isActiv\<close>) is \<open>None\<close>. To test it, to compute with it or to write it out is the error
  \<open>Uninit\<close>; to copy it, as \<open>addComponent\<close> copies the flag of an object into its new component, only
  copies the marker, so that the error shows where the value first matters. C++ calls already that copy of an
  unset \<open>bool\<close> undefined.
\<close>

record 'c component =
  isActiv :: "bool option"
  gameobject :: "addr option"
  obj :: 'c

record 'c game_object =
  go_ID :: int
  parrentID :: int
  childrenIds :: "int list"
  componenten :: "'c component list"
  go_isActiv :: "bool option"
  go_name :: string

record 'c heap =
  cells :: "addr \<Rightarrow> 'c game_object option"
  next_addr :: addr

record storage =
  objects :: "(int \<times> addr) list"
  counter :: int

type_synonym cref = "addr \<times> nat"

record ('c, 'w) component_class =
  typeName :: "'c \<Rightarrow> string"
  serializeC :: "'c \<Rightarrow> writer"
  setC :: "'c \<Rightarrow> ('w, 'c) reader"
  setRequirementsC :: "'c \<Rightarrow> cref list \<Rightarrow> 'c result"
  registry :: "'c factory"

text \<open>The static members of a component class \<open>T\<close> that the templates use.\<close>

record 'c component_decl =
  declName :: string
  isLonly :: bool
  requirements :: "string list"
  isInstance :: "'c \<Rightarrow> bool"

definition new_game_object :: "'c game_object" where
  "new_game_object = \<lparr>go_ID = EMPTY_ID, parrentID = EMPTY_ID, childrenIds = [], componenten = [],
     go_isActiv = None, go_name = ''''\<rparr>"

definition empty_heap :: "'c heap" where
  "empty_heap = \<lparr>cells = (\<lambda>_. None), next_addr = 0\<rparr>"

definition new_storage :: storage where
  "new_storage = \<lparr>objects = [], counter = 0\<rparr>"

text \<open>\<open>new\<close>, member access through a pointer, and \<open>delete\<close>.\<close>

definition alloc :: "'c game_object \<Rightarrow> 'c heap \<Rightarrow> addr \<times> 'c heap" where
  "alloc g h = (next_addr h, h\<lparr>cells := (cells h)(next_addr h \<mapsto> g), next_addr := Suc (next_addr h)\<rparr>)"

definition get_obj :: "'c heap \<Rightarrow> addr \<Rightarrow> 'c game_object result" where
  "get_obj h a = (case cells h a of None \<Rightarrow> Inl (Undefined Dangling) | Some g \<Rightarrow> Inr g)"

definition upd_obj :: "addr \<Rightarrow> ('c game_object \<Rightarrow> 'c game_object) \<Rightarrow> 'c heap \<Rightarrow> 'c heap result" where
  "upd_obj a f h = bindR (get_obj h a) (\<lambda>g. Inr (h\<lparr>cells := (cells h)(a \<mapsto> f g)\<rparr>))"

definition delete_obj :: "addr \<Rightarrow> 'c heap \<Rightarrow> 'c heap result" where
  "delete_obj a h = bindR (get_obj h a) (\<lambda>_. Inr (h\<lparr>cells := (cells h)(a := None)\<rparr>))"

lemma get_obj_Some [simp]: "cells h a = Some g \<Longrightarrow> get_obj h a = Inr g"
  by (simp add: get_obj_def)

lemma get_obj_eq_Inr [simp]: "get_obj h a = Inr g \<longleftrightarrow> cells h a = Some g"
  by (simp add: get_obj_def split: option.split)

lemma upd_obj_Some [simp]:
  "cells h a = Some g \<Longrightarrow> upd_obj a f h = Inr (h\<lparr>cells := (cells h)(a \<mapsto> f g)\<rparr>)"
  by (simp add: upd_obj_def)

lemma upd_obj_eq_Inr: "upd_obj a f h = Inr h' \<longleftrightarrow>
    (\<exists>g. cells h a = Some g \<and> h' = h\<lparr>cells := (cells h)(a \<mapsto> f g)\<rparr>)"
  by (auto simp: upd_obj_def)


section \<open>Children and parents\<close>

definition setID :: "int \<Rightarrow> 'c game_object \<Rightarrow> 'c game_object" where
  [simp]: "setID i g = g\<lparr>go_ID := i\<rparr>"

definition addChild :: "int \<Rightarrow> 'c game_object \<Rightarrow> 'c game_object" where
  "addChild i g = g\<lparr>childrenIds := childrenIds g @ [i]\<rparr>"

text \<open>\<open>erase(find(...))\<close>: erasing the end iterator is undefined.\<close>

definition remChild :: "int \<Rightarrow> 'c game_object \<Rightarrow> 'c game_object result" where
  "remChild i g =
     (case find_index (\<lambda>x. x = i) (childrenIds g) of
        None \<Rightarrow> Inl (Undefined EraseEnd)
      | Some k \<Rightarrow> Inr (g\<lparr>childrenIds := vec_erase k (childrenIds g)\<rparr>))"

definition upd_objR :: "addr \<Rightarrow> ('c game_object \<Rightarrow> 'c game_object result) \<Rightarrow> 'c heap \<Rightarrow> 'c heap result" where
  "upd_objR a f h = bindR (get_obj h a) (\<lambda>g. bindR (f g) (\<lambda>g'. Inr (h\<lparr>cells := (cells h)(a \<mapsto> g')\<rparr>)))"

text \<open>
  \<open>setParrentID\<close> can throw after it has already changed the heap, so the heap at that moment is
  returned beside the outcome. \<open>st\<close> is the singleton storage, \<open>this\<close> the receiver.
\<close>

definition setParrentID :: "storage \<Rightarrow> addr \<Rightarrow> int \<Rightarrow> 'c heap \<Rightarrow> (unit result) \<times> 'c heap" where
  "setParrentID st this p h =
     (case bindR (get_obj h this) (\<lambda>self.
        if parrentID self \<noteq> EMPTY_ID
        then bindR (deref (map_getById (objects st) (parrentID self))) (\<lambda>temp.
             upd_objR temp (remChild (go_ID self)) h)
        else Inr h) of
        Inl e \<Rightarrow> (Inl e, h)
      | Inr h1 \<Rightarrow>
          (case bindR (get_obj h1 this) (\<lambda>self.
             if p \<noteq> EMPTY_ID
             then (case map_getById (objects st) p of
                     Some temp \<Rightarrow> upd_obj temp (addChild (go_ID self)) h1
                   | None \<Rightarrow> Inl (Exception ''parren not found''))
             else Inr h1) of
             Inl e \<Rightarrow> (Inl e, h1)
           | Inr h2 \<Rightarrow>
               (case upd_obj this (\<lambda>g. g\<lparr>parrentID := p\<rparr>) h2 of
                  Inl e \<Rightarrow> (Inl e, h2)
                | Inr h3 \<Rightarrow> (Inr (), h3))))"

definition setParrent :: "storage \<Rightarrow> addr \<Rightarrow> addr \<Rightarrow> 'c heap \<Rightarrow> 'c heap result" where
  "setParrent st this p h =
     bindR (get_obj h this) (\<lambda>self.
     bindR (if parrentID self \<noteq> EMPTY_ID
            then bindR (deref (map_getById (objects st) (parrentID self))) (\<lambda>old.
                 upd_objR old (remChild (go_ID self)) h)
            else Inr h) (\<lambda>h1.
     bindR (upd_obj p (addChild (go_ID self)) h1) (\<lambda>h2.
     bindR (get_obj h2 p) (\<lambda>parent.
     upd_obj this (\<lambda>g. g\<lparr>parrentID := go_ID parent\<rparr>) h2))))"

definition setActiv :: "bool \<Rightarrow> 'c game_object \<Rightarrow> 'c game_object" where
  "setActiv value g = g\<lparr>go_isActiv := Some value,
     componenten := map (\<lambda>c. c\<lparr>isActiv := Some value\<rparr>) (componenten g)\<rparr>"


section \<open>Components of a game object\<close>

text \<open>\<open>findComponents<T>()\<close> keeps the components that \<open>dynamic_cast\<close> accepts, in order.\<close>

fun hits_from :: "nat \<Rightarrow> ('a \<Rightarrow> bool) \<Rightarrow> 'a list \<Rightarrow> nat list" where
  "hits_from i P [] = []"
| "hits_from i P (x # xs) = (if P x then i # hits_from (Suc i) P xs else hits_from (Suc i) P xs)"

lemma hits_from_nth: "k \<in> set (hits_from i P xs) \<longleftrightarrow> i \<le> k \<and> k < i + length xs \<and> P (xs ! (k - i))"
proof (induction xs arbitrary: i)
  case Nil
  then show ?case by simp
next
  case (Cons x xs)
  have "k \<in> set (hits_from (Suc i) P xs) \<longleftrightarrow> Suc i \<le> k \<and> k < i + length (x # xs) \<and> P ((x # xs) ! (k - i))"
    using Cons[of "Suc i"] by (auto simp: nth_Cons' Suc_diff_le dest: Suc_le_lessD)
  then show ?case by (cases "k = i") auto
qed

lemma hits_from_empty: "hits_from i P xs = [] \<longleftrightarrow> (\<forall>x \<in> set xs. \<not> P x)"
  by (induction xs arbitrary: i) auto

lemma hits_from_last: "\<forall>x \<in> set xs. \<not> P x \<Longrightarrow> hits_from i P (xs @ [x]) = (if P x then [i + length xs] else [])"
  by (induction xs arbitrary: i) auto

lemma length_hits_from: "length (hits_from i P xs) = length (filter P xs)"
  by (induction xs arbitrary: i) auto

definition findComponents :: "('c \<Rightarrow> bool) \<Rightarrow> addr \<Rightarrow> 'c game_object \<Rightarrow> cref list" where
  "findComponents P a g = map (\<lambda>i. (a, i)) (hits_from 0 (\<lambda>c. P (obj c)) (componenten g))"

definition findComponentsNamed :: "('c, 'w) component_class \<Rightarrow> string \<Rightarrow> addr \<Rightarrow> 'c game_object \<Rightarrow> cref list" where
  "findComponentsNamed V name a g =
     map (\<lambda>i. (a, i)) (hits_from 0 (\<lambda>c. typeName V (obj c) = name) (componenten g))"

fun collectRequirements ::
    "('c, 'w) component_class \<Rightarrow> string list \<Rightarrow> addr \<Rightarrow> 'c game_object \<Rightarrow> cref list result" where
  "collectRequirements V [] a g = Inr []"
| "collectRequirements V (r # rs) a g =
     (case findComponentsNamed V r a g of
        [] \<Rightarrow> Inl (Exception (''required components nicht vorhanden: '' @ r))
      | c # _ \<Rightarrow> bindR (collectRequirements V rs a g) (\<lambda>cs. Inr (c # cs)))"

definition addComponent ::
    "('c, 'w) component_class \<Rightarrow> 'c component_decl \<Rightarrow> addr \<Rightarrow> 'c heap \<Rightarrow> (cref \<times> 'c heap) result" where
  "addComponent V T this h =
     bindR (get_obj h this) (\<lambda>g.
     if isLonly T \<and> length (findComponents (isInstance T) this g) \<noteq> 0
     then Inl (Exception ''es ist bereits eine Instanz dieser componente enthalten und die Componente ist als Lonly Makiert'')
     else
       bindR (collectRequirements V (requirements T) this g) (\<lambda>toSet.
       bindR (deref (fst (createInstance (declName T) (registry V)))) (\<lambda>c.
       bindR (setRequirementsC V c toSet) (\<lambda>c.
       bindR (upd_obj this (\<lambda>g. g\<lparr>componenten := componenten g @
                [\<lparr>isActiv = go_isActiv g, gameobject = Some this, obj = c\<rparr>]\<rparr>) h) (\<lambda>h'.
       Inr ((this, length (componenten g)), h'))))))"


text \<open>
  The template \<open>findComponentsInChildren<T>()\<close> asks the object and its direct children; the
  overload by name descends through all levels. \<open>fuel\<close> bounds the nesting of its calls: a child
  graph with a cycle makes the C++ recursion run without end.
\<close>

definition findComponentsInChildren ::
    "('c \<Rightarrow> bool) \<Rightarrow> 'c heap \<Rightarrow> storage \<Rightarrow> addr \<Rightarrow> cref list result" where
  "findComponentsInChildren P h st a =
     bindR (get_obj h a) (\<lambda>g.
     foldR (\<lambda>cid toRet.
        bindR (deref (map_getById (objects st) cid)) (\<lambda>ca.
        bindR (get_obj h ca) (\<lambda>cg. Inr (toRet @ findComponents P ca cg))))
       (childrenIds g) (findComponents P a g))"

fun findComponentsInChildrenNamed ::
    "nat \<Rightarrow> ('c, 'w) component_class \<Rightarrow> string \<Rightarrow> 'c heap \<Rightarrow> storage \<Rightarrow> addr \<Rightarrow> cref list result" where
  "findComponentsInChildrenNamed 0 V name h st a = Inl (Undefined NoReturn)"
| "findComponentsInChildrenNamed (Suc fuel) V name h st a =
     bindR (get_obj h a) (\<lambda>g.
     foldR (\<lambda>cid toRet.
        bindR (deref (map_getById (objects st) cid)) (\<lambda>ca.
        bindR (findComponentsInChildrenNamed fuel V name h st ca) (\<lambda>temp. Inr (toRet @ temp))))
       (childrenIds g) (findComponentsNamed V name a g))"

text \<open>
  \<open>s += ID + '0'\<close> appends the low byte of the sum. \<open>layer + 1\<close> is an \<open>int\<close> and may overflow; it is computed
  for every child.
\<close>

fun toString :: "nat \<Rightarrow> 'c heap \<Rightarrow> storage \<Rightarrow> addr \<Rightarrow> int \<Rightarrow> string result" where
  "toString 0 h st a layer = Inl (Undefined NoReturn)"
| "toString (Suc fuel) h st a layer =
     bindR (get_obj h a) (\<lambda>g.
     bindR (checked_int (go_ID g + 48)) (\<lambda>c.
     let s = [char_of (nat (c mod 256)), CHR 0x09] in
     if length (childrenIds g) = 0 then Inr (s @ [CHR 0x0A])
     else foldR (\<lambda>(i, cid) s.
            bindR (checked_int (layer + 1)) (\<lambda>next.
            let s = (if 0 < i then s @ replicate (nat next) (CHR 0x09) else s) @ ''->'' in
            bindR (deref (map_getById (objects st) cid)) (\<lambda>ca.
            bindR (toString fuel h st ca next) (\<lambda>t. Inr (s @ t)))))
          (zip [0..<length (childrenIds g)] (childrenIds g)) s))"


section \<open>Serialising a game object\<close>

definition go_serialize :: "('c, 'w) component_class \<Rightarrow> 'c game_object \<Rightarrow> writer" where
  "go_serialize V g = write_all
     [write_vec (\<lambda>c. serializeC V (obj c)) (componenten g),
      write_vec push_int (childrenIds g),
      push_int (parrentID g),
      push_string (go_name g),
      push_int (go_ID g),
      push_cstr ''class GameObject'']"

text \<open>
  The body of the component loop of \<open>set\<close>: a class name that nobody registered makes
  \<open>createInstance\<close> return the null pointer, on which \<open>set\<close> is then called.
\<close>

definition readComponent :: "('c, 'w) component_class \<Rightarrow> addr \<Rightarrow> ('w, 'c component) reader" where
  "readComponent V this =
     bindP pop_string (\<lambda>name s.
       bindR (deref (fst (createInstance name (registry V)))) (\<lambda>c.
       bindP (setC V c) (\<lambda>c. retP \<lparr>isActiv = None, gameobject = Some this, obj = c\<rparr>) s))"

definition go_set :: "('c, 'w) component_class \<Rightarrow> addr \<Rightarrow> 'c game_object \<Rightarrow> ('w, 'c game_object) reader" where
  "go_set V this g =
     bindP pop_int (\<lambda>ID.
     bindP pop_string (\<lambda>name.
     bindP pop_int (\<lambda>parent.
     bindP (read_vec pop_int) (\<lambda>childs.
     bindP (read_vec (readComponent V this)) (\<lambda>comps.
     retP (g\<lparr>go_ID := ID, go_name := name, parrentID := parent,
             childrenIds := childrenIds g @ childs, componenten := componenten g @ comps\<rparr>))))))"


section \<open>\<open>ObjectStorrage\<close>\<close>

definition createGameObject :: "'c heap \<Rightarrow> storage \<Rightarrow> (addr \<times> 'c heap \<times> storage) result" where
  "createGameObject h st =
     (let (temp, h) = alloc (setID (counter st) new_game_object) h;
          objs = map_addOnId (counter st) temp (objects st) in
      bindR (checked_int (counter st + 1)) (\<lambda>k.
      Inr (temp, h, \<lparr>objects = objs, counter = k\<rparr>)))"

definition clear_storage :: "'c heap \<Rightarrow> storage \<Rightarrow> ('c heap \<times> storage) result" where
  "clear_storage h st =
     bindR (foldR (\<lambda>(i, a) h. delete_obj a h) (objects st) h) (\<lambda>h.
     Inr (h, \<lparr>objects = [], counter = 0\<rparr>))"

text \<open>
  \<open>objects[i]\<close> for \<open>i = 0 .. size - 1\<close>: a missing key is inserted with a null pointer, which the
  loop then dereferences.
\<close>

definition object_at_index :: "'c heap \<Rightarrow> storage \<Rightarrow> nat \<Rightarrow> (addr \<times> 'c game_object) result" where
  "object_at_index h st i =
     bindR (deref (smap_find (objects st) (int i))) (\<lambda>a.
     bindR (get_obj h a) (\<lambda>g. Inr (a, g)))"

definition findByName :: "string \<Rightarrow> 'c heap \<Rightarrow> storage \<Rightarrow> addr list result" where
  "findByName name h st =
     foldR (\<lambda>i toRet. bindR (object_at_index h st i) (\<lambda>(a, g).
        Inr (if go_name g = name then toRet @ [a] else toRet)))
       [0..<length (objects st)] []"

text \<open>\<open>afterSet\<close> of every component of every object; \<open>hook\<close> is the virtual \<open>afterSet\<close> of the class.\<close>

definition go_afterSet ::
    "('c heap \<Rightarrow> cref \<Rightarrow> 'c component \<Rightarrow> 'c component result) \<Rightarrow> addr \<Rightarrow> 'c heap \<Rightarrow> 'c heap result" where
  "go_afterSet hook a h =
     bindR (get_obj h a) (\<lambda>g.
     foldR (\<lambda>i h.
        bindR (get_obj h a) (\<lambda>g.
        bindR (vec_at (componenten g) i) (\<lambda>c.
        bindR (hook h (a, i) c) (\<lambda>c'.
        upd_obj a (\<lambda>g. g\<lparr>componenten := (componenten g)[i := c']\<rparr>) h))))
       [0..<length (componenten g)] h)"

definition storage_afterSet ::
    "('c heap \<Rightarrow> cref \<Rightarrow> 'c component \<Rightarrow> 'c component result) \<Rightarrow> storage \<Rightarrow> 'c heap \<Rightarrow> 'c heap result" where
  "storage_afterSet hook st h =
     foldR (\<lambda>i h. bindR (object_at_index h st i) (\<lambda>(a, g). go_afterSet hook a h))
       [0..<length (objects st)] h"

definition storage_serialize :: "('c, 'w) component_class \<Rightarrow> 'c heap \<Rightarrow> storage \<Rightarrow> writer" where
  "storage_serialize V h st = write_all
     [foldR (\<lambda>(i, a) msg. bindR (get_obj h a) (\<lambda>g. go_serialize V g msg)) (objects st),
      push_size (length (objects st)),
      push_cstr ''class ObjectStorrage'']"

fun storage_set_loop ::
    "('c, 'w) component_class \<Rightarrow> nat \<Rightarrow> 'c heap \<times> storage \<Rightarrow> ('w, 'c heap \<times> storage) reader" where
  "storage_set_loop V 0 (h, st) s = Inr ((h, st), s)"
| "storage_set_loop V (Suc n) (h, st) s =
     (let (temp, h) = alloc new_game_object h in
      bindR (pop_string s) (\<lambda>(name, s).
      bindR (go_set V temp new_game_object s) (\<lambda>(g, s).
      let h = h\<lparr>cells := (cells h)(temp \<mapsto> g)\<rparr>;
          objs = map_addOnId (go_ID g) temp (objects st) in
      bindR (checked_int (go_ID g + 1)) (\<lambda>k.
      storage_set_loop V n (h, \<lparr>objects = objs, counter = max (counter st) k\<rparr>) s))))"

definition storage_set ::
    "('c, 'w) component_class \<Rightarrow> 'c heap \<times> storage \<Rightarrow> ('w, 'c heap \<times> storage) reader" where
  "storage_set V hs = bindP pop_size (\<lambda>size. storage_set_loop V size hs)"

end
