(* ===== verification/Object_Roundtrip.thy ===== *)
theory Object_Roundtrip
  imports Objects
begin

text \<open>
  Saving and loading of whole storages. The contract of a component class (its \<open>serialize\<close>, its
  \<open>set\<close> and its registration in the factory) is the locale \<open>component_codec\<close>; under it, game objects
  and storages are read back as they were written, up to the members that the format does not hold:
  the activity flags become uninitialised and the owner pointers point to the new objects.
\<close>

section \<open>The byte layout of objects and storages\<close>

definition comp_enc :: "('c, 'w) component_class \<Rightarrow> ('c \<Rightarrow> byte list) \<Rightarrow> 'c component \<Rightarrow> byte list" where
  "comp_enc V encC c = encC (obj c) @ enc_string (typeName V (obj c))"

definition comp_img :: "('c \<Rightarrow> 'c) \<Rightarrow> addr \<Rightarrow> 'c component \<Rightarrow> 'c component" where
  "comp_img imgC this c = \<lparr>isActiv = None, gameobject = Some this, obj = imgC (obj c)\<rparr>"

definition go_enc :: "('c, 'w) component_class \<Rightarrow> ('c \<Rightarrow> byte list) \<Rightarrow> 'c game_object \<Rightarrow> byte list" where
  "go_enc V encC g =
     enc_vec (comp_enc V encC) (componenten g) @ enc_vec int_bytes (childrenIds g) @
     int_bytes (parrentID g) @ enc_string (go_name g) @ int_bytes (go_ID g) @ enc_string ''class GameObject''"

definition go_img :: "('c \<Rightarrow> 'c) \<Rightarrow> addr \<Rightarrow> 'c game_object \<Rightarrow> 'c game_object" where
  "go_img imgC this g = \<lparr>go_ID = go_ID g, parrentID = parrentID g, childrenIds = childrenIds g,
     componenten = map (comp_img imgC this) (componenten g), go_isActiv = None, go_name = go_name g\<rparr>"

lemma go_ID_img [simp]: "go_ID (go_img imgC this g) = go_ID g"
  by (simp add: go_img_def)

definition go_eff :: "('c \<Rightarrow> 'w \<Rightarrow> 'w) \<Rightarrow> 'c game_object \<Rightarrow> 'w \<Rightarrow> 'w" where
  "go_eff effC g = eff_vec (\<lambda>c. effC (obj c)) (componenten g)"

definition go_ok :: "('c \<Rightarrow> bool) \<Rightarrow> 'c game_object \<Rightarrow> bool" where
  "go_ok okC g \<longleftrightarrow> ok_vec (\<lambda>c. okC (obj c)) (componenten g) \<and> ok_vec int_ok (childrenIds g) \<and>
     int_ok (parrentID g) \<and> int_ok (go_ID g) \<and> int_ok (go_ID g + 1)"

definition storage_enc :: "('c, 'w) component_class \<Rightarrow> ('c \<Rightarrow> byte list) \<Rightarrow> 'c game_object list \<Rightarrow> byte list" where
  "storage_enc V encC gs =
     concat (map (go_enc V encC) gs) @ size_bytes (length gs) @ enc_string ''class ObjectStorrage''"

text \<open>The objects of a storage in the order of its iteration.\<close>

definition stored :: "'c heap \<Rightarrow> storage \<Rightarrow> 'c game_object list" where
  "stored h st = map (\<lambda>(i, a). the (cells h a)) (objects st)"

definition storage_wf :: "'c heap \<Rightarrow> storage \<Rightarrow> bool" where
  "storage_wf h st \<longleftrightarrow> smap_inv (objects st) \<and>
     (\<forall>(i, a) \<in> set (objects st). \<exists>g. cells h a = Some g \<and> go_ID g = i)"

text \<open>What loading does to heap and storage, one object after the other (last one first).\<close>

fun place :: "('c \<Rightarrow> 'c) \<Rightarrow> 'c game_object list \<Rightarrow> 'c heap \<times> storage \<Rightarrow> 'c heap \<times> storage" where
  "place imgC [] (h, st) = (h, st)"
| "place imgC (g # gs) (h, st) = place imgC gs
     (h\<lparr>next_addr := Suc (next_addr h), cells := (cells h)(next_addr h \<mapsto> go_img imgC (next_addr h) g)\<rparr>,
      \<lparr>objects = (go_ID g, next_addr h) # objects st, counter = max (counter st) (go_ID g + 1)\<rparr>)"


section \<open>The contract of a component class\<close>

locale component_codec =
  fixes V :: "('c, 'w) component_class"
    and encC :: "'c \<Rightarrow> byte list"
    and imgC :: "'c \<Rightarrow> 'c"
    and effC :: "'c \<Rightarrow> 'w \<Rightarrow> 'w"
    and okC :: "'c \<Rightarrow> bool"
  assumes serializeC_appends:
      "okC c \<Longrightarrow> appends (serializeC V c) (encC c @ enc_string (typeName V c))"
    and created:
      "okC c \<Longrightarrow> \<exists>d. fst (createInstance (typeName V c) (registry V)) = Some d \<and>
         reads (setC V d) (encC c) (imgC c) (effC c)"
begin

lemma comp_codec:
  "codec (\<lambda>c. serializeC V (obj c)) (readComponent V this) (comp_enc V encC) (comp_img imgC this)
     (\<lambda>c. effC (obj c)) (\<lambda>c. okC (obj c))"
proof
  fix c :: "'c component"
  assume ok: "okC (obj c)"
  show "appends (serializeC V (obj c)) (comp_enc V encC c)"
    unfolding comp_enc_def by (rule serializeC_appends[OF ok])
  obtain d where d: "fst (createInstance (typeName V (obj c)) (registry V)) = Some d"
    and r: "reads (setC V d) (encC (obj c)) (imgC (obj c)) (effC (obj c))"
    using created[OF ok] by blast
  let ?k = "\<lambda>name s. bindR (deref (fst (createInstance name (registry V)))) (\<lambda>c.
       bindP (setC V c) (\<lambda>c. retP \<lparr>isActiv = None, gameobject = Some this, obj = c\<rparr>) s)"
  have "reads (bindP (setC V d) (\<lambda>c. retP \<lparr>isActiv = None, gameobject = Some this, obj = c\<rparr>))
          ([] @ encC (obj c)) (comp_img imgC this c) (effC (obj c))"
    unfolding comp_img_def by (rule reads_bind[OF r reads_ret])
  then have k: "reads (?k (typeName V (obj c))) (encC (obj c)) (comp_img imgC this c) (effC (obj c))"
    by (simp add: d)
  have n: "reads pop_string (enc_string (typeName V (obj c))) (typeName V (obj c)) (\<lambda>w. w)"
    using string_codec.rd_back by simp
  show "reads (readComponent V this) (comp_enc V encC c) (comp_img imgC this c) (effC (obj c))"
    unfolding readComponent_def comp_enc_def
    by (rule reads_bind[where f = ?k, OF n k])
qed

lemma go_codec:
  "codec (go_serialize V) (bindP pop_string (\<lambda>_. go_set V this new_game_object))
     (go_enc V encC) (go_img imgC this) (go_eff effC) (go_ok okC)"
proof
  fix g :: "'c game_object"
  assume ok: "go_ok okC g"
  note comps = codec.vec_codec[OF comp_codec[of this]]
  have okc: "ok_vec (\<lambda>c. okC (obj c)) (componenten g)" and okk: "ok_vec int_ok (childrenIds g)"
    and okp: "int_ok (parrentID g)" and oki: "int_ok (go_ID g)"
    using ok by (simp_all add: go_ok_def)
  have cls: "appends (push_cstr ''class GameObject'') (enc_string ''class GameObject'')"
    unfolding enc_string_def by (rule appends_cstr) simp
  have "appends (go_serialize V g)
      (enc_vec (comp_enc V encC) (componenten g) @ enc_vec int_bytes (childrenIds g) @
       int_bytes (parrentID g) @ enc_string (go_name g) @ int_bytes (go_ID g) @
       enc_string ''class GameObject'' @ [])"
    unfolding go_serialize_def
    by (intro appends_Cons appends_Nil appends_pod cls codec.wr_appends[OF comps okc]
        int_vec.wr_appends[OF okk] string_codec.wr_appends TrueI)
  then show "appends (go_serialize V g) (go_enc V encC g)"
    by (simp add: go_enc_def)
  have rcomps: "reads (read_vec (readComponent V this)) (enc_vec (comp_enc V encC) (componenten g))
      (map (comp_img imgC this) (componenten g)) (go_eff effC g)"
    unfolding go_eff_def by (rule codec.rd_back[OF comps okc])
  have rkids: "reads (read_vec pop_int) (enc_vec int_bytes (childrenIds g)) (childrenIds g) (\<lambda>w. w)"
    using int_vec.rd_back[OF okk] by simp
  have rname: "reads pop_string (enc_string s) s (\<lambda>w. w)" for s
    using string_codec.rd_back by simp
  have "reads (go_set V this new_game_object)
      ((((([] @ enc_vec (comp_enc V encC) (componenten g)) @ enc_vec int_bytes (childrenIds g)) @
        int_bytes (parrentID g)) @ enc_string (go_name g)) @ int_bytes (go_ID g))
      (new_game_object\<lparr>go_ID := go_ID g, go_name := go_name g, parrentID := parrentID g,
         childrenIds := childrenIds (new_game_object :: 'c game_object) @ childrenIds g,
         componenten := componenten new_game_object @ map (comp_img imgC this) (componenten g)\<rparr>)
      (go_eff effC g)"
    unfolding go_set_def
    by (rule reads_bind[OF reads_int[OF oki]] reads_bind[OF rname] reads_bind[OF reads_int[OF okp]]
        reads_bind[OF rkids] reads_bind[OF rcomps])+ (rule reads_ret)
  then have "reads (go_set V this new_game_object)
      (enc_vec (comp_enc V encC) (componenten g) @ enc_vec int_bytes (childrenIds g) @
        int_bytes (parrentID g) @ enc_string (go_name g) @ int_bytes (go_ID g)) (go_img imgC this g)
      (go_eff effC g)"
    by (simp add: new_game_object_def go_img_def)
  from reads_bind[where f = "\<lambda>_. go_set V this new_game_object", OF rname this]
  show "reads (bindP pop_string (\<lambda>_. go_set V this new_game_object)) (go_enc V encC g)
      (go_img imgC this g) (go_eff effC g)"
    by (simp add: go_enc_def)
qed

lemma load_loop:
  assumes "list_all (go_ok okC) gs"
    and "length b + length (concat (map (go_enc V encC) gs)) < 2147483648"
    and "sorted_wrt (<) (map go_ID gs)"
    and "\<And>g i. g \<in> set gs \<Longrightarrow> i \<in> fst ` set (objects st) \<Longrightarrow> go_ID g < i"
  shows "storage_set_loop V (length gs) (h, st) (b @ concat (map (go_enc V encC) gs), w)
           = Inr (place imgC (rev gs) (h, st), (b, fold (go_eff effC) (rev gs) w))"
  using assms
proof (induction gs arbitrary: h st w rule: rev_induct)
  case Nil
  then show ?case by simp
next
  case (snoc g gs)
  let ?n = "next_addr h" and ?buf = "b @ concat (map (go_enc V encC) gs)"
  have ok: "go_ok okC g" using snoc.prems(1) by simp
  have "bindP pop_string (\<lambda>_. go_set V ?n new_game_object) (?buf @ go_enc V encC g, w)
          = Inr (go_img imgC ?n g, (?buf, go_eff effC g w))"
    by (rule readsD[OF codec.rd_back[OF go_codec ok]]) (use snoc.prems(2) in simp)
  then obtain nm s where nm: "pop_string (?buf @ go_enc V encC g, w) = Inr (nm, s)"
    and g: "go_set V ?n new_game_object s = Inr (go_img imgC ?n g, (?buf, go_eff effC g w))"
    by (auto simp: bindP_def)
  have i: "checked_int (go_ID g + 1) = Inr (go_ID g + 1)"
    using ok by (simp add: go_ok_def)
  let ?h = "h\<lparr>next_addr := Suc ?n, cells := (cells h)(?n \<mapsto> go_img imgC ?n g)\<rparr>"
    and ?st = "\<lparr>objects = (go_ID g, ?n) # objects st, counter = max (counter st) (go_ID g + 1)\<rparr>"
  have front: "map_addOnId (go_ID g) ?n (objects st) = (go_ID g, ?n) # objects st"
    unfolding map_addOnId_def by (rule smap_insert_front) (use snoc.prems(4) in auto)
  have IH: "storage_set_loop V (length gs) (?h, ?st) (?buf, go_eff effC g w)
      = Inr (place imgC (rev gs) (?h, ?st), (b, fold (go_eff effC) (rev gs) (go_eff effC g w)))"
    by (rule snoc.IH) (use snoc.prems in \<open>auto simp: sorted_wrt_append\<close>)
  show ?case
    using nm g i IH by (simp add: alloc_def front Let_def)
qed

end


section \<open>Where the loaded objects are\<close>

lemma place_keeps: "a < next_addr h \<Longrightarrow> cells (fst (place imgC gs (h, st))) a = cells h a"
  by (induction gs arbitrary: h st) simp_all

lemma place_cells:
  "k < length gs \<Longrightarrow> cells (fst (place imgC gs (h, st))) (next_addr h + k)
     = Some (go_img imgC (next_addr h + k) (gs ! k))"
proof (induction gs arbitrary: h st k)
  case Nil
  then show ?case by simp
next
  case (Cons g gs)
  show ?case
  proof (cases k)
    case 0
    then show ?thesis by (simp add: place_keeps)
  next
    case (Suc j)
    let ?h = "h\<lparr>next_addr := Suc (next_addr h), cells := (cells h)(next_addr h \<mapsto> go_img imgC (next_addr h) g)\<rparr>"
    show ?thesis using Cons.IH[of j ?h] Cons.prems Suc by simp
  qed
qed

lemma place_objects:
  "objects (snd (place imgC gs (h, st)))
     = rev (zip (map go_ID gs) [next_addr h..<next_addr h + length gs]) @ objects st"
proof (induction gs arbitrary: h st)
  case Nil
  then show ?case by simp
next
  case (Cons g gs)
  have "[next_addr h..<next_addr h + length (g # gs)]
          = next_addr h # [Suc (next_addr h)..<Suc (next_addr h) + length gs]"
    using upt_conv_Cons[of "next_addr h" "next_addr h + length (g # gs)"] by (simp del: upt_Suc)
  then show ?case using Cons.IH by (simp del: upt_Suc)
qed

lemma place_counter:
  "counter (snd (place imgC gs (h, st))) = fold (\<lambda>g c. max c (go_ID g + 1)) gs (counter st)"
  by (induction gs arbitrary: h st) simp_all

lemma length_stored [simp]: "length (stored h st) = length (objects st)"
  by (simp add: stored_def)

lemma stored_ids: "storage_wf h st \<Longrightarrow> map go_ID (stored h st) = map fst (objects st)"
  by (auto simp: storage_wf_def stored_def)

lemma stored_sorted: "storage_wf h st \<Longrightarrow> sorted_wrt (<) (map go_ID (stored h st))"
  by (simp add: stored_ids) (simp add: storage_wf_def smap_inv_def)

text \<open>Loading a list of objects into an empty storage.\<close>

lemma place_stored:
  fixes h0 :: "'c heap"
  assumes "place imgC (rev gs) (h0, new_storage) = (h', st')"
  shows "map fst (objects st') = map go_ID gs"
    and "map snd (objects st') = rev [next_addr h0..<next_addr h0 + length gs]"
    and "stored h' st' = map2 (go_img imgC) (map snd (objects st')) gs"
proof -
  let ?n = "next_addr h0"
  have o: "objects st' = rev (zip (map go_ID (rev gs)) [?n..<?n + length gs])"
    using place_objects[of imgC "rev gs" h0 new_storage] assms by (simp add: new_storage_def)
  show fst: "map fst (objects st') = map go_ID gs"
    unfolding o by (simp add: rev_map[symmetric])
  show snd: "map snd (objects st') = rev [?n..<?n + length gs]"
    unfolding o by (simp add: rev_map[symmetric])
  have l: "length (objects st') = length gs" using fst by (metis length_map)
  show "stored h' st' = map2 (go_img imgC) (map snd (objects st')) gs"
  proof (rule nth_equalityI)
    show "length (stored h' st') = length (map2 (go_img imgC) (map snd (objects st')) gs)"
      by (simp add: l)
  next
    fix k
    assume "k < length (stored h' st')"
    then have k: "k < length gs" by (simp add: l)
    let ?j = "length gs - Suc k"
    have a: "snd (objects st' ! k) = ?n + ?j"
    proof -
      have "snd (objects st' ! k) = map snd (objects st') ! k" using k l by simp
      also have "\<dots> = ?n + ?j" unfolding snd using k by (simp add: rev_nth)
      finally show ?thesis .
    qed
    have "cells h' (?n + ?j) = Some (go_img imgC (?n + ?j) (rev gs ! ?j))"
      using place_cells[of ?j "rev gs" imgC h0 new_storage] assms k by simp
    moreover have "rev gs ! ?j = gs ! k" using k by (simp add: rev_nth)
    ultimately show "stored h' st' ! k = map2 (go_img imgC) (map snd (objects st')) gs ! k"
      using k l a by (simp add: stored_def case_prod_beta)
  qed
qed

lemma place_wf:
  assumes "place imgC (rev gs) (h0, new_storage) = (h', st')"
    and "sorted_wrt (<) (map go_ID gs)"
  shows "storage_wf h' st'"
  unfolding storage_wf_def
proof (intro conjI ballI, goal_cases)
  case 1
  show ?case using place_stored(1)[OF assms(1)] assms(2) by (simp add: smap_inv_def)
next
  case (2 p)
  let ?n = "next_addr h0"
  obtain i a where p: "p = (i, a)" by fastforce
  have o: "objects st' = rev (zip (map go_ID (rev gs)) [?n..<?n + length gs])"
    using place_objects[of imgC "rev gs" h0 new_storage] assms(1) by (simp add: new_storage_def)
  from 2 p obtain k where k: "k < length gs" "i = go_ID (rev gs ! k)" "a = ?n + k"
    unfolding o by (auto simp: set_zip)
  have "cells h' a = Some (go_img imgC a (rev gs ! k))"
    using place_cells[of k "rev gs" imgC h0 new_storage] assms(1) k by simp
  then show ?case by (simp add: p k(2) go_img_def)
qed


section \<open>Save, then load\<close>

context component_codec
begin

lemma objects_append:
  assumes "\<And>i a. (i, a) \<in> set objs \<Longrightarrow> \<exists>g. cells h a = Some g \<and> go_ok okC g"
  shows "appends (foldR (\<lambda>(i, a) msg. bindR (get_obj h a) (\<lambda>g. go_serialize V g msg)) objs)
     (concat (map (\<lambda>(i, a). go_enc V encC (the (cells h a))) objs))"
  using assms
proof (induction objs)
  case Nil
  then show ?case by (simp add: appends_def)
next
  case (Cons p objs)
  obtain i a where p: "p = (i, a)" by fastforce
  obtain g where g: "cells h a = Some g" "go_ok okC g" using Cons.prems[of i a] p by auto
  have "appends (go_serialize V g) (go_enc V encC g)"
    by (rule codec.wr_appends[OF go_codec g(2)])
  moreover have "appends (foldR (\<lambda>(i, a) msg. bindR (get_obj h a) (\<lambda>g. go_serialize V g msg)) objs)
     (concat (map (\<lambda>(i, a). go_enc V encC (the (cells h a))) objs))"
    by (rule Cons.IH) (use Cons.prems in auto)
  ultimately show ?case by (simp add: appends_def p g(1))
qed

lemma serialize_layout:
  assumes "storage_wf h st" and "list_all (go_ok okC) (stored h st)"
  shows "appends (storage_serialize V h st) (storage_enc V encC (stored h st))"
proof -
  have ex: "\<exists>g. cells h a = Some g \<and> go_ok okC g" if "(i, a) \<in> set (objects st)" for i a
  proof -
    have "\<forall>p \<in> set (objects st). case p of (i, a) \<Rightarrow> \<exists>g. cells h a = Some g \<and> go_ID g = i"
      using assms(1) by (simp add: storage_wf_def)
    from bspec[OF this that] obtain g where g: "cells h a = Some g" by auto
    have "the (cells h a) \<in> set (stored h st)" using that by (force simp: stored_def)
    then show ?thesis using g assms(2) by (simp add: list_all_iff)
  qed
  have cls: "appends (push_cstr ''class ObjectStorrage'') (enc_string ''class ObjectStorrage'')"
    unfolding enc_string_def by (rule appends_cstr) simp
  have "appends (storage_serialize V h st)
     (concat (map (\<lambda>(i, a). go_enc V encC (the (cells h a))) (objects st)) @
      size_bytes (length (objects st)) @ enc_string ''class ObjectStorrage'' @ [])"
    unfolding storage_serialize_def
    by (intro appends_Cons appends_Nil appends_pod cls objects_append ex)
  moreover have "map (go_enc V encC) (stored h st)
      = map (\<lambda>(i, a). go_enc V encC (the (cells h a))) (objects st)"
    by (auto simp: stored_def)
  ultimately show ?thesis by (simp add: storage_enc_def)
qed

lemma load_reads:
  assumes "list_all (go_ok okC) gs" and "sorted_wrt (<) (map go_ID gs)"
    and "length (storage_enc V encC gs) < 2147483648"
  shows "bindP pop_string (\<lambda>_. storage_set V (h0, new_storage)) (storage_enc V encC gs, w)
     = Inr (place imgC (rev gs) (h0, new_storage), ([], fold (go_eff effC) (rev gs) w))"
proof -
  let ?os = "concat (map (go_enc V encC) gs)" and ?nm = "enc_string ''class ObjectStorrage''"
  have l: "length ?os + 8 + length ?nm < 2147483648"
    using assms(3) by (simp add: storage_enc_def add.assoc)
  have n: "length gs < 18446744073709551616"
  proof -
    have "1 \<le> length (go_enc V encC g)" for g by (simp add: go_enc_def)
    then have "length gs \<le> length ?os" by (rule length_concat_ge)
    then show ?thesis using l by linarith
  qed
  have nm: "pop_string ((?os @ size_bytes (length gs)) @ ?nm, w)
      = Inr (''class ObjectStorrage'', (?os @ size_bytes (length gs), w))"
    using readsD[OF string_codec.rd_back[OF TrueI], of "?os @ size_bytes (length gs)" "''class ObjectStorrage''" w] l
    by simp
  have sz: "pop_size (?os @ size_bytes (length gs), w) = Inr (length gs, (?os, w))"
    using readsD[OF reads_size[OF n], of ?os w] l by simp
  have "storage_set_loop V (length gs) (h0, new_storage) ([] @ ?os, w)
      = Inr (place imgC (rev gs) (h0, new_storage), ([], fold (go_eff effC) (rev gs) w))"
    by (rule load_loop) (use assms(1,2) l in \<open>auto simp: new_storage_def\<close>)
  then show ?thesis
    using nm sz by (simp add: bindP_def storage_set_def storage_enc_def)
qed

lemma storage_roundtrip:
  assumes wf: "storage_wf h st" and ok: "list_all (go_ok okC) (stored h st)"
    and len: "length (storage_enc V encC (stored h st)) < 2147483648"
  shows "\<exists>so h' st'. storage_serialize V h st [] = Inr so \<and>
     bindP pop_string (\<lambda>_. storage_set V (h0, new_storage)) (so, w)
       = Inr ((h', st'), ([], fold (go_eff effC) (rev (stored h st)) w)) \<and>
     map fst (objects st') = map fst (objects st) \<and>
     stored h' st' = map2 (go_img imgC) (map snd (objects st')) (stored h st) \<and>
     storage_wf h' st'"
proof -
  let ?gs = "stored h st"
  obtain h' st' where pl: "place imgC (rev ?gs) (h0, new_storage) = (h', st')" by fastforce
  have "storage_serialize V h st [] = Inr (storage_enc V encC ?gs)"
    using appendsD[OF serialize_layout[OF wf ok], of "[]"] len by simp
  moreover have "bindP pop_string (\<lambda>_. storage_set V (h0, new_storage)) (storage_enc V encC ?gs, w)
       = Inr ((h', st'), ([], fold (go_eff effC) (rev ?gs) w))"
    using load_reads[OF ok stored_sorted[OF wf] len] pl by simp
  moreover note place_stored[OF pl] place_wf[OF pl stored_sorted[OF wf]] stored_ids[OF wf]
  ultimately show ?thesis by metis
qed

end

end
