(* ===== verification/File_Component.thy ===== *)
theory File_Component
  imports Object_Roundtrip
begin

text \<open>
  The contract of one component class (\<open>class_codec\<close>): what its \<open>serialize\<close> appends, followed by
  the class name, is what its \<open>set\<close> reads into a freshly created instance. The first class is
  \<open>FileComponent\<close> of \<open>Serializer/Objects.h\<close>, which carries a file inside a saved scene and writes it
  back to disk when it is loaded.
\<close>

locale class_codec =
  fixes name :: string
    and fresh :: "'a"
    and ser :: "'a \<Rightarrow> writer"
    and st :: "'a \<Rightarrow> ('w, 'a) reader"
    and enc :: "'a \<Rightarrow> byte list"
    and img :: "'a \<Rightarrow> 'a"
    and eff :: "'a \<Rightarrow> 'w \<Rightarrow> 'w"
    and ok :: "'a \<Rightarrow> bool"
  assumes ser_appends: "ok x \<Longrightarrow> appends (ser x) (enc x @ enc_string name)"
    and set_reads: "ok x \<Longrightarrow> reads (st fresh) (enc x) (img x) (eff x)"

text \<open>\<open>inTo << typeid(T).name()\<close> closes every \<open>serialize\<close>.\<close>

lemma appends_class_name:
  "CHR 0x00 \<notin> set nm \<Longrightarrow> appends (push_cstr nm) (enc_string nm)"
  unfolding enc_string_def by (rule appends_cstr)

text \<open>A string, an \<open>int\<close>, a \<open>float\<close> in front of what is read later.\<close>

lemma reads_string_enc [reads_intros]: "reads pop_string (enc_string s) s (\<lambda>w. w)"
  using string_codec.rd_back by simp

lemma appends_string_enc [appends_intros]: "appends (push_string s) (enc_string s)"
  by (rule string_codec.wr_appends) simp

record file_component =
  toPutInFile :: "byte list"
  filePath :: string

definition new_file_component :: file_component where
  "new_file_component = \<lparr>toPutInFile = [], filePath = ''''\<rparr>"

definition fileComponent_set :: "file_component \<Rightarrow> (file_system, file_component) reader" where
  "fileComponent_set c =
     bindP pop_string (\<lambda>path.
     bindP (read_vec pop_byte) (\<lambda>bytes (msg, fs).
       let content = toPutInFile c @ bytes in
       Inr (\<lparr>toPutInFile = content, filePath = path\<rparr>, (msg, createFileWith path content fs))))"

definition fileComponent_serialize :: "file_component \<Rightarrow> writer" where
  "fileComponent_serialize c = write_all
     [write_vec push_byte (toPutInFile c),
      push_string (filePath c),
      push_cstr ''class FileComponent'']"

definition fileComponent_enc :: "file_component \<Rightarrow> byte list" where
  "fileComponent_enc c = enc_vec (\<lambda>b. [b]) (toPutInFile c) @ enc_string (filePath c)"

interpretation byte_vec: codec "write_vec push_byte" "read_vec pop_byte" "enc_vec (\<lambda>b. [b])"
    "map id" "eff_vec (\<lambda>_ w. w)" "ok_vec (\<lambda>_. True)"
  by (rule byte_codec.vec_codec)

interpretation file_component: class_codec "''class FileComponent''" new_file_component
    fileComponent_serialize fileComponent_set fileComponent_enc "\<lambda>c. c"
    "\<lambda>c. createFileWith (filePath c) (toPutInFile c)"
    "\<lambda>c. length (toPutInFile c) < 2147483648"
proof
  fix c :: file_component
  assume l: "length (toPutInFile c) < 2147483648"
  have ok: "ok_vec (\<lambda>_. True) (toPutInFile c)" using l by (simp add: ok_vec_def list_all_iff)
  have nm: "appends (push_cstr ''class FileComponent'') (enc_string ''class FileComponent'')"
    by (rule appends_class_name) simp
  have "appends (fileComponent_serialize c) (enc_vec (\<lambda>b. [b]) (toPutInFile c) @
      enc_string (filePath c) @ enc_string ''class FileComponent'' @ [])"
    unfolding fileComponent_serialize_def
    by (intro appends_Cons appends_Nil byte_vec.wr_appends[OF ok] appends_string_enc nm)
  then show "appends (fileComponent_serialize c) (fileComponent_enc c @ enc_string ''class FileComponent'')"
    by (simp add: fileComponent_enc_def)
  let ?k = "\<lambda>path bytes (msg, fs). let content = toPutInFile new_file_component @ bytes in
       Inr (\<lparr>toPutInFile = content, filePath = path\<rparr>, (msg, createFileWith path content fs))"
  have k: "reads (?k (filePath c) (toPutInFile c)) [] c (createFileWith (filePath c) (toPutInFile c))"
    by (simp add: reads_def new_file_component_def Let_def)
  have b: "reads (read_vec pop_byte) (enc_vec (\<lambda>b. [b]) (toPutInFile c)) (toPutInFile c) (\<lambda>w. w)"
    using byte_vec.rd_back[OF ok] by simp
  have "reads (fileComponent_set new_file_component)
      (([] @ enc_vec (\<lambda>b. [b]) (toPutInFile c)) @ enc_string (filePath c)) c
      (createFileWith (filePath c) (toPutInFile c))"
    unfolding fileComponent_set_def
    by (rule reads_bind[OF reads_string_enc] reads_bind[where f = "?k (filePath c)", OF b k])+
  then show "reads (fileComponent_set new_file_component) (fileComponent_enc c) c
      (createFileWith (filePath c) (toPutInFile c))"
    by (simp add: fileComponent_enc_def)
qed

end
