(* ===== verification/Engine_Base.thy ===== *)
theory Engine_Base
  imports Float32 File_Component
begin

text \<open>
  The data of the engine (\<open>src/Engine\<close>) and of the viewer's components
  (\<open>src/Application/SceenViewer/Main.cpp\<close>): one record per component class and the sum of them,
  which is what the game objects of the program hold. Pointers to components are references into
  the heap of game objects. The mathematics of \<open>xnamath.h\<close> is a record of functions; Direct3D and
  Win32 are an environment that answers each call from the history of calls so far.
\<close>

section \<open>Pointers\<close>

text \<open>A pointer member that no constructor sets is \<open>Wild\<close>.\<close>

datatype 'a ptr = Wild | Null | Ptr 'a

definition follow :: "'a ptr \<Rightarrow> 'a result" where
  "follow p = (case p of Wild \<Rightarrow> Inl (Undefined Uninit) | Null \<Rightarrow> Inl (Undefined NullDeref) | Ptr a \<Rightarrow> Inr a)"

lemma follow_simps [simp, run_simps]:
  "follow Wild = Inl (Undefined Uninit)" "follow Null = Inl (Undefined NullDeref)" "follow (Ptr a) = Inr a"
  by (simp_all add: follow_def)

lemma follow_eq_Inr [simp]: "follow p = Inr a \<longleftrightarrow> p = Ptr a"
  by (cases p) simp_all

text \<open>\<open>if (p)\<close> and \<open>p != NULL\<close>.\<close>

definition non_null :: "'a ptr \<Rightarrow> bool result" where
  "non_null p = (case p of Wild \<Rightarrow> Inl (Undefined Uninit) | Null \<Rightarrow> Inr False | Ptr a \<Rightarrow> Inr True)"

lemma non_null_simps [simp, run_simps]:
  "non_null Wild = Inl (Undefined Uninit)" "non_null Null = Inr False" "non_null (Ptr a) = Inr True"
  by (simp_all add: non_null_def)

text \<open>Reading a member that may be uninitialised.\<close>

definition read_member :: "'a option \<Rightarrow> 'a result" where
  "read_member x = (case x of None \<Rightarrow> Inl (Undefined Uninit) | Some v \<Rightarrow> Inr v)"

lemma read_member_simps [simp, run_simps]:
  "read_member None = Inl (Undefined Uninit)" "read_member (Some v) = Inr v"
  by (simp_all add: read_member_def)

lemma read_member_eq_Inr [simp]: "read_member x = Inr v \<longleftrightarrow> x = Some v"
  by (cases x) simp_all


section \<open>\<open>xnamath.h\<close>\<close>

record xmfloat3 =
  f3x :: f32
  f3y :: f32
  f3z :: f32

record xmfloat4 =
  f4x :: f32
  f4y :: f32
  f4z :: f32
  f4w :: f32

record float6 =
  f6a :: f32
  f6b :: f32
  f6c :: f32
  f6d :: f32
  f6e :: f32
  f6f :: f32

text \<open>The type \<open>'m\<close> is \<open>XMMATRIX\<close>; \<open>matElem m i j\<close> is \<open>m.m[i][j]\<close>.\<close>

record 'm xnamath =
  XMMatrixTranslation :: "f32 \<Rightarrow> f32 \<Rightarrow> f32 \<Rightarrow> 'm"
  XMMatrixRotationX :: "f32 \<Rightarrow> 'm"
  XMMatrixRotationY :: "f32 \<Rightarrow> 'm"
  XMMatrixRotationZ :: "f32 \<Rightarrow> 'm"
  XMMatrixScaling :: "f32 \<Rightarrow> f32 \<Rightarrow> f32 \<Rightarrow> 'm"
  XMMatrixMultiply :: "'m \<Rightarrow> 'm \<Rightarrow> 'm"
  XMMatrixTranspose :: "'m \<Rightarrow> 'm"
  XMMatrixOrthographicOffCenterLH :: "f32 \<Rightarrow> f32 \<Rightarrow> f32 \<Rightarrow> f32 \<Rightarrow> f32 \<Rightarrow> f32 \<Rightarrow> 'm"
  XMMatrixPerspectiveOffCenterLH :: "f32 \<Rightarrow> f32 \<Rightarrow> f32 \<Rightarrow> f32 \<Rightarrow> f32 \<Rightarrow> f32 \<Rightarrow> 'm"
  matElem :: "'m \<Rightarrow> nat \<Rightarrow> nat \<Rightarrow> f32"

record viewport =
  TopLeftX :: f32
  TopLeftY :: f32
  vpWidth :: f32
  vpHeight :: f32


section \<open>The component classes\<close>

record 'm transform =
  m_position :: xmfloat3
  m_rotation :: xmfloat3
  m_scale :: xmfloat3
  m_dirty :: bool
  m_matrix :: "'m option"
  pGOID :: int
  m_parrent :: "cref ptr"

record 'm kamera =
  k_transform :: "cref ptr"
  m_projectionMatrix :: "'m option"
  m_projectionDirty :: "bool option"
  m_screenWidth :: "f32 option"
  m_screenHeigth :: "f32 option"
  m_maxViewDist :: "f32 option"
  m_minViewDist :: "f32 option"
  m_orthogonal :: "bool option"

record button =
  b_transform :: "cref ptr"
  b_up :: "bool option"
  b_down :: "bool option"
  payload :: "cref list"
  payloadIDs :: "(int \<times> int) list"

type_synonym handle = nat

record rendered_shader =
  m_pVS :: "handle ptr"
  m_pPS :: "handle ptr"
  m_pInputLayout :: "handle ptr"

text \<open>
  \<open>DrawableRenderer\<close> with its base \<open>Dx11Base\<close>. A node of \<open>m_allShaders\<close> carries an identity, so that
  a pointer to a node that was erased is told from one to a later node with the same key.
\<close>

record drawable_renderer =
  m_hWnd :: "handle ptr"
  m_hInst :: "handle ptr"
  m_pD3DDevice :: "handle ptr"
  m_pD3DContext :: "handle ptr"
  m_pD3DRenderTargetView :: "handle ptr"
  m_pSwapChain :: "handle ptr"
  m_colorFormat :: int
  m_refreshRateN :: int
  m_refreshRateD :: int
  m_windowed :: bool
  m_currentCamera :: "cref ptr"
  m_currentCameraID :: "int option"
  m_buttons :: "cref list"
  m_buttonGameObjectIDs :: "int list"
  m_BackgroundColor :: "f32 list"
  m_allShaders :: "(string \<times> (nat \<times> rendered_shader)) list"
  m_allDrawable :: "cref list"
  m_allDrawableIDs :: "(int \<times> int) list"

text \<open>
  The Direct3D members that all five drawables have; \<open>m_constBuffer\<close> is \<open>m_localTransformMatrixe\<close> of
  the sprites and \<open>m_instanceBuffer\<close> of the instanced part sprites and the string renderer.
\<close>

record gpu_members =
  m_pVertexBuffer :: "handle ptr"
  m_pColorMap :: "handle ptr"
  m_pColorMapSampler :: "handle ptr"
  m_pAlphaBlendState :: "handle ptr"
  m_constBuffer :: "handle ptr"
  m_shaderContainer :: "nat ptr"

record sprite =
  s_transform :: "cref ptr"
  s_texturePath :: string
  s_shaderPath :: string
  s_gpu :: gpu_members

record teil_sprite =
  ts_transform :: "cref ptr"
  ts_texturePath :: string
  ts_shaderPath :: string
  m_spriteRect :: "f32 list"
  ts_gpu :: gpu_members

record instanced_sprite =
  is_texturePath :: string
  is_shaderPath :: string
  is_instancen :: "cref list"
  m_instancenID :: "int list"
  is_gpu :: gpu_members

record its_instance =
  i_transform :: "cref ptr"
  i_rect :: "xmfloat4 option"

record instanced_teil_sprite =
  its_texturePath :: string
  its_shaderPath :: string
  its_instancen :: "cref list"
  its_instancenIDs :: "(int \<times> int) list"
  its_gpu :: gpu_members

record string_instance =
  si_transform :: "cref ptr"
  si_string :: string

record string_renderer =
  sr_texturePath :: string
  sr_shaderPath :: string
  m_tabSize :: f32
  m_endLineSize :: f32
  m_charSizeMultiplier :: f32
  m_alphabetRects :: "float6 option list"
  sr_instancen :: "cref list"
  sr_instancenIDs :: "(int \<times> int) list"
  sr_gpu :: gpu_members

record drag_mover =
  d_transform :: "cref ptr"

record button_checker =
  bc_button :: "cref ptr"

record object_klicker =
  klick :: "bool option"
  onklick :: "xmfloat4 option list"
  ok_inst :: "cref ptr"

datatype 'm engine_component =
    CFile file_component
  | CTransform "'m transform"
  | CKamera "'m kamera"
  | CButton button
  | CRenderer drawable_renderer
  | CSprite sprite
  | CTeilSprite teil_sprite
  | CInstancedSprite instanced_sprite
  | CITSInstance its_instance
  | CInstancedTeilSprite instanced_teil_sprite
  | CStringInstance string_instance
  | CStringRenderer string_renderer
  | CDragMover drag_mover
  | CButtonChecker button_checker
  | CObjectKlicker object_klicker

type_synonym 'm eheap = "'m engine_component heap"

text \<open>The class of a component, as \<open>dynamic_cast\<close> and the casts of the sources use it.\<close>

fun as_transform :: "'m engine_component \<Rightarrow> 'm transform option" where
  "as_transform (CTransform x) = Some x" | "as_transform _ = None"

fun as_kamera :: "'m engine_component \<Rightarrow> 'm kamera option" where
  "as_kamera (CKamera x) = Some x" | "as_kamera _ = None"

fun as_button :: "'m engine_component \<Rightarrow> button option" where
  "as_button (CButton x) = Some x" | "as_button _ = None"

fun as_renderer :: "'m engine_component \<Rightarrow> drawable_renderer option" where
  "as_renderer (CRenderer x) = Some x" | "as_renderer _ = None"

fun as_sprite :: "'m engine_component \<Rightarrow> sprite option" where
  "as_sprite (CSprite x) = Some x" | "as_sprite _ = None"

fun as_teil_sprite :: "'m engine_component \<Rightarrow> teil_sprite option" where
  "as_teil_sprite (CTeilSprite x) = Some x" | "as_teil_sprite _ = None"

fun as_instanced_sprite :: "'m engine_component \<Rightarrow> instanced_sprite option" where
  "as_instanced_sprite (CInstancedSprite x) = Some x" | "as_instanced_sprite _ = None"

fun as_its_instance :: "'m engine_component \<Rightarrow> its_instance option" where
  "as_its_instance (CITSInstance x) = Some x" | "as_its_instance _ = None"

fun as_instanced_teil_sprite :: "'m engine_component \<Rightarrow> instanced_teil_sprite option" where
  "as_instanced_teil_sprite (CInstancedTeilSprite x) = Some x" | "as_instanced_teil_sprite _ = None"

fun as_string_instance :: "'m engine_component \<Rightarrow> string_instance option" where
  "as_string_instance (CStringInstance x) = Some x" | "as_string_instance _ = None"

fun as_string_renderer :: "'m engine_component \<Rightarrow> string_renderer option" where
  "as_string_renderer (CStringRenderer x) = Some x" | "as_string_renderer _ = None"

fun as_drag_mover :: "'m engine_component \<Rightarrow> drag_mover option" where
  "as_drag_mover (CDragMover x) = Some x" | "as_drag_mover _ = None"

fun as_button_checker :: "'m engine_component \<Rightarrow> button_checker option" where
  "as_button_checker (CButtonChecker x) = Some x" | "as_button_checker _ = None"

fun as_object_klicker :: "'m engine_component \<Rightarrow> object_klicker option" where
  "as_object_klicker (CObjectKlicker x) = Some x" | "as_object_klicker _ = None"

lemma as_class_Some [simp]:
  "as_transform c = Some a \<longleftrightarrow> c = CTransform a"
  "as_kamera c = Some b \<longleftrightarrow> c = CKamera b"
  "as_button c = Some d \<longleftrightarrow> c = CButton d"
  "as_renderer c = Some e \<longleftrightarrow> c = CRenderer e"
  "as_sprite c = Some f \<longleftrightarrow> c = CSprite f"
  "as_teil_sprite c = Some g \<longleftrightarrow> c = CTeilSprite g"
  "as_instanced_sprite c = Some h \<longleftrightarrow> c = CInstancedSprite h"
  "as_its_instance c = Some i \<longleftrightarrow> c = CITSInstance i"
  "as_instanced_teil_sprite c = Some j \<longleftrightarrow> c = CInstancedTeilSprite j"
  "as_string_instance c = Some k \<longleftrightarrow> c = CStringInstance k"
  "as_string_renderer c = Some l \<longleftrightarrow> c = CStringRenderer l"
  "as_drag_mover c = Some m \<longleftrightarrow> c = CDragMover m"
  "as_button_checker c = Some n \<longleftrightarrow> c = CButtonChecker n"
  "as_object_klicker c = Some p \<longleftrightarrow> c = CObjectKlicker p"
  by (cases c; auto)+

abbreviation is_transform :: "'m engine_component \<Rightarrow> bool" where "is_transform c \<equiv> as_transform c \<noteq> None"
abbreviation is_kamera :: "'m engine_component \<Rightarrow> bool" where "is_kamera c \<equiv> as_kamera c \<noteq> None"
abbreviation is_button :: "'m engine_component \<Rightarrow> bool" where "is_button c \<equiv> as_button c \<noteq> None"
abbreviation is_its_instance :: "'m engine_component \<Rightarrow> bool" where "is_its_instance c \<equiv> as_its_instance c \<noteq> None"
abbreviation is_string_instance :: "'m engine_component \<Rightarrow> bool" where "is_string_instance c \<equiv> as_string_instance c \<noteq> None"

text \<open>The abstract classes \<open>Drawable\<close>, \<open>ButtonActor\<close> and \<open>EventListener\<close>.\<close>

fun is_drawable :: "'m engine_component \<Rightarrow> bool" where
  "is_drawable (CSprite s) = True"
| "is_drawable (CTeilSprite s) = True"
| "is_drawable (CInstancedSprite s) = True"
| "is_drawable (CInstancedTeilSprite s) = True"
| "is_drawable (CStringRenderer s) = True"
| "is_drawable _ = False"

fun is_actor :: "'m engine_component \<Rightarrow> bool" where
  "is_actor (CObjectKlicker k) = True" | "is_actor _ = False"

fun is_listener :: "'m engine_component \<Rightarrow> bool" where
  "is_listener (CDragMover d) = True"
| "is_listener (CButtonChecker b) = True"
| "is_listener _ = False"


section \<open>Access through component pointers\<close>

definition comp_at :: "'c heap \<Rightarrow> cref \<Rightarrow> 'c result" where
  "comp_at h r = bindR (get_obj h (fst r)) (\<lambda>g. bindR (vec_at (componenten g) (snd r)) (\<lambda>c. Inr (obj c)))"

definition upd_comp :: "cref \<Rightarrow> 'c \<Rightarrow> 'c heap \<Rightarrow> 'c heap result" where
  "upd_comp r x h =
     bindR (get_obj h (fst r)) (\<lambda>g.
     bindR (vec_at (componenten g) (snd r)) (\<lambda>c.
     Inr (h\<lparr>cells := (cells h)(fst r \<mapsto> g\<lparr>componenten := (componenten g)[snd r := c\<lparr>obj := x\<rparr>]\<rparr>)\<rparr>)))"

lemma comp_at_eq_Inr: "comp_at h r = Inr x \<longleftrightarrow>
    (\<exists>g. cells h (fst r) = Some g \<and> snd r < length (componenten g) \<and> x = obj (componenten g ! snd r))"
  by (auto simp: comp_at_def vec_at_def)

lemma upd_comp_total: "comp_at h r = Inr y \<Longrightarrow> \<exists>h'. upd_comp r x h = Inr h'"
  by (auto simp: comp_at_eq_Inr upd_comp_def)

lemma comp_at_upd:
  assumes "upd_comp r x h = Inr h'"
  shows "comp_at h' q = (if q = r then Inr x else comp_at h q)"
  using assms by (cases q; cases r) (auto simp: upd_comp_def comp_at_def vec_at_def get_obj_def split: if_splits)

lemma comp_at_upd_same [simp]: "upd_comp r x h = Inr h' \<Longrightarrow> comp_at h' r = Inr x"
  by (simp add: comp_at_upd)

text \<open>A cast to the wrong class gives a pointer whose members are not there.\<close>

definition cast_at :: "('c \<Rightarrow> 'x option) \<Rightarrow> 'c heap \<Rightarrow> cref \<Rightarrow> 'x result" where
  "cast_at as h r = bindR (comp_at h r) (\<lambda>c. case as c of None \<Rightarrow> Inl (Undefined BadCast) | Some x \<Rightarrow> Inr x)"

lemma cast_at_eq_Inr [simp]: "cast_at as h r = Inr x \<longleftrightarrow> (\<exists>c. comp_at h r = Inr c \<and> as c = Some x)"
  by (auto simp: cast_at_def split: option.splits)

lemma cast_at_Inr [simp]: "comp_at h r = Inr c \<Longrightarrow> as c = Some x \<Longrightarrow> cast_at as h r = Inr x"
  by (simp add: cast_at_def)

abbreviation transform_at :: "'m eheap \<Rightarrow> cref \<Rightarrow> 'm transform result" where "transform_at \<equiv> cast_at as_transform"
abbreviation kamera_at :: "'m eheap \<Rightarrow> cref \<Rightarrow> 'm kamera result" where "kamera_at \<equiv> cast_at as_kamera"
abbreviation button_at :: "'m eheap \<Rightarrow> cref \<Rightarrow> button result" where "button_at \<equiv> cast_at as_button"
abbreviation renderer_at :: "'m eheap \<Rightarrow> cref \<Rightarrow> drawable_renderer result" where "renderer_at \<equiv> cast_at as_renderer"

section \<open>Tables of registered components\<close>

text \<open>
  \<open>Button::addActor\<close>, \<open>InstancedTeilSprite::addInstance\<close>, \<open>StringRenderer::addInstance\<close>,
  \<open>DrawableRenderer::addDrawable\<close> and \<open>EventSystem::addEventListener\<close> all compute the same identity of a
  component: the identifier of its object and its rank among the components of its class there.
  \<open>rank_of\<close> is that search; \<open>resolve_rank\<close> is the expression the \<open>afterSet\<close> methods use to get the
  pointer back.
\<close>

definition rank_of :: "('c \<Rightarrow> bool) \<Rightarrow> 'c heap \<Rightarrow> cref \<Rightarrow> (int \<times> int) option result" where
  "rank_of P h el =
     bindR (get_obj h (fst el)) (\<lambda>g0.
     bindR (vec_at (componenten g0) (snd el)) (\<lambda>comp.
     bindR (deref (gameobject comp)) (\<lambda>owner.
     bindR (get_obj h owner) (\<lambda>g.
     Inr (map_option (\<lambda>i. (go_ID g, int i)) (find_index (\<lambda>c. c = el) (findComponents P owner g)))))))"

definition resolve_rank :: "('c \<Rightarrow> bool) \<Rightarrow> 'c heap \<Rightarrow> storage \<Rightarrow> int \<times> int \<Rightarrow> cref result" where
  "resolve_rank P h st p =
     bindR (deref (map_getById (objects st) (fst p))) (\<lambda>a.
     bindR (get_obj h a) (\<lambda>g.
     vec_at (findComponents P a g) (size_of_int (snd p))))"

text \<open>
  A component is \<open>registrable\<close> in a scene when its object is stored under its own identifier and
  owns it. Then the entry that registering computes leads back to it.
\<close>

definition registrable :: "('c \<Rightarrow> bool) \<Rightarrow> 'c heap \<Rightarrow> storage \<Rightarrow> cref \<Rightarrow> bool" where
  "registrable P h st el =
     (case cells h (fst el) of
        None \<Rightarrow> False
      | Some g \<Rightarrow> snd el < length (componenten g) \<and> gameobject (componenten g ! snd el) = Some (fst el) \<and>
          P (obj (componenten g ! snd el)) \<and> map_getById (objects st) (go_ID g) = Some (fst el) \<and>
          length (componenten g) < 2147483648)"

lemma rank_of_registrable:
  assumes "registrable P h st el"
  shows "\<exists>p. rank_of P h el = Inr (Some p) \<and> resolve_rank P h st p = Inr el"
proof -
  obtain g where g: "cells h (fst el) = Some g" and l: "snd el < length (componenten g)"
    and o: "gameobject (componenten g ! snd el) = Some (fst el)" and p: "P (obj (componenten g ! snd el))"
    and st: "map_getById (objects st) (go_ID g) = Some (fst el)" and n: "length (componenten g) < 2147483648"
    using assms by (auto simp: registrable_def split: option.splits)
  let ?hits = "hits_from 0 (\<lambda>c. P (obj c)) (componenten g)"
  have "snd el \<in> set ?hits" using l p by (simp add: hits_from_nth)
  then have "el \<in> set (findComponents P (fst el) g)"
    by (cases el) (auto simp: findComponents_def)
  then obtain i where i: "find_index (\<lambda>c. c = el) (findComponents P (fst el) g) = Some i"
    by (cases "find_index (\<lambda>c. c = el) (findComponents P (fst el) g)") auto
  have il: "i < length (findComponents P (fst el) g)" and ie: "findComponents P (fst el) g ! i = el"
    using find_index_SomeD[OF i] by simp_all
  have "length (findComponents P (fst el) g) \<le> length (componenten g)"
    by (simp add: findComponents_def length_hits_from length_filter_le)
  then have "size_of_int (int i) = i" using il n by (simp add: int_ok_def)
  moreover have "rank_of P h el = Inr (Some (go_ID g, int i))"
    using g l o i by (simp add: rank_of_def)
  ultimately show ?thesis using g st il ie by (simp add: resolve_rank_def)
qed


section \<open>The vector types in a stream\<close>

text \<open>The template operators copy the object representation: the floats in member order.\<close>

definition xmfloat3_bytes :: "xmfloat3 \<Rightarrow> byte list" where
  "xmfloat3_bytes v = f32_bytes (f3x v) @ f32_bytes (f3y v) @ f32_bytes (f3z v)"

definition xmfloat4_bytes :: "xmfloat4 \<Rightarrow> byte list" where
  "xmfloat4_bytes v = f32_bytes (f4x v) @ f32_bytes (f4y v) @ f32_bytes (f4z v) @ f32_bytes (f4w v)"

definition float6_bytes :: "float6 \<Rightarrow> byte list" where
  "float6_bytes v = f32_bytes (f6a v) @ f32_bytes (f6b v) @ f32_bytes (f6c v) @
     f32_bytes (f6d v) @ f32_bytes (f6e v) @ f32_bytes (f6f v)"

definition f32_at :: "nat \<Rightarrow> byte list \<Rightarrow> f32" where
  "f32_at i bs = bytes_f32 (take 4 (drop (4 * i) bs))"

definition bytes_xmfloat3 :: "byte list \<Rightarrow> xmfloat3" where
  "bytes_xmfloat3 bs = \<lparr>f3x = f32_at 0 bs, f3y = f32_at 1 bs, f3z = f32_at 2 bs\<rparr>"

definition bytes_xmfloat4 :: "byte list \<Rightarrow> xmfloat4" where
  "bytes_xmfloat4 bs = \<lparr>f4x = f32_at 0 bs, f4y = f32_at 1 bs, f4z = f32_at 2 bs, f4w = f32_at 3 bs\<rparr>"

definition bytes_float6 :: "byte list \<Rightarrow> float6" where
  "bytes_float6 bs = \<lparr>f6a = f32_at 0 bs, f6b = f32_at 1 bs, f6c = f32_at 2 bs,
     f6d = f32_at 3 bs, f6e = f32_at 4 bs, f6f = f32_at 5 bs\<rparr>"

abbreviation push_xmfloat3 :: "xmfloat3 \<Rightarrow> writer" where "push_xmfloat3 v \<equiv> push_pod (xmfloat3_bytes v)"
abbreviation push_xmfloat4 :: "xmfloat4 \<Rightarrow> writer" where "push_xmfloat4 v \<equiv> push_pod (xmfloat4_bytes v)"
abbreviation push_float6 :: "float6 \<Rightarrow> writer" where "push_float6 v \<equiv> push_pod (float6_bytes v)"

definition pop_xmfloat3 :: "('w, xmfloat3) reader" where
  "pop_xmfloat3 = bindP (pop_pod 12) (\<lambda>bs. retP (bytes_xmfloat3 bs))"

definition pop_xmfloat4 :: "('w, xmfloat4) reader" where
  "pop_xmfloat4 = bindP (pop_pod 16) (\<lambda>bs. retP (bytes_xmfloat4 bs))"

definition pop_float6 :: "('w, float6) reader" where
  "pop_float6 = bindP (pop_pod 24) (\<lambda>bs. retP (bytes_float6 bs))"

lemma bytes_xmfloat3_bytes [simp]: "bytes_xmfloat3 (xmfloat3_bytes v) = v"
  by (simp add: bytes_xmfloat3_def xmfloat3_bytes_def f32_at_def)

lemma bytes_xmfloat4_bytes [simp]: "bytes_xmfloat4 (xmfloat4_bytes v) = v"
  by (simp add: bytes_xmfloat4_def xmfloat4_bytes_def f32_at_def)

lemma bytes_float6_bytes [simp]: "bytes_float6 (float6_bytes v) = v"
  by (simp add: bytes_float6_def float6_bytes_def f32_at_def)

lemma length_vector_bytes [simp]:
  "length (xmfloat3_bytes a) = 12" "length (xmfloat4_bytes b) = 16" "length (float6_bytes c) = 24"
  by (simp_all add: xmfloat3_bytes_def xmfloat4_bytes_def float6_bytes_def)

lemma reads_vector [reads_intros]:
  "reads pop_xmfloat3 (xmfloat3_bytes a) a (\<lambda>w. w)"
  "reads pop_xmfloat4 (xmfloat4_bytes b) b (\<lambda>w. w)"
  "reads pop_float6 (float6_bytes c) c (\<lambda>w. w)"
  unfolding pop_xmfloat3_def pop_xmfloat4_def pop_float6_def by (rule reads_decode; simp)+

text \<open>Members that may be uninitialised: writing one has no defined result.\<close>

definition write_member :: "('a \<Rightarrow> writer) \<Rightarrow> 'a option \<Rightarrow> writer" where
  "write_member f x = (\<lambda>b. bindR (read_member x) (\<lambda>v. f v b))"

lemma write_member_Some [simp]: "write_member f (Some v) = f v"
  by (rule ext) (simp add: write_member_def)

text \<open>Pairs of \<open>int\<close>: pushed first then second, popped second then first.\<close>

definition push_pair :: "int \<times> int \<Rightarrow> writer" where
  "push_pair p = write_all [push_int (fst p), push_int (snd p)]"

definition pop_pair :: "('w, int \<times> int) reader" where
  "pop_pair = bindP pop_int (\<lambda>temp0. bindP pop_int (\<lambda>temp1. retP (temp1, temp0)))"

definition pair_bytes :: "int \<times> int \<Rightarrow> byte list" where
  "pair_bytes p = int_bytes (fst p) @ int_bytes (snd p)"

definition pair_ok :: "int \<times> int \<Rightarrow> bool" where
  "pair_ok p \<longleftrightarrow> int_ok (fst p) \<and> int_ok (snd p)"

interpretation pair_codec: codec push_pair pop_pair pair_bytes id "\<lambda>_ w. w" pair_ok
proof
  fix p :: "int \<times> int"
  assume "pair_ok p"
  then have i: "int_ok (fst p)" "int_ok (snd p)" by (simp_all add: pair_ok_def)
  have "appends (push_pair p) (int_bytes (fst p) @ int_bytes (snd p) @ [])"
    unfolding push_pair_def by (intro appends_Cons appends_Nil appends_pod)
  then show "appends (push_pair p) (pair_bytes p)" by (simp add: pair_bytes_def)
  have "reads pop_pair (([] @ int_bytes (fst p)) @ int_bytes (snd p)) (fst p, snd p) (\<lambda>w. w)"
    unfolding pop_pair_def
    by (rule reads_bind[OF reads_int[OF i(2)]] reads_bind[OF reads_int[OF i(1)]])+ (rule reads_ret)
  then show "reads pop_pair (pair_bytes p) (id p) (\<lambda>w. w)" by (simp add: pair_bytes_def)
qed

interpretation pair_vec: codec "write_vec push_pair" "read_vec pop_pair" "enc_vec pair_bytes"
    "map id" "eff_vec (\<lambda>_ w. w)" "ok_vec pair_ok"
  by (rule pair_codec.vec_codec)

end
