(* ===== verification/Transform.thy ===== *)
theory Transform
  imports Engine_Base
begin

text \<open>
  \<open>Engine/other/Transform.h\<close>: position, rotation and scale of an object, the cached matrix built from
  them and the pointer to the parent transform. \<open>GetWorldMatrix\<close> refreshes the caches along the chain
  of parents; \<open>fuel\<close> bounds the depth of its recursion. The abstract view is the chain of placements:
  the world matrix is the product of their matrices.
\<close>

section \<open>Construction and edits\<close>

definition vec3 :: "f32 \<Rightarrow> f32 \<Rightarrow> f32 \<Rightarrow> xmfloat3" where
  "vec3 x y z = \<lparr>f3x = x, f3y = y, f3z = z\<rparr>"

definition new_transform :: "'m transform" where
  "new_transform = \<lparr>m_position = vec3 f32_zero f32_zero f32_zero,
     m_rotation = vec3 f32_zero f32_zero f32_zero, m_scale = vec3 f32_one f32_one f32_one,
     m_dirty = True, m_matrix = None, pGOID = -1, m_parrent = Null\<rparr>"

definition SetPosition :: "xmfloat3 \<Rightarrow> 'm transform \<Rightarrow> 'm transform" where
  "SetPosition position t = t\<lparr>m_position := position, m_dirty := True\<rparr>"

definition SetPosition_xyz :: "f32 \<Rightarrow> f32 \<Rightarrow> f32 \<Rightarrow> 'm transform \<Rightarrow> 'm transform" where
  "SetPosition_xyz x y z t = t\<lparr>m_position := vec3 x y z, m_dirty := True\<rparr>"

definition SetRotation :: "xmfloat3 \<Rightarrow> 'm transform \<Rightarrow> 'm transform" where
  "SetRotation rotation t = t\<lparr>m_rotation := rotation, m_dirty := True\<rparr>"

definition SetRotation_xyz :: "f32 \<Rightarrow> f32 \<Rightarrow> f32 \<Rightarrow> 'm transform \<Rightarrow> 'm transform" where
  "SetRotation_xyz x y z t = t\<lparr>m_rotation := vec3 x y z, m_dirty := True\<rparr>"

definition SetScale :: "xmfloat3 \<Rightarrow> 'm transform \<Rightarrow> 'm transform" where
  "SetScale scale t = t\<lparr>m_scale := scale, m_dirty := True\<rparr>"

definition SetScale_xyz :: "f32 \<Rightarrow> f32 \<Rightarrow> f32 \<Rightarrow> 'm transform \<Rightarrow> 'm transform" where
  "SetScale_xyz x y z t = t\<lparr>m_scale := vec3 x y z, m_dirty := True\<rparr>"

definition vec3_add :: "xmfloat3 \<Rightarrow> f32 \<Rightarrow> f32 \<Rightarrow> f32 \<Rightarrow> xmfloat3" where
  "vec3_add v x y z = \<lparr>f3x = f32_add (f3x v) x, f3y = f32_add (f3y v) y, f3z = f32_add (f3z v) z\<rparr>"

definition AddPosition :: "xmfloat3 \<Rightarrow> 'm transform \<Rightarrow> 'm transform" where
  "AddPosition p t = t\<lparr>m_position := vec3_add (m_position t) (f3x p) (f3y p) (f3z p), m_dirty := True\<rparr>"

definition AddPosition_xyz :: "f32 \<Rightarrow> f32 \<Rightarrow> f32 \<Rightarrow> 'm transform \<Rightarrow> 'm transform" where
  "AddPosition_xyz x y z t = t\<lparr>m_position := vec3_add (m_position t) x y z, m_dirty := True\<rparr>"

definition AddRotation :: "xmfloat3 \<Rightarrow> 'm transform \<Rightarrow> 'm transform" where
  "AddRotation r t = t\<lparr>m_rotation := vec3_add (m_rotation t) (f3x r) (f3y r) (f3z r), m_dirty := True\<rparr>"

definition AddRotation_xyz :: "f32 \<Rightarrow> f32 \<Rightarrow> f32 \<Rightarrow> 'm transform \<Rightarrow> 'm transform" where
  "AddRotation_xyz x y z t = t\<lparr>m_rotation := vec3_add (m_rotation t) x y z, m_dirty := True\<rparr>"

definition AddScale :: "xmfloat3 \<Rightarrow> 'm transform \<Rightarrow> 'm transform" where
  "AddScale s t = t\<lparr>m_scale := vec3_add (m_scale t) (f3x s) (f3y s) (f3z s), m_dirty := True\<rparr>"

definition AddScale_xyz :: "f32 \<Rightarrow> f32 \<Rightarrow> f32 \<Rightarrow> 'm transform \<Rightarrow> 'm transform" where
  "AddScale_xyz x y z t = t\<lparr>m_scale := vec3_add (m_scale t) x y z, m_dirty := True\<rparr>"

text \<open>
  The pointer is set before the check that can throw, so the transform at that moment is returned
  beside the outcome.
\<close>

definition transform_setParrent :: "'m eheap \<Rightarrow> cref ptr \<Rightarrow> 'm transform \<Rightarrow> unit result \<times> 'm transform" where
  "transform_setParrent h parrent t =
     (let t = t\<lparr>m_parrent := parrent\<rparr> in
      case bindR (follow parrent) (\<lambda>p.
           bindR (get_obj h (fst p)) (\<lambda>g0.
           bindR (vec_at (componenten g0) (snd p)) (\<lambda>c.
           bindR (deref (gameobject c)) (\<lambda>a.
           bindR (get_obj h a) (\<lambda>g.
           if length (findComponents is_transform a g) \<noteq> 1
           then Inl (Exception ''parrent is not the only transform in Parrent Gameobject'')
           else Inr (go_ID g)))))) of
        Inl e \<Rightarrow> (Inl e, t)
      | Inr i \<Rightarrow> (Inr (), t\<lparr>pGOID := i\<rparr>))"


section \<open>The world matrix\<close>

text \<open>\<open>operator *\<close> of \<open>XMMATRIX\<close> is \<open>XMMatrixMultiply\<close>.\<close>

definition localMatrix :: "'m xnamath \<Rightarrow> 'm transform \<Rightarrow> 'm" where
  "localMatrix xm t =
     (let translation = XMMatrixTranslation xm (f3x (m_position t)) (f3y (m_position t)) (f3z (m_position t));
          rotationX = XMMatrixRotationX xm (f3x (m_rotation t));
          rotationY = XMMatrixRotationY xm (f3y (m_rotation t));
          rotationZ = XMMatrixRotationZ xm (f3z (m_rotation t));
          scale = XMMatrixScaling xm (f3x (m_scale t)) (f3y (m_scale t)) (f3z (m_scale t));
          mul = XMMatrixMultiply xm in
      mul (mul (mul (mul rotationX rotationY) rotationZ) translation) scale)"

definition refresh :: "'m xnamath \<Rightarrow> 'm transform \<Rightarrow> 'm transform" where
  "refresh xm t = (if m_dirty t then t\<lparr>m_matrix := Some (localMatrix xm t), m_dirty := False\<rparr> else t)"

fun GetWorldMatrix :: "nat \<Rightarrow> 'm xnamath \<Rightarrow> cref \<Rightarrow> 'm eheap \<Rightarrow> ('m \<times> 'm eheap) result" where
  "GetWorldMatrix 0 xm r h = Inl (Undefined NoReturn)"
| "GetWorldMatrix (Suc fuel) xm r h =
     bindR (transform_at h r) (\<lambda>t.
     let t = refresh xm t in
     bindR (upd_comp r (CTransform t) h) (\<lambda>h.
     bindR (non_null (m_parrent t)) (\<lambda>hasParrent.
     if hasParrent
     then bindR (follow (m_parrent t)) (\<lambda>p.
          bindR (read_member (m_matrix t)) (\<lambda>m.
          bindR (GetWorldMatrix fuel xm p h) (\<lambda>(mp, h).
          Inr (XMMatrixMultiply xm m mp, h))))
     else bindR (read_member (m_matrix t)) (\<lambda>m. Inr (m, h)))))"

text \<open>The same call on a transform that lives on the stack of its caller.\<close>

definition GetWorldMatrix_local ::
    "nat \<Rightarrow> 'm xnamath \<Rightarrow> 'm transform \<Rightarrow> 'm eheap \<Rightarrow> ('m \<times> 'm transform \<times> 'm eheap) result" where
  "GetWorldMatrix_local fuel xm t h =
     (let t = refresh xm t in
      bindR (non_null (m_parrent t)) (\<lambda>hasParrent.
      if hasParrent
      then bindR (follow (m_parrent t)) (\<lambda>p.
           bindR (read_member (m_matrix t)) (\<lambda>m.
           bindR (GetWorldMatrix fuel xm p h) (\<lambda>(mp, h).
           Inr (XMMatrixMultiply xm m mp, t, h))))
      else bindR (read_member (m_matrix t)) (\<lambda>m. Inr (m, t, h))))"

text \<open>Nothing but transforms changes.\<close>

lemma GetWorldMatrix_changes:
  "GetWorldMatrix n xm r h = Inr (m, h') \<Longrightarrow>
     comp_at h' q = comp_at h q \<or>
     (\<exists>t t'. comp_at h q = Inr (CTransform t) \<and> comp_at h' q = Inr (CTransform t'))"
proof (induction n arbitrary: r h m h')
  case 0
  then show ?case by simp
next
  case (Suc n)
  obtain t h1 where t: "comp_at h r = Inr (CTransform t)"
      and h1: "upd_comp r (CTransform (refresh xm t)) h = Inr h1"
    using Suc.prems(1) by (auto simp: Let_def)
  have ta: "transform_at h r = Inr t" using t by simp
  have c: "comp_at h1 q = (if q = r then Inr (CTransform (refresh xm t)) else comp_at h q)"
    by (rule comp_at_upd[OF h1])
  show ?case
  proof (cases "m_parrent (refresh xm t)")
    case (Ptr p)
    then obtain mp where mp: "GetWorldMatrix n xm p h1 = Inr (mp, h')"
      using Suc.prems(1) by (auto simp: ta h1 Let_def)
    show ?thesis using Suc.IH[OF mp] c t by (cases "q = r") auto
  qed (use Suc.prems(1) c t in \<open>simp_all add: ta h1 Let_def split: if_splits\<close>)
qed

lemma GetWorldMatrix_frame:
  "GetWorldMatrix n xm r h = Inr (m, h') \<Longrightarrow> comp_at h q = Inr c \<Longrightarrow> as_transform c = None \<Longrightarrow>
     comp_at h' q = Inr c"
  using GetWorldMatrix_changes[of n xm r h m h' q] by auto

text \<open>\<open>screenPos\<close> projects two corners of the unit square to the viewport.\<close>

definition screenCorner ::
    "'m xnamath \<Rightarrow> f32 \<Rightarrow> 'm \<Rightarrow> viewport \<Rightarrow> f32 \<times> f32" where
  "screenCorner xm c mat viewPort =
     (let el = matElem xm mat;
          row = (\<lambda>i. f32_add (f32_add (f32_add (f32_mul c (el i 0)) (f32_mul c (el i 1))) (el i 2)) (el i 3));
          temp = row 3;
          x = f32_div (row 0) temp;
          y = f32_div (row 1) temp in
      (f32_add (f32_mul (f32_mul (f32_add x f32_one) (vpWidth viewPort)) f32_half) (TopLeftX viewPort),
       f32_add (f32_mul (f32_mul (f32_sub f32_one y) (vpHeight viewPort)) f32_half) (TopLeftY viewPort)))"

definition screenPos ::
    "nat \<Rightarrow> 'm xnamath \<Rightarrow> cref \<Rightarrow> 'm \<Rightarrow> viewport \<Rightarrow> 'm eheap \<Rightarrow> (xmfloat4 \<times> 'm eheap) result" where
  "screenPos fuel xm r kameraViewMatrix viewPort h =
     bindR (GetWorldMatrix fuel xm r h) (\<lambda>(world, h).
     let mat = XMMatrixTranspose xm (XMMatrixMultiply xm world kameraViewMatrix);
         (x, y) = screenCorner xm f32_half mat viewPort;
         (z, w) = screenCorner xm (f32_neg f32_half) mat viewPort in
     Inr (\<lparr>f4x = x, f4y = y, f4z = z, f4w = w\<rparr>, h))"


lemma screenPos_changes:
  assumes "screenPos n xm r v vp h = Inr (p, h')"
  shows "comp_at h' q = comp_at h q \<or>
    (\<exists>t t'. comp_at h q = Inr (CTransform t) \<and> comp_at h' q = Inr (CTransform t'))"
proof -
  obtain w where "GetWorldMatrix n xm r h = Inr (w, h')"
    using assms by (cases "GetWorldMatrix n xm r h") (auto simp: screenPos_def Let_def split: prod.splits)
  then show ?thesis by (rule GetWorldMatrix_changes)
qed

lemma screenPos_frame:
  "screenPos n xm r v vp h = Inr (p, h') \<Longrightarrow> comp_at h q = Inr c \<Longrightarrow> as_transform c = None \<Longrightarrow>
     comp_at h' q = Inr c"
  using screenPos_changes[of n xm r v vp h p h' q] by auto


section \<open>Saving and loading\<close>

definition transform_serialize :: "'m transform \<Rightarrow> writer" where
  "transform_serialize t = write_all
     [push_xmfloat3 (m_position t), push_xmfloat3 (m_rotation t), push_xmfloat3 (m_scale t),
      push_int (pGOID t), push_cstr ''class Transform'']"

definition transform_set :: "'m transform \<Rightarrow> ('w, 'm transform) reader" where
  "transform_set t =
     bindP pop_int (\<lambda>i.
     bindP pop_xmfloat3 (\<lambda>scale.
     bindP pop_xmfloat3 (\<lambda>rotation.
     bindP pop_xmfloat3 (\<lambda>position.
     retP (t\<lparr>pGOID := i, m_scale := scale, m_rotation := rotation, m_position := position,
             m_dirty := True\<rparr>)))))"

definition transform_afterSet :: "'m eheap \<Rightarrow> storage \<Rightarrow> 'm transform \<Rightarrow> 'm transform result" where
  "transform_afterSet h st t =
     (if pGOID t \<noteq> -1
      then bindR (deref (map_getById (objects st) (pGOID t))) (\<lambda>a.
           bindR (get_obj h a) (\<lambda>g.
           bindR (vec_at (findComponents is_transform a g) 0) (\<lambda>p.
           Inr (t\<lparr>m_parrent := Ptr p\<rparr>))))
      else Inr t)"

definition transform_enc :: "'m transform \<Rightarrow> byte list" where
  "transform_enc t = xmfloat3_bytes (m_position t) @ xmfloat3_bytes (m_rotation t) @
     xmfloat3_bytes (m_scale t) @ int_bytes (pGOID t)"

definition transform_img :: "'m transform \<Rightarrow> 'm transform" where
  "transform_img t = new_transform\<lparr>m_position := m_position t, m_rotation := m_rotation t,
     m_scale := m_scale t, pGOID := pGOID t\<rparr>"

interpretation transform: class_codec "''class Transform''" new_transform transform_serialize
    transform_set transform_enc transform_img "\<lambda>_ w. w" "\<lambda>t. int_ok (pGOID t)"
proof
  fix t :: "'a transform"
  assume i: "int_ok (pGOID t)"
  have nm: "appends (push_cstr ''class Transform'') (enc_string ''class Transform'')"
    by (rule appends_class_name) simp
  have "appends (transform_serialize t) (xmfloat3_bytes (m_position t) @ xmfloat3_bytes (m_rotation t) @
      xmfloat3_bytes (m_scale t) @ int_bytes (pGOID t) @ enc_string ''class Transform'' @ [])"
    unfolding transform_serialize_def by (intro appends_Cons appends_Nil appends_pod nm)
  then show "appends (transform_serialize t) (transform_enc t @ enc_string ''class Transform'')"
    by (simp add: transform_enc_def)
  have "reads (transform_set new_transform) (((([] @ xmfloat3_bytes (m_position t)) @
      xmfloat3_bytes (m_rotation t)) @ xmfloat3_bytes (m_scale t)) @ int_bytes (pGOID t))
     (new_transform\<lparr>pGOID := pGOID t, m_scale := m_scale t, m_rotation := m_rotation t,
        m_position := m_position t, m_dirty := True\<rparr>) (\<lambda>w. w)"
    unfolding transform_set_def
    by (rule reads_bind[OF reads_int[OF i]] reads_bind[OF reads_vector(1)])+ (rule reads_ret)
  then show "reads (transform_set new_transform) (transform_enc t) (transform_img t) (\<lambda>w. w)"
    by (simp add: transform_enc_def transform_img_def new_transform_def)
qed



section \<open>The caches stay right\<close>

text \<open>The edits of the public interface.\<close>

datatype transform_edit =
    SetPos xmfloat3 | SetPosXYZ f32 f32 f32 | SetRot xmfloat3 | SetRotXYZ f32 f32 f32
  | SetSca xmfloat3 | SetScaXYZ f32 f32 f32 | AddPos xmfloat3 | AddPosXYZ f32 f32 f32
  | AddRot xmfloat3 | AddRotXYZ f32 f32 f32 | AddSca xmfloat3 | AddScaXYZ f32 f32 f32

fun apply_edit :: "transform_edit \<Rightarrow> 'm transform \<Rightarrow> 'm transform" where
  "apply_edit (SetPos v) = SetPosition v" | "apply_edit (SetPosXYZ x y z) = SetPosition_xyz x y z"
| "apply_edit (SetRot v) = SetRotation v" | "apply_edit (SetRotXYZ x y z) = SetRotation_xyz x y z"
| "apply_edit (SetSca v) = SetScale v" | "apply_edit (SetScaXYZ x y z) = SetScale_xyz x y z"
| "apply_edit (AddPos v) = AddPosition v" | "apply_edit (AddPosXYZ x y z) = AddPosition_xyz x y z"
| "apply_edit (AddRot v) = AddRotation v" | "apply_edit (AddRotXYZ x y z) = AddRotation_xyz x y z"
| "apply_edit (AddSca v) = AddScale v" | "apply_edit (AddScaXYZ x y z) = AddScale_xyz x y z"

lemmas edit_defs = SetPosition_def SetPosition_xyz_def SetRotation_def SetRotation_xyz_def SetScale_def
  SetScale_xyz_def AddPosition_def AddPosition_xyz_def AddRotation_def AddRotation_xyz_def AddScale_def
  AddScale_xyz_def

definition cached :: "'m xnamath \<Rightarrow> 'm transform \<Rightarrow> bool" where
  "cached xm t \<longleftrightarrow> m_dirty t \<or> m_matrix t = Some (localMatrix xm t)"

definition coherent :: "'m xnamath \<Rightarrow> 'm eheap \<Rightarrow> bool" where
  "coherent xm h \<longleftrightarrow> (\<forall>r t. comp_at h r = Inr (CTransform t) \<longrightarrow> cached xm t)"

lemma coherentD: "coherent xm h \<Longrightarrow> comp_at h r = Inr (CTransform t) \<Longrightarrow> cached xm t"
  unfolding coherent_def by blast

lemma coherentI: "(\<And>r t. comp_at h r = Inr (CTransform t) \<Longrightarrow> cached xm t) \<Longrightarrow> coherent xm h"
  unfolding coherent_def by blast

lemma localMatrix_same [simp]:
  "localMatrix xm (t\<lparr>m_matrix := x, m_dirty := d\<rparr>) = localMatrix xm t"
  "localMatrix xm (t\<lparr>pGOID := i\<rparr>) = localMatrix xm t"
  "localMatrix xm (t\<lparr>m_parrent := p\<rparr>) = localMatrix xm t"
  by (simp_all add: localMatrix_def)

lemma cached_new: "cached xm new_transform"
  by (simp add: cached_def new_transform_def)

lemma cached_edit: "cached xm (apply_edit e t)"
  by (cases e) (simp_all add: cached_def edit_defs)

lemma cached_refresh: "cached xm t \<Longrightarrow> m_matrix (refresh xm t) = Some (localMatrix xm t)"
  by (auto simp: cached_def refresh_def)

lemma refresh_same [simp]:
  "m_position (refresh xm t) = m_position t" "m_rotation (refresh xm t) = m_rotation t"
  "m_scale (refresh xm t) = m_scale t" "m_parrent (refresh xm t) = m_parrent t" "pGOID (refresh xm t) = pGOID t"
  by (simp_all add: refresh_def)

lemma cached_refreshed: "cached xm t \<Longrightarrow> cached xm (refresh xm t)"
  by (auto simp: cached_def refresh_def)

lemma cached_setParrent: "cached xm t \<Longrightarrow> cached xm (snd (transform_setParrent h p t))"
  by (simp add: transform_setParrent_def Let_def cached_def split: sum.splits)

lemma coherent_upd:
  "coherent xm h \<Longrightarrow> upd_comp r (CTransform t) h = Inr h' \<Longrightarrow> cached xm t \<Longrightarrow> coherent xm h'"
  by (rule coherentI) (auto simp: comp_at_upd split: if_splits dest: coherentD)


section \<open>The chain of placements\<close>

definition placement :: "'m transform \<Rightarrow> xmfloat3 \<times> xmfloat3 \<times> xmfloat3" where
  "placement t = (m_position t, m_rotation t, m_scale t)"

fun chain :: "'m eheap \<Rightarrow> cref \<Rightarrow> (xmfloat3 \<times> xmfloat3 \<times> xmfloat3) list \<Rightarrow> bool" where
  "chain h r [] = False"
| "chain h r (g # gs) =
     (case transform_at h r of
        Inl e \<Rightarrow> False
      | Inr t \<Rightarrow> placement t = g \<and>
          (case m_parrent t of Wild \<Rightarrow> False | Null \<Rightarrow> gs = [] | Ptr p \<Rightarrow> chain h p gs))"

definition placement_matrix :: "'m xnamath \<Rightarrow> xmfloat3 \<times> xmfloat3 \<times> xmfloat3 \<Rightarrow> 'm" where
  "placement_matrix xm = (\<lambda>(p, r, s). localMatrix xm (new_transform\<lparr>m_position := p, m_rotation := r, m_scale := s\<rparr>))"

fun world_product :: "'m xnamath \<Rightarrow> (xmfloat3 \<times> xmfloat3 \<times> xmfloat3) list \<Rightarrow> 'm" where
  "world_product xm [] = placement_matrix xm (placement (new_transform :: 'm transform))"
| "world_product xm [g] = placement_matrix xm g"
| "world_product xm (g # gs) = XMMatrixMultiply xm (placement_matrix xm g) (world_product xm gs)"

lemma placement_matrix_local: "placement_matrix xm (placement t) = localMatrix xm t"
  by (simp add: placement_matrix_def placement_def localMatrix_def)

lemma transform_at_upd: "upd_comp r (CTransform t) h = Inr h' \<Longrightarrow>
    transform_at h' q = (if q = r then Inr t else transform_at h q)"
  by (simp add: cast_at_def comp_at_upd)

lemma chain_upd_refresh:
  assumes "transform_at h r = Inr t" and "upd_comp r (CTransform (refresh xm t)) h = Inr h'"
  shows "chain h' q gs = chain h q gs"
proof (induction gs arbitrary: q)
  case Nil
  then show ?case by simp
next
  case (Cons g gs)
  show ?case
  proof (cases "q = r")
    case True
    then show ?thesis using assms(1)
      by (simp add: transform_at_upd[OF assms(2)] Cons.IH placement_def split: ptr.split)
  next
    case False
    then show ?thesis by (simp add: transform_at_upd[OF assms(2)] Cons.IH split: ptr.split sum.split)
  qed
qed

lemma chain_Cons:
  assumes "chain h r gs"
  obtains t ks where "transform_at h r = Inr t" "gs = placement t # ks"
    "m_parrent t = Null \<and> ks = [] \<or> (\<exists>p. m_parrent t = Ptr p \<and> chain h p ks)"
proof (cases gs)
  case Nil
  then show ?thesis using assms by simp
next
  case (Cons g ks)
  then obtain t where t: "transform_at h r = Inr t" using assms by (auto split: sum.splits)
  have "placement t = g" using assms Cons by (simp add: t)
  moreover have "m_parrent t = Null \<and> ks = [] \<or> (\<exists>p. m_parrent t = Ptr p \<and> chain h p ks)"
    using assms Cons by (simp add: t del: split_paired_Ex split: ptr.splits)
  ultimately show ?thesis using Cons t that by blast
qed

lemma GetWorldMatrix_chain:
  assumes "coherent xm h" and "chain h r gs" and "length gs \<le> fuel"
  shows "\<exists>h'. GetWorldMatrix fuel xm r h = Inr (world_product xm gs, h') \<and> coherent xm h' \<and>
     (\<forall>q ks. chain h' q ks = chain h q ks)"
  using assms
proof (induction fuel arbitrary: r h gs)
  case 0
  then show ?case by (cases gs) simp_all
next
  case (Suc fuel)
  obtain t ks where t: "transform_at h r = Inr t" and gs: "gs = placement t # ks"
    and p: "m_parrent t = Null \<and> ks = [] \<or> (\<exists>p. m_parrent t = Ptr p \<and> chain h p ks)"
    using chain_Cons[OF Suc.prems(2)] by metis
  have ct: "cached xm t" using coherentD[OF Suc.prems(1)] t by simp
  obtain h1 where h1: "upd_comp r (CTransform (refresh xm t)) h = Inr h1"
    using t by (auto dest: upd_comp_total)
  have coh: "coherent xm h1" by (rule coherent_upd[OF Suc.prems(1) h1 cached_refreshed[OF ct]])
  note ch = chain_upd_refresh[OF t h1]
  from p show ?case
  proof
    assume "m_parrent t = Null \<and> ks = []"
    then show ?thesis
      using h1 coh ch ct by (simp add: t gs cached_refresh placement_matrix_local)
  next
    assume "\<exists>p. m_parrent t = Ptr p \<and> chain h p ks"
    then obtain q where q: "m_parrent t = Ptr q" "chain h q ks" by blast
    then obtain h2 where h2: "GetWorldMatrix fuel xm q h1 = Inr (world_product xm ks, h2)"
        "coherent xm h2" "\<forall>q ks. chain h2 q ks = chain h1 q ks"
      using Suc.IH[OF coh, of q ks] ch Suc.prems(3) gs by auto
    obtain k ks' where "ks = k # ks'" using q(2) by (cases ks) auto
    then show ?thesis using h1 h2 ch ct q by (simp add: t gs cached_refresh placement_matrix_local)
  qed
qed

text \<open>Heaps reached by creating transforms, editing them, attaching them and reading matrices.\<close>

inductive transforms :: "nat \<Rightarrow> 'm xnamath \<Rightarrow> 'm eheap \<Rightarrow> bool" for fuel xm where
  start: "(\<And>r t. comp_at h r = Inr (CTransform t) \<Longrightarrow> t = new_transform) \<Longrightarrow> transforms fuel xm h"
| grow: "transforms fuel xm h \<Longrightarrow>
     (\<And>r t. comp_at h' r = Inr (CTransform t) \<Longrightarrow> comp_at h r = Inr (CTransform t) \<or> t = new_transform) \<Longrightarrow>
     transforms fuel xm h'"
| edit: "transforms fuel xm h \<Longrightarrow> transform_at h r = Inr t \<Longrightarrow>
     upd_comp r (CTransform (apply_edit e t)) h = Inr h' \<Longrightarrow> transforms fuel xm h'"
| attach: "transforms fuel xm h \<Longrightarrow> transform_at h r = Inr t \<Longrightarrow>
     upd_comp r (CTransform (snd (transform_setParrent h p t))) h = Inr h' \<Longrightarrow> transforms fuel xm h'"
| look: "transforms fuel xm h \<Longrightarrow> GetWorldMatrix fuel xm r h = Inr (m, h') \<Longrightarrow> transforms fuel xm h'"

lemma GetWorldMatrix_coherent:
  "GetWorldMatrix n xm r h = Inr (m, h') \<Longrightarrow> coherent xm h \<Longrightarrow> coherent xm h'"
proof (induction n arbitrary: r h m h')
  case 0
  then show ?case by simp
next
  case (Suc n)
  obtain t where t: "comp_at h r = Inr (CTransform t)"
    using Suc.prems(1) by (auto simp: Let_def)
  then obtain h1 where h1: "upd_comp r (CTransform (refresh xm t)) h = Inr h1"
    by (auto dest: upd_comp_total)
  have ta: "transform_at h r = Inr t" using t by simp
  have "cached xm t" using coherentD[OF Suc.prems(2) t] .
  then have coh: "coherent xm h1" by (rule coherent_upd[OF Suc.prems(2) h1 cached_refreshed])
  show ?case
  proof (cases "m_parrent t")
    case Wild
    then show ?thesis using Suc.prems(1) by (simp add: ta h1)
  next
    case Null
    then show ?thesis using Suc.prems(1) coh by (simp add: ta h1)
  next
    case (Ptr p)
    then obtain mp where "GetWorldMatrix n xm p h1 = Inr (mp, h')"
      using Suc.prems(1) by (auto simp: ta h1)
    then show ?thesis using Suc.IH coh by blast
  qed
qed

lemma transforms_coherent: "transforms fuel xm h \<Longrightarrow> coherent xm h"
proof (induction rule: transforms.induct)
  case (start h)
  then show ?case by (intro coherentI) (metis cached_new)
next
  case (grow h h')
  then show ?case by (intro coherentI) (metis coherentD cached_new)
next
  case (edit h r t e h')
  then show ?case by (blast intro: coherent_upd cached_edit)
next
  case (attach h r t p h')
  have "comp_at h r = Inr (CTransform t)" using attach(2) by simp
  then have "cached xm t" by (rule coherentD[OF attach(4)])
  then show ?case using attach by (blast intro: coherent_upd cached_setParrent)
next
  case (look h r m h')
  then show ?case by (blast intro: GetWorldMatrix_coherent)
qed


section \<open>Properties\<close>

text \<open>
  C30. Whatever transforms were created, edited, attached and looked at before, \<open>GetWorldMatrix\<close> returns
  the product of the current placements along the chain of parents: a cached matrix is never stale.
  It returns as soon as the chain ends, within as many nested calls as the chain has members.
\<close>

theorem world_matrix_is_product:
  assumes "transforms n xm h" and "chain h r gs" and "length gs \<le> fuel"
  shows "\<exists>h'. GetWorldMatrix fuel xm r h = Inr (world_product xm gs, h') \<and> coherent xm h'"
  using GetWorldMatrix_chain[OF transforms_coherent[OF assms(1)] assms(2,3)] by blast

text \<open>Two transforms, the second attached to the first and moved.\<close>

definition holder :: "addr \<Rightarrow> int \<Rightarrow> 'm engine_component list \<Rightarrow> 'm engine_component game_object" where
  "holder a i cs = new_game_object\<lparr>go_ID := i,
     componenten := map (\<lambda>c. \<lparr>isActiv = None, gameobject = Some a, obj = c\<rparr>) cs\<rparr>"

definition pair_heap :: "'m transform \<Rightarrow> 'm transform \<Rightarrow> 'm eheap" where
  "pair_heap t u = \<lparr>cells = [0 \<mapsto> holder 0 0 [CTransform t], 1 \<mapsto> holder 1 1 [CTransform u]], next_addr = 2\<rparr>"

definition moved_child :: "'m transform" where
  "moved_child = apply_edit (SetPosXYZ f32_one f32_zero f32_zero)
     (new_transform\<lparr>m_parrent := Ptr (0, 0), pGOID := 0\<rparr>)"

lemma comp_at_pair_heap: "comp_at (pair_heap t u) r =
    (if r = (0, 0) then Inr (CTransform t) else if r = (1, 0) then Inr (CTransform u)
     else if fst r = 0 \<or> fst r = 1 then Inl (Undefined OutOfBounds) else Inl (Undefined Dangling))"
  by (cases r) (auto simp: comp_at_def pair_heap_def holder_def get_obj_def vec_at_def new_game_object_def)

lemma upd_pair_heap:
  "upd_comp (0, 0) (CTransform t') (pair_heap t u) = Inr (pair_heap t' u)"
  "upd_comp (1, 0) (CTransform u') (pair_heap t u) = Inr (pair_heap t u')"
  by (auto simp: upd_comp_def pair_heap_def holder_def new_game_object_def fun_eq_iff)

lemma attach_pair_heap:
  "transform_setParrent (pair_heap t u) (Ptr (0, 0)) v = (Inr (), v\<lparr>m_parrent := Ptr (0, 0), pGOID := 0\<rparr>)"
  by (simp add: transform_setParrent_def pair_heap_def holder_def new_game_object_def findComponents_def Let_def)

lemma pair_heap_reached: "transforms n xm (pair_heap new_transform moved_child)"
proof -
  have 0: "transforms n xm (pair_heap new_transform new_transform)"
    by (rule transforms.start) (auto simp: comp_at_pair_heap split: if_splits)
  have 1: "transforms n xm (pair_heap new_transform (new_transform\<lparr>m_parrent := Ptr (0, 0), pGOID := 0\<rparr>))"
    by (rule transforms.attach[OF 0, of "(1, 0)" _ "Ptr (0, 0)"])
      (simp_all add: comp_at_pair_heap attach_pair_heap upd_pair_heap upd_pair_heap[simplified])
  show ?thesis
    by (rule transforms.edit[OF 1, of "(1, 0)" _ "SetPosXYZ f32_one f32_zero f32_zero"])
      (simp_all add: comp_at_pair_heap upd_pair_heap[simplified] moved_child_def)
qed

text \<open>
  A matrix library for the instances below: matrices of floats, with the documented layout of
  translation, scaling and the two projections; its rotations ignore the angle.
\<close>

type_synonym matrix = "nat \<Rightarrow> nat \<Rightarrow> f32"

definition scaling_matrix :: "f32 \<Rightarrow> f32 \<Rightarrow> f32 \<Rightarrow> matrix" where
  "scaling_matrix x y z i j = (if i \<noteq> j then f32_zero else if i = 0 then x else if i = 1 then y else
     if i = 2 then z else f32_one)"

definition translation_matrix :: "f32 \<Rightarrow> f32 \<Rightarrow> f32 \<Rightarrow> matrix" where
  "translation_matrix x y z i j = (if i = 3 \<and> j < 3 then [x, y, z] ! j else
     scaling_matrix f32_one f32_one f32_one i j)"

definition multiply_matrix :: "matrix \<Rightarrow> matrix \<Rightarrow> matrix" where
  "multiply_matrix a b i j = f32_add (f32_add (f32_add (f32_mul (a i 0) (b 0 j)) (f32_mul (a i 1) (b 1 j)))
     (f32_mul (a i 2) (b 2 j))) (f32_mul (a i 3) (b 3 j))"

definition projection_entries :: "bool \<Rightarrow> f32 \<Rightarrow> f32 \<Rightarrow> f32 \<Rightarrow> f32 \<Rightarrow> f32 \<Rightarrow> f32 \<Rightarrow> matrix" where
  "projection_entries ortho l r b t n f i j =
     (let w = f32_sub r l; h = f32_sub t b; d = f32_sub f n in
      if i = 0 \<and> j = 0 then f32_div (if ortho then f32_two else f32_mul f32_two n) w
      else if i = 1 \<and> j = 1 then f32_div (if ortho then f32_two else f32_mul f32_two n) h
      else if i = 2 \<and> j = 2 then f32_div (if ortho then f32_one else f) d
      else if i = 2 \<and> j = 3 then (if ortho then f32_zero else f32_one)
      else if i = 3 \<and> j = 2 then f32_div (f32_neg (if ortho then n else f32_mul n f)) d
      else if i = 3 \<and> j = 3 then (if ortho then f32_one else f32_zero)
      else f32_zero)"

definition plain_xna :: "matrix xnamath" where
  "plain_xna = \<lparr>XMMatrixTranslation = translation_matrix,
     XMMatrixRotationX = (\<lambda>_. scaling_matrix f32_one f32_one f32_one),
     XMMatrixRotationY = (\<lambda>_. scaling_matrix f32_one f32_one f32_one),
     XMMatrixRotationZ = (\<lambda>_. scaling_matrix f32_one f32_one f32_one),
     XMMatrixScaling = scaling_matrix, XMMatrixMultiply = multiply_matrix,
     XMMatrixTranspose = (\<lambda>m i j. m j i),
     XMMatrixOrthographicOffCenterLH = projection_entries True,
     XMMatrixPerspectiveOffCenterLH = projection_entries False,
     matElem = (\<lambda>m. m)\<rparr>"

theorem world_matrix_is_product_witness:
  "\<exists>h'. GetWorldMatrix 2 plain_xna (1, 0) (pair_heap new_transform moved_child) =
     Inr (XMMatrixMultiply plain_xna (placement_matrix plain_xna (placement (moved_child :: matrix transform)))
        (placement_matrix plain_xna (placement (new_transform :: matrix transform))), h') \<and> coherent plain_xna h'"
proof -
  have "chain (pair_heap new_transform moved_child) (1, 0)
      [placement (moved_child :: matrix transform), placement (new_transform :: matrix transform)]"
    by (simp add: cast_at_def comp_at_pair_heap moved_child_def edit_defs new_transform_def placement_def)
  from world_matrix_is_product[OF pair_heap_reached this, of 2] show ?thesis by simp
qed

lemma self_parent_diverges:
  "transform_at h r = Inr t \<Longrightarrow> cached xm t \<Longrightarrow> m_parrent t = Ptr r \<Longrightarrow>
     GetWorldMatrix fuel xm r h = Inl (Undefined NoReturn)"
proof (induction fuel arbitrary: h t)
  case 0
  then show ?case by simp
next
  case (Suc fuel)
  obtain h1 where h1: "upd_comp r (CTransform (refresh xm t)) h = Inr h1"
    using Suc.prems(1) by (auto dest: upd_comp_total)
  have "GetWorldMatrix fuel xm r h1 = Inl (Undefined NoReturn)"
    by (rule Suc.IH[of _ "refresh xm t"])
      (use Suc.prems h1 in \<open>simp_all add: cached_refreshed transform_at_upd\<close>)
  then show ?case using Suc.prems h1 by (simp add: cached_refresh)
qed

text \<open>
  \<open>setParrent\<close> of a transform accepts any transform as parent, also itself: then \<open>GetWorldMatrix\<close>
  calls itself without end, whatever its depth.
\<close>

theorem transform_cycle_diverges:
  assumes "transforms n xm h" and "transform_at h r = Inr t"
    and "upd_comp r (CTransform (snd (transform_setParrent h (Ptr r) t))) h = Inr h'"
  shows "GetWorldMatrix fuel xm r h' = Inl (Undefined NoReturn)"
proof (rule self_parent_diverges)
  have "comp_at h r = Inr (CTransform t)" using assms(2) by simp
  then show "cached xm (snd (transform_setParrent h (Ptr r) t))"
    using cached_setParrent coherentD[OF transforms_coherent[OF assms(1)]] by blast
  show "transform_at h' r = Inr (snd (transform_setParrent h (Ptr r) t))"
    using transform_at_upd[OF assms(3), of r] by simp
  show "m_parrent (snd (transform_setParrent h (Ptr r) t)) = Ptr r"
    by (simp add: transform_setParrent_def Let_def split: sum.split)
qed

theorem transform_cycle_diverges_witness:
  "GetWorldMatrix 1000 plain_xna (0, 0) (pair_heap (new_transform\<lparr>m_parrent := Ptr (0, 0), pGOID := 0\<rparr>) moved_child)
     = Inl (Undefined NoReturn)"
  by (rule transform_cycle_diverges[OF pair_heap_reached, where t = new_transform])
    (simp_all add: comp_at_pair_heap attach_pair_heap upd_pair_heap)

text \<open>
  Attaching a transform to the transform of a stored game object survives saving: \<open>set\<close> restores the
  placement and the identifier of the parent's object, and \<open>afterSet\<close> finds the parent's transform again.
\<close>

theorem attached_parent_is_restored:
  assumes "transform_setParrent h (Ptr p) t = (Inr (), t')"
    and "registrable is_transform h st p" and "int_ok (pGOID t')" and "pGOID t' \<noteq> -1"
    and "length b + length (transform_enc t') < 2147483648"
  shows "\<exists>u. transform_set new_transform (b @ transform_enc t', w) = Inr (u, (b, w)) \<and>
    placement u = placement t \<and> transform_afterSet h st u = Inr (u\<lparr>m_parrent := Ptr p\<rparr>)"
proof -
  obtain g where g: "cells h (fst p) = Some g" "gameobject (componenten g ! snd p) = Some (fst p)"
      "snd p < length (componenten g)" "is_transform (obj (componenten g ! snd p))"
      "map_getById (objects st) (go_ID g) = Some (fst p)"
    using assms(2) by (auto simp: registrable_def split: option.splits)
  then have t': "t' = t\<lparr>m_parrent := Ptr p, pGOID := go_ID g\<rparr>"
      and one: "length (findComponents is_transform (fst p) g) = 1"
    using assms(1) by (auto simp: transform_setParrent_def Let_def split: sum.splits if_splits)
  have "snd p \<in> set (hits_from 0 (\<lambda>c. is_transform (obj c)) (componenten g))"
    using g by (simp add: hits_from_nth)
  then have "p \<in> set (findComponents is_transform (fst p) g)"
    by (cases p) (auto simp: findComponents_def)
  then have fc: "findComponents is_transform (fst p) g = [p]"
    using one by (cases "findComponents is_transform (fst p) g") auto
  let ?u = "transform_img t'"
  have "transform_set new_transform (b @ transform_enc t', w) = Inr (?u, (b, w))"
    by (rule readsD[OF transform.set_reads[OF assms(3)] assms(5)])
  moreover have "placement ?u = placement t" by (simp add: transform_img_def placement_def t')
  moreover have "transform_afterSet h st ?u = Inr (?u\<lparr>m_parrent := Ptr p\<rparr>)"
    using assms(4) g fc by (simp add: transform_afterSet_def transform_img_def t')
  ultimately show ?thesis by blast
qed

theorem attached_parent_is_restored_witness:
  "\<exists>u. transform_set (new_transform :: unit transform) (transform_enc (new_transform\<lparr>m_parrent := Ptr (0, 0), pGOID := 0\<rparr> :: unit transform), ()) = Inr (u, ([], ())) \<and>
     transform_afterSet (pair_heap new_transform new_transform) \<lparr>objects = [(0, 0), (1, 1)], counter = 2\<rparr> u
       = Inr (u\<lparr>m_parrent := Ptr (0, 0)\<rparr>)"
proof -
  have r: "registrable is_transform (pair_heap new_transform (new_transform :: unit transform))
      \<lparr>objects = [(0, 0), (1, 1)], counter = 2\<rparr> (0, 0)"
    by (simp add: registrable_def pair_heap_def holder_def new_game_object_def map_getById_def)
  show ?thesis
    using attached_parent_is_restored[OF attach_pair_heap r, of new_transform "[]" "()"]
    by (auto simp: int_ok_def transform_enc_def)
qed

end
