(* ===== verification/Graphics.thy ===== *)
theory Graphics
  imports Transform "HOL-Library.Multiset"
begin

text \<open>
  Direct3D and Win32 as an environment. The program makes calls; the environment is a function that
  answers a call from the history of calls and answers so far, so nothing is assumed about it that the
  theorems do not name. The state of the engine is the heap of game objects and this history. The
  handles that answers hand out and the handles the program releases are read off the history.
\<close>

section \<open>Calls and answers\<close>

type_synonym vertex = "xmfloat3 \<times> f32 \<times> f32"

datatype 'm d3d_call =
    GetClientRect "handle ptr"
  | CreateDeviceAndSwapChain "handle ptr" int int int int int bool
  | GetBuffer handle
  | CreateRenderTargetView handle "handle ptr"
  | OMSetRenderTargets handle "handle ptr"
  | RSSetViewports handle viewport
  | RSGetViewports handle
  | CompileFromFile string string string
  | OutputDebugString handle
  | CreateVertexShader handle handle
  | CreateInputLayout handle nat handle
  | CreatePixelShader handle handle
  | CreateTextureView handle string
  | CreateSamplerState handle
  | GetResource handle
  | GetDesc handle
  | CreateVertexBuffer handle nat "vertex list"
  | CreateConstantBuffer handle nat bool
  | CreateBlendState handle
  | OMSetBlendState handle "handle ptr"
  | Release handle
  | ClearRenderTargetView handle "handle ptr" "f32 list"
  | Present handle
  | IASetInputLayout handle "handle ptr"
  | IASetVertexBuffers handle "handle ptr" nat
  | IASetPrimitiveTopology handle
  | VSSetShader handle "handle ptr"
  | PSSetShader handle "handle ptr"
  | PSSetShaderResources handle "handle ptr"
  | PSSetSamplers handle "handle ptr"
  | UpdateSubresource handle "handle ptr" 'm
  | MapDiscard handle "handle ptr"
  | CopyInstance xmfloat4 'm
  | Unmap handle "handle ptr"
  | VSSetConstantBuffers handle "handle ptr"
  | Draw handle nat nat
  | GetCursorPos
  | ScreenToClient "handle ptr" int int
  | MessageBox string
  | PostQuitMessage int

text \<open>
  An answer: success or failure, up to three pointers written through out-parameters (\<open>None\<close>: not
  written), two integers (the size of a texture or window, the position of the cursor) and a viewport.
\<close>

record reply =
  r_failed :: bool
  r_out :: "handle ptr option list"
  r_int0 :: int
  r_int1 :: int
  r_viewport :: viewport

type_synonym 'm history = "('m d3d_call \<times> reply) list"

record 'm env =
  env_xna :: "'m xnamath"
  env_ask :: "'m history \<Rightarrow> 'm d3d_call \<Rightarrow> reply"

record 'm engine =
  sheap :: "'m eheap"
  hist :: "'m history"

type_synonym ('m, 'a) act = "'m engine \<Rightarrow> ('a \<times> 'm engine) result"

definition retA :: "'a \<Rightarrow> ('m, 'a) act" where
  "retA x = (\<lambda>s. Inr (x, s))"

definition bindA :: "('m, 'a) act \<Rightarrow> ('a \<Rightarrow> ('m, 'b) act) \<Rightarrow> ('m, 'b) act" where
  "bindA m f = (\<lambda>s. bindR (m s) (\<lambda>(x, s'). f x s'))"

definition callA :: "'m env \<Rightarrow> 'm d3d_call \<Rightarrow> ('m, reply) act" where
  "callA env c = (\<lambda>s. let r = env_ask env (hist s) c in Inr (r, s\<lparr>hist := hist s @ [(c, r)]\<rparr>))"

definition liftA :: "'a result \<Rightarrow> ('m, 'a) act" where
  "liftA x = (\<lambda>s. bindR x (\<lambda>v. Inr (v, s)))"

definition readA :: "('m eheap \<Rightarrow> 'a result) \<Rightarrow> ('m, 'a) act" where
  "readA f = (\<lambda>s. bindR (f (sheap s)) (\<lambda>v. Inr (v, s)))"

definition heapA :: "('m eheap \<Rightarrow> ('a \<times> 'm eheap) result) \<Rightarrow> ('m, 'a) act" where
  "heapA f = (\<lambda>s. bindR (f (sheap s)) (\<lambda>(v, h). Inr (v, s\<lparr>sheap := h\<rparr>)))"

definition writeA :: "cref \<Rightarrow> 'm engine_component \<Rightarrow> ('m, unit) act" where
  "writeA r c = (\<lambda>s. bindR (upd_comp r c (sheap s)) (\<lambda>h. Inr ((), s\<lparr>sheap := h\<rparr>)))"

text \<open>A number that no earlier object has: the length of the history, which only grows.\<close>

definition freshA :: "('m, nat) act" where
  "freshA = (\<lambda>s. Inr (length (hist s), s))"

lemmas act_defs = retA_def bindA_def callA_def liftA_def readA_def heapA_def writeA_def freshA_def

text \<open>A pointer member passed as \<open>&member\<close>.\<close>

definition out_ptr :: "nat \<Rightarrow> reply \<Rightarrow> handle ptr \<Rightarrow> handle ptr" where
  "out_ptr i r old = (if i < length (r_out r) then (case r_out r ! i of None \<Rightarrow> old | Some p \<Rightarrow> p) else old)"

text \<open>A loop over a list whose body returns \<open>false\<close> to leave with \<open>false\<close>.\<close>

fun allA :: "('a \<Rightarrow> ('m, bool) act) \<Rightarrow> 'a list \<Rightarrow> ('m, bool) act" where
  "allA f [] = retA True"
| "allA f (x # xs) = bindA (f x) (\<lambda>ok. if ok then allA f xs else retA False)"

fun eachA :: "('a \<Rightarrow> ('m, unit) act) \<Rightarrow> 'a list \<Rightarrow> ('m, unit) act" where
  "eachA f [] = retA ()"
| "eachA f (x # xs) = bindA (f x) (\<lambda>_. eachA f xs)"

text \<open>\<open>if (p) p->Release(); p = NULL;\<close> \<close>

definition release_ptr :: "'m env \<Rightarrow> handle ptr \<Rightarrow> ('m, unit) act" where
  "release_ptr env p =
     bindA (liftA (non_null p)) (\<lambda>there.
     if there then bindA (liftA (follow p)) (\<lambda>h. bindA (callA env (Release h)) (\<lambda>_. retA ()))
     else retA ())"


section \<open>Who owns which handle\<close>

definition ptr_handles :: "handle ptr \<Rightarrow> handle multiset" where
  "ptr_handles p = (case p of Ptr h \<Rightarrow> {#h#} | _ \<Rightarrow> {#})"

lemma ptr_handles_simps [simp]:
  "ptr_handles (Ptr h) = {#h#}" "ptr_handles Null = {#}" "ptr_handles Wild = {#}"
  by (simp_all add: ptr_handles_def)

definition out_handles :: "reply \<Rightarrow> handle multiset" where
  "out_handles r = sum_list (map (\<lambda>p. case p of None \<Rightarrow> {#} | Some p \<Rightarrow> ptr_handles p) (r_out r))"

fun call_released :: "'m d3d_call \<Rightarrow> handle multiset" where
  "call_released (Release h) = {#h#}"
| "call_released _ = {#}"

definition acquired :: "'m history \<Rightarrow> handle multiset" where
  "acquired cs = sum_list (map (\<lambda>(c, r). out_handles r) cs)"

definition released :: "'m history \<Rightarrow> handle multiset" where
  "released cs = sum_list (map (\<lambda>(c, r). call_released c) cs)"

lemma acquired_simps [simp]:
  "acquired [] = {#}" "acquired (x # cs) = out_handles (snd x) + acquired cs"
  "acquired (cs @ ds) = acquired cs + acquired ds"
  by (simp_all add: acquired_def split: prod.split)

lemma released_simps [simp]:
  "released [] = {#}" "released (x # cs) = call_released (fst x) + released cs"
  "released (cs @ ds) = released cs + released ds"
  by (simp_all add: released_def split: prod.split)

text \<open>How many pointers a call writes.\<close>

fun outs :: "'m d3d_call \<Rightarrow> nat" where
  "outs (CreateDeviceAndSwapChain _ _ _ _ _ _ _) = 3"
| "outs (GetBuffer _) = 1"
| "outs (CreateRenderTargetView _ _) = 1"
| "outs (CompileFromFile _ _ _) = 2"
| "outs (CreateVertexShader _ _) = 1"
| "outs (CreateInputLayout _ _ _) = 1"
| "outs (CreatePixelShader _ _) = 1"
| "outs (CreateTextureView _ _) = 1"
| "outs (CreateSamplerState _) = 1"
| "outs (GetResource _) = 1"
| "outs (CreateVertexBuffer _ _ _) = 1"
| "outs (CreateConstantBuffer _ _ _) = 1"
| "outs (CreateBlendState _) = 1"
| "outs _ = 0"

text \<open>
  The documented behaviour of the out-parameters: a call writes only its own, a call that fails hands
  out nothing, a call that succeeds hands out a pointer (the compiler hands out the code, and a message
  blob only when it has messages). \<open>GetResource\<close> cannot fail.
\<close>

definition honest_reply :: "'m d3d_call \<Rightarrow> reply \<Rightarrow> bool" where
  "honest_reply c r \<longleftrightarrow> length (r_out r) = outs c \<and>
     (\<forall>i < outs c. (\<not> r_failed r \<and> \<not> (i = 1 \<and> outs c = 2) \<longrightarrow> (\<exists>h. r_out r ! i = Some (Ptr h))) \<and>
        (r_failed r \<and> \<not> (i = 1 \<and> outs c = 2) \<longrightarrow> r_out r ! i \<in> {None, Some Null}) \<and>
        r_out r ! i \<noteq> Some Wild) \<and>
     (r_failed r \<longrightarrow> (\<forall>d. c \<noteq> GetResource d))"

definition honest :: "'m env \<Rightarrow> bool" where
  "honest env \<longleftrightarrow> (\<forall>cs c. honest_reply c (env_ask env cs c))"

lemma honestD: "honest env \<Longrightarrow> honest_reply c (env_ask env cs c)"
  by (simp add: honest_def)

lemma honest_none: "honest_reply c r \<Longrightarrow> outs c = 0 \<Longrightarrow> out_handles r = {#}"
  by (simp add: honest_reply_def out_handles_def)

text \<open>A call with one out-parameter, stored in a member that was null.\<close>

lemma honest_one:
  assumes "honest_reply c r" and "outs c = 1"
  shows "out_handles r = ptr_handles (out_ptr 0 r Null)" and "out_ptr 0 r Null \<noteq> Wild"
    and "\<not> r_failed r \<Longrightarrow> \<exists>h. out_ptr 0 r Null = Ptr h"
proof -
  obtain p where p: "r_out r = [p]"
    using assms by (auto simp: honest_reply_def length_Suc_conv)
  show "out_handles r = ptr_handles (out_ptr 0 r Null)"
    by (simp add: out_handles_def out_ptr_def p split: option.split)
  show "out_ptr 0 r Null \<noteq> Wild"
    using assms by (auto simp: honest_reply_def out_ptr_def p split: option.split)
  show "\<exists>h. out_ptr 0 r Null = Ptr h" if "\<not> r_failed r"
    using assms that by (auto simp: honest_reply_def out_ptr_def p)
qed

end
