(* ===== verification/Button.thy ===== *)
theory Button
  imports Transform
begin

text \<open>
  \<open>Engine/Core/Button.h\<close>: a rectangle on the screen that tells its actors of presses, releases and
  clicks. The virtual functions of \<open>ButtonActor\<close> are an argument \<open>act\<close>; the loops over \<open>payload\<close> read its
  size again on every turn, \<open>fuel\<close> bounds their turns. The protocol of the two flags is refined from a
  small automaton.
\<close>

section \<open>The button\<close>

definition new_button :: button where
  "new_button = \<lparr>b_transform = Wild, b_up = None, b_down = None, payload = [], payloadIDs = []\<rparr>"

datatype actor_call = Akt | Klicked | Down | Up

type_synonym 'm actor = "actor_call \<Rightarrow> cref \<Rightarrow> 'm eheap \<Rightarrow> 'm eheap result"

fun fire :: "nat \<Rightarrow> 'm actor \<Rightarrow> actor_call \<Rightarrow> cref \<Rightarrow> nat \<Rightarrow> 'm eheap \<Rightarrow> 'm eheap result" where
  "fire 0 act c b i h = Inl (Undefined NoReturn)"
| "fire (Suc fuel) act c b i h =
     bindR (button_at h b) (\<lambda>bt.
     if i < length (payload bt)
     then bindR (act c (payload bt ! i) h) (fire fuel act c b (Suc i))
     else Inr h)"

definition set_flags :: "cref \<Rightarrow> bool option \<Rightarrow> bool option \<Rightarrow> 'm eheap \<Rightarrow> 'm eheap result" where
  "set_flags b u d h =
     bindR (button_at h b) (\<lambda>bt. upd_comp b (CButton (bt
       \<lparr>b_up := (case u of None \<Rightarrow> b_up bt | Some v \<Rightarrow> Some v),
        b_down := (case d of None \<Rightarrow> b_down bt | Some v \<Rightarrow> Some v)\<rparr>)) h)"

definition inside :: "int \<Rightarrow> int \<Rightarrow> xmfloat4 \<Rightarrow> bool" where
  "inside x y r = (f32_lt (f32_of_int x) (f4x r) \<and> f32_lt (f4y r) (f32_of_int y) \<and>
     f32_lt (f4z r) (f32_of_int x) \<and> f32_lt (f32_of_int y) (f4w r))"

text \<open>The coordinates are \<open>uint16_t\<close>.\<close>

definition checkKlicked ::
    "nat \<Rightarrow> 'm xnamath \<Rightarrow> 'm actor \<Rightarrow> cref \<Rightarrow> int \<Rightarrow> int \<Rightarrow> 'm \<Rightarrow> viewport \<Rightarrow> bool \<Rightarrow> bool \<Rightarrow>
     'm eheap \<Rightarrow> 'm eheap result" where
  "checkKlicked fuel xm act b x y view viewPort isDown isUp h =
     bindR (button_at h b) (\<lambda>bt.
     bindR (follow (b_transform bt)) (\<lambda>t.
     bindR (screenPos fuel xm t view viewPort h) (\<lambda>(r, h).
     if inside (x mod 65536) (y mod 65536) r then
       (if isDown then
          bindR (fire fuel act Akt b 0 h) (\<lambda>h.
          bindR (fire fuel act Down b 0 h) (\<lambda>h.
          bindR (set_flags b None (Some True) h) (\<lambda>h.
          bindR (button_at h b) (\<lambda>bt.
          bindR (read_member (b_up bt)) (\<lambda>u.
          if u then bindR (set_flags b (Some False) (Some False) h) (fire fuel act Klicked b 0)
          else Inr h)))))
        else if isUp then
          bindR (fire fuel act Akt b 0 h) (\<lambda>h.
          bindR (fire fuel act Up b 0 h) (\<lambda>h.
          bindR (set_flags b (Some True) None h) (\<lambda>h.
          bindR (button_at h b) (\<lambda>bt.
          bindR (read_member (b_down bt)) (\<lambda>d.
          if d then bindR (set_flags b (Some False) (Some False) h) (fire fuel act Klicked b 0)
          else Inr h)))))
        else Inr h)
     else set_flags b (Some False) (Some False) h)))"


section \<open>Actors\<close>

definition addActor :: "'m eheap \<Rightarrow> cref \<Rightarrow> button \<Rightarrow> button result" where
  "addActor h ba b =
     bindR (rank_of is_actor h ba) (\<lambda>p.
     Inr (case p of None \<Rightarrow> b
          | Some p \<Rightarrow> b\<lparr>payload := payload b @ [ba], payloadIDs := payloadIDs b @ [p]\<rparr>))"

definition remActor :: "cref \<Rightarrow> button \<Rightarrow> button result" where
  "remActor ba b =
     (case find_index (\<lambda>p. p = ba) (payload b) of
        None \<Rightarrow> Inr b
      | Some i \<Rightarrow>
          if i < length (payloadIDs b)
          then Inr (b\<lparr>payload := vec_erase i (payload b), payloadIDs := vec_erase i (payloadIDs b)\<rparr>)
          else Inl (Undefined EraseEnd))"

definition button_setRequirements :: "cref list \<Rightarrow> button \<Rightarrow> button result" where
  "button_setRequirements toSet b = bindR (vec_at toSet 0) (\<lambda>t. Inr (b\<lparr>b_transform := Ptr t\<rparr>))"

definition button_set :: "button \<Rightarrow> ('w, button) reader" where
  "button_set b =
     bindP (read_vec pop_pair) (\<lambda>ps. retP (b\<lparr>payloadIDs := payloadIDs b @ ps\<rparr>))"

definition button_afterSet :: "'m eheap \<Rightarrow> storage \<Rightarrow> button \<Rightarrow> button result" where
  "button_afterSet h st b =
     foldR (\<lambda>p b. bindR (resolve_rank is_actor h st p) (\<lambda>r. Inr (b\<lparr>payload := payload b @ [r]\<rparr>)))
       (payloadIDs b) b"

definition button_serialize :: "button \<Rightarrow> writer" where
  "button_serialize b = write_all [write_vec push_pair (payloadIDs b), push_cstr ''class Button'']"

definition button_img :: "button \<Rightarrow> button" where
  "button_img b = new_button\<lparr>payloadIDs := payloadIDs b\<rparr>"

interpretation button: class_codec "''class Button''" new_button button_serialize button_set
    "\<lambda>b. enc_vec pair_bytes (payloadIDs b)" button_img "\<lambda>_ w. w" "\<lambda>b. ok_vec pair_ok (payloadIDs b)"
proof
  fix b :: button
  assume ok: "ok_vec pair_ok (payloadIDs b)"
  have nm: "appends (push_cstr ''class Button'') (enc_string ''class Button'')"
    by (rule appends_class_name) simp
  have "appends (button_serialize b) (enc_vec pair_bytes (payloadIDs b) @ enc_string ''class Button'' @ [])"
    unfolding button_serialize_def by (intro appends_Cons appends_Nil pair_vec.wr_appends[OF ok] nm)
  then show "appends (button_serialize b) (enc_vec pair_bytes (payloadIDs b) @ enc_string ''class Button'')"
    by simp
  have r: "reads (read_vec pop_pair) (enc_vec pair_bytes (payloadIDs b)) (payloadIDs b) (\<lambda>w. w)"
    using pair_vec.rd_back[OF ok] by simp
  show "reads (button_set new_button) (enc_vec pair_bytes (payloadIDs b)) (button_img b) (\<lambda>w. w)"
    using reads_bind[where f = "\<lambda>ps. retP (new_button\<lparr>payloadIDs := payloadIDs new_button @ ps\<rparr>)", OF r reads_ret]
    by (simp add: button_set_def button_img_def new_button_def)
qed


section \<open>The tables stay in step\<close>

text \<open>
  Every registered actor carries an entry that leads back to it, as long as its object is stored; the
  tables of the instanced renderers have the same invariant.
\<close>

definition table_ok :: "('c \<Rightarrow> bool) \<Rightarrow> 'c heap \<Rightarrow> storage \<Rightarrow> cref list \<Rightarrow> (int \<times> int) list \<Rightarrow> bool" where
  "table_ok P h st rs ps \<longleftrightarrow> list_all2 (\<lambda>r p. resolve_rank P h st p = Inr r) rs ps"

lemma table_ok_add:
  assumes "table_ok P h st rs ps" and "registrable P h st r"
  shows "\<exists>p. rank_of P h r = Inr (Some p) \<and> table_ok P h st (rs @ [r]) (ps @ [p])"
  using rank_of_registrable[OF assms(2)] assms(1)
  by (auto simp: table_ok_def intro: list_all2_appendI)

lemma table_ok_erase: "table_ok P h st rs ps \<Longrightarrow> table_ok P h st (vec_erase i rs) (vec_erase i ps)"
  unfolding table_ok_def by (rule list_all2_vec_erase)

lemma table_ok_length: "table_ok P h st rs ps \<Longrightarrow> length ps = length rs"
  by (simp add: table_ok_def list_all2_lengthD)

lemma resolve_table:
  assumes "table_ok P h st rs ps"
  shows "foldR (\<lambda>p x. bindR (resolve_rank P h st p) (\<lambda>r. Inr (x @ [r]))) ps xs = Inr (xs @ rs)"
proof -
  have "list_all2 (\<lambda>r p. resolve_rank P h st p = Inr r) rs ps" using assms by (simp add: table_ok_def)
  then show ?thesis by (induction rs ps arbitrary: xs rule: list_all2_induct) auto
qed


section \<open>The protocol\<close>

text \<open>
  What a button promises: a press and a release inside the rectangle, in either order and with nothing
  but hovering, pressing or releasing inside between them, make one click; leaving forgets everything.
\<close>

datatype btn_input = Outside | Hover | Press | Lift
datatype btn_state = Idle | Pressed | Lifted

fun btn_step :: "btn_state \<Rightarrow> btn_input \<Rightarrow> btn_state \<times> bool" where
  "btn_step s Outside = (Idle, False)"
| "btn_step s Hover = (s, False)"
| "btn_step Lifted Press = (Idle, True)"
| "btn_step s Press = (Pressed, False)"
| "btn_step Pressed Lift = (Idle, True)"
| "btn_step s Lift = (Lifted, False)"

definition input_of :: "bool \<Rightarrow> bool \<Rightarrow> bool \<Rightarrow> btn_input" where
  "input_of over isDown isUp =
     (if \<not> over then Outside else if isDown then Press else if isUp then Lift else Hover)"

definition in_state :: "btn_state \<Rightarrow> button \<Rightarrow> bool" where
  "in_state s b \<longleftrightarrow> b_up b = Some (s = Lifted) \<and> b_down b = Some (s = Pressed)"

text \<open>
  The contract of the actors of button \<open>b\<close>: on the heaps \<open>I\<close> every call returns and leaves the button
  alone; \<open>obs\<close> is what a client watches, changed by \<open>klicked\<close> only.
\<close>

locale actor_contract =
  fixes act :: "'m actor" and I :: "'m eheap \<Rightarrow> bool" and b :: cref and rs :: "cref list"
    and obs :: "'m eheap \<Rightarrow> 'o" and bump :: "cref \<Rightarrow> 'o \<Rightarrow> 'o"
  assumes act_ok: "I h \<Longrightarrow> r \<in> set rs \<Longrightarrow> \<exists>h'. act c r h = Inr h' \<and> I h' \<and>
      comp_at h' b = comp_at h b \<and> obs h' = (if c = Klicked then bump r (obs h) else obs h)"
    and flags_ok: "I h \<Longrightarrow> comp_at h b = Inr (CButton x) \<Longrightarrow>
      upd_comp b (CButton (x\<lparr>b_up := u, b_down := d\<rparr>)) h = Inr h' \<Longrightarrow> I h' \<and> obs h' = obs h"
begin

lemma fire_from:
  "I h \<Longrightarrow> comp_at h b = Inr (CButton x) \<Longrightarrow> payload x = rs \<Longrightarrow> i \<le> length rs \<Longrightarrow>
     length rs - i < fuel \<Longrightarrow>
   \<exists>h'. fire fuel act c b i h = Inr h' \<and> I h' \<and> comp_at h' b = Inr (CButton x) \<and>
     obs h' = (if c = Klicked then fold bump (drop i rs) (obs h) else obs h)"
proof (induction "length rs - i" arbitrary: i h fuel)
  case 0
  then show ?case by (cases fuel) auto
next
  case (Suc n)
  obtain f where f: "fuel = Suc f" using Suc.prems by (cases fuel) auto
  have i: "i < length rs" using Suc.hyps(2) by simp
  obtain h1 where h1: "act c (rs ! i) h = Inr h1" "I h1" "comp_at h1 b = Inr (CButton x)"
      "obs h1 = (if c = Klicked then bump (rs ! i) (obs h) else obs h)"
    using act_ok[OF Suc.prems(1), of "rs ! i" c] i Suc.prems(2) by auto
  have b: "button_at h b = Inr x" using Suc.prems(2) by simp
  obtain h2 where "fire f act c b (Suc i) h1 = Inr h2" "I h2" "comp_at h2 b = Inr (CButton x)"
      "obs h2 = (if c = Klicked then fold bump (drop (Suc i) rs) (obs h1) else obs h1)"
    using Suc.hyps(1)[of "Suc i" h1 f] Suc.hyps(2) Suc.prems(3,5) f h1 by force
  then show ?case using f b h1 i Suc.prems(3) by (simp add: Cons_nth_drop_Suc[symmetric])
qed

lemma fire_all:
  "I h \<Longrightarrow> comp_at h b = Inr (CButton x) \<Longrightarrow> payload x = rs \<Longrightarrow> length rs < fuel \<Longrightarrow>
   \<exists>h'. fire fuel act c b 0 h = Inr h' \<and> I h' \<and> comp_at h' b = Inr (CButton x) \<and>
     obs h' = (if c = Klicked then fold bump rs (obs h) else obs h)"
  by (rule fire_from[where i = 0, unfolded drop_0]) simp_all

lemma set_flags_ok:
  assumes "I h" and "comp_at h b = Inr (CButton x)"
  shows "\<exists>h' y. set_flags b u d h = Inr h' \<and> I h' \<and> obs h' = obs h \<and> comp_at h' b = Inr (CButton y) \<and>
    y = x\<lparr>b_up := (case u of None \<Rightarrow> b_up x | Some v \<Rightarrow> Some v),
          b_down := (case d of None \<Rightarrow> b_down x | Some v \<Rightarrow> Some v)\<rparr>"
proof -
  let ?y = "x\<lparr>b_up := (case u of None \<Rightarrow> b_up x | Some v \<Rightarrow> Some v),
          b_down := (case d of None \<Rightarrow> b_down x | Some v \<Rightarrow> Some v)\<rparr>"
  obtain h' where h': "upd_comp b (CButton ?y) h = Inr h'" using assms(2) by (auto dest: upd_comp_total)
  then show ?thesis using flags_ok[OF assms h'] comp_at_upd_same[OF h'] assms(2)
    by (intro exI[of _ h'] exI[of _ ?y]) (simp add: set_flags_def)
qed

text \<open>The part of \<open>checkKlicked\<close> behind the projection follows the automaton.\<close>

lemma check_follows:
  assumes b: "button_at h0 b = Inr x0" "b_transform x0 = Ptr t" "screenPos fuel xm t view vp h0 = Inr (r, h)"
    and h: "I h" "comp_at h b = Inr (CButton x)" "payload x = rs" "length rs < fuel" "in_state s x"
    and st: "btn_step s (input_of (inside (px mod 65536) (py mod 65536) r) isDown isUp) = (s', click)"
  shows "\<exists>h' y. checkKlicked fuel xm act b px py view vp isDown isUp h0 = Inr h' \<and>
     comp_at h' b = Inr (CButton y) \<and> in_state s' y \<and> payload y = rs \<and> I h' \<and>
     obs h' = (if click then fold bump rs (obs h) else obs h)"
proof -
  have pre: "\<exists>h2 y. bindR (fire fuel act Akt b 0 h) (\<lambda>h. bindR (fire fuel act c b 0 h) (set_flags b u d)) = Inr h2 \<and>
      I h2 \<and> obs h2 = obs h \<and> comp_at h2 b = Inr (CButton y) \<and>
      y = x\<lparr>b_up := (case u of None \<Rightarrow> b_up x | Some v \<Rightarrow> Some v),
            b_down := (case d of None \<Rightarrow> b_down x | Some v \<Rightarrow> Some v)\<rparr>" if c: "c = Down \<or> c = Up" for c u d
  proof -
    obtain h1 where h1: "fire fuel act Akt b 0 h = Inr h1" "I h1" "comp_at h1 b = Inr (CButton x)" "obs h1 = obs h"
      using fire_all[OF h(1-4), of Akt] by auto
    obtain h2 where h2: "fire fuel act c b 0 h1 = Inr h2" "I h2" "comp_at h2 b = Inr (CButton x)" "obs h2 = obs h1"
      using fire_all[OF h1(2,3) h(3,4), of c] c by auto
    show ?thesis using set_flags_ok[OF h2(2,3), of u d] h1 h2 by auto
  qed
  have click: "\<exists>h3 z. bindR (set_flags b (Some False) (Some False) g) (fire fuel act Klicked b 0) = Inr h3 \<and>
      I h3 \<and> comp_at h3 b = Inr (CButton z) \<and> in_state Idle z \<and> payload z = rs \<and> obs h3 = fold bump rs (obs g)"
    if g: "I g" "comp_at g b = Inr (CButton y)" "payload y = rs" for g y
  proof -
    obtain g1 z where g1: "set_flags b (Some False) (Some False) g = Inr g1" "I g1" "obs g1 = obs g"
        "comp_at g1 b = Inr (CButton z)" "z = y\<lparr>b_up := Some False, b_down := Some False\<rparr>"
      using set_flags_ok[OF g(1,2), of "Some False" "Some False"] by auto
    have "payload z = rs" using g(3) g1(5) by simp
    then show ?thesis using fire_all[OF g1(2,4) _ h(4), of Klicked] g1 by (auto simp: in_state_def)
  qed
  note run = checkKlicked_def b
  show ?thesis
  proof (cases "inside (px mod 65536) (py mod 65536) r")
    case False
    then have s': "s' = Idle" "\<not> click" using st by (auto simp: input_of_def)
    show ?thesis using set_flags_ok[OF h(1,2), of "Some False" "Some False"] False h(3) s'
      by (auto simp: run in_state_def)
  next
    case over: True
    show ?thesis
    proof (cases isDown)
      case True
      obtain h2 y where h2: "bindR (fire fuel act Akt b 0 h) (\<lambda>h. bindR (fire fuel act Down b 0 h)
          (set_flags b None (Some True))) = Inr h2" "I h2" "obs h2 = obs h" "comp_at h2 b = Inr (CButton y)"
          "y = x\<lparr>b_up := b_up x, b_down := Some True\<rparr>"
        using pre[of Down None "Some True"] by auto
      have "checkKlicked fuel xm act b px py view vp isDown isUp h0 =
          (if s = Lifted then bindR (set_flags b (Some False) (Some False) h2) (fire fuel act Klicked b 0) else Inr h2)"
        using h2 over True h(5) by (auto simp: run in_state_def)
      then show ?thesis using click[OF h2(2,4)] h2 h(3,5) st over True
        by (cases s) (auto simp: input_of_def in_state_def)
    next
      case down: False
      show ?thesis
      proof (cases isUp)
        case True
        obtain h2 y where h2: "bindR (fire fuel act Akt b 0 h) (\<lambda>h. bindR (fire fuel act Up b 0 h)
            (set_flags b (Some True) None)) = Inr h2" "I h2" "obs h2 = obs h" "comp_at h2 b = Inr (CButton y)"
            "y = x\<lparr>b_up := Some True, b_down := b_down x\<rparr>"
          using pre[of Up "Some True" None] by auto
        have "checkKlicked fuel xm act b px py view vp isDown isUp h0 =
            (if s = Pressed then bindR (set_flags b (Some False) (Some False) h2) (fire fuel act Klicked b 0) else Inr h2)"
          using h2 over True down h(5) by (auto simp: run in_state_def)
        then show ?thesis using click[OF h2(2,4)] h2 h(3,5) st over True down
          by (cases s) (auto simp: input_of_def in_state_def)
      next
        case False
        then show ?thesis using over down h st by (auto simp: run input_of_def)
      qed
    qed
  qed
qed

end


section \<open>Saving the table of actors\<close>

inductive actor_tables :: "'m eheap \<Rightarrow> storage \<Rightarrow> button \<Rightarrow> bool" for h st where
  fresh_table: "payload b = [] \<Longrightarrow> payloadIDs b = [] \<Longrightarrow> actor_tables h st b"
| actor_added: "actor_tables h st b \<Longrightarrow> registrable is_actor h st r \<Longrightarrow> addActor h r b = Inr b' \<Longrightarrow> actor_tables h st b'"
| actor_removed: "actor_tables h st b \<Longrightarrow> remActor r b = Inr b' \<Longrightarrow> actor_tables h st b'"

lemma actor_tables_ok: "actor_tables h st b \<Longrightarrow> table_ok is_actor h st (payload b) (payloadIDs b)"
proof (induction rule: actor_tables.induct)
  case (fresh_table b)
  then show ?case by (simp add: table_ok_def)
next
  case (actor_added b r b')
  obtain p where p: "rank_of is_actor h r = Inr (Some p)"
      "table_ok is_actor h st (payload b @ [r]) (payloadIDs b @ [p])"
    using table_ok_add[OF actor_added.IH actor_added.hyps(2)] by blast
  then show ?case using actor_added.hyps(3) by (auto simp: addActor_def)
next
  case (actor_removed b r b')
  then show ?case by (auto simp: remActor_def table_ok_erase split: option.splits if_splits)
qed

lemma button_afterSet_table:
  "button_afterSet h st b = bindR (foldR (\<lambda>p x. bindR (resolve_rank is_actor h st p) (\<lambda>r. Inr (x @ [r])))
     (payloadIDs b) (payload b)) (\<lambda>x. Inr (b\<lparr>payload := x\<rparr>))"
proof -
  have "foldR (\<lambda>p b. bindR (resolve_rank is_actor h st p) (\<lambda>r. Inr (b\<lparr>payload := payload b @ [r]\<rparr>))) ps c
      = bindR (foldR (\<lambda>p x. bindR (resolve_rank is_actor h st p) (\<lambda>r. Inr (x @ [r]))) ps (payload c))
          (\<lambda>x. Inr (c\<lparr>payload := x\<rparr>))" for ps c
  proof (induction ps arbitrary: c)
    case (Cons p ps)
    show ?case by (cases "resolve_rank is_actor h st p") (simp_all add: Cons)
  qed simp
  then show ?thesis by (simp add: button_afterSet_def)
qed

text \<open>
  C31. However actors were added to and removed from a button, what \<open>serialize\<close> appends to a buffer is read back: the
  class name, then by \<open>set\<close> the same identifiers and ranks, with the buffer as it was before; and \<open>afterSet\<close> of the
  loaded button finds, among the objects of the scene, the same actors in the same order. Identifiers and ranks must
  be \<open>int\<close>s and the buffer shorter than \<open>2 ^ 31\<close> bytes.
\<close>

theorem button_actors_survive:
  assumes "actor_tables h st b" and "ok_vec pair_ok (payloadIDs b)"
    and "length bs + 8 * length (payloadIDs b) + 20 < 2147483648"
  shows "\<exists>so s u. button_serialize b bs = Inr so \<and> pop_string (so, w) = Inr (''class Button'', s) \<and>
    button_set new_button s = Inr (u, (bs, w)) \<and> payloadIDs u = payloadIDs b \<and>
    button_afterSet h st u = Inr (u\<lparr>payload := payload b\<rparr>)"
proof -
  let ?e = "enc_vec pair_bytes (payloadIDs b)" and ?n = "enc_string ''class Button''"
  have "length (concat (map pair_bytes ps)) = 8 * length ps" for ps by (induction ps) (simp_all add: pair_bytes_def)
  then have l: "length ?e = 8 * length (payloadIDs b) + 4" by (simp add: enc_vec_def)
  have "button_serialize b bs = Inr (bs @ ?e @ ?n)"
    using appendsD[OF button.ser_appends[OF assms(2)], of bs] assms(3) l by simp
  moreover have "pop_string (bs @ ?e @ ?n, w) = Inr (''class Button'', (bs @ ?e, w))"
    using readsD[OF string_codec.rd_back[OF TrueI], of "bs @ ?e" "''class Button''" w] assms(3) l by simp
  moreover have "button_set new_button (bs @ ?e, w) = Inr (button_img b, (bs, w))"
    by (rule readsD[OF button.set_reads[OF assms(2)]]) (use assms(3) l in simp)
  moreover have "button_afterSet h st (button_img b) = Inr ((button_img b)\<lparr>payload := payload b\<rparr>)"
    using resolve_table[OF actor_tables_ok[OF assms(1)], of "[]"]
    by (simp add: button_afterSet_table button_img_def new_button_def)
  ultimately show ?thesis
    by (intro exI[of _ "bs @ ?e @ ?n"] exI[of _ "(bs @ ?e, w)"] exI[of _ "button_img b"]) (simp add: button_img_def)
qed

definition klicker_heap :: "'m eheap" where
  "klicker_heap = \<lparr>cells = [0 \<mapsto> holder 0 4 [CTransform new_transform,
     CObjectKlicker \<lparr>klick = Some False, onklick = [], ok_inst = Wild\<rparr>,
     CObjectKlicker \<lparr>klick = Some True, onklick = [], ok_inst = Wild\<rparr>]], next_addr = 1\<rparr>"

definition klicker_storage :: storage where
  "klicker_storage = \<lparr>objects = [(4, 0)], counter = 5\<rparr>"

lemma klicker_registrable:
  "registrable is_actor klicker_heap klicker_storage (0, 1)" "registrable is_actor klicker_heap klicker_storage (0, 2)"
  by (simp_all add: registrable_def klicker_heap_def klicker_storage_def holder_def new_game_object_def
      map_getById_def numeral_2_eq_2)

lemma klicker_ranks:
  "rank_of is_actor klicker_heap (0, 1) = Inr (Some (4, 0))" "rank_of is_actor klicker_heap (0, 2) = Inr (Some (4, 1))"
  by (simp_all add: rank_of_def klicker_heap_def holder_def new_game_object_def findComponents_def numeral_2_eq_2)

theorem button_actors_survive_witness:
  "\<exists>b so s u. addActor (klicker_heap :: unit eheap) (0, 2) (new_button\<lparr>payload := [(0, 1)], payloadIDs := [(4, 0)]\<rparr>) = Inr b \<and>
    button_serialize b [7] = Inr so \<and> pop_string (so, ()) = Inr (''class Button'', s) \<and>
    button_set new_button s = Inr (u, ([7], ())) \<and>
    button_afterSet (klicker_heap :: unit eheap) klicker_storage u = Inr (u\<lparr>payload := [(0, 1), (0, 2)]\<rparr>)"
proof -
  let ?b = "\<lparr>b_transform = Wild, b_up = None, b_down = None, payload = [(0, 1), (0, 2)], payloadIDs = [(4, 0), (4, 1)]\<rparr>"
  have 0: "actor_tables (klicker_heap :: unit eheap) klicker_storage new_button"
    by (rule fresh_table) (simp_all add: new_button_def)
  have 1: "actor_tables (klicker_heap :: unit eheap) klicker_storage
      (new_button\<lparr>payload := [(0, 1)], payloadIDs := [(4, 0)]\<rparr>)"
    by (rule actor_added[OF 0 klicker_registrable(1)]) (simp only: addActor_def klicker_ranks, simp add: new_button_def)
  have 2: "actor_tables (klicker_heap :: unit eheap) klicker_storage ?b"
    by (rule actor_added[OF 1 klicker_registrable(2)]) (simp only: addActor_def klicker_ranks, simp add: new_button_def)
  have add: "addActor (klicker_heap :: unit eheap) (0, 2) (new_button\<lparr>payload := [(0, 1)], payloadIDs := [(4, 0)]\<rparr>) = Inr ?b"
    by (simp only: addActor_def klicker_ranks, simp add: new_button_def)
  have "ok_vec pair_ok (payloadIDs ?b)" by (simp add: ok_vec_def pair_ok_def int_ok_def)
  from button_actors_survive[OF 2 this, of "[7]" "()"] add show ?thesis by (intro exI[of _ ?b]) auto
qed

end
