(* ===== verification/Renderer.thy ===== *)
theory Renderer
  imports Graphics Button
begin

text \<open>
  \<open>Engine/Core/Dx11Base.h\<close>, \<open>Engine/Core/Kamera.h\<close> and the part of
  \<open>Engine/DrawableRenderer/DrawableRenderer.h\<close> that does not call the drawables: the device and its
  life cycle, the cache of compiled shaders, the camera and the tables of buttons and drawables.
  Logging is left out. Strings passed as wide strings are the same characters.
\<close>

section \<open>\<open>Kamera\<close>\<close>

definition new_kamera :: "'m kamera" where
  "new_kamera = \<lparr>k_transform = Wild, m_projectionMatrix = None, m_projectionDirty = None,
     m_screenWidth = None, m_screenHeigth = None, m_maxViewDist = None, m_minViewDist = None,
     m_orthogonal = None\<rparr>"

definition setProjection :: "f32 \<Rightarrow> f32 \<Rightarrow> f32 \<Rightarrow> f32 \<Rightarrow> 'm kamera \<Rightarrow> 'm kamera" where
  "setProjection width heigth maxDist minDist k = k\<lparr>m_projectionDirty := Some True,
     m_screenWidth := Some width, m_screenHeigth := Some heigth,
     m_maxViewDist := Some maxDist, m_minViewDist := Some minDist\<rparr>"

definition setOrthogonal :: "bool \<Rightarrow> 'm kamera \<Rightarrow> 'm kamera" where
  "setOrthogonal v k = k\<lparr>m_projectionDirty := Some True, m_orthogonal := Some v\<rparr>"

definition projection_matrix :: "'m xnamath \<Rightarrow> 'm kamera \<Rightarrow> 'm result" where
  "projection_matrix xm k =
     bindR (read_member (m_screenWidth k)) (\<lambda>width.
     bindR (read_member (m_screenHeigth k)) (\<lambda>heigth.
     let wh = f32_div width f32_two; hh = f32_div heigth f32_two in
     bindR (read_member (m_orthogonal k)) (\<lambda>ortho.
     bindR (read_member (m_minViewDist k)) (\<lambda>near.
     bindR (read_member (m_maxViewDist k)) (\<lambda>far.
     Inr ((if ortho then XMMatrixOrthographicOffCenterLH xm else XMMatrixPerspectiveOffCenterLH xm)
            (f32_neg wh) wh (f32_neg hh) hh near far))))))"

definition getProjectionMatrix :: "nat \<Rightarrow> 'm xnamath \<Rightarrow> cref \<Rightarrow> 'm eheap \<Rightarrow> ('m \<times> 'm eheap) result" where
  "getProjectionMatrix fuel xm r h =
     bindR (kamera_at h r) (\<lambda>k.
     bindR (read_member (m_projectionDirty k)) (\<lambda>dirty.
     bindR (if dirty
            then bindR (projection_matrix xm k) (\<lambda>m.
                 Inr (k\<lparr>m_projectionMatrix := Some m, m_projectionDirty := Some False\<rparr>))
            else Inr k) (\<lambda>k.
     bindR (upd_comp r (CKamera k) h) (\<lambda>h.
     bindR (follow (k_transform k)) (\<lambda>t.
     bindR (GetWorldMatrix fuel xm t h) (\<lambda>(world, h).
     bindR (read_member (m_projectionMatrix k)) (\<lambda>m.
     Inr (XMMatrixMultiply xm world m, h))))))))"

definition kamera_setRequirements :: "cref list \<Rightarrow> 'm kamera \<Rightarrow> 'm kamera result" where
  "kamera_setRequirements toSet k = bindR (vec_at toSet 0) (\<lambda>t. Inr (k\<lparr>k_transform := Ptr t\<rparr>))"

definition kamera_serialize :: "'m kamera \<Rightarrow> writer" where
  "kamera_serialize k = write_all
     [write_member push_f32 (m_screenWidth k), write_member push_f32 (m_screenHeigth k),
      write_member push_f32 (m_maxViewDist k), write_member push_f32 (m_minViewDist k),
      write_member push_bool (m_orthogonal k), push_cstr ''class Kamera'']"

definition kamera_set :: "'m kamera \<Rightarrow> ('w, 'm kamera) reader" where
  "kamera_set k =
     bindP pop_bool (\<lambda>ortho.
     bindP pop_f32 (\<lambda>minDist.
     bindP pop_f32 (\<lambda>maxDist.
     bindP pop_f32 (\<lambda>heigth.
     bindP pop_f32 (\<lambda>width.
     retP (k\<lparr>m_orthogonal := Some ortho, m_minViewDist := Some minDist, m_maxViewDist := Some maxDist,
             m_screenHeigth := Some heigth, m_screenWidth := Some width,
             m_projectionDirty := Some True\<rparr>))))))"

definition kamera_ready :: "'m kamera \<Rightarrow> bool" where
  "kamera_ready k \<longleftrightarrow> m_screenWidth k \<noteq> None \<and> m_screenHeigth k \<noteq> None \<and> m_maxViewDist k \<noteq> None \<and>
     m_minViewDist k \<noteq> None \<and> m_orthogonal k \<noteq> None"

definition kamera_enc :: "'m kamera \<Rightarrow> byte list" where
  "kamera_enc k = f32_bytes (the (m_screenWidth k)) @ f32_bytes (the (m_screenHeigth k)) @
     f32_bytes (the (m_maxViewDist k)) @ f32_bytes (the (m_minViewDist k)) @ bool_bytes (the (m_orthogonal k))"

definition kamera_img :: "'m kamera \<Rightarrow> 'm kamera" where
  "kamera_img k = new_kamera\<lparr>m_screenWidth := m_screenWidth k, m_screenHeigth := m_screenHeigth k,
     m_maxViewDist := m_maxViewDist k, m_minViewDist := m_minViewDist k, m_orthogonal := m_orthogonal k,
     m_projectionDirty := Some True\<rparr>"

interpretation kamera: class_codec "''class Kamera''" new_kamera kamera_serialize kamera_set
    kamera_enc kamera_img "\<lambda>_ w. w" kamera_ready
proof
  fix k :: "'a kamera"
  assume "kamera_ready k"
  then obtain a b c d e where v: "m_screenWidth k = Some a" "m_screenHeigth k = Some b"
      "m_maxViewDist k = Some c" "m_minViewDist k = Some d" "m_orthogonal k = Some e"
    by (auto simp: kamera_ready_def)
  have nm: "appends (push_cstr ''class Kamera'') (enc_string ''class Kamera'')"
    by (rule appends_class_name) simp
  have "appends (kamera_serialize k) (f32_bytes a @ f32_bytes b @ f32_bytes c @ f32_bytes d @
      bool_bytes e @ enc_string ''class Kamera'' @ [])"
    unfolding kamera_serialize_def v write_member_Some by (intro appends_Cons appends_Nil appends_pod nm)
  then show "appends (kamera_serialize k) (kamera_enc k @ enc_string ''class Kamera'')"
    by (simp add: kamera_enc_def v)
  have "reads (kamera_set new_kamera) ((((([] @ f32_bytes a) @ f32_bytes b) @ f32_bytes c) @ f32_bytes d) @
      bool_bytes e) (new_kamera\<lparr>m_orthogonal := Some e, m_minViewDist := Some d, m_maxViewDist := Some c,
       m_screenHeigth := Some b, m_screenWidth := Some a, m_projectionDirty := Some True\<rparr>) (\<lambda>w. w)"
    unfolding kamera_set_def by (rule reads_bind[OF reads_bool] reads_bind[OF reads_f32])+ (rule reads_ret)
  then show "reads (kamera_set new_kamera) (kamera_enc k) (kamera_img k) (\<lambda>w. w)"
    by (simp add: kamera_enc_def kamera_img_def v new_kamera_def)
qed


section \<open>\<open>Dx11Base\<close>: the device\<close>

definition modA :: "cref \<Rightarrow> (drawable_renderer \<Rightarrow> drawable_renderer) \<Rightarrow> ('m, unit) act" where
  "modA r f = bindA (readA (\<lambda>h. renderer_at h r)) (\<lambda>x. writeA r (CRenderer (f x)))"

definition new_renderer :: drawable_renderer where
  "new_renderer = \<lparr>m_hWnd = Wild, m_hInst = Wild, m_pD3DDevice = Wild, m_pD3DContext = Wild,
     m_pD3DRenderTargetView = Wild, m_pSwapChain = Wild, m_colorFormat = 28, m_refreshRateN = 60,
     m_refreshRateD = 1, m_windowed = True, m_currentCamera = Wild, m_currentCameraID = None,
     m_buttons = [], m_buttonGameObjectIDs = [],
     m_BackgroundColor = [f32_zero, f32_zero, f32_zero, f32_one],
     m_allShaders = [], m_allDrawable = [], m_allDrawableIDs = []\<rparr>"

text \<open>\<open>CompileShader\<close> returns its result and the code blob; the caller passes a null pointer.\<close>

definition CompileShader :: "'m env \<Rightarrow> string \<Rightarrow> string \<Rightarrow> string \<Rightarrow> ('m, bool \<times> handle ptr) act" where
  "CompileShader env szFilePath szFunc szShaderModel =
     bindA (callA env (CompileFromFile szFilePath szFunc szShaderModel)) (\<lambda>hr.
     let buffer = out_ptr 0 hr Null; errBuffer = out_ptr 1 hr Null in
     bindA (liftA (non_null errBuffer)) (\<lambda>err.
     if r_failed hr
     then bindA (if err then bindA (liftA (follow errBuffer)) (\<lambda>e. bindA (callA env (OutputDebugString e)) (\<lambda>_.
                 release_ptr env errBuffer)) else retA ()) (\<lambda>_. retA (False, buffer))
     else bindA (release_ptr env errBuffer) (\<lambda>_. retA (True, buffer))))"

text \<open>\<open>load_content\<close> is the virtual \<open>LoadContent\<close> of the derived class.\<close>

definition Initialize ::
    "'m env \<Rightarrow> cref \<Rightarrow> ('m, bool) act \<Rightarrow> handle ptr \<Rightarrow> handle ptr \<Rightarrow> ('m, bool) act" where
  "Initialize env this load_content hWnd hInst =
     bindA (modA this (\<lambda>r. r\<lparr>m_hWnd := hWnd, m_hInst := hInst\<rparr>)) (\<lambda>_.
     bindA (callA env (GetClientRect hWnd)) (\<lambda>rc.
     let nWidth = r_int0 rc mod 4294967296; nHeight = r_int1 rc mod 4294967296 in
     bindA (readA (\<lambda>h. renderer_at h this)) (\<lambda>r.
     bindA (callA env (CreateDeviceAndSwapChain hWnd nWidth nHeight (m_colorFormat r) (m_refreshRateN r)
              (m_refreshRateD r) (m_windowed r))) (\<lambda>hr.
     bindA (modA this (\<lambda>r. r\<lparr>m_pD3DDevice := out_ptr 1 hr (m_pD3DDevice r),
              m_pD3DContext := out_ptr 2 hr (m_pD3DContext r), m_pSwapChain := out_ptr 0 hr (m_pSwapChain r)\<rparr>)) (\<lambda>_.
     if r_failed hr
     then bindA (callA env (MessageBox ''A DX11 Video Card is Required'')) (\<lambda>_. retA False)
     else
     bindA (readA (\<lambda>h. renderer_at h this)) (\<lambda>r.
     bindA (liftA (follow (m_pSwapChain r))) (\<lambda>swap.
     bindA (callA env (GetBuffer swap)) (\<lambda>hr.
     let pBackBuffer = out_ptr 0 hr Wild in
     if r_failed hr
     then bindA (callA env (MessageBox ''Unable to get back buffer'')) (\<lambda>_. retA False)
     else
     bindA (liftA (follow (m_pD3DDevice r))) (\<lambda>dev.
     bindA (callA env (CreateRenderTargetView dev pBackBuffer)) (\<lambda>hr.
     bindA (modA this (\<lambda>r. r\<lparr>m_pD3DRenderTargetView := out_ptr 0 hr (m_pD3DRenderTargetView r)\<rparr>)) (\<lambda>_.
     bindA (release_ptr env pBackBuffer) (\<lambda>_.
     if r_failed hr
     then bindA (callA env (MessageBox ''Unable to create render target view'')) (\<lambda>_. retA False)
     else
     bindA (readA (\<lambda>h. renderer_at h this)) (\<lambda>r.
     bindA (liftA (follow (m_pD3DContext r))) (\<lambda>ctx.
     bindA (callA env (OMSetRenderTargets ctx (m_pD3DRenderTargetView r))) (\<lambda>_.
     bindA (callA env (RSSetViewports ctx \<lparr>TopLeftX = f32_zero, TopLeftY = f32_zero,
              vpWidth = f32_of_int nWidth, vpHeight = f32_of_int nHeight\<rparr>)) (\<lambda>_.
     load_content))))))))))))))))"

definition Terminate :: "'m env \<Rightarrow> cref \<Rightarrow> ('m, unit) act \<Rightarrow> ('m, unit) act" where
  "Terminate env this unload_content =
     bindA unload_content (\<lambda>_.
     bindA (readA (\<lambda>h. renderer_at h this)) (\<lambda>r.
     bindA (release_ptr env (m_pD3DRenderTargetView r)) (\<lambda>_.
     bindA (modA this (\<lambda>r. r\<lparr>m_pD3DRenderTargetView := Null\<rparr>)) (\<lambda>_.
     bindA (release_ptr env (m_pSwapChain r)) (\<lambda>_.
     bindA (modA this (\<lambda>r. r\<lparr>m_pSwapChain := Null\<rparr>)) (\<lambda>_.
     bindA (release_ptr env (m_pD3DContext r)) (\<lambda>_.
     bindA (modA this (\<lambda>r. r\<lparr>m_pD3DContext := Null\<rparr>)) (\<lambda>_.
     bindA (release_ptr env (m_pD3DDevice r)) (\<lambda>_.
     modA this (\<lambda>r. r\<lparr>m_pD3DDevice := Null\<rparr>))))))))))"

definition Quit :: "'m env \<Rightarrow> ('m, unit) act" where
  "Quit env = bindA (callA env (PostQuitMessage 0)) (\<lambda>_. retA ())"



section \<open>\<open>Dx11Base\<close>: buttons and camera\<close>

definition owner_id :: "'c heap \<Rightarrow> cref \<Rightarrow> int result" where
  "owner_id h r =
     bindR (get_obj h (fst r)) (\<lambda>g0.
     bindR (vec_at (componenten g0) (snd r)) (\<lambda>c.
     bindR (deref (gameobject c)) (\<lambda>a.
     bindR (get_obj h a) (\<lambda>g. Inr (go_ID g)))))"

definition addButton :: "'m eheap \<Rightarrow> cref \<Rightarrow> drawable_renderer \<Rightarrow> drawable_renderer result" where
  "addButton h b r =
     (if b \<in> set (m_buttons r) then Inr r
      else bindR (owner_id h b) (\<lambda>i.
           Inr (r\<lparr>m_buttons := m_buttons r @ [b], m_buttonGameObjectIDs := m_buttonGameObjectIDs r @ [i]\<rparr>)))"

definition remButton :: "cref \<Rightarrow> drawable_renderer \<Rightarrow> drawable_renderer result" where
  "remButton b r =
     (case find_index (\<lambda>p. p = b) (m_buttons r) of
        None \<Rightarrow> Inr r
      | Some i \<Rightarrow>
          if i < length (m_buttonGameObjectIDs r)
          then Inr (r\<lparr>m_buttons := vec_erase i (m_buttons r),
                      m_buttonGameObjectIDs := vec_erase i (m_buttonGameObjectIDs r)\<rparr>)
          else Inl (Undefined EraseEnd))"

definition clear_buttons :: "drawable_renderer \<Rightarrow> drawable_renderer" where
  "clear_buttons r = r\<lparr>m_buttons := []\<rparr>"

definition setKamera :: "'m eheap \<Rightarrow> cref \<Rightarrow> drawable_renderer \<Rightarrow> drawable_renderer result" where
  "setKamera h k r = bindR (owner_id h k) (\<lambda>i. Inr (r\<lparr>m_currentCamera := Ptr k, m_currentCameraID := Some i\<rparr>))"

definition checkButtons ::
    "nat \<Rightarrow> 'm env \<Rightarrow> 'm actor \<Rightarrow> cref \<Rightarrow> bool \<Rightarrow> bool \<Rightarrow> ('m, unit) act" where
  "checkButtons fuel env act this isDown isUp =
     bindA (readA (\<lambda>h. renderer_at h this)) (\<lambda>r.
     if length (m_buttons r) = 0 then retA ()
     else
     bindA (liftA (follow (m_currentCamera r))) (\<lambda>cam.
     bindA (heapA (getProjectionMatrix fuel (env_xna env) cam)) (\<lambda>toScreenSpaceMatrix.
     bindA (callA env GetCursorPos) (\<lambda>mPoint.
     bindA (callA env (ScreenToClient (m_hWnd r) (r_int0 mPoint) (r_int1 mPoint))) (\<lambda>mPoint.
     bindA (liftA (follow (m_pD3DContext r))) (\<lambda>ctx.
     bindA (callA env (RSGetViewports ctx)) (\<lambda>vPort.
     eachA (\<lambda>b. heapA (\<lambda>h. bindR (checkKlicked fuel (env_xna env) act b (r_int0 mPoint) (r_int1 mPoint)
                toScreenSpaceMatrix (r_viewport vPort) isDown isUp h) (\<lambda>h. Inr ((), h)))) (m_buttons r))))))))"


section \<open>The shader cache\<close>

text \<open>
  The local \<open>shaderContainer\<close> and the blobs are lost on the early returns that do not release them.
\<close>

definition addShaderByPath :: "'m env \<Rightarrow> cref \<Rightarrow> string \<Rightarrow> nat \<Rightarrow> ('m, nat ptr) act" where
  "addShaderByPath env this path numLayoutElements =
     bindA (readA (\<lambda>h. renderer_at h this)) (\<lambda>r.
     case smap_find (m_allShaders r) path of
       Some node \<Rightarrow> retA (Ptr (fst node))
     | None \<Rightarrow>
     bindA (CompileShader env path ''VS_Main'' ''vs_5_0'') (\<lambda>(res, pVSBuffer).
     if \<not> res then bindA (callA env (MessageBox ''Unable to load vertex shader'')) (\<lambda>_. retA Null)
     else
     bindA (liftA (follow (m_pD3DDevice r))) (\<lambda>dev.
     bindA (liftA (follow pVSBuffer)) (\<lambda>vsb.
     bindA (callA env (CreateVertexShader dev vsb)) (\<lambda>hr.
     let vs = out_ptr 0 hr Wild in
     if r_failed hr
     then bindA (release_ptr env pVSBuffer) (\<lambda>_.
          bindA (callA env (MessageBox ''Unable to create vertex shader'')) (\<lambda>_. retA Null))
     else
     bindA (callA env (CreateInputLayout dev numLayoutElements vsb)) (\<lambda>hr.
     let layout = out_ptr 0 hr Wild in
     if r_failed hr
     then bindA (callA env (MessageBox ''Unable to create Input layout'')) (\<lambda>_. retA Null)
     else
     bindA (callA env (Release vsb)) (\<lambda>_.
     bindA (CompileShader env path ''PS_Main'' ''ps_5_0'') (\<lambda>(res, pPSBuffer).
     if \<not> res then bindA (callA env (MessageBox ''Unable to load pixel shader'')) (\<lambda>_. retA Null)
     else
     bindA (liftA (follow pPSBuffer)) (\<lambda>psb.
     bindA (callA env (CreatePixelShader dev psb)) (\<lambda>hr.
     let ps = out_ptr 0 hr Wild in
     if r_failed hr
     then bindA (callA env (MessageBox ''Unable to create pixel shader'')) (\<lambda>_. retA Null)
     else
     bindA (callA env (Release psb)) (\<lambda>_.
     bindA freshA (\<lambda>node.
     bindA (modA this (\<lambda>r. r\<lparr>m_allShaders := smap_insert path (node,
              \<lparr>m_pVS = vs, m_pPS = ps, m_pInputLayout = layout\<rparr>) (m_allShaders r)\<rparr>)) (\<lambda>_.
     retA (Ptr node))))))))))))))"

definition getShaderByPath :: "string \<Rightarrow> drawable_renderer \<Rightarrow> nat ptr" where
  "getShaderByPath path r =
     (case smap_find (m_allShaders r) path of Some node \<Rightarrow> Ptr (fst node) | None \<Rightarrow> Null)"

text \<open>Following a \<open>RenderedShader*\<close>: the node it pointed to may be gone.\<close>

definition shader_at :: "drawable_renderer \<Rightarrow> nat ptr \<Rightarrow> rendered_shader result" where
  "shader_at r p =
     bindR (follow p) (\<lambda>n.
     case map_of (map snd (m_allShaders r)) n of None \<Rightarrow> Inl (Undefined Dangling) | Some sh \<Rightarrow> Inr sh)"


section \<open>The table of drawables\<close>

definition addDrawable :: "'m eheap \<Rightarrow> cref \<Rightarrow> drawable_renderer \<Rightarrow> drawable_renderer result" where
  "addDrawable h d r =
     (if d \<in> set (m_allDrawable r) then Inr r
      else bindR (rank_of is_drawable h d) (\<lambda>p.
           Inr (r\<lparr>m_allDrawable := m_allDrawable r @ [d],
                  m_allDrawableIDs := m_allDrawableIDs r @ (case p of None \<Rightarrow> [] | Some p \<Rightarrow> [p])\<rparr>)))"

text \<open>\<open>m_allDrawableIDs\<close> keeps the entry.\<close>

definition remDrawable :: "cref \<Rightarrow> drawable_renderer \<Rightarrow> drawable_renderer" where
  "remDrawable d r =
     (case find_index (\<lambda>p. p = d) (m_allDrawable r) of
        None \<Rightarrow> r
      | Some i \<Rightarrow> r\<lparr>m_allDrawable := vec_erase i (m_allDrawable r)\<rparr>)"


section \<open>Saving and loading the renderer\<close>

text \<open>The loop counts \<open>m_buttons\<close> and reads \<open>m_buttonGameObjectIDs\<close>.\<close>

definition renderer_serialize :: "drawable_renderer \<Rightarrow> writer" where
  "renderer_serialize r = write_all
     [write_member push_int (m_currentCameraID r), push_int (m_colorFormat r), push_int (m_refreshRateN r),
      push_int (m_refreshRateD r), push_bool (m_windowed r),
      write_all (map push_f32 (m_BackgroundColor r)),
      write_all (map (\<lambda>i msg. bindR (vec_at (m_buttonGameObjectIDs r) i) (\<lambda>v. push_int v msg))
        (rev [0..<nat (int_of_size (length (m_buttons r)))])),
      push_int (int_of_size (length (m_buttons r))),
      write_vec push_pair (m_allDrawableIDs r),
      push_cstr ''class DrawableRenderer'']"

definition renderer_set :: "drawable_renderer \<Rightarrow> ('w, drawable_renderer) reader" where
  "renderer_set r =
     bindP (read_vec pop_pair) (\<lambda>ps.
     bindP (read_vec pop_int) (\<lambda>bs.
     bindP pop_f32 (\<lambda>c3. bindP pop_f32 (\<lambda>c2. bindP pop_f32 (\<lambda>c1. bindP pop_f32 (\<lambda>c0.
     bindP pop_bool (\<lambda>windowed.
     bindP pop_int (\<lambda>rateD.
     bindP pop_int (\<lambda>rateN.
     bindP pop_int (\<lambda>format.
     bindP pop_int (\<lambda>camera.
     retP (r\<lparr>m_allDrawableIDs := m_allDrawableIDs r @ ps,
             m_buttonGameObjectIDs := m_buttonGameObjectIDs r @ bs,
             m_BackgroundColor := [c0, c1, c2, c3], m_windowed := windowed, m_refreshRateD := rateD,
             m_refreshRateN := rateN, m_colorFormat := format, m_currentCameraID := Some camera\<rparr>))))))))))))"

definition first_component :: "('c \<Rightarrow> bool) \<Rightarrow> 'c heap \<Rightarrow> storage \<Rightarrow> int \<Rightarrow> cref result" where
  "first_component P h st i =
     bindR (deref (map_getById (objects st) i)) (\<lambda>a.
     bindR (get_obj h a) (\<lambda>g. vec_at (findComponents P a g) 0))"

definition renderer_afterSet :: "'m eheap \<Rightarrow> storage \<Rightarrow> drawable_renderer \<Rightarrow> drawable_renderer result" where
  "renderer_afterSet h st r =
     bindR (foldR (\<lambda>i bs. bindR (first_component is_button h st i) (\<lambda>b. Inr (bs @ [b])))
       (m_buttonGameObjectIDs r) (m_buttons r)) (\<lambda>bs.
     bindR (foldR (\<lambda>p ds. bindR (resolve_rank is_drawable h st p) (\<lambda>d. Inr (ds @ [d])))
       (m_allDrawableIDs r) (m_allDrawable r)) (\<lambda>ds.
     bindR (read_member (m_currentCameraID r)) (\<lambda>c.
     bindR (first_component is_kamera h st c) (\<lambda>k.
     Inr (r\<lparr>m_buttons := bs, m_allDrawable := ds, m_currentCamera := Ptr k\<rparr>)))))"

end
