(* ===== verification/Drawables.thy ===== *)
theory Drawables
  imports Renderer
begin

text \<open>
  The five drawables of \<open>Engine/DrawableRenderer\<close>: \<open>Sprite.h\<close>, \<open>TeilSprite.h\<close>, \<open>InstancedSprite.h\<close>,
  \<open>InstancedTeilSprite.h\<close> and \<open>StringRenderer.h\<close>. They share the steps that create their Direct3D
  objects, release them and set up a draw call; each class has its vertices, its guards, its tables and
  its own way to place what it draws.
\<close>

section \<open>Direct3D objects of a drawable\<close>

definition new_gpu :: "nat ptr \<Rightarrow> gpu_members" where
  "new_gpu sh = \<lparr>m_pVertexBuffer = Null, m_pColorMap = Null, m_pColorMapSampler = Null,
     m_pAlphaBlendState = Null, m_constBuffer = Null, m_shaderContainer = sh\<rparr>"

text \<open>
  \<open>load\<close>: texture, sampler, the size of the texture, vertex buffer, constant buffer, blend state. The
  result of \<open>CreateBlendState\<close> is not looked at. A vertex has 20 bytes.
\<close>

definition create_gpu ::
    "'m env \<Rightarrow> cref \<Rightarrow> string \<Rightarrow> (int \<Rightarrow> int \<Rightarrow> vertex list) \<Rightarrow> nat \<Rightarrow> bool \<Rightarrow> gpu_members \<Rightarrow>
     ('m, bool \<times> gpu_members) act" where
  "create_gpu env rend tPath vertices constBytes dynamic g =
     bindA (readA (\<lambda>h. renderer_at h rend)) (\<lambda>r.
     bindA (liftA (follow (m_pD3DDevice r))) (\<lambda>dev.
     bindA (callA env (CreateTextureView dev tPath)) (\<lambda>hr.
     let g = g\<lparr>m_pColorMap := out_ptr 0 hr (m_pColorMap g)\<rparr> in
     if r_failed hr then bindA (callA env (MessageBox ''Unable to load texture'')) (\<lambda>_. retA (False, g))
     else
     bindA (callA env (CreateSamplerState dev)) (\<lambda>hr.
     let g = g\<lparr>m_pColorMapSampler := out_ptr 0 hr (m_pColorMapSampler g)\<rparr> in
     if r_failed hr
     then bindA (callA env (MessageBox ''Unable to create texture sampler state'')) (\<lambda>_. retA (False, g))
     else
     bindA (liftA (follow (m_pColorMap g))) (\<lambda>map.
     bindA (callA env (GetResource map)) (\<lambda>res.
     bindA (liftA (follow (out_ptr 0 res Wild))) (\<lambda>pColorMapRes.
     bindA (callA env (GetDesc pColorMapRes)) (\<lambda>desc.
     bindA (callA env (Release pColorMapRes)) (\<lambda>_.
     bindA (callA env (CreateVertexBuffer dev 120 (vertices (r_int0 desc) (r_int1 desc)))) (\<lambda>hr.
     let g = g\<lparr>m_pVertexBuffer := out_ptr 0 hr (m_pVertexBuffer g)\<rparr> in
     if r_failed hr then retA (False, g)
     else
     bindA (callA env (CreateConstantBuffer dev constBytes dynamic)) (\<lambda>hr.
     let g = g\<lparr>m_constBuffer := out_ptr 0 hr (m_constBuffer g)\<rparr> in
     if r_failed hr then retA (False, g)
     else
     bindA (callA env (CreateBlendState dev)) (\<lambda>hr.
     let g = g\<lparr>m_pAlphaBlendState := out_ptr 0 hr (m_pAlphaBlendState g)\<rparr> in
     bindA (liftA (follow (m_pD3DContext r))) (\<lambda>ctx.
     bindA (callA env (OMSetBlendState ctx (m_pAlphaBlendState g))) (\<lambda>_.
     retA (True, g)))))))))))))))"

definition release_gpu :: "'m env \<Rightarrow> gpu_members \<Rightarrow> ('m, gpu_members) act" where
  "release_gpu env g =
     bindA (release_ptr env (m_pVertexBuffer g)) (\<lambda>_.
     bindA (release_ptr env (m_pColorMap g)) (\<lambda>_.
     bindA (release_ptr env (m_pColorMapSampler g)) (\<lambda>_.
     bindA (release_ptr env (m_pAlphaBlendState g)) (\<lambda>_.
     bindA (release_ptr env (m_constBuffer g)) (\<lambda>_.
     retA (g\<lparr>m_pVertexBuffer := Null, m_pColorMap := Null, m_pColorMapSampler := Null,
             m_pAlphaBlendState := Null, m_constBuffer := Null\<rparr>))))))"

text \<open>The calls that come before the draw calls, the same in every \<open>render\<close>.\<close>

definition begin_draw :: "'m env \<Rightarrow> handle \<Rightarrow> drawable_renderer \<Rightarrow> gpu_members \<Rightarrow> ('m, unit) act" where
  "begin_draw env ctx r g =
     bindA (liftA (shader_at r (m_shaderContainer g))) (\<lambda>sh.
     bindA (callA env (IASetInputLayout ctx (m_pInputLayout sh))) (\<lambda>_.
     bindA (callA env (IASetVertexBuffers ctx (m_pVertexBuffer g) 20)) (\<lambda>_.
     bindA (callA env (IASetPrimitiveTopology ctx)) (\<lambda>_.
     bindA (callA env (VSSetShader ctx (m_pVS sh))) (\<lambda>_.
     bindA (callA env (PSSetShader ctx (m_pPS sh))) (\<lambda>_.
     bindA (callA env (PSSetShaderResources ctx (m_pColorMap g))) (\<lambda>_.
     bindA (callA env (PSSetSamplers ctx (m_pColorMapSampler g))) (\<lambda>_.
     retA ()))))))))"

text \<open>Upload a matrix and draw; map the instance buffer, copy rectangle and matrix, and draw.\<close>

definition draw_matrix :: "'m env \<Rightarrow> handle \<Rightarrow> gpu_members \<Rightarrow> 'm \<Rightarrow> 'm \<Rightarrow> ('m, unit) act" where
  "draw_matrix env ctx g world proj =
     (let xm = env_xna env; mvp = XMMatrixTranspose xm (XMMatrixMultiply xm world proj) in
      bindA (callA env (UpdateSubresource ctx (m_constBuffer g) mvp)) (\<lambda>_.
      bindA (callA env (VSSetConstantBuffers ctx (m_constBuffer g))) (\<lambda>_.
      bindA (callA env (Draw ctx 6 0)) (\<lambda>_. retA ()))))"

definition draw_instance :: "'m env \<Rightarrow> handle \<Rightarrow> gpu_members \<Rightarrow> xmfloat4 \<Rightarrow> 'm \<Rightarrow> 'm \<Rightarrow> ('m, unit) act" where
  "draw_instance env ctx g rect world proj =
     (let xm = env_xna env; mat = XMMatrixTranspose xm (XMMatrixMultiply xm world proj) in
      bindA (callA env (MapDiscard ctx (m_constBuffer g))) (\<lambda>_.
      bindA (callA env (CopyInstance rect mat)) (\<lambda>_.
      bindA (callA env (Unmap ctx (m_constBuffer g))) (\<lambda>_.
      bindA (callA env (VSSetConstantBuffers ctx (m_constBuffer g))) (\<lambda>_.
      bindA (callA env (Draw ctx 6 0)) (\<lambda>_. retA ()))))))"

definition renderer_ctx :: "cref \<Rightarrow> ('m, drawable_renderer \<times> handle) act" where
  "renderer_ctx rend =
     bindA (readA (\<lambda>h. renderer_at h rend)) (\<lambda>r.
     bindA (liftA (follow (m_pD3DContext r))) (\<lambda>ctx. retA (r, ctx)))"

definition vertex_at :: "f32 \<Rightarrow> f32 \<Rightarrow> f32 \<Rightarrow> f32 \<Rightarrow> vertex" where
  "vertex_at x y u v = (\<lparr>f3x = x, f3y = y, f3z = f32_one\<rparr>, u, v)"

text \<open>
  Two triangles over the rectangle with half sides \<open>hw\<close>, \<open>hh\<close>; \<open>u0\<close>, \<open>u1\<close> are the texture coordinates
  of the left and right side, \<open>vt\<close>, \<open>vb\<close> those of the upper and lower side.
\<close>

definition quad :: "f32 \<Rightarrow> f32 \<Rightarrow> f32 \<Rightarrow> f32 \<Rightarrow> f32 \<Rightarrow> f32 \<Rightarrow> vertex list" where
  "quad hw hh u0 vt u1 vb =
     [vertex_at hw hh u1 vt, vertex_at hw (f32_neg hh) u1 vb,
      vertex_at (f32_neg hw) (f32_neg hh) u0 vb,
      vertex_at (f32_neg hw) (f32_neg hh) u0 vb,
      vertex_at (f32_neg hw) hh u0 vt, vertex_at hw hh u1 vt]"

definition half_side :: "int \<Rightarrow> f32" where
  "half_side n = f32_div (f32_of_int n) f32_two"

definition unit_quad :: "vertex list" where
  "unit_quad = quad f32_half f32_half f32_zero f32_zero f32_one f32_one"


section \<open>\<open>Sprite\<close>\<close>

definition new_sprite :: sprite where
  "new_sprite = \<lparr>s_transform = Null, s_texturePath = '''', s_shaderPath = '''', s_gpu = new_gpu Null\<rparr>"

definition sprite_registerShader :: "'m env \<Rightarrow> cref \<Rightarrow> cref \<Rightarrow> ('m, bool) act" where
  "sprite_registerShader env rend this =
     bindA (readA (\<lambda>h. cast_at as_sprite h this)) (\<lambda>s.
     bindA (addShaderByPath env rend (s_shaderPath s) 2) (\<lambda>sh.
     bindA (writeA this (CSprite (s\<lparr>s_gpu := (s_gpu s)\<lparr>m_shaderContainer := sh\<rparr>\<rparr>))) (\<lambda>_.
     retA True)))"

definition sprite_load :: "'m env \<Rightarrow> cref \<Rightarrow> cref \<Rightarrow> ('m, bool) act" where
  "sprite_load env rend this =
     bindA (readA (\<lambda>h. cast_at as_sprite h this)) (\<lambda>s.
     bindA (create_gpu env rend (s_texturePath s)
        (\<lambda>w h. quad (half_side w) (half_side h) f32_zero f32_zero f32_one f32_one) 64 False (s_gpu s)) (\<lambda>(done, g).
     bindA (writeA this (CSprite (s\<lparr>s_gpu := g\<rparr>))) (\<lambda>_. retA done)))"

definition sprite_unload :: "'m env \<Rightarrow> cref \<Rightarrow> ('m, unit) act" where
  "sprite_unload env this =
     bindA (readA (\<lambda>h. cast_at as_sprite h this)) (\<lambda>s.
     bindA (release_gpu env (s_gpu s)) (\<lambda>g. writeA this (CSprite (s\<lparr>s_gpu := g\<rparr>))))"

definition sprite_render :: "nat \<Rightarrow> 'm env \<Rightarrow> cref \<Rightarrow> cref \<Rightarrow> 'm \<Rightarrow> ('m, unit) act" where
  "sprite_render fuel env rend this proj =
     bindA (readA (\<lambda>h. cast_at as_sprite h this)) (\<lambda>s.
     bindA (renderer_ctx rend) (\<lambda>(r, ctx).
     bindA (begin_draw env ctx r (s_gpu s)) (\<lambda>_.
     bindA (liftA (follow (s_transform s))) (\<lambda>t.
     bindA (heapA (GetWorldMatrix fuel (env_xna env) t)) (\<lambda>world.
     draw_matrix env ctx (s_gpu s) world proj)))))"

definition sprite_setRequirements :: "cref list \<Rightarrow> sprite \<Rightarrow> sprite result" where
  "sprite_setRequirements toSet s = bindR (vec_at toSet 0) (\<lambda>t. Inr (s\<lparr>s_transform := Ptr t\<rparr>))"

definition sprite_set :: "sprite \<Rightarrow> ('w, sprite) reader" where
  "sprite_set s = bindP pop_string (\<lambda>shader. bindP pop_string (\<lambda>texture.
     retP (s\<lparr>s_shaderPath := shader, s_texturePath := texture\<rparr>)))"

definition sprite_serialize :: "sprite \<Rightarrow> writer" where
  "sprite_serialize s = write_all
     [push_string (s_texturePath s), push_string (s_shaderPath s), push_cstr ''class Sprite'']"


section \<open>\<open>TeilSprite\<close>\<close>

text \<open>The constructor leaves \<open>transform\<close> alone.\<close>

definition new_teil_sprite :: teil_sprite where
  "new_teil_sprite = \<lparr>ts_transform = Wild, ts_texturePath = '''', ts_shaderPath = '''',
     m_spriteRect = [f32_zero, f32_zero, f32_one, f32_one], ts_gpu = new_gpu Null\<rparr>"

definition teilSprite_registerShader :: "'m env \<Rightarrow> cref \<Rightarrow> cref \<Rightarrow> ('m, bool) act" where
  "teilSprite_registerShader env rend this =
     bindA (readA (\<lambda>h. cast_at as_teil_sprite h this)) (\<lambda>s.
     bindA (addShaderByPath env rend (ts_shaderPath s) 2) (\<lambda>sh.
     bindA (writeA this (CTeilSprite (s\<lparr>ts_gpu := (ts_gpu s)\<lparr>m_shaderContainer := sh\<rparr>\<rparr>))) (\<lambda>_.
     retA True)))"

definition teilSprite_load :: "'m env \<Rightarrow> cref \<Rightarrow> cref \<Rightarrow> ('m, bool) act" where
  "teilSprite_load env rend this =
     bindA (readA (\<lambda>h. cast_at as_teil_sprite h this)) (\<lambda>s.
     if ts_texturePath s = ''''
     then bindA (callA env (MessageBox ''es ist kein texture path angegeben'')) (\<lambda>_. retA False)
     else
     bindA (create_gpu env rend (ts_texturePath s)
        (\<lambda>w h. quad (half_side w) (half_side h) (m_spriteRect s ! 0) (m_spriteRect s ! 3) (m_spriteRect s ! 2) (m_spriteRect s ! 1))
        64 False (ts_gpu s)) (\<lambda>(done, g).
     bindA (writeA this (CTeilSprite (s\<lparr>ts_gpu := g\<rparr>))) (\<lambda>_. retA done)))"

definition teilSprite_unload :: "'m env \<Rightarrow> cref \<Rightarrow> ('m, unit) act" where
  "teilSprite_unload env this =
     bindA (readA (\<lambda>h. cast_at as_teil_sprite h this)) (\<lambda>s.
     bindA (release_gpu env (ts_gpu s)) (\<lambda>g. writeA this (CTeilSprite (s\<lparr>ts_gpu := g\<rparr>))))"

definition teilSprite_render :: "nat \<Rightarrow> 'm env \<Rightarrow> cref \<Rightarrow> cref \<Rightarrow> 'm \<Rightarrow> ('m, unit) act" where
  "teilSprite_render fuel env rend this proj =
     bindA (readA (\<lambda>h. cast_at as_teil_sprite h this)) (\<lambda>s.
     bindA (renderer_ctx rend) (\<lambda>(r, ctx).
     bindA (begin_draw env ctx r (ts_gpu s)) (\<lambda>_.
     bindA (liftA (follow (ts_transform s))) (\<lambda>t.
     bindA (heapA (GetWorldMatrix fuel (env_xna env) t)) (\<lambda>world.
     draw_matrix env ctx (ts_gpu s) world proj)))))"

definition teilSprite_setRequirements :: "cref list \<Rightarrow> teil_sprite \<Rightarrow> teil_sprite result" where
  "teilSprite_setRequirements toSet s = bindR (vec_at toSet 0) (\<lambda>t. Inr (s\<lparr>ts_transform := Ptr t\<rparr>))"

definition teilSprite_set :: "teil_sprite \<Rightarrow> ('w, teil_sprite) reader" where
  "teilSprite_set s =
     bindP pop_f32 (\<lambda>c3. bindP pop_f32 (\<lambda>c2. bindP pop_f32 (\<lambda>c1. bindP pop_f32 (\<lambda>c0.
     bindP pop_string (\<lambda>shader. bindP pop_string (\<lambda>texture.
     retP (s\<lparr>m_spriteRect := [c0, c1, c2, c3], ts_shaderPath := shader, ts_texturePath := texture\<rparr>)))))))"

definition teilSprite_serialize :: "teil_sprite \<Rightarrow> writer" where
  "teilSprite_serialize s = write_all
     [push_string (ts_texturePath s), push_string (ts_shaderPath s),
      write_all (map push_f32 (m_spriteRect s)), push_cstr ''class TeilSprite'']"


section \<open>\<open>InstancedSprite\<close>\<close>

definition new_instanced_sprite :: instanced_sprite where
  "new_instanced_sprite = \<lparr>is_texturePath = '''', is_shaderPath = '''', is_instancen = [],
     m_instancenID = [], is_gpu = new_gpu Wild\<rparr>"

definition instancedSprite_registerShader :: "'m env \<Rightarrow> cref \<Rightarrow> cref \<Rightarrow> ('m, bool) act" where
  "instancedSprite_registerShader env rend this =
     bindA (readA (\<lambda>h. cast_at as_instanced_sprite h this)) (\<lambda>s.
     if is_shaderPath s = ''''
     then bindA (callA env (MessageBox ''es ist kein shader path angegeben'')) (\<lambda>_. retA False)
     else
     bindA (addShaderByPath env rend (is_shaderPath s) 2) (\<lambda>sh.
     bindA (writeA this (CInstancedSprite (s\<lparr>is_gpu := (is_gpu s)\<lparr>m_shaderContainer := sh\<rparr>\<rparr>))) (\<lambda>_.
     retA True)))"

definition instancedSprite_load :: "'m env \<Rightarrow> cref \<Rightarrow> cref \<Rightarrow> ('m, bool) act" where
  "instancedSprite_load env rend this =
     bindA (readA (\<lambda>h. cast_at as_instanced_sprite h this)) (\<lambda>s.
     if is_texturePath s = ''''
     then bindA (callA env (MessageBox ''es ist kein texture path angegeben'')) (\<lambda>_. retA False)
     else
     bindA (create_gpu env rend (is_texturePath s)
        (\<lambda>w h. quad (half_side w) (half_side h) f32_zero f32_zero f32_one f32_one) 64 False (is_gpu s)) (\<lambda>(done, g).
     bindA (writeA this (CInstancedSprite (s\<lparr>is_gpu := g\<rparr>))) (\<lambda>_. retA done)))"

definition instancedSprite_unload :: "'m env \<Rightarrow> cref \<Rightarrow> ('m, unit) act" where
  "instancedSprite_unload env this =
     bindA (readA (\<lambda>h. cast_at as_instanced_sprite h this)) (\<lambda>s.
     bindA (release_gpu env (is_gpu s)) (\<lambda>g. writeA this (CInstancedSprite (s\<lparr>is_gpu := g\<rparr>))))"

definition instancedSprite_render :: "nat \<Rightarrow> 'm env \<Rightarrow> cref \<Rightarrow> cref \<Rightarrow> 'm \<Rightarrow> ('m, unit) act" where
  "instancedSprite_render fuel env rend this proj =
     bindA (readA (\<lambda>h. cast_at as_instanced_sprite h this)) (\<lambda>s.
     bindA (renderer_ctx rend) (\<lambda>(r, ctx).
     bindA (begin_draw env ctx r (is_gpu s)) (\<lambda>_.
     eachA (\<lambda>t. bindA (heapA (GetWorldMatrix fuel (env_xna env) t)) (\<lambda>world.
        draw_matrix env ctx (is_gpu s) world proj)) (is_instancen s))))"

definition instancedSprite_set :: "instanced_sprite \<Rightarrow> ('w, instanced_sprite) reader" where
  "instancedSprite_set s =
     bindP (read_vec pop_int) (\<lambda>ids. bindP pop_string (\<lambda>shader. bindP pop_string (\<lambda>texture.
     retP (s\<lparr>m_instancenID := m_instancenID s @ ids, is_shaderPath := shader, is_texturePath := texture\<rparr>))))"

definition instancedSprite_afterSet :: "'m eheap \<Rightarrow> storage \<Rightarrow> instanced_sprite \<Rightarrow> instanced_sprite result" where
  "instancedSprite_afterSet h st s =
     bindR (foldR (\<lambda>i ts. bindR (first_component is_transform h st i) (\<lambda>t. Inr (ts @ [t])))
       (m_instancenID s) (is_instancen s)) (\<lambda>ts. Inr (s\<lparr>is_instancen := ts\<rparr>))"

definition instancedSprite_serialize :: "instanced_sprite \<Rightarrow> writer" where
  "instancedSprite_serialize s = write_all
     [push_string (is_texturePath s), push_string (is_shaderPath s), write_vec push_int (m_instancenID s),
      push_cstr ''class InstancedSprite'']"


section \<open>\<open>InstancedTeilSprite\<close>\<close>

definition new_its_instance :: its_instance where
  "new_its_instance = \<lparr>i_transform = Wild, i_rect = None\<rparr>"

definition itsInstance_setRequirements :: "cref list \<Rightarrow> its_instance \<Rightarrow> its_instance result" where
  "itsInstance_setRequirements toSet i = bindR (vec_at toSet 0) (\<lambda>t. Inr (i\<lparr>i_transform := Ptr t\<rparr>))"

definition itsInstance_set :: "its_instance \<Rightarrow> ('w, its_instance) reader" where
  "itsInstance_set i = bindP pop_xmfloat4 (\<lambda>r. retP (i\<lparr>i_rect := Some r\<rparr>))"

definition itsInstance_serialize :: "its_instance \<Rightarrow> writer" where
  "itsInstance_serialize i = write_all
     [write_member push_xmfloat4 (i_rect i), push_cstr ''class InstancedTeilSprite::Instance'']"

definition new_instanced_teil_sprite :: instanced_teil_sprite where
  "new_instanced_teil_sprite = \<lparr>its_texturePath = '''', its_shaderPath = '''', its_instancen = [],
     its_instancenIDs = [], its_gpu = new_gpu Wild\<rparr>"

definition instancedTeilSprite_registerShader :: "'m env \<Rightarrow> cref \<Rightarrow> cref \<Rightarrow> ('m, bool) act" where
  "instancedTeilSprite_registerShader env rend this =
     bindA (readA (\<lambda>h. cast_at as_instanced_teil_sprite h this)) (\<lambda>s.
     if its_shaderPath s = ''''
     then bindA (callA env (MessageBox ''es ist kein shader path angegeben'')) (\<lambda>_. retA False)
     else
     bindA (addShaderByPath env rend (its_shaderPath s) 2) (\<lambda>sh.
     bindA (writeA this (CInstancedTeilSprite (s\<lparr>its_gpu := (its_gpu s)\<lparr>m_shaderContainer := sh\<rparr>\<rparr>))) (\<lambda>_.
     retA True)))"

text \<open>The vertices do not depend on the texture; the instance buffer holds a rectangle and a matrix.\<close>

definition instancedTeilSprite_load :: "'m env \<Rightarrow> cref \<Rightarrow> cref \<Rightarrow> ('m, bool) act" where
  "instancedTeilSprite_load env rend this =
     bindA (readA (\<lambda>h. cast_at as_instanced_teil_sprite h this)) (\<lambda>s.
     if its_texturePath s = ''''
     then bindA (callA env (MessageBox ''es ist kein texture path angegeben'')) (\<lambda>_. retA False)
     else
     bindA (create_gpu env rend (its_texturePath s) (\<lambda>w h. unit_quad) 80 True (its_gpu s)) (\<lambda>(done, g).
     bindA (writeA this (CInstancedTeilSprite (s\<lparr>its_gpu := g\<rparr>))) (\<lambda>_. retA done)))"

definition instancedTeilSprite_unload :: "'m env \<Rightarrow> cref \<Rightarrow> ('m, unit) act" where
  "instancedTeilSprite_unload env this =
     bindA (readA (\<lambda>h. cast_at as_instanced_teil_sprite h this)) (\<lambda>s.
     bindA (release_gpu env (its_gpu s)) (\<lambda>g. writeA this (CInstancedTeilSprite (s\<lparr>its_gpu := g\<rparr>))))"

text \<open>\<open>isActiv\<close> is a member of the component base class.\<close>

definition activ_at :: "'c heap \<Rightarrow> cref \<Rightarrow> bool result" where
  "activ_at h r =
     bindR (get_obj h (fst r)) (\<lambda>g. bindR (vec_at (componenten g) (snd r)) (\<lambda>c. read_member (isActiv c)))"

definition instancedTeilSprite_render :: "nat \<Rightarrow> 'm env \<Rightarrow> cref \<Rightarrow> cref \<Rightarrow> 'm \<Rightarrow> ('m, unit) act" where
  "instancedTeilSprite_render fuel env rend this proj =
     bindA (readA (\<lambda>h. activ_at h this)) (\<lambda>activ.
     if \<not> activ then retA ()
     else
     bindA (readA (\<lambda>h. cast_at as_instanced_teil_sprite h this)) (\<lambda>s.
     bindA (renderer_ctx rend) (\<lambda>(r, ctx).
     bindA (begin_draw env ctx r (its_gpu s)) (\<lambda>_.
     eachA (\<lambda>i. bindA (readA (\<lambda>h. cast_at as_its_instance h i)) (\<lambda>inst.
        bindA (liftA (follow (i_transform inst))) (\<lambda>t.
        bindA (heapA (GetWorldMatrix fuel (env_xna env) t)) (\<lambda>world.
        bindA (liftA (read_member (i_rect inst))) (\<lambda>rect.
        draw_instance env ctx (its_gpu s) rect world proj))))) (its_instancen s)))))"

definition instancedTeilSprite_set :: "instanced_teil_sprite \<Rightarrow> ('w, instanced_teil_sprite) reader" where
  "instancedTeilSprite_set s =
     bindP (read_vec pop_pair) (\<lambda>ids. bindP pop_string (\<lambda>shader. bindP pop_string (\<lambda>texture.
     retP (s\<lparr>its_instancenIDs := its_instancenIDs s @ ids, its_shaderPath := shader, its_texturePath := texture\<rparr>))))"

definition instancedTeilSprite_afterSet ::
    "'m eheap \<Rightarrow> storage \<Rightarrow> instanced_teil_sprite \<Rightarrow> instanced_teil_sprite result" where
  "instancedTeilSprite_afterSet h st s =
     bindR (foldR (\<lambda>p is. bindR (resolve_rank is_its_instance h st p) (\<lambda>i. Inr (is @ [i])))
       (its_instancenIDs s) (its_instancen s)) (\<lambda>is. Inr (s\<lparr>its_instancen := is\<rparr>))"

definition instancedTeilSprite_serialize :: "instanced_teil_sprite \<Rightarrow> writer" where
  "instancedTeilSprite_serialize s = write_all
     [push_string (its_texturePath s), push_string (its_shaderPath s),
      write_vec push_pair (its_instancenIDs s), push_cstr ''class InstancedTeilSprite'']"

text \<open>The instance is listed even when the search for its rank finds nothing.\<close>

definition its_addInstance :: "'m eheap \<Rightarrow> cref \<Rightarrow> instanced_teil_sprite \<Rightarrow> instanced_teil_sprite result" where
  "its_addInstance h i s =
     bindR (rank_of is_its_instance h i) (\<lambda>p.
     Inr (s\<lparr>its_instancen := its_instancen s @ [i],
            its_instancenIDs := its_instancenIDs s @ (case p of None \<Rightarrow> [] | Some p \<Rightarrow> [p])\<rparr>))"

definition its_remInstance :: "cref \<Rightarrow> instanced_teil_sprite \<Rightarrow> instanced_teil_sprite result" where
  "its_remInstance i s =
     (case find_index (\<lambda>p. p = i) (its_instancen s) of
        None \<Rightarrow> Inr s
      | Some k \<Rightarrow>
          if k < length (its_instancenIDs s)
          then Inr (s\<lparr>its_instancen := vec_erase k (its_instancen s),
                      its_instancenIDs := vec_erase k (its_instancenIDs s)\<rparr>)
          else Inl (Undefined EraseEnd))"


end
