(* ===== verification/String_Renderer.thy ===== *)
theory String_Renderer
  imports Drawables
begin

text \<open>
  \<open>Engine/DrawableRenderer/StringRenderer.h\<close>: text drawn character by character from a table of glyphs.
  The pen is a \<open>Transform\<close> on the stack that is moved along; its parent is the transform of the text.
\<close>

section \<open>Instances\<close>

definition new_string_instance :: string_instance where
  "new_string_instance = \<lparr>si_transform = Wild, si_string = ''''\<rparr>"

definition stringInstance_setRequirements :: "cref list \<Rightarrow> string_instance \<Rightarrow> string_instance result" where
  "stringInstance_setRequirements toSet i = bindR (vec_at toSet 0) (\<lambda>t. Inr (i\<lparr>si_transform := Ptr t\<rparr>))"

definition stringInstance_set :: "string_instance \<Rightarrow> ('w, string_instance) reader" where
  "stringInstance_set i = bindP pop_string (\<lambda>s. retP (i\<lparr>si_string := s\<rparr>))"

definition stringInstance_afterSet :: "'m eheap \<Rightarrow> addr \<Rightarrow> string_instance \<Rightarrow> string_instance result" where
  "stringInstance_afterSet h owner i =
     bindR (get_obj h owner) (\<lambda>g.
     bindR (vec_at (findComponents is_transform owner g) 0) (\<lambda>t. Inr (i\<lparr>si_transform := Ptr t\<rparr>)))"

definition stringInstance_serialize :: "string_instance \<Rightarrow> writer" where
  "stringInstance_serialize i = write_all
     [push_string (si_string i), push_cstr ''class StringRenderer::Instance'']"


section \<open>The renderer\<close>

text \<open>The glyph table is an array of 256 structures that the constructor does not fill.\<close>

definition new_string_renderer :: string_renderer where
  "new_string_renderer = \<lparr>sr_texturePath = '''', sr_shaderPath = '''', m_tabSize = f32_one,
     m_endLineSize = f32_one, m_charSizeMultiplier = f32_one, m_alphabetRects = replicate 256 None,
     sr_instancen = [], sr_instancenIDs = [], sr_gpu = new_gpu Wild\<rparr>"

definition stringRenderer_registerShader :: "'m env \<Rightarrow> cref \<Rightarrow> cref \<Rightarrow> ('m, bool) act" where
  "stringRenderer_registerShader env rend this =
     bindA (readA (\<lambda>h. cast_at as_string_renderer h this)) (\<lambda>s.
     if sr_shaderPath s = ''''
     then bindA (callA env (MessageBox ''es ist kein shader path angegeben'')) (\<lambda>_. retA False)
     else
     bindA (addShaderByPath env rend (sr_shaderPath s) 2) (\<lambda>sh.
     bindA (writeA this (CStringRenderer (s\<lparr>sr_gpu := (sr_gpu s)\<lparr>m_shaderContainer := sh\<rparr>\<rparr>))) (\<lambda>_.
     retA True)))"

definition stringRenderer_load :: "'m env \<Rightarrow> cref \<Rightarrow> cref \<Rightarrow> ('m, bool) act" where
  "stringRenderer_load env rend this =
     bindA (readA (\<lambda>h. cast_at as_string_renderer h this)) (\<lambda>s.
     if sr_texturePath s = ''''
     then bindA (callA env (MessageBox ''es ist kein texture path angegeben'')) (\<lambda>_. retA False)
     else
     bindA (create_gpu env rend (sr_texturePath s) (\<lambda>w h. unit_quad) 80 True (sr_gpu s)) (\<lambda>(done, g).
     bindA (writeA this (CStringRenderer (s\<lparr>sr_gpu := g\<rparr>))) (\<lambda>_. retA done)))"

definition stringRenderer_unload :: "'m env \<Rightarrow> cref \<Rightarrow> ('m, unit) act" where
  "stringRenderer_unload env this =
     bindA (readA (\<lambda>h. cast_at as_string_renderer h this)) (\<lambda>s.
     bindA (release_gpu env (sr_gpu s)) (\<lambda>g. writeA this (CStringRenderer (s\<lparr>sr_gpu := g\<rparr>))))"

text \<open>\<open>m_alphabetRects[current]\<close> with a signed \<open>char\<close>: codes above 127 are negative indices.\<close>

definition glyph :: "string_renderer \<Rightarrow> char \<Rightarrow> float6 result" where
  "glyph s current =
     (let code = (of_char current :: nat) in
      if 128 \<le> code then Inl (Undefined OutOfBounds)
      else bindR (vec_at (m_alphabetRects s) code) read_member)"

text \<open>One character: a line feed and a tabulator move the pen, any other character is drawn.\<close>

definition render_char ::
    "nat \<Rightarrow> 'm env \<Rightarrow> handle \<Rightarrow> string_renderer \<Rightarrow> 'm \<Rightarrow> char \<Rightarrow> 'm transform \<Rightarrow> ('m, 'm transform) act" where
  "render_char fuel env ctx s proj current t =
     (if current = CHR 0x0A
      then retA (SetPosition_xyz f32_zero (f32_sub (f3y (m_position t)) (m_endLineSize s)) f32_zero t)
      else if current = CHR 0x09
      then retA (AddPosition_xyz (m_tabSize s) f32_zero f32_zero t)
      else
      bindA (liftA (glyph s current)) (\<lambda>r.
      let t = SetScale_xyz (f6e r) (f6f r) f32_one t in
      bindA (heapA (\<lambda>h. bindR (GetWorldMatrix_local fuel (env_xna env) t h) (\<lambda>(m, t, h). Inr ((m, t), h))))
        (\<lambda>(world, t).
      bindA (draw_instance env ctx (sr_gpu s) \<lparr>f4x = f6a r, f4y = f6b r, f4z = f6c r, f4w = f6d r\<rparr> world proj) (\<lambda>_.
      retA (AddPosition_xyz (f32_mul (f6e r) (m_charSizeMultiplier s)) f32_zero f32_zero t)))))"

fun render_chars ::
    "nat \<Rightarrow> 'm env \<Rightarrow> handle \<Rightarrow> string_renderer \<Rightarrow> 'm \<Rightarrow> string \<Rightarrow> 'm transform \<Rightarrow> ('m, unit) act" where
  "render_chars fuel env ctx s proj [] t = retA ()"
| "render_chars fuel env ctx s proj (c # cs) t =
     bindA (render_char fuel env ctx s proj c t) (\<lambda>t. render_chars fuel env ctx s proj cs t)"

definition stringRenderer_render :: "nat \<Rightarrow> 'm env \<Rightarrow> cref \<Rightarrow> cref \<Rightarrow> 'm \<Rightarrow> ('m, unit) act" where
  "stringRenderer_render fuel env rend this proj =
     bindA (readA (\<lambda>h. cast_at as_string_renderer h this)) (\<lambda>s.
     bindA (renderer_ctx rend) (\<lambda>(r, ctx).
     bindA (begin_draw env ctx r (sr_gpu s)) (\<lambda>_.
     eachA (\<lambda>i. bindA (readA (\<lambda>h. cast_at as_string_instance h i)) (\<lambda>inst.
        bindA (readA (\<lambda>h. case transform_setParrent h (si_transform inst) new_transform of
                 (Inl e, t) \<Rightarrow> Inl e | (Inr _, t) \<Rightarrow> Inr t)) (\<lambda>t.
        render_chars fuel env ctx s proj (si_string inst) t))) (sr_instancen s))))"

text \<open>The 256 glyphs are written from the last to the first, and read from the first to the last.\<close>

definition stringRenderer_set :: "string_renderer \<Rightarrow> ('w, string_renderer) reader" where
  "stringRenderer_set s =
     bindP (times_read 256 pop_float6) (\<lambda>rects.
     bindP (read_vec pop_pair) (\<lambda>ids.
     bindP pop_f32 (\<lambda>size. bindP pop_f32 (\<lambda>endLine. bindP pop_f32 (\<lambda>tab.
     bindP pop_string (\<lambda>shader. bindP pop_string (\<lambda>texture.
     retP (s\<lparr>m_alphabetRects := map Some rects, sr_instancenIDs := sr_instancenIDs s @ ids,
             m_charSizeMultiplier := size, m_endLineSize := endLine, m_tabSize := tab,
             sr_shaderPath := shader, sr_texturePath := texture\<rparr>))))))))"

definition stringRenderer_afterSet :: "'m eheap \<Rightarrow> storage \<Rightarrow> string_renderer \<Rightarrow> string_renderer result" where
  "stringRenderer_afterSet h st s =
     bindR (foldR (\<lambda>p is. bindR (resolve_rank is_string_instance h st p) (\<lambda>i. Inr (is @ [i])))
       (sr_instancenIDs s) (sr_instancen s)) (\<lambda>is. Inr (s\<lparr>sr_instancen := is\<rparr>))"

definition stringRenderer_serialize :: "string_renderer \<Rightarrow> writer" where
  "stringRenderer_serialize s = write_all
     [push_string (sr_texturePath s), push_string (sr_shaderPath s),
      push_f32 (m_tabSize s), push_f32 (m_endLineSize s), push_f32 (m_charSizeMultiplier s),
      write_vec push_pair (sr_instancenIDs s),
      write_all (map (\<lambda>i msg. bindR (vec_at (m_alphabetRects s) i) (\<lambda>g. write_member push_float6 g msg)) (rev [0..<256])),
      push_cstr ''class StringRenderer'']"

definition sr_addInstance :: "'m eheap \<Rightarrow> cref \<Rightarrow> string_renderer \<Rightarrow> string_renderer result" where
  "sr_addInstance h i s =
     bindR (rank_of is_string_instance h i) (\<lambda>p.
     Inr (s\<lparr>sr_instancen := sr_instancen s @ [i],
            sr_instancenIDs := sr_instancenIDs s @ (case p of None \<Rightarrow> [] | Some p \<Rightarrow> [p])\<rparr>))"

definition sr_remInstance :: "cref \<Rightarrow> string_renderer \<Rightarrow> string_renderer result" where
  "sr_remInstance i s =
     (case find_index (\<lambda>p. p = i) (sr_instancen s) of
        None \<Rightarrow> Inr s
      | Some k \<Rightarrow>
          if k < length (sr_instancenIDs s)
          then Inr (s\<lparr>sr_instancen := vec_erase k (sr_instancen s),
                      sr_instancenIDs := vec_erase k (sr_instancenIDs s)\<rparr>)
          else Inl (Undefined EraseEnd))"

end
