(* ===== verification/Engine_Codecs.thy ===== *)
theory Engine_Codecs
  imports String_Renderer
begin

text \<open>
  What the remaining component classes keep when they are saved: for every class its layout and the
  instance that is read back, as interpretations of the contract \<open>class_codec\<close>. The pointers to other
  components and the Direct3D objects are not in the format.
\<close>

section \<open>Sprites\<close>

definition sprite_enc :: "sprite \<Rightarrow> byte list" where
  "sprite_enc s = enc_string (s_texturePath s) @ enc_string (s_shaderPath s)"

definition sprite_img :: "sprite \<Rightarrow> sprite" where
  "sprite_img s = new_sprite\<lparr>s_texturePath := s_texturePath s, s_shaderPath := s_shaderPath s\<rparr>"

interpretation sprite: class_codec "''class Sprite''" new_sprite sprite_serialize sprite_set
    sprite_enc sprite_img "\<lambda>_ w. w" "\<lambda>_. True"
proof
  fix s :: sprite
  have nm: "appends (push_cstr ''class Sprite'') (enc_string ''class Sprite'')"
    by (rule appends_class_name) simp
  have "appends (sprite_serialize s) (enc_string (s_texturePath s) @ enc_string (s_shaderPath s) @
      enc_string ''class Sprite'' @ [])"
    unfolding sprite_serialize_def by (intro appends_Cons appends_Nil appends_string_enc nm)
  then show "appends (sprite_serialize s) (sprite_enc s @ enc_string ''class Sprite'')"
    by (simp add: sprite_enc_def)
  have "reads (sprite_set new_sprite) (([] @ enc_string (s_texturePath s)) @ enc_string (s_shaderPath s))
     (new_sprite\<lparr>s_shaderPath := s_shaderPath s, s_texturePath := s_texturePath s\<rparr>) (\<lambda>w. w)"
    unfolding sprite_set_def by (rule reads_bind[OF reads_string_enc])+ (rule reads_ret)
  then show "reads (sprite_set new_sprite) (sprite_enc s) (sprite_img s) (\<lambda>w. w)"
    by (simp add: sprite_enc_def sprite_img_def new_sprite_def)
qed

lemma appends_f32s: "appends (write_all (map push_f32 cs)) (concat (map f32_bytes cs))"
  by (rule appends_write_all_map) (rule appends_pod)

definition teilSprite_enc :: "teil_sprite \<Rightarrow> byte list" where
  "teilSprite_enc s = enc_string (ts_texturePath s) @ enc_string (ts_shaderPath s) @
     concat (map f32_bytes (m_spriteRect s))"

definition teilSprite_img :: "teil_sprite \<Rightarrow> teil_sprite" where
  "teilSprite_img s = new_teil_sprite\<lparr>ts_texturePath := ts_texturePath s, ts_shaderPath := ts_shaderPath s,
     m_spriteRect := m_spriteRect s\<rparr>"

interpretation teil_sprite: class_codec "''class TeilSprite''" new_teil_sprite teilSprite_serialize
    teilSprite_set teilSprite_enc teilSprite_img "\<lambda>_ w. w" "\<lambda>s. length (m_spriteRect s) = 4"
proof
  fix s :: teil_sprite
  assume "length (m_spriteRect s) = 4"
  then obtain a b c d where r: "m_spriteRect s = [a, b, c, d]"
    by (auto simp: numeral_eq_Suc length_Suc_conv)
  have nm: "appends (push_cstr ''class TeilSprite'') (enc_string ''class TeilSprite'')"
    by (rule appends_class_name) simp
  have "appends (teilSprite_serialize s) (enc_string (ts_texturePath s) @ enc_string (ts_shaderPath s) @
      concat (map f32_bytes (m_spriteRect s)) @ enc_string ''class TeilSprite'' @ [])"
    unfolding teilSprite_serialize_def
    by (intro appends_Cons appends_Nil appends_string_enc nm appends_f32s)
  then show "appends (teilSprite_serialize s) (teilSprite_enc s @ enc_string ''class TeilSprite'')"
    by (simp add: teilSprite_enc_def)
  have "reads (teilSprite_set new_teil_sprite) (((((([] @ enc_string (ts_texturePath s)) @
      enc_string (ts_shaderPath s)) @ f32_bytes a) @ f32_bytes b) @ f32_bytes c) @ f32_bytes d)
     (new_teil_sprite\<lparr>m_spriteRect := [a, b, c, d], ts_shaderPath := ts_shaderPath s,
        ts_texturePath := ts_texturePath s\<rparr>) (\<lambda>w. w)"
    unfolding teilSprite_set_def
    by (rule reads_bind[OF reads_f32] reads_bind[OF reads_string_enc])+ (rule reads_ret)
  then show "reads (teilSprite_set new_teil_sprite) (teilSprite_enc s) (teilSprite_img s) (\<lambda>w. w)"
    by (simp add: teilSprite_enc_def teilSprite_img_def new_teil_sprite_def r)
qed


text \<open>The loops that write an array by index, from the last element to the first.\<close>

lemma indexed_append:
  assumes "\<And>x. x \<in> set xs \<Longrightarrow> appends (f x) (e x)"
  shows "appends (write_all (map (\<lambda>i msg. bindR (vec_at xs i) (\<lambda>x. f x msg)) (rev [0..<length xs]))) (concat (map e (rev xs)))"
proof -
  have "map (\<lambda>i msg. bindR (vec_at xs i) (\<lambda>x. f x msg)) [0..<length xs] = map f xs"
    by (rule nth_equalityI) (simp_all add: fun_eq_iff)
  from arg_cong[OF this, of rev]
  have m: "map (\<lambda>i msg. bindR (vec_at xs i) (\<lambda>x. f x msg)) (rev [0..<length xs]) = map f (rev xs)"
    by (simp only: rev_map[symmetric])
  show ?thesis unfolding m by (rule appends_write_all_map) (use assms in simp)
qed


section \<open>Instanced sprites\<close>

lemma reads_ints: "ok_vec int_ok xs \<Longrightarrow> reads (read_vec pop_int) (enc_vec int_bytes xs) xs (\<lambda>w. w)"
  using int_vec.rd_back by fastforce

lemma reads_pairs: "ok_vec pair_ok xs \<Longrightarrow> reads (read_vec pop_pair) (enc_vec pair_bytes xs) xs (\<lambda>w. w)"
  using pair_vec.rd_back by fastforce

definition instancedSprite_enc :: "instanced_sprite \<Rightarrow> byte list" where
  "instancedSprite_enc s = enc_string (is_texturePath s) @ enc_string (is_shaderPath s) @
     enc_vec int_bytes (m_instancenID s)"

definition instancedSprite_img :: "instanced_sprite \<Rightarrow> instanced_sprite" where
  "instancedSprite_img s = new_instanced_sprite\<lparr>is_texturePath := is_texturePath s,
     is_shaderPath := is_shaderPath s, m_instancenID := m_instancenID s\<rparr>"

interpretation instanced_sprite: class_codec "''class InstancedSprite''" new_instanced_sprite
    instancedSprite_serialize instancedSprite_set instancedSprite_enc instancedSprite_img "\<lambda>_ w. w"
    "\<lambda>s. ok_vec int_ok (m_instancenID s)"
proof
  fix s :: instanced_sprite
  assume ok: "ok_vec int_ok (m_instancenID s)"
  have nm: "appends (push_cstr ''class InstancedSprite'') (enc_string ''class InstancedSprite'')"
    by (rule appends_class_name) simp
  have "appends (instancedSprite_serialize s) (enc_string (is_texturePath s) @ enc_string (is_shaderPath s) @
      enc_vec int_bytes (m_instancenID s) @ enc_string ''class InstancedSprite'' @ [])"
    unfolding instancedSprite_serialize_def
    by (intro appends_Cons appends_Nil appends_string_enc nm int_vec.wr_appends[OF ok])
  then show "appends (instancedSprite_serialize s) (instancedSprite_enc s @ enc_string ''class InstancedSprite'')"
    by (simp add: instancedSprite_enc_def)
  have "reads (instancedSprite_set new_instanced_sprite) ((([] @ enc_string (is_texturePath s)) @
      enc_string (is_shaderPath s)) @ enc_vec int_bytes (m_instancenID s))
     (new_instanced_sprite\<lparr>m_instancenID := m_instancenID new_instanced_sprite @ m_instancenID s,
        is_shaderPath := is_shaderPath s, is_texturePath := is_texturePath s\<rparr>) (\<lambda>w. w)"
    unfolding instancedSprite_set_def
    by (rule reads_bind[OF reads_ints[OF ok]] reads_bind[OF reads_string_enc])+ (rule reads_ret)
  then show "reads (instancedSprite_set new_instanced_sprite) (instancedSprite_enc s) (instancedSprite_img s) (\<lambda>w. w)"
    by (simp add: instancedSprite_enc_def instancedSprite_img_def new_instanced_sprite_def)
qed

definition itsInstance_enc :: "its_instance \<Rightarrow> byte list" where
  "itsInstance_enc i = xmfloat4_bytes (the (i_rect i))"

definition itsInstance_img :: "its_instance \<Rightarrow> its_instance" where
  "itsInstance_img i = new_its_instance\<lparr>i_rect := i_rect i\<rparr>"

interpretation its_instance: class_codec "''class InstancedTeilSprite::Instance''" new_its_instance
    itsInstance_serialize itsInstance_set itsInstance_enc itsInstance_img "\<lambda>_ w. w" "\<lambda>i. i_rect i \<noteq> None"
proof
  fix i :: its_instance
  assume "i_rect i \<noteq> None"
  then obtain r where r: "i_rect i = Some r" by auto
  have nm: "appends (push_cstr ''class InstancedTeilSprite::Instance'') (enc_string ''class InstancedTeilSprite::Instance'')"
    by (rule appends_class_name) simp
  have "appends (itsInstance_serialize i) (xmfloat4_bytes r @ enc_string ''class InstancedTeilSprite::Instance'' @ [])"
    unfolding itsInstance_serialize_def r write_member_Some by (intro appends_Cons appends_Nil appends_pod nm)
  then show "appends (itsInstance_serialize i) (itsInstance_enc i @ enc_string ''class InstancedTeilSprite::Instance'')"
    by (simp add: itsInstance_enc_def r)
  have "reads (itsInstance_set new_its_instance) ([] @ xmfloat4_bytes r) (new_its_instance\<lparr>i_rect := Some r\<rparr>) (\<lambda>w. w)"
    unfolding itsInstance_set_def by (rule reads_bind[OF reads_vector(2)] reads_ret)+
  then show "reads (itsInstance_set new_its_instance) (itsInstance_enc i) (itsInstance_img i) (\<lambda>w. w)"
    by (simp add: itsInstance_enc_def itsInstance_img_def r)
qed

definition instancedTeilSprite_enc :: "instanced_teil_sprite \<Rightarrow> byte list" where
  "instancedTeilSprite_enc s = enc_string (its_texturePath s) @ enc_string (its_shaderPath s) @
     enc_vec pair_bytes (its_instancenIDs s)"

definition instancedTeilSprite_img :: "instanced_teil_sprite \<Rightarrow> instanced_teil_sprite" where
  "instancedTeilSprite_img s = new_instanced_teil_sprite\<lparr>its_texturePath := its_texturePath s,
     its_shaderPath := its_shaderPath s, its_instancenIDs := its_instancenIDs s\<rparr>"

interpretation instanced_teil_sprite: class_codec "''class InstancedTeilSprite''" new_instanced_teil_sprite
    instancedTeilSprite_serialize instancedTeilSprite_set instancedTeilSprite_enc instancedTeilSprite_img
    "\<lambda>_ w. w" "\<lambda>s. ok_vec pair_ok (its_instancenIDs s)"
proof
  fix s :: instanced_teil_sprite
  assume ok: "ok_vec pair_ok (its_instancenIDs s)"
  have nm: "appends (push_cstr ''class InstancedTeilSprite'') (enc_string ''class InstancedTeilSprite'')"
    by (rule appends_class_name) simp
  have "appends (instancedTeilSprite_serialize s) (enc_string (its_texturePath s) @ enc_string (its_shaderPath s) @
      enc_vec pair_bytes (its_instancenIDs s) @ enc_string ''class InstancedTeilSprite'' @ [])"
    unfolding instancedTeilSprite_serialize_def
    by (intro appends_Cons appends_Nil appends_string_enc nm pair_vec.wr_appends[OF ok])
  then show "appends (instancedTeilSprite_serialize s) (instancedTeilSprite_enc s @ enc_string ''class InstancedTeilSprite'')"
    by (simp add: instancedTeilSprite_enc_def)
  have "reads (instancedTeilSprite_set new_instanced_teil_sprite) ((([] @ enc_string (its_texturePath s)) @
      enc_string (its_shaderPath s)) @ enc_vec pair_bytes (its_instancenIDs s))
     (new_instanced_teil_sprite\<lparr>its_instancenIDs := its_instancenIDs new_instanced_teil_sprite @ its_instancenIDs s,
        its_shaderPath := its_shaderPath s, its_texturePath := its_texturePath s\<rparr>) (\<lambda>w. w)"
    unfolding instancedTeilSprite_set_def
    by (rule reads_bind[OF reads_pairs[OF ok]] reads_bind[OF reads_string_enc])+ (rule reads_ret)
  then show "reads (instancedTeilSprite_set new_instanced_teil_sprite) (instancedTeilSprite_enc s)
      (instancedTeilSprite_img s) (\<lambda>w. w)"
    by (simp add: instancedTeilSprite_enc_def instancedTeilSprite_img_def new_instanced_teil_sprite_def)
qed


section \<open>Text\<close>

definition stringInstance_img :: "string_instance \<Rightarrow> string_instance" where
  "stringInstance_img i = new_string_instance\<lparr>si_string := si_string i\<rparr>"

interpretation string_instance: class_codec "''class StringRenderer::Instance''" new_string_instance
    stringInstance_serialize stringInstance_set "\<lambda>i. enc_string (si_string i)" stringInstance_img "\<lambda>_ w. w" "\<lambda>_. True"
proof
  fix i :: string_instance
  have nm: "appends (push_cstr ''class StringRenderer::Instance'') (enc_string ''class StringRenderer::Instance'')"
    by (rule appends_class_name) simp
  have "appends (stringInstance_serialize i) (enc_string (si_string i) @ enc_string ''class StringRenderer::Instance'' @ [])"
    unfolding stringInstance_serialize_def by (intro appends_Cons appends_Nil appends_string_enc nm)
  then show "appends (stringInstance_serialize i) (enc_string (si_string i) @ enc_string ''class StringRenderer::Instance'')"
    by simp
  have "reads (stringInstance_set new_string_instance) ([] @ enc_string (si_string i))
      (new_string_instance\<lparr>si_string := si_string i\<rparr>) (\<lambda>w. w)"
    unfolding stringInstance_set_def by (rule reads_bind[OF reads_string_enc] reads_ret)+
  then show "reads (stringInstance_set new_string_instance) (enc_string (si_string i)) (stringInstance_img i) (\<lambda>w. w)"
    by (simp add: stringInstance_img_def)
qed

definition glyphs_ok :: "string_renderer \<Rightarrow> bool" where
  "glyphs_ok s \<longleftrightarrow> length (m_alphabetRects s) = 256 \<and> list_all (\<lambda>g. g \<noteq> None) (m_alphabetRects s)"

definition stringRenderer_enc :: "string_renderer \<Rightarrow> byte list" where
  "stringRenderer_enc s = enc_string (sr_texturePath s) @ enc_string (sr_shaderPath s) @
     f32_bytes (m_tabSize s) @ f32_bytes (m_endLineSize s) @ f32_bytes (m_charSizeMultiplier s) @
     enc_vec pair_bytes (sr_instancenIDs s) @ concat (map (\<lambda>g. float6_bytes (the g)) (rev (m_alphabetRects s)))"

definition stringRenderer_img :: "string_renderer \<Rightarrow> string_renderer" where
  "stringRenderer_img s = new_string_renderer\<lparr>sr_texturePath := sr_texturePath s, sr_shaderPath := sr_shaderPath s,
     m_tabSize := m_tabSize s, m_endLineSize := m_endLineSize s, m_charSizeMultiplier := m_charSizeMultiplier s,
     sr_instancenIDs := sr_instancenIDs s, m_alphabetRects := m_alphabetRects s\<rparr>"

interpretation float6_codec: codec push_float6 pop_float6 float6_bytes id "\<lambda>_ w. w" "\<lambda>_. True"
  by unfold_locales (auto intro: appends_pod reads_vector)

lemma glyphs_append:
  assumes "glyphs_ok s"
  shows "appends (write_all (map (\<lambda>i msg. bindR (vec_at (m_alphabetRects s) i) (\<lambda>g. write_member push_float6 g msg))
      (rev [0..<256]))) (concat (map (\<lambda>g. float6_bytes (the g)) (rev (m_alphabetRects s))))"
proof -
  have l: "length (m_alphabetRects s) = 256" using assms by (simp add: glyphs_ok_def)
  have "appends (write_member push_float6 g) (float6_bytes (the g))" if "g \<in> set (m_alphabetRects s)" for g
    using assms that by (cases g) (auto simp: glyphs_ok_def list_all_iff intro: appends_pod)
  from indexed_append[of "m_alphabetRects s", OF this] show ?thesis by (simp only: l)
qed

interpretation string_renderer: class_codec "''class StringRenderer''" new_string_renderer
    stringRenderer_serialize stringRenderer_set stringRenderer_enc stringRenderer_img "\<lambda>_ w. w"
    "\<lambda>s. ok_vec pair_ok (sr_instancenIDs s) \<and> glyphs_ok s"
proof
  fix s :: string_renderer
  assume a: "ok_vec pair_ok (sr_instancenIDs s) \<and> glyphs_ok s"
  then have ok: "ok_vec pair_ok (sr_instancenIDs s)" and g: "glyphs_ok s" by simp_all
  let ?gs = "m_alphabetRects s"
  have nm: "appends (push_cstr ''class StringRenderer'') (enc_string ''class StringRenderer'')"
    by (rule appends_class_name) simp
  have "appends (stringRenderer_serialize s) (enc_string (sr_texturePath s) @ enc_string (sr_shaderPath s) @
      f32_bytes (m_tabSize s) @ f32_bytes (m_endLineSize s) @ f32_bytes (m_charSizeMultiplier s) @
      enc_vec pair_bytes (sr_instancenIDs s) @ concat (map (\<lambda>g. float6_bytes (the g)) (rev ?gs)) @
      enc_string ''class StringRenderer'' @ [])"
    unfolding stringRenderer_serialize_def
    by (intro appends_Cons appends_Nil appends_string_enc appends_pod nm pair_vec.wr_appends[OF ok] glyphs_append[OF g])
  then show "appends (stringRenderer_serialize s) (stringRenderer_enc s @ enc_string ''class StringRenderer'')"
    by (simp add: stringRenderer_enc_def)
  have l: "length (map the ?gs) = 256" and some: "map Some (map the ?gs) = ?gs"
    using g by (auto simp: glyphs_ok_def list_all_iff intro!: map_idI)
  have "reads (times_read (length (map the ?gs)) pop_float6) (concat (map float6_bytes (rev (map the ?gs))))
      (map id (map the ?gs)) (fold (\<lambda>_ w. w) (map the ?gs))"
    by (rule float6_codec.times_read_back) (simp add: list_all_iff)
  then have rg: "reads (times_read 256 pop_float6) (concat (map (\<lambda>g. float6_bytes (the g)) (rev ?gs))) (map the ?gs) (\<lambda>w. w)"
    by (simp only: l list.map_id rev_map[symmetric] map_map o_def id_apply eff_vec_id[unfolded eff_vec_def])
  have "reads (stringRenderer_set new_string_renderer) ((((((([] @ enc_string (sr_texturePath s)) @
      enc_string (sr_shaderPath s)) @ f32_bytes (m_tabSize s)) @ f32_bytes (m_endLineSize s)) @
      f32_bytes (m_charSizeMultiplier s)) @ enc_vec pair_bytes (sr_instancenIDs s)) @
      concat (map (\<lambda>g. float6_bytes (the g)) (rev ?gs)))
     (new_string_renderer\<lparr>m_alphabetRects := map Some (map the ?gs),
        sr_instancenIDs := sr_instancenIDs new_string_renderer @ sr_instancenIDs s,
        m_charSizeMultiplier := m_charSizeMultiplier s, m_endLineSize := m_endLineSize s,
        m_tabSize := m_tabSize s, sr_shaderPath := sr_shaderPath s, sr_texturePath := sr_texturePath s\<rparr>) (\<lambda>w. w)"
    unfolding stringRenderer_set_def
    by (rule reads_bind[OF rg] reads_bind[OF reads_pairs[OF ok]] reads_bind[OF reads_f32] reads_bind[OF reads_string_enc])+
      (rule reads_ret)
  then show "reads (stringRenderer_set new_string_renderer) (stringRenderer_enc s) (stringRenderer_img s) (\<lambda>w. w)"
    unfolding some by (simp add: stringRenderer_enc_def stringRenderer_img_def new_string_renderer_def)
qed


section \<open>The renderer\<close>

text \<open>
  Writing needs a camera identifier, a background colour of four floats and as many identifiers of
  button objects as buttons.
\<close>

definition renderer_ok :: "drawable_renderer \<Rightarrow> bool" where
  "renderer_ok r \<longleftrightarrow> (\<exists>c. m_currentCameraID r = Some c \<and> int_ok c) \<and> int_ok (m_colorFormat r) \<and>
     int_ok (m_refreshRateN r) \<and> int_ok (m_refreshRateD r) \<and> length (m_BackgroundColor r) = 4 \<and>
     length (m_buttons r) = length (m_buttonGameObjectIDs r) \<and> ok_vec int_ok (m_buttonGameObjectIDs r) \<and>
     ok_vec pair_ok (m_allDrawableIDs r)"

definition renderer_enc :: "drawable_renderer \<Rightarrow> byte list" where
  "renderer_enc r = int_bytes (the (m_currentCameraID r)) @ int_bytes (m_colorFormat r) @
     int_bytes (m_refreshRateN r) @ int_bytes (m_refreshRateD r) @ bool_bytes (m_windowed r) @
     concat (map f32_bytes (m_BackgroundColor r)) @ enc_vec int_bytes (m_buttonGameObjectIDs r) @
     enc_vec pair_bytes (m_allDrawableIDs r)"

definition renderer_img :: "drawable_renderer \<Rightarrow> drawable_renderer" where
  "renderer_img r = new_renderer\<lparr>m_currentCameraID := m_currentCameraID r, m_colorFormat := m_colorFormat r,
     m_refreshRateN := m_refreshRateN r, m_refreshRateD := m_refreshRateD r, m_windowed := m_windowed r,
     m_BackgroundColor := m_BackgroundColor r, m_buttonGameObjectIDs := m_buttonGameObjectIDs r,
     m_allDrawableIDs := m_allDrawableIDs r\<rparr>"

interpretation renderer: class_codec "''class DrawableRenderer''" new_renderer renderer_serialize renderer_set
    renderer_enc renderer_img "\<lambda>_ w. w" renderer_ok
proof
  fix r :: drawable_renderer
  assume ok: "renderer_ok r"
  then obtain c where c: "m_currentCameraID r = Some c" "int_ok c"
    and i: "int_ok (m_colorFormat r)" "int_ok (m_refreshRateN r)" "int_ok (m_refreshRateD r)"
    and bs: "ok_vec int_ok (m_buttonGameObjectIDs r)" and ds: "ok_vec pair_ok (m_allDrawableIDs r)"
    and l: "length (m_buttons r) = length (m_buttonGameObjectIDs r)"
    by (auto simp: renderer_ok_def)
  obtain c0 c1 c2 c3 where bg: "m_BackgroundColor r = [c0, c1, c2, c3]"
    using ok by (auto simp: renderer_ok_def numeral_eq_Suc length_Suc_conv)
  let ?n = "length (m_buttonGameObjectIDs r)"
  have n: "nat (int_of_size ?n) = ?n" "int_of_size ?n = int ?n" using bs by (simp_all add: ok_vec_def)
  have nm: "appends (push_cstr ''class DrawableRenderer'') (enc_string ''class DrawableRenderer'')"
    by (rule appends_class_name) simp
  have "appends (renderer_serialize r) (int_bytes c @ int_bytes (m_colorFormat r) @
      int_bytes (m_refreshRateN r) @ int_bytes (m_refreshRateD r) @ bool_bytes (m_windowed r) @
      concat (map f32_bytes (m_BackgroundColor r)) @ concat (map int_bytes (rev (m_buttonGameObjectIDs r))) @
      int_bytes (int ?n) @ enc_vec pair_bytes (m_allDrawableIDs r) @ enc_string ''class DrawableRenderer'' @ [])"
    unfolding renderer_serialize_def c(1) write_member_Some l n nat_int
    by (intro appends_Cons appends_Nil appends_pod nm appends_f32s indexed_append pair_vec.wr_appends[OF ds])
  then show "appends (renderer_serialize r) (renderer_enc r @ enc_string ''class DrawableRenderer'')"
    by (simp add: renderer_enc_def c enc_vec_def)
  have "reads (renderer_set new_renderer) ((((((((((([] @ int_bytes c) @ int_bytes (m_colorFormat r)) @
      int_bytes (m_refreshRateN r)) @ int_bytes (m_refreshRateD r)) @ bool_bytes (m_windowed r)) @
      f32_bytes c0) @ f32_bytes c1) @ f32_bytes c2) @ f32_bytes c3) @ enc_vec int_bytes (m_buttonGameObjectIDs r)) @
      enc_vec pair_bytes (m_allDrawableIDs r))
     (new_renderer\<lparr>m_allDrawableIDs := m_allDrawableIDs new_renderer @ m_allDrawableIDs r,
        m_buttonGameObjectIDs := m_buttonGameObjectIDs new_renderer @ m_buttonGameObjectIDs r,
        m_BackgroundColor := [c0, c1, c2, c3], m_windowed := m_windowed r, m_refreshRateD := m_refreshRateD r,
        m_refreshRateN := m_refreshRateN r, m_colorFormat := m_colorFormat r, m_currentCameraID := Some c\<rparr>) (\<lambda>w. w)"
    unfolding renderer_set_def
    by (rule reads_bind[OF reads_pairs[OF ds]] reads_bind[OF reads_ints[OF bs]] reads_bind[OF reads_f32]
        reads_bind[OF reads_bool] reads_bind[OF reads_int[OF i(3)]] reads_bind[OF reads_int[OF i(2)]]
        reads_bind[OF reads_int[OF i(1)]] reads_bind[OF reads_int[OF c(2)]])+ (rule reads_ret)
  then show "reads (renderer_set new_renderer) (renderer_enc r) (renderer_img r) (\<lambda>w. w)"
    by (simp add: renderer_enc_def renderer_img_def new_renderer_def bg c)
qed

end
