(* ===== verification/Render_Loop.thy ===== *)
theory Render_Loop
  imports Engine_Codecs
begin

text \<open>
  The virtual functions of \<open>Drawable\<close> and the loops of
  \<open>Engine/DrawableRenderer/DrawableRenderer.h\<close> over the drawables: loading, unloading, rendering,
  clearing. No step of these loops changes the table of drawables, so a loop runs over the table as it
  was.
\<close>

section \<open>Virtual dispatch\<close>

definition bad_cast :: "('m, 'a) act" where
  "bad_cast = liftA (Inl (Undefined BadCast))"

definition drawable_registerShader :: "'m env \<Rightarrow> cref \<Rightarrow> cref \<Rightarrow> ('m, bool) act" where
  "drawable_registerShader env rend d =
     bindA (readA (\<lambda>h. comp_at h d)) (\<lambda>c. case c of
       CSprite s \<Rightarrow> sprite_registerShader env rend d
     | CTeilSprite s \<Rightarrow> teilSprite_registerShader env rend d
     | CInstancedSprite s \<Rightarrow> instancedSprite_registerShader env rend d
     | CInstancedTeilSprite s \<Rightarrow> instancedTeilSprite_registerShader env rend d
     | CStringRenderer s \<Rightarrow> stringRenderer_registerShader env rend d
     | _ \<Rightarrow> bad_cast)"

definition drawable_load :: "'m env \<Rightarrow> cref \<Rightarrow> cref \<Rightarrow> ('m, bool) act" where
  "drawable_load env rend d =
     bindA (readA (\<lambda>h. comp_at h d)) (\<lambda>c. case c of
       CSprite s \<Rightarrow> sprite_load env rend d
     | CTeilSprite s \<Rightarrow> teilSprite_load env rend d
     | CInstancedSprite s \<Rightarrow> instancedSprite_load env rend d
     | CInstancedTeilSprite s \<Rightarrow> instancedTeilSprite_load env rend d
     | CStringRenderer s \<Rightarrow> stringRenderer_load env rend d
     | _ \<Rightarrow> bad_cast)"

definition drawable_unload :: "'m env \<Rightarrow> cref \<Rightarrow> ('m, unit) act" where
  "drawable_unload env d =
     bindA (readA (\<lambda>h. comp_at h d)) (\<lambda>c. case c of
       CSprite s \<Rightarrow> sprite_unload env d
     | CTeilSprite s \<Rightarrow> teilSprite_unload env d
     | CInstancedSprite s \<Rightarrow> instancedSprite_unload env d
     | CInstancedTeilSprite s \<Rightarrow> instancedTeilSprite_unload env d
     | CStringRenderer s \<Rightarrow> stringRenderer_unload env d
     | _ \<Rightarrow> bad_cast)"

definition drawable_render :: "nat \<Rightarrow> 'm env \<Rightarrow> cref \<Rightarrow> cref \<Rightarrow> 'm \<Rightarrow> ('m, unit) act" where
  "drawable_render fuel env rend d proj =
     bindA (readA (\<lambda>h. comp_at h d)) (\<lambda>c. case c of
       CSprite s \<Rightarrow> sprite_render fuel env rend d proj
     | CTeilSprite s \<Rightarrow> teilSprite_render fuel env rend d proj
     | CInstancedSprite s \<Rightarrow> instancedSprite_render fuel env rend d proj
     | CInstancedTeilSprite s \<Rightarrow> instancedTeilSprite_render fuel env rend d proj
     | CStringRenderer s \<Rightarrow> stringRenderer_render fuel env rend d proj
     | _ \<Rightarrow> bad_cast)"


section \<open>The loops\<close>

definition LoadContent :: "'m env \<Rightarrow> cref \<Rightarrow> ('m, bool) act" where
  "LoadContent env this =
     bindA (readA (\<lambda>h. renderer_at h this)) (\<lambda>r.
     bindA (allA (drawable_registerShader env this) (m_allDrawable r)) (\<lambda>ok.
     if \<not> ok then retA False else allA (drawable_load env this) (m_allDrawable r)))"

definition release_shader :: "'m env \<Rightarrow> rendered_shader \<Rightarrow> ('m, unit) act" where
  "release_shader env sh =
     bindA (release_ptr env (m_pPS sh)) (\<lambda>_.
     bindA (release_ptr env (m_pVS sh)) (\<lambda>_.
     release_ptr env (m_pInputLayout sh)))"

definition UnloadContent :: "'m env \<Rightarrow> cref \<Rightarrow> ('m, unit) act" where
  "UnloadContent env this =
     bindA (readA (\<lambda>h. renderer_at h this)) (\<lambda>r.
     bindA (eachA (drawable_unload env) (m_allDrawable r)) (\<lambda>_.
     bindA (modA this (\<lambda>r. r\<lparr>m_allDrawable := []\<rparr>)) (\<lambda>_.
     bindA (readA (\<lambda>h. renderer_at h this)) (\<lambda>r.
     bindA (eachA (\<lambda>(path, node, sh). release_shader env sh) (m_allShaders r)) (\<lambda>_.
     modA this (\<lambda>r. r\<lparr>m_allShaders := []\<rparr>))))))"

text \<open>The projection is computed again for every drawable.\<close>

definition Render :: "nat \<Rightarrow> 'm env \<Rightarrow> cref \<Rightarrow> ('m, unit) act" where
  "Render fuel env this =
     bindA (readA (\<lambda>h. renderer_at h this)) (\<lambda>r.
     bindA (liftA (non_null (m_pD3DContext r))) (\<lambda>there.
     if \<not> there then retA ()
     else
     bindA (liftA (follow (m_pD3DContext r))) (\<lambda>ctx.
     bindA (callA env (ClearRenderTargetView ctx (m_pD3DRenderTargetView r) (m_BackgroundColor r))) (\<lambda>_.
     bindA (eachA (\<lambda>d. bindA (liftA (follow (m_currentCamera r))) (\<lambda>cam.
          bindA (heapA (getProjectionMatrix fuel (env_xna env) cam)) (\<lambda>proj.
          drawable_render fuel env this d proj))) (m_allDrawable r)) (\<lambda>_.
     bindA (liftA (follow (m_pSwapChain r))) (\<lambda>swap.
     bindA (callA env (Present swap)) (\<lambda>_. retA ())))))))"

definition renderer_clear :: "'m env \<Rightarrow> cref \<Rightarrow> ('m, unit) act" where
  "renderer_clear env this = bindA (UnloadContent env this) (\<lambda>_. modA this clear_buttons)"

text \<open>The device with the virtual functions of the renderer.\<close>

definition renderer_Initialize :: "'m env \<Rightarrow> cref \<Rightarrow> handle ptr \<Rightarrow> handle ptr \<Rightarrow> ('m, bool) act" where
  "renderer_Initialize env this = Initialize env this (LoadContent env this)"

definition renderer_Terminate :: "'m env \<Rightarrow> cref \<Rightarrow> ('m, unit) act" where
  "renderer_Terminate env this = Terminate env this (UnloadContent env this)"


section \<open>The name of a class\<close>

text \<open>\<open>typeid(*c).name()\<close>.\<close>

fun class_name :: "'m engine_component \<Rightarrow> string" where
  "class_name (CFile x) = ''class FileComponent''"
| "class_name (CTransform x) = ''class Transform''"
| "class_name (CKamera x) = ''class Kamera''"
| "class_name (CButton x) = ''class Button''"
| "class_name (CRenderer x) = ''class DrawableRenderer''"
| "class_name (CSprite x) = ''class Sprite''"
| "class_name (CTeilSprite x) = ''class TeilSprite''"
| "class_name (CInstancedSprite x) = ''class InstancedSprite''"
| "class_name (CITSInstance x) = ''class InstancedTeilSprite::Instance''"
| "class_name (CInstancedTeilSprite x) = ''class InstancedTeilSprite''"
| "class_name (CStringInstance x) = ''class StringRenderer::Instance''"
| "class_name (CStringRenderer x) = ''class StringRenderer''"
| "class_name (CDragMover x) = ''class DragMover''"
| "class_name (CButtonChecker x) = ''class ButtonChecker''"
| "class_name (CObjectKlicker x) = ''class objectKlicker''"

end
