(* ===== verification/Resources.thy ===== *)
theory Resources
  imports Render_Loop
begin

text \<open>
  Which handles the engine owns. \<open>runs m s Q\<close>: the action \<open>m\<close> returns from \<open>s\<close>, without undefined
  behaviour, in a state with \<open>Q\<close>. \<open>holds env X s\<close>: what was acquired in the history of \<open>s\<close> is what was
  released and \<open>X\<close>, and beyond that nothing, if no shader call of the environment ever fails. From the
  documented behaviour of out-parameters (\<open>honest\<close>) follows that loading and unloading a renderer is
  balanced, whichever calls fail.
\<close>

section \<open>Actions that return\<close>

definition runs :: "('m, 'a) act \<Rightarrow> 'm engine \<Rightarrow> ('a \<Rightarrow> 'm engine \<Rightarrow> bool) \<Rightarrow> bool" where
  "runs m s Q \<longleftrightarrow> (\<exists>x s'. m s = Inr (x, s') \<and> Q x s')"

lemma runs_simps [simp]:
  "runs (retA x) s Q \<longleftrightarrow> Q x s"
  "runs (bindA m f) s Q \<longleftrightarrow> runs m s (\<lambda>x s'. runs (f x) s' Q)"
  "runs (liftA (Inr x)) s Q \<longleftrightarrow> Q x s"
  "runs freshA s N \<longleftrightarrow> N (length (hist s)) s"
  by (auto simp: runs_def act_defs)

lemma runs_read: "f (sheap s) = Inr x \<Longrightarrow> runs (readA f) s Q \<longleftrightarrow> Q x s"
  by (simp add: runs_def readA_def)

lemma runs_write:
  assumes "comp_at (sheap s) r = Inr c0"
    and "\<And>s'. hist s' = hist s \<Longrightarrow> comp_at (sheap s') r = Inr c \<Longrightarrow>
      (\<And>q. q \<noteq> r \<Longrightarrow> comp_at (sheap s') q = comp_at (sheap s) q) \<Longrightarrow> Q () s'"
  shows "runs (writeA r c) s Q"
proof -
  obtain h where h: "upd_comp r c (sheap s) = Inr h" using upd_comp_total[OF assms(1)] by blast
  have "Q () (s\<lparr>sheap := h\<rparr>)" by (rule assms(2)) (simp_all add: comp_at_upd[OF h])
  then show ?thesis by (simp add: runs_def writeA_def h)
qed

lemma runs_conseq: "runs m s Q \<Longrightarrow> (\<And>x s'. Q x s' \<Longrightarrow> R x s') \<Longrightarrow> runs m s R"
  unfolding runs_def by blast

lemma runs_modA:
  assumes "comp_at (sheap s) r = Inr (CRenderer x)"
    and "\<And>s'. hist s' = hist s \<Longrightarrow> comp_at (sheap s') r = Inr (CRenderer (f x)) \<Longrightarrow>
      (\<And>q. q \<noteq> r \<Longrightarrow> comp_at (sheap s') q = comp_at (sheap s) q) \<Longrightarrow> Q () s'"
  shows "runs (modA r f) s Q"
proof -
  have "renderer_at (sheap s) r = Inr x" using assms(1) by simp
  then show ?thesis unfolding modA_def by (simp add: runs_read) (rule runs_write[OF assms(1)]; rule assms(2))
qed


section \<open>Ownership\<close>

fun shader_call :: "'m d3d_call \<Rightarrow> bool" where
  "shader_call (CompileFromFile a b c) = True"
| "shader_call (CreateVertexShader a b) = True"
| "shader_call (CreateInputLayout a b c) = True"
| "shader_call (CreatePixelShader a b) = True"
| "shader_call _ = False"

definition compiles :: "'m env \<Rightarrow> bool" where
  "compiles env \<longleftrightarrow> (\<forall>cs c. shader_call c \<longrightarrow> \<not> r_failed (env_ask env cs c))"

definition holds :: "'m env \<Rightarrow> handle multiset \<Rightarrow> 'm engine \<Rightarrow> bool" where
  "holds env X s \<longleftrightarrow> (\<exists>L. acquired (hist s) = released (hist s) + X + L \<and> (compiles env \<longrightarrow> L = {#}))"

lemma holds_hist: "holds env X s \<Longrightarrow> hist s' = hist s \<Longrightarrow> holds env X s'"
  by (simp add: holds_def)

lemma holds_leak: "holds env (X + Y) s \<Longrightarrow> \<not> compiles env \<Longrightarrow> holds env X s"
  unfolding holds_def by (metis union_assoc)

lemma holds_less: "holds env Z s \<Longrightarrow> X \<subseteq># Z \<Longrightarrow> \<not> compiles env \<Longrightarrow> holds env X s"
  by (metis holds_leak subset_mset.add_diff_inverse)

text \<open>A call that hands out nothing, one that hands out one pointer, and a release.\<close>

lemma runs_plain_call:
  assumes "honest env" and "outs c = 0" and "call_released c = {#}" and "holds env X s"
    and "\<And>r s'. sheap s' = sheap s \<Longrightarrow> holds env X s' \<Longrightarrow> Q r s'"
  shows "runs (callA env c) s Q"
proof -
  let ?r = "env_ask env (hist s) c"
  have "out_handles ?r = {#}" by (rule honest_none[OF honestD[OF assms(1)] assms(2)])
  then have "holds env X (s\<lparr>hist := hist s @ [(c, ?r)]\<rparr>)" using assms(3,4) by (simp add: holds_def)
  then have "Q ?r (s\<lparr>hist := hist s @ [(c, ?r)]\<rparr>)" by (rule assms(5)[rotated]) simp
  then show ?thesis by (simp add: runs_def callA_def Let_def)
qed

lemma runs_create:
  assumes "honest env" and "outs c = 1" and "call_released c = {#}" and "holds env X s"
    and "\<And>r s'. sheap s' = sheap s \<Longrightarrow> out_ptr 0 r Null \<noteq> Wild \<Longrightarrow>
      (\<not> r_failed r \<Longrightarrow> \<exists>h. out_ptr 0 r Null = Ptr h \<and> (\<forall>old. out_ptr 0 r old = Ptr h)) \<Longrightarrow>
      (shader_call c \<Longrightarrow> compiles env \<Longrightarrow> \<not> r_failed r) \<Longrightarrow>
      holds env (X + ptr_handles (out_ptr 0 r Null)) s' \<Longrightarrow> honest_reply c r \<Longrightarrow> Q r s'"
  shows "runs (callA env c) s Q"
proof -
  let ?r = "env_ask env (hist s) c"
  note r = honestD[OF assms(1), of c "hist s"]
  note one = honest_one[OF r assms(2)]
  have "holds env (X + ptr_handles (out_ptr 0 ?r Null)) (s\<lparr>hist := hist s @ [(c, ?r)]\<rparr>)"
    using assms(3,4) one(1) by (auto simp: holds_def ac_simps)
  moreover have "\<exists>h. out_ptr 0 ?r Null = Ptr h \<and> (\<forall>old. out_ptr 0 ?r old = Ptr h)" if "\<not> r_failed ?r"
    using r assms(2) that by (auto simp: honest_reply_def out_ptr_def)
  moreover have "\<not> r_failed ?r" if "shader_call c" "compiles env" using that by (simp add: compiles_def)
  ultimately have "Q ?r (s\<lparr>hist := hist s @ [(c, ?r)]\<rparr>)" by (intro assms(5)) (use one(2) r in auto)
  then show ?thesis by (simp add: runs_def callA_def Let_def)
qed

lemma runs_release_call:
  assumes "honest env" and "holds env (add_mset h X) s"
    and "\<And>r s'. sheap s' = sheap s \<Longrightarrow> holds env X s' \<Longrightarrow> Q r s'"
  shows "runs (callA env (Release h)) s Q"
proof -
  let ?r = "env_ask env (hist s) (Release h)"
  have "out_handles ?r = {#}" by (rule honest_none[OF honestD[OF assms(1)]]) simp
  then have "holds env X (s\<lparr>hist := hist s @ [(Release h, ?r)]\<rparr>)" using assms(2) by (auto simp: holds_def)
  then have "Q ?r (s\<lparr>hist := hist s @ [(Release h, ?r)]\<rparr>)" by (rule assms(3)[rotated]) simp
  then show ?thesis by (simp add: runs_def callA_def Let_def)
qed

lemma runs_release_ptr:
  assumes "honest env" and "p \<noteq> Wild" and "holds env (X + ptr_handles p) s"
    and "\<And>s'. sheap s' = sheap s \<Longrightarrow> holds env X s' \<Longrightarrow> Q () s'"
  shows "runs (release_ptr env p) s Q"
proof (cases p)
  case Null
  then show ?thesis using assms(3) assms(4)[of s] by (simp add: release_ptr_def)
next
  case (Ptr h)
  then show ?thesis using assms by (auto simp: release_ptr_def intro!: runs_release_call)
qed (use assms(2) in simp)


section \<open>The Direct3D objects of one drawable\<close>

definition gpu_handles :: "gpu_members \<Rightarrow> handle multiset" where
  "gpu_handles g = ptr_handles (m_pVertexBuffer g) + ptr_handles (m_pColorMap g) +
     ptr_handles (m_pColorMapSampler g) + ptr_handles (m_pAlphaBlendState g) + ptr_handles (m_constBuffer g)"

definition gpu_safe :: "gpu_members \<Rightarrow> bool" where
  "gpu_safe g \<longleftrightarrow> Wild \<notin> {m_pVertexBuffer g, m_pColorMap g, m_pColorMapSampler g, m_pAlphaBlendState g, m_constBuffer g}"

definition gpu_empty :: "gpu_members \<Rightarrow> bool" where
  "gpu_empty g \<longleftrightarrow> {m_pVertexBuffer g, m_pColorMap g, m_pColorMapSampler g, m_pAlphaBlendState g, m_constBuffer g} = {Null}"

lemma gpu_emptyD: "gpu_empty g \<Longrightarrow> gpu_safe g" "gpu_empty g \<Longrightarrow> gpu_handles g = {#}"
  by (auto simp: gpu_empty_def gpu_safe_def gpu_handles_def)

lemma release_gpu_runs:
  assumes "honest env" and "gpu_safe g" and "holds env (X + gpu_handles g) s"
  shows "runs (release_gpu env g) s (\<lambda>g' s'. sheap s' = sheap s \<and> gpu_empty g' \<and> holds env X s')"
proof -
  have h: "holds env (X + ptr_handles (m_constBuffer g) + ptr_handles (m_pAlphaBlendState g) +
      ptr_handles (m_pColorMapSampler g) + ptr_handles (m_pColorMap g) + ptr_handles (m_pVertexBuffer g)) s"
    using assms(3) by (simp add: gpu_handles_def add_mset_commute ac_simps)
  have w: "m_pVertexBuffer g \<noteq> Wild" "m_pColorMap g \<noteq> Wild" "m_pColorMapSampler g \<noteq> Wild"
      "m_pAlphaBlendState g \<noteq> Wild" "m_constBuffer g \<noteq> Wild"
    using assms(2) by (auto simp: gpu_safe_def)
  show ?thesis unfolding release_gpu_def runs_simps
    by (rule runs_release_ptr[OF assms(1) w(1) h], rule runs_release_ptr[OF assms(1) w(2)], assumption,
        rule runs_release_ptr[OF assms(1) w(3)], assumption, rule runs_release_ptr[OF assms(1) w(4)], assumption,
        rule runs_release_ptr[OF assms(1) w(5)], assumption) (simp add: gpu_empty_def)
qed


lemma runs_if [simp]: "runs (if b then m else n) s Q \<longleftrightarrow> (if b then runs m s Q else runs n s Q)"
  by simp

lemma runs_create_step:
  assumes "honest env" and "outs c = 1" and "call_released c = {#}" and "holds env X s"
    and "\<And>r s'. sheap s' = sheap s \<Longrightarrow> out_ptr 0 r Null \<noteq> Wild \<Longrightarrow> r_failed r \<Longrightarrow>
      holds env (X + ptr_handles (out_ptr 0 r Null)) s' \<Longrightarrow> \<not> (shader_call c \<and> compiles env) \<Longrightarrow> Q r s'"
    and "\<And>r s' h. sheap s' = sheap s \<Longrightarrow> \<not> r_failed r \<Longrightarrow> out_ptr 0 r Null = Ptr h \<Longrightarrow> out_ptr 0 r Wild = Ptr h \<Longrightarrow>
      holds env (X + {#h#}) s' \<Longrightarrow> Q r s'"
  shows "runs (callA env c) s Q"
proof (rule runs_create[OF assms(1-4)])
  fix r s'
  assume a: "sheap s' = sheap s" "out_ptr 0 r Null \<noteq> Wild"
    "\<not> r_failed r \<Longrightarrow> \<exists>h. out_ptr 0 r Null = Ptr h \<and> (\<forall>old. out_ptr 0 r old = Ptr h)"
    "shader_call c \<Longrightarrow> compiles env \<Longrightarrow> \<not> r_failed r"
    "holds env (X + ptr_handles (out_ptr 0 r Null)) s'"
  show "Q r s'"
  proof (cases "r_failed r")
    case True
    then show ?thesis using assms(5) a by blast
  next
    case False
    then obtain h where "out_ptr 0 r Null = Ptr h" "out_ptr 0 r Wild = Ptr h" using a(3) by auto
    then show ?thesis using assms(6) a(1,5) False by simp
  qed
qed

lemma gpu_empty_new: "gpu_empty g \<Longrightarrow> g = new_gpu (m_shaderContainer g)"
  by (cases g) (auto simp: gpu_empty_def new_gpu_def)

text \<open>\<open>GetResource\<close> does not fail; its answer is looked at without a test.\<close>

lemma runs_get_resource:
  assumes "honest env" and "holds env X s"
    and "\<And>r s' h. sheap s' = sheap s \<Longrightarrow> out_ptr 0 r Wild = Ptr h \<Longrightarrow> holds env (X + {#h#}) s' \<Longrightarrow> Q r s'"
  shows "runs (callA env (GetResource d)) s Q"
proof (rule runs_create[OF assms(1) _ _ assms(2)])
  fix r s'
  assume a: "sheap s' = sheap s" "\<not> r_failed r \<Longrightarrow> \<exists>h. out_ptr 0 r Null = Ptr h \<and> (\<forall>old. out_ptr 0 r old = Ptr h)"
    "holds env (X + ptr_handles (out_ptr 0 r Null)) s'" "honest_reply (GetResource d) r"
  have "\<not> r_failed r" using a(4) by (auto simp: honest_reply_def)
  then show "Q r s'" using a assms(3) by force
qed simp_all

lemma create_gpu_runs:
  assumes hon: "honest env" and r: "renderer_at (sheap s) rend = Inr r" and dev: "m_pD3DDevice r = Ptr dev"
    and ctx: "m_pD3DContext r = Ptr ctx" and g: "gpu_empty g" and h: "holds env X s"
  shows "runs (create_gpu env rend path vs n dyn g) s
    (\<lambda>(ok, g') s'. sheap s' = sheap s \<and> gpu_safe g' \<and> holds env (X + gpu_handles g') s' \<and>
       m_shaderContainer g' = m_shaderContainer g)"
proof -
  obtain sh where g': "g = new_gpu sh" using gpu_empty_new[OF g] by blast
  show ?thesis
    unfolding create_gpu_def g'
    apply (simp add: runs_read[where f = "\<lambda>h. renderer_at h rend", OF r] dev ctx Let_def new_gpu_def)
    apply (rule runs_create_step[OF hon _ _ h], simp, simp)
     apply (simp, rule runs_plain_call[OF hon], simp, simp, assumption)
     apply (simp add: gpu_safe_def gpu_handles_def)
    apply simp
    apply (rule runs_create_step[OF hon], simp, simp, assumption)
     apply (simp, rule runs_plain_call[OF hon], simp, simp, assumption)
     apply (simp add: gpu_safe_def gpu_handles_def add_mset_commute ac_simps)
    apply simp
    apply (rule runs_get_resource[OF hon], assumption)
    apply simp
    apply (rule runs_plain_call[OF hon], simp, simp, assumption)
    apply (rule runs_release_call[OF hon], assumption)
    apply (rule runs_create_step[OF hon], simp, simp, assumption)
     apply (simp add: gpu_safe_def gpu_handles_def add_mset_commute ac_simps)
    apply simp
    apply (rule runs_create_step[OF hon], simp, simp, assumption)
     apply (simp add: gpu_safe_def gpu_handles_def add_mset_commute ac_simps)
    apply simp
    apply (rule runs_create_step[OF hon], simp, simp, assumption)
     apply (rule runs_plain_call[OF hon], simp, simp, assumption)
     apply (simp add: gpu_safe_def gpu_handles_def add_mset_commute ac_simps)
    apply (rule runs_plain_call[OF hon], simp, simp, assumption)
    apply (simp add: gpu_safe_def gpu_handles_def add_mset_commute ac_simps)
    done
qed



section \<open>Loading and unloading a drawable\<close>

fun gpu_of :: "'m engine_component \<Rightarrow> gpu_members option" where
  "gpu_of (CSprite s) = Some (s_gpu s)"
| "gpu_of (CTeilSprite s) = Some (ts_gpu s)"
| "gpu_of (CInstancedSprite s) = Some (is_gpu s)"
| "gpu_of (CInstancedTeilSprite s) = Some (its_gpu s)"
| "gpu_of (CStringRenderer s) = Some (sr_gpu s)"
| "gpu_of _ = None"

fun with_gpu :: "gpu_members \<Rightarrow> 'm engine_component \<Rightarrow> 'm engine_component" where
  "with_gpu g (CSprite s) = CSprite (s\<lparr>s_gpu := g\<rparr>)"
| "with_gpu g (CTeilSprite s) = CTeilSprite (s\<lparr>ts_gpu := g\<rparr>)"
| "with_gpu g (CInstancedSprite s) = CInstancedSprite (s\<lparr>is_gpu := g\<rparr>)"
| "with_gpu g (CInstancedTeilSprite s) = CInstancedTeilSprite (s\<lparr>its_gpu := g\<rparr>)"
| "with_gpu g (CStringRenderer s) = CStringRenderer (s\<lparr>sr_gpu := g\<rparr>)"
| "with_gpu g c = c"

lemma gpu_of_with [simp]: "gpu_of c = Some g \<Longrightarrow> gpu_of (with_gpu g' c) = Some g'"
  by (cases c) simp_all

lemma with_gpu_same: "gpu_of c = Some g \<Longrightarrow> with_gpu g c = c"
  by (cases c) auto

lemma is_drawable_gpu: "is_drawable c \<longleftrightarrow> gpu_of c \<noteq> None"
  by (cases c) simp_all

text \<open>Only the drawable \<open>d\<close> changed, in its Direct3D objects.\<close>

definition gpu_changed :: "cref \<Rightarrow> 'm engine_component \<Rightarrow> gpu_members \<Rightarrow> 'm engine \<Rightarrow> 'm engine \<Rightarrow> bool" where
  "gpu_changed d c g s s' \<longleftrightarrow> comp_at (sheap s') d = Inr (with_gpu g c) \<and>
     (\<forall>q. q \<noteq> d \<longrightarrow> comp_at (sheap s') q = comp_at (sheap s) q)"

lemma gpu_changed_other: "gpu_changed d c g s s' \<Longrightarrow> q \<noteq> d \<Longrightarrow> comp_at (sheap s') q = comp_at (sheap s) q"
  unfolding gpu_changed_def by blast

lemma load_step:
  assumes hon: "honest env" and r: "comp_at (sheap s) rend = Inr (CRenderer r)" and dev: "m_pD3DDevice r = Ptr dev"
    and ctx: "m_pD3DContext r = Ptr ctx" and c: "comp_at (sheap s) d = Inr c"
    and g: "gpu_empty g" and h: "holds env X s"
  shows "runs (create_gpu env rend path vs n dyn g) s (\<lambda>x s1. runs (case x of (done, g') \<Rightarrow>
      bindA (writeA d (with_gpu g' c)) (\<lambda>_. retA done)) s1
      (\<lambda>ok s'. \<exists>g'. gpu_changed d c g' s s' \<and> gpu_safe g' \<and> holds env (X + gpu_handles g') s'))"
proof (rule runs_conseq[OF create_gpu_runs[OF hon _ dev ctx g h]])
  show "renderer_at (sheap s) rend = Inr r" using r by simp
next
  fix x s1
  assume a: "(case x of (ok, g') \<Rightarrow> \<lambda>s'. sheap s' = sheap s \<and> gpu_safe g' \<and> holds env (X + gpu_handles g') s' \<and>
    m_shaderContainer g' = m_shaderContainer g) s1"
  obtain ok g' where x: "x = (ok, g')" by fastforce
  have c1: "comp_at (sheap s1) d = Inr c" using a c by (simp add: x)
  show "runs (case x of (done, g') \<Rightarrow> bindA (writeA d (with_gpu g' c)) (\<lambda>_. retA done)) s1
      (\<lambda>ok s'. \<exists>g'. gpu_changed d c g' s s' \<and> gpu_safe g' \<and> holds env (X + gpu_handles g') s')"
    unfolding x prod.case runs_simps
    by (rule runs_write[OF c1], rule exI[of _ g']) (use a in \<open>auto simp: x gpu_changed_def intro: holds_hist\<close>)
qed

lemma runs_message:
  assumes "honest env" and "comp_at (sheap s) d = Inr c" and "gpu_of c = Some g" and "gpu_empty g" and "holds env X s"
  shows "runs (callA env (MessageBox t)) s (\<lambda>_ s'. \<exists>g'. gpu_changed d c g' s s' \<and> gpu_safe g' \<and> holds env (X + gpu_handles g') s')"
  by (rule runs_plain_call[OF assms(1) _ _ assms(5)])
    (use assms(2-4) in \<open>auto intro!: exI[of _ g] simp: gpu_changed_def with_gpu_same gpu_emptyD\<close>)

lemma drawable_load_runs:
  assumes hon: "honest env" and r: "comp_at (sheap s) rend = Inr (CRenderer r)" and dev: "m_pD3DDevice r = Ptr dev"
    and ctx: "m_pD3DContext r = Ptr ctx" and c: "comp_at (sheap s) d = Inr c" and g: "gpu_of c = Some g" "gpu_empty g"
    and h: "holds env X s"
  shows "runs (drawable_load env rend d) s
    (\<lambda>ok s'. \<exists>g'. gpu_changed d c g' s s' \<and> gpu_safe g' \<and> holds env (X + gpu_handles g') s')"
proof -
  note load = load_step[OF hon r dev ctx c g(2) h]
  note msg = runs_message[OF hon c g h]
  show ?thesis
    by (cases c)
      (use load g msg c in \<open>auto simp: drawable_load_def runs_read sprite_load_def teilSprite_load_def
         instancedSprite_load_def instancedTeilSprite_load_def stringRenderer_load_def\<close>)
qed

lemma drawable_unload_runs:
  assumes hon: "honest env" and c: "comp_at (sheap s) d = Inr c" and g: "gpu_of c = Some g" "gpu_safe g"
    and h: "holds env (X + gpu_handles g) s"
  shows "runs (drawable_unload env d) s (\<lambda>_ s'. \<exists>g'. gpu_changed d c g' s s' \<and> gpu_empty g' \<and> holds env X s')"
proof -
  have "runs (release_gpu env g) s (\<lambda>g' s1. runs (writeA d (with_gpu g' c)) s1
      (\<lambda>_ s'. \<exists>g'. gpu_changed d c g' s s' \<and> gpu_empty g' \<and> holds env X s'))"
  proof (rule runs_conseq[OF release_gpu_runs[OF hon g(2) h]])
    fix g' s1
    assume a: "sheap s1 = sheap s \<and> gpu_empty g' \<and> holds env X s1"
    then have "comp_at (sheap s1) d = Inr c" using c by simp
    then show "runs (writeA d (with_gpu g' c)) s1 (\<lambda>_ s'. \<exists>g'. gpu_changed d c g' s s' \<and> gpu_empty g' \<and> holds env X s')"
      by (rule runs_write, intro exI[of _ g']) (use a in \<open>auto simp: gpu_changed_def intro: holds_hist\<close>)
  qed
  then show ?thesis
    by (cases c)
      (use g c in \<open>auto simp: drawable_unload_def runs_read sprite_unload_def teilSprite_unload_def
         instancedSprite_unload_def instancedTeilSprite_unload_def stringRenderer_unload_def\<close>)
qed



section \<open>All drawables\<close>

definition owned :: "'m eheap \<Rightarrow> cref list \<Rightarrow> handle multiset" where
  "owned h ds = sum_list (map (\<lambda>d. case comp_at h d of Inl e \<Rightarrow> {#}
     | Inr c \<Rightarrow> (case gpu_of c of None \<Rightarrow> {#} | Some g \<Rightarrow> gpu_handles g)) ds)"

definition drawables_are :: "(gpu_members \<Rightarrow> bool) \<Rightarrow> 'm eheap \<Rightarrow> cref list \<Rightarrow> bool" where
  "drawables_are P h ds \<longleftrightarrow> (\<forall>d \<in> set ds. \<exists>c g. comp_at h d = Inr c \<and> gpu_of c = Some g \<and> P g)"

lemma drawables_Cons: "drawables_are P h (d # ds) \<longleftrightarrow>
    (\<exists>c g. comp_at h d = Inr c \<and> gpu_of c = Some g \<and> P g) \<and> drawables_are P h ds"
  by (simp add: drawables_are_def)

lemma drawables_ConsI:
  "comp_at h d = Inr c \<Longrightarrow> gpu_of c = Some g \<Longrightarrow> P g \<Longrightarrow> drawables_are P h ds \<Longrightarrow> drawables_are P h (d # ds)"
  unfolding drawables_Cons by blast

lemma drawables_mono: "drawables_are P h ds \<Longrightarrow> (\<And>g. P g \<Longrightarrow> Q g) \<Longrightarrow> drawables_are Q h ds"
  unfolding drawables_are_def by blast

lemma drawables_same:
  assumes "\<And>q. q \<in> set ds \<Longrightarrow> comp_at h' q = comp_at h q"
  shows "drawables_are P h' ds = drawables_are P h ds" and "owned h' ds = owned h ds"
  using assms by (simp_all add: drawables_are_def owned_def cong: map_cong)

lemma owned_Cons: "comp_at h d = Inr c \<Longrightarrow> gpu_of c = Some g \<Longrightarrow> owned h (d # ds) = gpu_handles g + owned h ds"
  by (simp add: owned_def)

lemma holds_owned_Cons:
  "comp_at h d = Inr c \<Longrightarrow> gpu_of c = Some g \<Longrightarrow> holds env (X + gpu_handles g + owned h ds) s \<Longrightarrow>
     holds env (X + owned h (d # ds)) s"
  by (simp only: owned_Cons add.assoc)

lemma owned_empty: "drawables_are gpu_empty h ds \<Longrightarrow> owned h ds = {#}"
  by (induction ds) (auto simp: owned_def drawables_Cons gpu_emptyD)

definition others_same :: "cref list \<Rightarrow> 'm engine \<Rightarrow> 'm engine \<Rightarrow> bool" where
  "others_same ds s s' \<longleftrightarrow> (\<forall>q. q \<notin> set ds \<longrightarrow> comp_at (sheap s') q = comp_at (sheap s) q)"

lemma others_sameD: "others_same ds s s' \<Longrightarrow> q \<notin> set ds \<Longrightarrow> comp_at (sheap s') q = comp_at (sheap s) q"
  unfolding others_same_def by blast

lemma others_same_step: "gpu_changed d c g s s1 \<Longrightarrow> others_same ds s1 s2 \<Longrightarrow> others_same (d # ds) s s2"
  unfolding gpu_changed_def others_same_def by (metis list.set_intros)

lemma others_same_refl: "others_same [] s s"
  by (simp add: others_same_def)

lemma others_same_mono: "others_same ds s s' \<Longrightarrow> set ds \<subseteq> set es \<Longrightarrow> others_same es s s'"
  unfolding others_same_def by blast

lemma load_all_runs:
  assumes hon: "honest env" and dev: "m_pD3DDevice r = Ptr dev" and ctx: "m_pD3DContext r = Ptr ctx"
  shows "comp_at (sheap s) rend = Inr (CRenderer r) \<Longrightarrow> distinct ds \<Longrightarrow> drawables_are gpu_empty (sheap s) ds \<Longrightarrow>
    holds env X s \<Longrightarrow> runs (allA (drawable_load env rend) ds) s
     (\<lambda>ok s'. drawables_are gpu_safe (sheap s') ds \<and> others_same ds s s' \<and> holds env (X + owned (sheap s') ds) s')"
proof (induction ds arbitrary: s X)
  case Nil
  then show ?case by (simp add: drawables_are_def others_same_def owned_def)
next
  case (Cons d ds)
  obtain c g where c: "comp_at (sheap s) d = Inr c" "gpu_of c = Some g" "gpu_empty g"
    and ds: "drawables_are gpu_empty (sheap s) ds" using Cons.prems(3) by (auto simp: drawables_Cons)
  show ?case unfolding allA.simps runs_simps
  proof (rule runs_conseq[OF drawable_load_runs[OF hon Cons.prems(1) dev ctx c Cons.prems(4)]])
    fix ok s1
    assume "\<exists>g'. gpu_changed d c g' s s1 \<and> gpu_safe g' \<and> holds env (X + gpu_handles g') s1"
    then obtain g' where g': "gpu_changed d c g' s s1" "gpu_safe g'" "holds env (X + gpu_handles g') s1" by blast
    have d1: "comp_at (sheap s1) d = Inr (with_gpu g' c)" "gpu_of (with_gpu g' c) = Some g'"
      using g'(1) c by (simp_all add: gpu_changed_def)
    have same: "comp_at (sheap s1) q = comp_at (sheap s) q" if "q \<noteq> d" for q by (rule gpu_changed_other[OF g'(1) that])
    have rend: "comp_at (sheap s1) rend = Inr (CRenderer r)" using same[of rend] Cons.prems(1) c by (cases "rend = d") auto
    have sq: "comp_at (sheap s1) q = comp_at (sheap s) q" if "q \<in> set ds" for q
      by (rule same) (use that Cons.prems(2) in auto)
    have "drawables_are gpu_empty (sheap s1) ds = drawables_are gpu_empty (sheap s) ds"
      by (rule drawables_same(1)) (rule sq)
    with ds have e1: "drawables_are gpu_empty (sheap s1) ds" by (simp only:)
    let ?Q = "\<lambda>ok s'. drawables_are gpu_safe (sheap s') (d # ds) \<and> others_same (d # ds) s s' \<and>
      holds env (X + owned (sheap s') (d # ds)) s'"
    show "runs (if ok then allA (drawable_load env rend) ds else retA False) s1 ?Q"
    proof (cases ok)
      case True
      have "runs (allA (drawable_load env rend) ds) s1 ?Q"
      proof (rule runs_conseq[OF Cons.IH[OF rend _ e1 g'(3)]])
        show "distinct ds" using Cons.prems(2) by simp
        fix k s2
        assume a: "drawables_are gpu_safe (sheap s2) ds \<and> others_same ds s1 s2 \<and>
          holds env (X + gpu_handles g' + owned (sheap s2) ds) s2"
        then have "comp_at (sheap s2) d = Inr (with_gpu g' c)" using d1 Cons.prems(2) others_sameD[of ds s1 s2 d] by simp
        then show "?Q k s2" using a d1(2) g'(2)
          by (blast intro: drawables_ConsI holds_owned_Cons others_same_step[OF g'(1)])
      qed
      then show ?thesis using True by simp
    next
      case False
      have "others_same (d # ds) s s1" using others_same_step[OF g'(1) others_same_refl] by (rule others_same_mono) simp
      moreover have "holds env (X + owned (sheap s1) (d # ds)) s1"
        using g'(3) owned_empty[OF e1] by (simp add: owned_Cons[OF d1])
      moreover have "drawables_are gpu_safe (sheap s1) ds" by (rule drawables_mono[OF e1]) (rule gpu_emptyD(1))
      ultimately have "?Q False s1" using d1 g'(2) by (blast intro: drawables_ConsI)
      then show ?thesis using False by simp
    qed
  qed
qed

lemma unload_all_runs:
  assumes hon: "honest env"
  shows "distinct ds \<Longrightarrow> drawables_are gpu_safe (sheap s) ds \<Longrightarrow> holds env (X + owned (sheap s) ds) s \<Longrightarrow>
    runs (eachA (drawable_unload env) ds) s
     (\<lambda>_ s'. drawables_are gpu_empty (sheap s') ds \<and> others_same ds s s' \<and> holds env X s')"
proof (induction ds arbitrary: s)
  case Nil
  then show ?case by (simp add: drawables_are_def others_same_def owned_def)
next
  case (Cons d ds)
  obtain c g where c: "comp_at (sheap s) d = Inr c" "gpu_of c = Some g" "gpu_safe g"
    and ds: "drawables_are gpu_safe (sheap s) ds" using Cons.prems(2) by (auto simp: drawables_Cons)
  have h: "holds env ((X + owned (sheap s) ds) + gpu_handles g) s"
    using Cons.prems(3) c by (simp add: owned_Cons ac_simps)
  show ?case unfolding eachA.simps runs_simps
  proof (rule runs_conseq[OF drawable_unload_runs[OF hon c h]])
    fix u s1
    assume "\<exists>g'. gpu_changed d c g' s s1 \<and> gpu_empty g' \<and> holds env (X + owned (sheap s) ds) s1"
    then obtain g' where g': "gpu_changed d c g' s s1" "gpu_empty g'" "holds env (X + owned (sheap s) ds) s1" by blast
    have d1: "comp_at (sheap s1) d = Inr (with_gpu g' c)" "gpu_of (with_gpu g' c) = Some g'"
      using g'(1) c by (simp_all add: gpu_changed_def)
    have same: "comp_at (sheap s1) q = comp_at (sheap s) q" if "q \<noteq> d" for q by (rule gpu_changed_other[OF g'(1) that])
    have sq: "comp_at (sheap s1) q = comp_at (sheap s) q" if "q \<in> set ds" for q
      by (rule same) (use that Cons.prems(1) in auto)
    have "drawables_are gpu_safe (sheap s1) ds = drawables_are gpu_safe (sheap s) ds"
      by (rule drawables_same(1)) (rule sq)
    moreover have "owned (sheap s1) ds = owned (sheap s) ds" by (rule drawables_same(2)) (rule sq)
    ultimately have e1: "drawables_are gpu_safe (sheap s1) ds" "holds env (X + owned (sheap s1) ds) s1"
      using ds g'(3) by (simp_all only:)
    show "runs (eachA (drawable_unload env) ds) s1 (\<lambda>_ s'. drawables_are gpu_empty (sheap s') (d # ds) \<and>
      others_same (d # ds) s s' \<and> holds env X s')"
    proof (rule runs_conseq[OF Cons.IH[OF _ e1]])
      show "distinct ds" using Cons.prems(1) by simp
      fix k s2
      assume a: "drawables_are gpu_empty (sheap s2) ds \<and> others_same ds s1 s2 \<and> holds env X s2"
      then have "comp_at (sheap s2) d = Inr (with_gpu g' c)" using d1 Cons.prems(1) others_sameD[of ds s1 s2 d] by simp
      then show "drawables_are gpu_empty (sheap s2) (d # ds) \<and> others_same (d # ds) s s2 \<and> holds env X s2"
        using a d1(2) g'(2) by (blast intro: drawables_ConsI others_same_step[OF g'(1)])
    qed
  qed
qed



section \<open>Shaders\<close>

definition shader_handles :: "rendered_shader \<Rightarrow> handle multiset" where
  "shader_handles sh = ptr_handles (m_pPS sh) + ptr_handles (m_pVS sh) + ptr_handles (m_pInputLayout sh)"

definition shader_safe :: "rendered_shader \<Rightarrow> bool" where
  "shader_safe sh \<longleftrightarrow> m_pPS sh \<noteq> Wild \<and> m_pVS sh \<noteq> Wild \<and> m_pInputLayout sh \<noteq> Wild"

definition cache_handles :: "(string \<times> nat \<times> rendered_shader) list \<Rightarrow> handle multiset" where
  "cache_handles m = sum_list (map (\<lambda>(path, node, sh). shader_handles sh) m)"

definition cache_safe :: "(string \<times> nat \<times> rendered_shader) list \<Rightarrow> bool" where
  "cache_safe m \<longleftrightarrow> (\<forall>(path, node, sh) \<in> set m. shader_safe sh)"

lemma mset_smap_insert: "smap_find m k = None \<Longrightarrow> mset (smap_insert k v m) = add_mset (k, v) (mset m)"
  by (induction m) (auto split: if_splits)

lemma cache_insert:
  assumes "smap_find m k = None"
  shows "cache_handles (smap_insert k (n, sh) m) = shader_handles sh + cache_handles m"
    and "cache_safe (smap_insert k (n, sh) m) \<longleftrightarrow> shader_safe sh \<and> cache_safe m"
proof -
  note ms = mset_smap_insert[OF assms, of "(n, sh)"]
  have "sum_mset (image_mset (\<lambda>(path, node, sh). shader_handles sh) (mset (smap_insert k (n, sh) m)))
      = shader_handles sh + cache_handles m"
    unfolding ms by (simp add: cache_handles_def sum_mset_sum_list[symmetric])
  then show "cache_handles (smap_insert k (n, sh) m) = shader_handles sh + cache_handles m"
    by (simp add: cache_handles_def sum_mset_sum_list[symmetric])
  have "set (smap_insert k (n, sh) m) = insert (k, n, sh) (set m)"
    using arg_cong[OF ms, of set_mset] by simp
  then show "cache_safe (smap_insert k (n, sh) m) \<longleftrightarrow> shader_safe sh \<and> cache_safe m"
    by (simp add: cache_safe_def)
qed

lemma CompileShader_runs:
  fixes env :: "'m env"
  assumes hon: "honest env" and h: "holds env X s"
    and Q: "\<And>s'. sheap s' = sheap s \<Longrightarrow> holds env X s' \<Longrightarrow> \<not> compiles env \<Longrightarrow> Q (False, Null) s'"
      "\<And>s' z. sheap s' = sheap s \<Longrightarrow> holds env (add_mset z X) s' \<Longrightarrow>
        \<not> r_failed (env_ask env (hist s) (CompileFromFile a b c)) \<Longrightarrow> Q (True, Ptr z) s'"
  shows "runs (CompileShader env a b c) s Q"
proof -
  let ?c = "CompileFromFile a b c :: 'm d3d_call"
  let ?r = "env_ask env (hist s) ?c"
  let ?s = "s\<lparr>hist := hist s @ [(?c, ?r)]\<rparr>" and ?b = "out_ptr 0 ?r Null" and ?e = "out_ptr 1 ?r Null"
  have r: "honest_reply ?c ?r" by (rule honestD[OF hon])
  then obtain p q where o: "r_out ?r = [p, q]" by (auto simp: honest_reply_def numeral_2_eq_2 length_Suc_conv)
  have bad: "?b \<noteq> Wild" "?e \<noteq> Wild" using r by (auto simp: honest_reply_def out_ptr_def o numeral_2_eq_2 less_Suc_eq split: option.split)
  have ok: "\<exists>x. ?b = Ptr x" if "\<not> r_failed ?r" using r that by (auto simp: honest_reply_def out_ptr_def o numeral_2_eq_2)
  have no: "?b = Null" if "r_failed ?r" using r that by (auto simp: honest_reply_def out_ptr_def o numeral_2_eq_2 split: option.split)
  have "out_handles ?r = ptr_handles ?b + ptr_handles ?e" by (simp add: out_handles_def out_ptr_def o split: option.split)
  then have h1: "holds env (X + ptr_handles ?b + ptr_handles ?e) ?s" using h by (auto simp: holds_def ac_simps)
  have nc: "\<not> compiles env" if "r_failed ?r" using that by (metis compiles_def shader_call.simps(1))
  have "runs (callA env ?c) s R \<longleftrightarrow> R ?r ?s" for R by (simp add: runs_def callA_def Let_def)
  then show ?thesis
  proof (cases "r_failed ?r")
    case True
    then show ?thesis
      using h1 no nc Q(1) bad(2) \<open>\<And>R. runs (callA env ?c) s R \<longleftrightarrow> R ?r ?s\<close>
      by (cases ?e) (auto simp: CompileShader_def Let_def intro!: runs_plain_call[OF hon] runs_release_ptr[OF hon])
  next
    case False
    then obtain x where x: "?b = Ptr x" using ok by blast
    have "holds env (add_mset x X + ptr_handles ?e) ?s" using h1 by (simp add: x)
    then show ?thesis
      using False x bad(2) Q(2) \<open>\<And>R. runs (callA env ?c) s R \<longleftrightarrow> R ?r ?s\<close>
      by (cases ?e) (auto simp: CompileShader_def Let_def add_mset_commute intro!: runs_release_ptr[OF hon])
  qed
qed


text \<open>The cache and nothing else changes; what fails on the way is lost.\<close>

lemma addShaderByPath_runs:
  assumes hon: "honest env" and r: "comp_at (sheap s) this = Inr (CRenderer r)" and dev: "m_pD3DDevice r = Ptr dev"
    and sf: "cache_safe (m_allShaders r)" and h: "holds env (X + cache_handles (m_allShaders r)) s"
  shows "runs (addShaderByPath env this path n) s (\<lambda>p s'. \<exists>m. comp_at (sheap s') this = Inr (CRenderer (r\<lparr>m_allShaders := m\<rparr>)) \<and>
    others_same [this] s s' \<and> cache_safe m \<and> holds env (X + cache_handles m) s')"
proof (cases "smap_find (m_allShaders r) path")
  case (Some node)
  have ra: "renderer_at (sheap s) this = Inr r" using r by simp
  show ?thesis
    by (simp add: addShaderByPath_def runs_read[where f = "\<lambda>h. renderer_at h this", OF ra] Some,
        rule exI[of _ "m_allShaders r"]) (use r sf h in \<open>simp add: others_same_def\<close>)
next
  case None
  have ra: "renderer_at (sheap s) this = Inr r" using r by simp
  let ?Q = "\<lambda>p s'. \<exists>m. comp_at (sheap s') this = Inr (CRenderer (r\<lparr>m_allShaders := m\<rparr>)) \<and>
    others_same [this] s s' \<and> cache_safe m \<and> holds env (X + cache_handles m) s'"
  let ?X = "X + cache_handles (m_allShaders r)"
  have lost: "runs (callA env (MessageBox t)) s1 (\<lambda>_. ?Q Null)"
    if "holds env Z s1" "sheap s1 = sheap s" "?X \<subseteq># Z" "\<not> compiles env" for t s1 Z
    by (rule runs_plain_call[OF hon _ _ holds_less[OF that(1,3,4)]], simp, simp, rule exI[of _ "m_allShaders r"])
      (use r sf that(2) in \<open>simp add: others_same_def\<close>)
  have rel3: "runs (callA env (Release c)) s1 P" if "holds env (add_mset a (add_mset b (add_mset c Z))) s1"
      "\<And>r s'. sheap s' = sheap s1 \<Longrightarrow> holds env (add_mset a (add_mset b Z)) s' \<Longrightarrow> P r s'" for a b c Z s1 P
    by (rule runs_release_call[OF hon, where X = "add_mset a (add_mset b Z)"]) (use that in \<open>simp_all add: add_mset_commute\<close>)
  have rel2: "runs (callA env (Release c)) s1 P" if "holds env (add_mset a (add_mset c Z)) s1"
      "\<And>r s'. sheap s' = sheap s1 \<Longrightarrow> holds env (add_mset a Z) s' \<Longrightarrow> P r s'" for a c Z s1 P
    by (rule runs_release_call[OF hon, where X = "add_mset a Z"]) (use that in \<open>simp_all add: add_mset_commute\<close>)
  show ?thesis
    apply (simp add: addShaderByPath_def runs_read[where f = "\<lambda>h. renderer_at h this", OF ra] None dev Let_def)
    apply (rule CompileShader_runs[OF hon h])
     apply (simp, rule lost, assumption, assumption, simp, assumption)
    apply (simp add: dev)
    apply (rule runs_create_step[OF hon], simp, simp, assumption)
     apply simp
     apply (rule runs_release_ptr[OF hon, where X = "?X + Y" for Y], simp, simp, simp)
     apply (rule lost, assumption, simp, simp, simp)
    apply simp
    apply (rule runs_create_step[OF hon], simp, simp, assumption)
     apply (simp, rule lost, assumption, simp, simp, simp)
    apply simp
    apply (rule rel3, assumption)
    apply (rule CompileShader_runs[OF hon], assumption)
     apply (simp, rule lost, assumption, simp, simp, assumption)
    apply (simp add: Let_def)
    apply (rule runs_create_step[OF hon], simp, simp, assumption)
     apply (simp, rule lost, assumption, simp, simp, simp)
    apply simp
    apply (rule rel2, assumption)
    apply (rule runs_modA, simp add: r)
    apply (rule exI, rule conjI, assumption)
    apply (simp add: cache_insert[OF None] shader_handles_def shader_safe_def sf others_same_def)
    apply (auto intro: holds_hist simp: add_mset_commute ac_simps)
    done
qed


text \<open>The shaders of the drawables \<open>ds\<close> are registered: only the cache and their containers changed.\<close>

definition registered ::
    "'m env \<Rightarrow> cref \<Rightarrow> drawable_renderer \<Rightarrow> cref list \<Rightarrow> handle multiset \<Rightarrow> 'm engine \<Rightarrow> 'm engine \<Rightarrow> bool" where
  "registered env rend r ds X s s' \<longleftrightarrow> (\<exists>m. comp_at (sheap s') rend = Inr (CRenderer (r\<lparr>m_allShaders := m\<rparr>)) \<and>
     drawables_are gpu_empty (sheap s') ds \<and> others_same (rend # ds) s s' \<and> cache_safe m \<and>
     holds env (X + cache_handles m) s')"

lemma registeredI:
  "comp_at (sheap s') rend = Inr (CRenderer (r\<lparr>m_allShaders := m\<rparr>)) \<Longrightarrow> drawables_are gpu_empty (sheap s') ds \<Longrightarrow>
     others_same (rend # ds) s s' \<Longrightarrow> cache_safe m \<Longrightarrow> holds env (X + cache_handles m) s' \<Longrightarrow> registered env rend r ds X s s'"
  unfolding registered_def by blast

lemma others_same_trans:
  assumes "others_same as s s1" and "others_same bs s1 s2" and "set as \<union> set bs \<subseteq> set cs"
  shows "others_same cs s s2"
  unfolding others_same_def
proof (intro allI impI)
  fix q
  assume "q \<notin> set cs"
  then have "q \<notin> set as" "q \<notin> set bs" using assms(3) by blast+
  then show "comp_at (sheap s2) q = comp_at (sheap s) q"
    using others_sameD[OF assms(1)] others_sameD[OF assms(2)] by metis
qed

lemma register_step:
  fixes env :: "'m env"
  assumes hon: "honest env" and r: "comp_at (sheap s) rend = Inr (CRenderer r)" and dev: "m_pD3DDevice r = Ptr dev"
    and sf: "cache_safe (m_allShaders r)" and h: "holds env (X + cache_handles (m_allShaders r)) s"
    and c: "comp_at (sheap s) d = Inr c" "gpu_of c = Some g" "gpu_empty g"
  shows "runs (addShaderByPath env rend path n) s (\<lambda>sh s1. runs (writeA d (with_gpu (g\<lparr>m_shaderContainer := sh\<rparr>) c)) s1
    (\<lambda>_ s'. registered env rend r [d] X s s'))"
proof (rule runs_conseq[OF addShaderByPath_runs[OF hon r dev sf h]])
  fix sh s1
  assume "\<exists>m. comp_at (sheap s1) rend = Inr (CRenderer (r\<lparr>m_allShaders := m\<rparr>)) \<and>
    others_same [rend] s s1 \<and> cache_safe m \<and> holds env (X + cache_handles m) s1"
  then obtain m where m: "comp_at (sheap s1) rend = Inr (CRenderer (r\<lparr>m_allShaders := m\<rparr>))" "others_same [rend] s s1"
    "cache_safe m" "holds env (X + cache_handles m) s1" by blast
  have nd: "rend \<noteq> d" using r c by auto
  then have c1: "comp_at (sheap s1) d = Inr c" using others_sameD[OF m(2), of d] c by simp
  let ?g = "g\<lparr>m_shaderContainer := sh\<rparr>"
  have e: "gpu_empty ?g" using c(3) by (simp add: gpu_empty_def)
  show "runs (writeA d (with_gpu ?g c)) s1 (\<lambda>_ s'. registered env rend r [d] X s s')"
  proof (rule runs_write[OF c1], rule registeredI[where m = m])
    fix s' :: "'m engine"
    assume w: "hist s' = hist s1" "comp_at (sheap s') d = Inr (with_gpu ?g c)"
      "\<And>q. q \<noteq> d \<Longrightarrow> comp_at (sheap s') q = comp_at (sheap s1) q"
    show "comp_at (sheap s') rend = Inr (CRenderer (r\<lparr>m_allShaders := m\<rparr>))" using w(3)[OF nd] m(1) by simp
    show "drawables_are gpu_empty (sheap s') [d]"
      by (rule drawables_ConsI[where g = ?g and P = gpu_empty, OF w(2) gpu_of_with[OF c(2)] e]) (simp add: drawables_are_def)
    have "others_same [d] s1 s'" unfolding others_same_def using w(3) by (metis list.set_intros(1))
    then show "others_same [rend, d] s s'" by (rule others_same_trans[OF m(2)]) simp
    show "holds env (X + cache_handles m) s'" by (rule holds_hist[OF m(4) w(1)])
  qed (rule m(3))
qed

lemma drawable_registerShader_runs:
  assumes hon: "honest env" and r: "comp_at (sheap s) rend = Inr (CRenderer r)" and dev: "m_pD3DDevice r = Ptr dev"
    and sf: "cache_safe (m_allShaders r)" and h: "holds env (X + cache_handles (m_allShaders r)) s"
    and c: "comp_at (sheap s) d = Inr c" "gpu_of c = Some g" "gpu_empty g"
  shows "runs (drawable_registerShader env rend d) s (\<lambda>_ s'. registered env rend r [d] X s s')"
proof -
  note step = register_step[OF hon r dev sf h c]
  have msg: "runs (callA env (MessageBox t)) s (\<lambda>_ s'. registered env rend r [d] X s s')" for t
    by (rule runs_plain_call[OF hon _ _ h], simp, simp, rule registeredI[where m = "m_allShaders r"])
      (use r sf c in \<open>simp_all add: others_same_def drawables_are_def\<close>)
  show ?thesis
    by (cases c)
      (use step msg c in \<open>auto simp: drawable_registerShader_def runs_read sprite_registerShader_def teilSprite_registerShader_def
         instancedSprite_registerShader_def instancedTeilSprite_registerShader_def stringRenderer_registerShader_def\<close>)
qed

lemma register_all_runs:
  assumes hon: "honest env"
  shows "comp_at (sheap s) rend = Inr (CRenderer r) \<Longrightarrow> m_pD3DDevice r = Ptr dev \<Longrightarrow> cache_safe (m_allShaders r) \<Longrightarrow>
    holds env (X + cache_handles (m_allShaders r)) s \<Longrightarrow> distinct ds \<Longrightarrow> drawables_are gpu_empty (sheap s) ds \<Longrightarrow>
    runs (allA (drawable_registerShader env rend) ds) s (\<lambda>_ s'. registered env rend r ds X s s')"
proof (induction ds arbitrary: s r)
  case Nil
  then show ?case
    by (auto simp: drawables_are_def others_same_def intro!: registeredI[where m = "m_allShaders r"])
next
  case (Cons d ds)
  obtain c g where c: "comp_at (sheap s) d = Inr c" "gpu_of c = Some g" "gpu_empty g"
    and ds: "drawables_are gpu_empty (sheap s) ds" using Cons.prems(6) by (auto simp: drawables_Cons)
  have rds: "rend \<notin> set ds" using ds Cons.prems(1) by (auto simp: drawables_are_def)
  have nd: "d \<notin> set (rend # ds)" using Cons.prems(1,5) c by auto
  show ?case unfolding allA.simps runs_simps
  proof (rule runs_conseq[OF drawable_registerShader_runs[OF hon Cons.prems(1-4) c]])
    fix ok s1
    assume "registered env rend r [d] X s s1"
    then obtain m where m: "comp_at (sheap s1) rend = Inr (CRenderer (r\<lparr>m_allShaders := m\<rparr>))"
      "drawables_are gpu_empty (sheap s1) [d]" "others_same [rend, d] s s1" "cache_safe m" "holds env (X + cache_handles m) s1"
      unfolding registered_def by blast
    have "drawables_are gpu_empty (sheap s1) ds = drawables_are gpu_empty (sheap s) ds"
      by (rule drawables_same(1), rule others_sameD[OF m(3)]) (use rds Cons.prems(5) in auto)
    then have d1: "drawables_are gpu_empty (sheap s1) ds" "drawables_are gpu_empty (sheap s1) (d # ds)"
      using ds m(2) by (auto simp: drawables_Cons)
    show "runs (if ok then allA (drawable_registerShader env rend) ds else retA False) s1
      (\<lambda>_. registered env rend r (d # ds) X s)"
    proof (cases ok)
      case True
      have "runs (allA (drawable_registerShader env rend) ds) s1 (\<lambda>_. registered env rend r (d # ds) X s)"
      proof (rule runs_conseq[OF Cons.IH[OF m(1) _ _ _ _ d1(1)]])
        fix k s2
        assume "registered env rend (r\<lparr>m_allShaders := m\<rparr>) ds X s1 s2"
        then obtain m' where m': "comp_at (sheap s2) rend = Inr (CRenderer (r\<lparr>m_allShaders := m'\<rparr>))"
          "drawables_are gpu_empty (sheap s2) ds" "others_same (rend # ds) s1 s2" "cache_safe m'"
          "holds env (X + cache_handles m') s2" unfolding registered_def by auto
        have "drawables_are gpu_empty (sheap s2) [d] = drawables_are gpu_empty (sheap s1) [d]"
          by (rule drawables_same(1), rule others_sameD[OF m'(3)]) (use nd in auto)
        then have "drawables_are gpu_empty (sheap s2) (d # ds)" using m(2) m'(2) by (auto simp: drawables_Cons)
        moreover have "others_same (rend # d # ds) s s2" by (rule others_same_trans[OF m(3) m'(3)]) auto
        ultimately show "registered env rend r (d # ds) X s s2" using m' by (blast intro: registeredI)
      qed (use Cons.prems(2,5) m(4,5) in simp_all)
      then show ?thesis using True by simp
    next
      case False
      have "others_same (rend # d # ds) s s1" by (rule others_same_mono[OF m(3)]) auto
      then have "registered env rend r (d # ds) X s s1" using m d1(2) by (blast intro: registeredI)
      then show ?thesis using False by simp
    qed
  qed
qed



section \<open>Loading and unloading the renderer\<close>

text \<open>A renderer whose device is there and whose drawables hold nothing.\<close>

definition ready :: "cref \<Rightarrow> drawable_renderer \<Rightarrow> 'm engine \<Rightarrow> bool" where
  "ready rend r s \<longleftrightarrow> comp_at (sheap s) rend = Inr (CRenderer r) \<and> (\<exists>dev. m_pD3DDevice r = Ptr dev) \<and>
     (\<exists>ctx. m_pD3DContext r = Ptr ctx) \<and> m_allShaders r = [] \<and> distinct (m_allDrawable r) \<and>
     drawables_are gpu_empty (sheap s) (m_allDrawable r)"

definition loaded :: "'m env \<Rightarrow> cref \<Rightarrow> drawable_renderer \<Rightarrow> handle multiset \<Rightarrow> 'm engine \<Rightarrow> bool" where
  "loaded env rend r X s \<longleftrightarrow> (\<exists>m. comp_at (sheap s) rend = Inr (CRenderer (r\<lparr>m_allShaders := m\<rparr>)) \<and> cache_safe m \<and>
     drawables_are gpu_safe (sheap s) (m_allDrawable r) \<and>
     holds env (X + owned (sheap s) (m_allDrawable r) + cache_handles m) s)"

lemma loadedI:
  "comp_at (sheap s) rend = Inr (CRenderer (r\<lparr>m_allShaders := m\<rparr>)) \<Longrightarrow> cache_safe m \<Longrightarrow>
     drawables_are gpu_safe (sheap s) (m_allDrawable r) \<Longrightarrow>
     holds env (X + owned (sheap s) (m_allDrawable r) + cache_handles m) s \<Longrightarrow> loaded env rend r X s"
  unfolding loaded_def by blast

lemma LoadContent_runs:
  assumes hon: "honest env" and rd: "ready rend r s" and h: "holds env X s"
  shows "runs (LoadContent env rend) s (\<lambda>_ s'. loaded env rend r X s')"
proof -
  let ?ds = "m_allDrawable r"
  obtain dev ctx where r: "comp_at (sheap s) rend = Inr (CRenderer r)" "m_pD3DDevice r = Ptr dev" "m_pD3DContext r = Ptr ctx"
    "m_allShaders r = []" "distinct ?ds" "drawables_are gpu_empty (sheap s) ?ds" using rd by (auto simp: ready_def)
  have ra: "renderer_at (sheap s) rend = Inr r" using r by simp
  have rds: "rend \<notin> set ?ds" using r(1,6) by (auto simp: drawables_are_def)
  have "cache_safe (m_allShaders r)" "holds env (X + cache_handles (m_allShaders r)) s"
    using h by (simp_all add: r(4) cache_safe_def cache_handles_def)
  note reg = register_all_runs[OF hon r(1,2) this r(5,6)]
  have "runs (allA (drawable_registerShader env rend) ?ds) s (\<lambda>ok s1.
      runs (if \<not> ok then retA False else allA (drawable_load env rend) ?ds) s1 (\<lambda>_ s'. loaded env rend r X s'))"
  proof (rule runs_conseq[OF reg])
    fix ok s1
    assume "registered env rend r ?ds X s s1"
    then obtain m where m: "comp_at (sheap s1) rend = Inr (CRenderer (r\<lparr>m_allShaders := m\<rparr>))"
      "drawables_are gpu_empty (sheap s1) ?ds" "cache_safe m" "holds env (X + cache_handles m) s1"
      unfolding registered_def by blast
    have load: "runs (allA (drawable_load env rend) ?ds) s1 (\<lambda>_ s'. loaded env rend r X s')"
    proof (rule runs_conseq[OF load_all_runs[OF hon _ _ m(1) r(5) m(2,4)]])
      fix k s2
      assume a: "drawables_are gpu_safe (sheap s2) ?ds \<and> others_same ?ds s1 s2 \<and>
        holds env (X + cache_handles m + owned (sheap s2) ?ds) s2"
      then have "comp_at (sheap s2) rend = Inr (CRenderer (r\<lparr>m_allShaders := m\<rparr>))"
        using others_sameD[of ?ds s1 s2 rend] rds m(1) by simp
      moreover have "holds env (X + owned (sheap s2) ?ds + cache_handles m) s2" using a by (simp add: ac_simps)
      ultimately show "loaded env rend r X s2" using m(3) a by (blast intro: loadedI)
    qed (use r in simp_all)
    have "loaded env rend r X s1"
      by (rule loadedI[OF m(1,3)], rule drawables_mono[OF m(2)], erule gpu_emptyD(1)) (use m(4) in \<open>simp add: owned_empty[OF m(2)]\<close>)
    then show "runs (if \<not> ok then retA False else allA (drawable_load env rend) ?ds) s1 (\<lambda>_ s'. loaded env rend r X s')"
      using load by simp
  qed
  then show ?thesis by (simp add: LoadContent_def runs_read[where f = "\<lambda>h. renderer_at h rend", OF ra])
qed

lemma release_cache_runs:
  assumes hon: "honest env"
  shows "cache_safe m \<Longrightarrow> holds env (X + cache_handles m) s \<Longrightarrow>
    runs (eachA (\<lambda>(path, node, sh). release_shader env sh) m) s (\<lambda>_ s'. sheap s' = sheap s \<and> holds env X s')"
proof (induction m arbitrary: s)
  case Nil
  then show ?case by (simp add: cache_handles_def)
next
  case (Cons e m)
  obtain path node sh where e: "e = (path, node, sh)" by (cases e) auto
  have sf: "m_pPS sh \<noteq> Wild" "m_pVS sh \<noteq> Wild" "m_pInputLayout sh \<noteq> Wild" and cs: "cache_safe m"
    using Cons.prems(1) by (auto simp: cache_safe_def e shader_safe_def)
  have h: "holds env (X + cache_handles m + ptr_handles (m_pInputLayout sh) + ptr_handles (m_pVS sh) + ptr_handles (m_pPS sh)) s"
    using Cons.prems(2) by (simp add: cache_handles_def e shader_handles_def ac_simps)
  show ?case
    unfolding eachA.simps runs_simps e prod.case release_shader_def
    apply (rule runs_release_ptr[OF hon sf(1) h])
    apply (rule runs_release_ptr[OF hon sf(2)], assumption)
    apply (rule runs_release_ptr[OF hon sf(3)], assumption)
    apply (rule runs_conseq[OF Cons.IH[OF cs, unfolded release_shader_def]], assumption)
    apply simp
    done
qed

lemma UnloadContent_runs:
  assumes hon: "honest env" and ld: "loaded env rend r X s" and ds: "distinct (m_allDrawable r)"
  shows "runs (UnloadContent env rend) s (\<lambda>_ s'. comp_at (sheap s') rend = Inr (CRenderer (r\<lparr>m_allDrawable := [], m_allShaders := []\<rparr>)) \<and>
    drawables_are gpu_empty (sheap s') (m_allDrawable r) \<and> holds env X s')"
proof -
  let ?ds = "m_allDrawable r"
  obtain m where m: "comp_at (sheap s) rend = Inr (CRenderer (r\<lparr>m_allShaders := m\<rparr>))" "cache_safe m"
    "drawables_are gpu_safe (sheap s) ?ds" "holds env (X + cache_handles m + owned (sheap s) ?ds) s"
    using ld by (auto simp: loaded_def ac_simps)
  have ra: "renderer_at (sheap s) rend = Inr (r\<lparr>m_allShaders := m\<rparr>)" using m(1) by simp
  have rds: "rend \<notin> set ?ds" using m(1,3) by (auto simp: drawables_are_def)
  let ?Q = "\<lambda>s'. comp_at (sheap s') rend = Inr (CRenderer (r\<lparr>m_allDrawable := [], m_allShaders := []\<rparr>)) \<and>
    drawables_are gpu_empty (sheap s') ?ds \<and> holds env X s'"
  have keep: "drawables_are gpu_empty (sheap s2) ?ds" if "drawables_are gpu_empty (sheap s1) ?ds"
      "\<And>q. q \<noteq> rend \<Longrightarrow> comp_at (sheap s2) q = comp_at (sheap s1) q" for s1 s2
  proof -
    have "drawables_are gpu_empty (sheap s2) ?ds = drawables_are gpu_empty (sheap s1) ?ds"
      by (rule drawables_same(1), rule that(2)) (use rds in auto)
    then show ?thesis using that(1) by simp
  qed
  have "runs (eachA (drawable_unload env) ?ds) s (\<lambda>_ s1. runs (modA rend (\<lambda>r. r\<lparr>m_allDrawable := []\<rparr>)) s1 (\<lambda>_ s2.
     runs (bindA (readA (\<lambda>h. renderer_at h rend)) (\<lambda>r. bindA (eachA (\<lambda>(path, node, sh). release_shader env sh) (m_allShaders r)) (\<lambda>_.
       modA rend (\<lambda>r. r\<lparr>m_allShaders := []\<rparr>)))) s2 (\<lambda>_. ?Q)))"
  proof (rule runs_conseq[OF unload_all_runs[OF hon ds m(3,4)]])
    fix u s1
    assume a: "drawables_are gpu_empty (sheap s1) ?ds \<and> others_same ?ds s s1 \<and> holds env (X + cache_handles m) s1"
    then have r1: "comp_at (sheap s1) rend = Inr (CRenderer (r\<lparr>m_allShaders := m\<rparr>))"
      using others_sameD[of ?ds s s1 rend] rds m(1) by simp
    show "runs (modA rend (\<lambda>r. r\<lparr>m_allDrawable := []\<rparr>)) s1 (\<lambda>_ s2.
      runs (bindA (readA (\<lambda>h. renderer_at h rend)) (\<lambda>r. bindA (eachA (\<lambda>(path, node, sh). release_shader env sh) (m_allShaders r)) (\<lambda>_.
       modA rend (\<lambda>r. r\<lparr>m_allShaders := []\<rparr>)))) s2 (\<lambda>_. ?Q))"
    proof (rule runs_modA[OF r1])
      fix s2 :: "'a engine"
      assume w: "hist s2 = hist s1" "comp_at (sheap s2) rend = Inr (CRenderer (r\<lparr>m_allShaders := m\<rparr>\<lparr>m_allDrawable := []\<rparr>))"
        "\<And>q. q \<noteq> rend \<Longrightarrow> comp_at (sheap s2) q = comp_at (sheap s1) q"
      have ra2: "renderer_at (sheap s2) rend = Inr (r\<lparr>m_allShaders := m\<rparr>\<lparr>m_allDrawable := []\<rparr>)" using w(2) by simp
      have h2: "holds env (X + cache_handles m) s2" using a w(1) by (blast intro: holds_hist)
      have d2: "drawables_are gpu_empty (sheap s2) ?ds" by (rule keep[of s1]) (use a w(3) in blast)+
      have "runs (eachA (\<lambda>(path, node, sh). release_shader env sh) m) s2
        (\<lambda>_ s3. runs (modA rend (\<lambda>r. r\<lparr>m_allShaders := []\<rparr>)) s3 (\<lambda>_. ?Q))"
      proof (rule runs_conseq[OF release_cache_runs[OF hon m(2) h2]])
        fix v s3
        assume b: "sheap s3 = sheap s2 \<and> holds env X s3"
        show "runs (modA rend (\<lambda>r. r\<lparr>m_allShaders := []\<rparr>)) s3 (\<lambda>_. ?Q)"
        proof (rule runs_modA)
          show "comp_at (sheap s3) rend = Inr (CRenderer (r\<lparr>m_allShaders := m, m_allDrawable := []\<rparr>))" using b w(2) by simp
          fix s4 :: "'a engine"
          assume z: "hist s4 = hist s3" "comp_at (sheap s4) rend = Inr (CRenderer (r\<lparr>m_allShaders := m, m_allDrawable := []\<rparr>\<lparr>m_allShaders := []\<rparr>))"
            "\<And>q. q \<noteq> rend \<Longrightarrow> comp_at (sheap s4) q = comp_at (sheap s3) q"
          have "drawables_are gpu_empty (sheap s4) ?ds" by (rule keep[of s3]) (use b d2 z(3) in auto)
          then show "?Q s4" using z(1,2) b by (auto intro: holds_hist)
        qed
      qed
      then show "runs (bindA (readA (\<lambda>h. renderer_at h rend)) (\<lambda>r. bindA (eachA (\<lambda>(path, node, sh). release_shader env sh) (m_allShaders r)) (\<lambda>_.
       modA rend (\<lambda>r. r\<lparr>m_allShaders := []\<rparr>)))) s2 (\<lambda>_. ?Q)"
        by (simp add: runs_read[where f = "\<lambda>h. renderer_at h rend", OF ra2])
    qed
  qed
  then show ?thesis by (simp add: UnloadContent_def runs_read[where f = "\<lambda>h. renderer_at h rend", OF ra])
qed


text \<open>
  From a device that answers as documented, loading a renderer and unloading it again returns,
  whichever calls fail on the way, and gives back every handle it acquired exactly once; only a shader
  call that fails can lose handles.
\<close>

theorem content_is_balanced:
  assumes "honest env" and "ready rend r s" and "acquired (hist s) = released (hist s) + X"
  shows "\<exists>ok s1 s2 lost. LoadContent env rend s = Inr (ok, s1) \<and> UnloadContent env rend s1 = Inr ((), s2) \<and>
    comp_at (sheap s2) rend = Inr (CRenderer (r\<lparr>m_allDrawable := [], m_allShaders := []\<rparr>)) \<and>
    acquired (hist s2) = released (hist s2) + X + lost \<and> (compiles env \<longrightarrow> lost = {#})"
proof -
  have h: "holds env X s" using assms(3) by (simp add: holds_def)
  obtain ok s1 where 1: "LoadContent env rend s = Inr (ok, s1)" "loaded env rend r X s1"
    using LoadContent_runs[OF assms(1,2) h] by (auto simp: runs_def)
  have "distinct (m_allDrawable r)" using assms(2) by (simp add: ready_def)
  from UnloadContent_runs[OF assms(1) 1(2) this]
  obtain u s2 where "UnloadContent env rend s1 = Inr (u, s2)"
    "comp_at (sheap s2) rend = Inr (CRenderer (r\<lparr>m_allDrawable := [], m_allShaders := []\<rparr>))" "holds env X s2"
    by (auto simp: runs_def)
  then show ?thesis using 1(1) by (auto simp: holds_def)
qed

text \<open>A device that never fails, and a renderer with one sprite.\<close>

definition working_env :: "matrix env" where
  "working_env = \<lparr>env_xna = plain_xna, env_ask = (\<lambda>cs c. \<lparr>r_failed = False,
     r_out = map (\<lambda>i. Some (if i = 1 \<and> outs c = 2 then Null else Ptr (3 * length cs + i))) [0..<outs c],
     r_int0 = 64, r_int1 = 64,
     r_viewport = \<lparr>TopLeftX = f32_zero, TopLeftY = f32_zero, vpWidth = f32_of_int 64, vpHeight = f32_of_int 64\<rparr>\<rparr>)\<rparr>"

lemma working_env_honest: "honest working_env"
  by (auto simp: honest_def honest_reply_def working_env_def)

lemma working_env_compiles: "compiles working_env"
  by (simp add: compiles_def working_env_def)

definition sprite_renderer :: drawable_renderer where
  "sprite_renderer = new_renderer\<lparr>m_pD3DDevice := Ptr 1, m_pD3DContext := Ptr 2, m_pSwapChain := Ptr 0,
     m_pD3DRenderTargetView := Ptr 3, m_allDrawable := [(1, 1)], m_allDrawableIDs := [(1, 0)],
     m_currentCamera := Ptr (2, 1), m_currentCameraID := Some 2\<rparr>"

definition sprite_heap :: "drawable_renderer \<Rightarrow> 'm eheap" where
  "sprite_heap r = \<lparr>cells = [0 \<mapsto> holder 0 0 [CRenderer r],
     1 \<mapsto> holder 1 1 [CTransform new_transform, CSprite (new_sprite\<lparr>s_transform := Ptr (1, 0)\<rparr>)],
     2 \<mapsto> holder 2 2 [CTransform new_transform, CKamera ((setOrthogonal True (setProjection f32_two f32_two f32_one f32_zero new_kamera))
        \<lparr>k_transform := Ptr (2, 0)\<rparr>)]], next_addr = 3\<rparr>"

lemma sprite_ready: "ready (0, 0) sprite_renderer \<lparr>sheap = sprite_heap sprite_renderer, hist = []\<rparr>"
  by (simp add: ready_def sprite_renderer_def sprite_heap_def comp_at_def holder_def new_game_object_def new_renderer_def
      drawables_are_def gpu_empty_def new_sprite_def new_gpu_def)

theorem content_is_balanced_witness:
  "\<exists>ok s1 s2. LoadContent working_env (0, 0) \<lparr>sheap = sprite_heap sprite_renderer, hist = []\<rparr> = Inr (ok, s1) \<and>
    UnloadContent working_env (0, 0) s1 = Inr ((), s2) \<and> acquired (hist s2) = released (hist s2)"
  using content_is_balanced[OF working_env_honest sprite_ready, of "{#}"] working_env_compiles by auto


section \<open>A shader that does not compile\<close>

lemma runs_call: "runs (callA env c) s Q \<longleftrightarrow> (let r = env_ask env (hist s) c in Q r (s\<lparr>hist := hist s @ [(c, r)]\<rparr>))"
  by (simp add: runs_def callA_def Let_def)

lemma CompileShader_fails:
  fixes env :: "'m env"
  assumes "honest env" and "\<And>cs a b c. r_failed (env_ask env cs (CompileFromFile a b c))"
  shows "runs (CompileShader env a b c) s (\<lambda>x s'. x = (False, Null) \<and> sheap s' = sheap s)"
proof -
  let ?c = "CompileFromFile a b c :: 'm d3d_call"
  let ?r = "env_ask env (hist s) ?c"
  have r: "honest_reply ?c ?r" by (rule honestD[OF assms(1)])
  then obtain p q where o: "r_out ?r = [p, q]" by (auto simp: honest_reply_def numeral_2_eq_2 length_Suc_conv)
  have "out_ptr 0 ?r Null = Null" "out_ptr 1 ?r Null \<noteq> Wild"
    using r assms(2)[of "hist s" a b c]
    by (auto simp: honest_reply_def out_ptr_def o numeral_2_eq_2 less_Suc_eq split: option.split)
  then show ?thesis using assms(2)[of "hist s" a b c]
    by (cases "out_ptr 1 ?r Null") (auto simp: CompileShader_def runs_call Let_def release_ptr_def)
qed

text \<open>
  C32. \<open>Sprite::registerShader\<close> returns \<open>true\<close> whatever \<open>addShaderByPath\<close> returned. When the shader does not
  compile, the container is a null pointer and the next frame dereferences it.
\<close>

theorem failed_shader_is_rendered:
  assumes "honest env" and "\<And>cs a b c. r_failed (env_ask env cs (CompileFromFile a b c))"
    and "comp_at (sheap s) rend = Inr (CRenderer r)" and "smap_find (m_allShaders r) (s_shaderPath sp) = None"
    and "m_pD3DContext r = Ptr ctx" and "comp_at (sheap s) d = Inr (CSprite sp)"
  shows "\<exists>s'. drawable_registerShader env rend d s = Inr (True, s') \<and>
    (\<forall>fuel proj. drawable_render fuel env rend d proj s' = Inl (Undefined NullDeref))"
proof -
  let ?sp = "sp\<lparr>s_gpu := (s_gpu sp)\<lparr>m_shaderContainer := Null\<rparr>\<rparr>"
  have ra: "renderer_at (sheap s) rend = Inr r" and sa: "cast_at as_sprite (sheap s) d = Inr sp" using assms(3,6) by simp_all
  note cs = CompileShader_fails[OF assms(1,2)]
  have w: "runs (writeA d (CSprite ?sp)) s1 (\<lambda>_ s'. comp_at (sheap s') d = Inr (CSprite ?sp) \<and>
      comp_at (sheap s') rend = Inr (CRenderer r))" if "sheap s1 = sheap s" for s1
  proof (rule runs_write)
    show "comp_at (sheap s1) d = Inr (CSprite sp)" using that assms(6) by simp
    fix s'
    assume a: "comp_at (sheap s') d = Inr (CSprite ?sp)" "\<And>q. q \<noteq> d \<Longrightarrow> comp_at (sheap s') q = comp_at (sheap s1) q"
    have "rend \<noteq> d" using assms(3,6) by auto
    from a(2)[OF this] show "comp_at (sheap s') d = Inr (CSprite ?sp) \<and> comp_at (sheap s') rend = Inr (CRenderer r)"
      using a(1) that assms(3) by simp
  qed
  have "runs (addShaderByPath env rend (s_shaderPath sp) 2) s (\<lambda>p s'. p = Null \<and> sheap s' = sheap s)"
    using assms(4) by (simp add: addShaderByPath_def runs_read[where f = "\<lambda>h. renderer_at h rend", OF ra])
      (rule runs_conseq[OF cs], simp add: runs_call)
  then have "runs (drawable_registerShader env rend d) s (\<lambda>ok s'. ok \<and> comp_at (sheap s') d = Inr (CSprite ?sp) \<and>
      comp_at (sheap s') rend = Inr (CRenderer r))"
    using w
    by (simp add: drawable_registerShader_def sprite_registerShader_def runs_read[where f = "\<lambda>h. comp_at h d", OF assms(6)]
        runs_read[where f = "\<lambda>h. cast_at as_sprite h d", OF sa]) (erule runs_conseq, auto)
  then obtain s' where s': "drawable_registerShader env rend d s = Inr (True, s')" "comp_at (sheap s') d = Inr (CSprite ?sp)"
    "comp_at (sheap s') rend = Inr (CRenderer r)" by (auto simp: runs_def)
  have "drawable_render fuel env rend d proj s' = Inl (Undefined NullDeref)" for fuel proj
    using s'(2,3) assms(5) by (simp add: drawable_render_def sprite_render_def act_defs begin_draw_def renderer_ctx_def shader_at_def)
  then show ?thesis using s'(1) by blast
qed


text \<open>The same device without a compiler.\<close>

definition no_compiler_env :: "matrix env" where
  "no_compiler_env = \<lparr>env_xna = plain_xna, env_ask = (\<lambda>cs c. case c of
     CompileFromFile a b d \<Rightarrow> (env_ask working_env cs c)\<lparr>r_failed := True, r_out := [None, None]\<rparr>
   | _ \<Rightarrow> env_ask working_env cs c)\<rparr>"

lemma no_compiler_env_honest: "honest no_compiler_env"
  using working_env_honest unfolding honest_def
  by (auto simp: no_compiler_env_def honest_reply_def nth_Cons' split: d3d_call.split)

theorem failed_shader_is_rendered_witness:
  "\<exists>s'. drawable_registerShader no_compiler_env (0, 0) (1, 1) \<lparr>sheap = sprite_heap sprite_renderer, hist = []\<rparr> = Inr (True, s') \<and>
    drawable_render 9 no_compiler_env (0, 0) (1, 1) (scaling_matrix f32_one f32_one f32_one) s' = Inl (Undefined NullDeref)"
proof -
  let ?s = "\<lparr>sheap = sprite_heap sprite_renderer, hist = []\<rparr> :: matrix engine"
  have "comp_at (sheap ?s) (0, 0) = Inr (CRenderer sprite_renderer)"
    "comp_at (sheap ?s) (1, 1) = Inr (CSprite (new_sprite\<lparr>s_transform := Ptr (1, 0)\<rparr>))"
    by (simp_all add: sprite_heap_def comp_at_def holder_def new_game_object_def)
  from failed_shader_is_rendered[OF no_compiler_env_honest _ this(1) _ _ this(2), of 2]
  show ?thesis by (auto simp: no_compiler_env_def sprite_renderer_def new_renderer_def)
qed

end
