(* ===== verification/Shader_Cache.thy ===== *)
theory Shader_Cache
  imports Resources
begin

text \<open>
  The cache of compiled shaders (\<open>m_allShaders\<close>): every path is compiled once, and the pointers that were
  handed out stay valid while shaders are added, because a \<open>std::map\<close> does not move its nodes.
\<close>

section \<open>Calls that only talk to the device\<close>

definition only_calls :: "('m, 'a) act \<Rightarrow> bool" where
  "only_calls m \<longleftrightarrow> (\<forall>s x s'. m s = Inr (x, s') \<longrightarrow> sheap s' = sheap s \<and> length (hist s) \<le> length (hist s'))"

named_theorems only_calls_intros

lemma only_callsD: "only_calls m \<Longrightarrow> m s = Inr (x, s') \<Longrightarrow> sheap s' = sheap s"
    "only_calls m \<Longrightarrow> m s = Inr (x, s') \<Longrightarrow> length (hist s) \<le> length (hist s')"
  unfolding only_calls_def by blast+

lemma only_calls_plain [only_calls_intros]:
  "only_calls (retA x)" "only_calls (callA env c)" "only_calls (liftA v)" "only_calls (readA f)"
  by (auto simp: only_calls_def act_defs Let_def)

lemma bindA_eq_Inr: "bindA m f s = Inr (y, s') \<longleftrightarrow> (\<exists>x s1. m s = Inr (x, s1) \<and> f x s1 = Inr (y, s'))"
  by (auto simp: bindA_def)

lemma only_calls_bind [only_calls_intros]:
  assumes "only_calls m" and "\<And>x. only_calls (f x)"
  shows "only_calls (bindA m f)"
  unfolding only_calls_def bindA_eq_Inr using assms only_callsD by (metis le_trans)

lemma only_calls_if [only_calls_intros]: "only_calls m \<Longrightarrow> only_calls n \<Longrightarrow> only_calls (if b then m else n)"
  by simp

lemma only_calls_release [only_calls_intros]: "only_calls (release_ptr env p)"
  unfolding release_ptr_def by (intro only_calls_intros)

lemma only_calls_CompileShader [only_calls_intros]: "only_calls (CompileShader env a b c)"
  unfolding CompileShader_def Let_def by (intro only_calls_intros)


section \<open>What \<open>addShaderByPath\<close> does to the cache\<close>

definition yields :: "('m, 'a) act \<Rightarrow> 'm engine \<Rightarrow> ('a \<Rightarrow> 'm engine \<Rightarrow> bool) \<Rightarrow> bool" where
  "yields m s Q \<longleftrightarrow> (\<forall>x s'. m s = Inr (x, s') \<longrightarrow> Q x s')"

lemma yields_calls:
  assumes "only_calls m"
    and "\<And>x s1. sheap s1 = sheap s \<Longrightarrow> length (hist s) \<le> length (hist s1) \<Longrightarrow> yields (f x) s1 Q"
  shows "yields (bindA m f) s Q"
  unfolding yields_def bindA_eq_Inr using assms only_callsD unfolding yields_def by metis

lemma yields_if: "yields m s Q \<Longrightarrow> yields n s Q \<Longrightarrow> yields (if b then m else n) s Q"
  by simp

lemma yields_ret: "Q x s \<Longrightarrow> yields (retA x) s Q"
  by (simp add: yields_def retA_def)

lemma yields_pair: "(\<And>a b. yields (f a b) s Q) \<Longrightarrow> yields (case p of (a, b) \<Rightarrow> f a b) s Q"
  by (simp split: prod.split)

text \<open>
  A call of \<open>addShaderByPath\<close> that returns a node returns the cached one and does nothing, or adds a new
  node to the cache.
\<close>

definition cached_or_added ::
    "cref \<Rightarrow> drawable_renderer \<Rightarrow> string \<Rightarrow> 'm engine \<Rightarrow> nat ptr \<Rightarrow> 'm engine \<Rightarrow> bool" where
  "cached_or_added rend r path s p s' \<longleftrightarrow>
     (\<exists>node. smap_find (m_allShaders r) path = Some node \<and> p = Ptr (fst node) \<and> s' = s) \<or> p = Null \<or>
     (\<exists>n sh. smap_find (m_allShaders r) path = None \<and> p = Ptr n \<and> length (hist s) < n \<and> length (hist s') = n \<and>
        comp_at (sheap s') rend = Inr (CRenderer (r\<lparr>m_allShaders := smap_insert path (n, sh) (m_allShaders r)\<rparr>)))"

lemma addShaderByPath_yields:
  fixes s :: "'m engine"
  assumes r: "comp_at (sheap s) rend = Inr (CRenderer r)"
  shows "yields (addShaderByPath env rend path k) s (cached_or_added rend r path s)"
proof (cases "smap_find (m_allShaders r) path")
  case (Some node)
  then show ?thesis using r by (simp add: addShaderByPath_def act_defs yields_def cached_or_added_def)
next
  case None
  have ra: "renderer_at (sheap s) rend = Inr r" using r by simp
  have null: "cached_or_added rend r path s Null s1" for s1 by (simp add: cached_or_added_def)
  have last: "yields (bindA (callA env c) (\<lambda>_. bindA freshA (\<lambda>node. bindA (modA rend (\<lambda>r. r\<lparr>m_allShaders := smap_insert path (node, sh) (m_allShaders r)\<rparr>))
      (\<lambda>_. retA (Ptr node))))) s1 (cached_or_added rend r path s)"
    if "sheap s1 = sheap s" "length (hist s) \<le> length (hist s1)" for s1 sh c
    using that r None
    by (auto simp: yields_def act_defs modA_def Let_def cached_or_added_def comp_at_upd_same split: sum.splits prod.splits)
  have 0: "yields (bindA (readA (\<lambda>h. renderer_at h rend)) f) s Q \<longleftrightarrow> yields (f r) s Q" for f :: "drawable_renderer \<Rightarrow> ('m, 'b) act" and Q
    using ra by (simp add: yields_def bindA_def readA_def)
  show ?thesis
    unfolding addShaderByPath_def 0 None option.case Let_def
    apply (rule yields_calls, rule only_calls_intros, rule yields_pair, rule yields_if)
     apply (rule yields_calls, rule only_calls_intros, rule yields_ret, rule null)
    apply (rule yields_calls, rule only_calls_intros)+
    apply (rule yields_if)
     apply (rule yields_calls, rule only_calls_intros)+
     apply (rule yields_ret, rule null)
    apply (rule yields_calls, rule only_calls_intros)+
    apply (rule yields_if)
     apply (rule yields_calls, rule only_calls_intros, rule yields_ret, rule null)
    apply (rule yields_calls, rule only_calls_intros)+
    apply (rule yields_pair, rule yields_if)
     apply (rule yields_calls, rule only_calls_intros, rule yields_ret, rule null)
    apply (rule yields_calls, rule only_calls_intros)+
    apply (rule yields_if)
     apply (rule yields_calls, rule only_calls_intros, rule yields_ret, rule null)
    apply (rule last)
     apply simp_all
    done
qed


section \<open>Compiled once\<close>

definition cache_wf :: "(string \<times> nat \<times> rendered_shader) list \<Rightarrow> nat \<Rightarrow> bool" where
  "cache_wf m n \<longleftrightarrow> smap_inv m \<and> distinct (map fst (map snd m)) \<and> (\<forall>e \<in> set m. fst (snd e) \<le> n)"

lemma cache_wf_insert:
  assumes "cache_wf m l" and "smap_find m path = None" and "l < n"
  shows "cache_wf (smap_insert path (n, sh) m) n"
    and "map_of (map snd (smap_insert path (n, sh) m)) x = (if x = n then Some sh else map_of (map snd m) x)"
proof -
  let ?m = "smap_insert path (n, sh) m"
  have ms: "mset ?m = mset ((path, n, sh) # m)" using mset_smap_insert[OF assms(2), of "(n, sh)"] by simp
  have fresh: "n \<notin> set (map fst (map snd m))" using assms(1,3) by (force simp: cache_wf_def)
  have "mset (map fst (map snd ?m)) = mset (map fst (map snd ((path, n, sh) # m)))"
    by (simp only: mset_map ms)
  from mset_eq_imp_distinct_iff[OF this] have d: "distinct (map fst (map snd ?m))"
    using fresh assms(1) by (simp add: cache_wf_def)
  have st: "set ?m = insert (path, n, sh) (set m)" using arg_cong[OF ms, of set_mset] by simp
  show "cache_wf ?m n"
    using assms d by (auto simp: cache_wf_def st intro: std_map.inv_ins)
  have "distinct (map fst (map snd ((path, n, sh) # m)))" using fresh assms(1) by (simp add: cache_wf_def)
  from map_of_inject_set[OF d this] have "map_of (map snd ?m) = map_of (map snd ((path, n, sh) # m))"
    by (simp add: st)
  then show "map_of (map snd ?m) x = (if x = n then Some sh else map_of (map snd m) x)" by simp
qed


lemma cached_shader: "cache_wf m l \<Longrightarrow> smap_find m path = Some (n, sh) \<Longrightarrow> map_of (map snd m) n = Some sh"
  by (rule map_of_is_SomeI) (force simp: cache_wf_def dest: smap_find_in_set)+

lemma addShaderByPath_cached:
  "comp_at (sheap s) rend = Inr (CRenderer r) \<Longrightarrow> smap_find (m_allShaders r) path = Some node \<Longrightarrow>
     addShaderByPath env rend path k s = Inr (Ptr (fst node), s)"
  by (simp add: addShaderByPath_def act_defs)

text \<open>
  C33. The shader cache hands out one node for each path: when \<open>addShaderByPath\<close> has returned a pointer,
  asking for the same path again makes no call and returns the same pointer, \<open>getShaderByPath\<close> finds it,
  it leads to a shader, and every pointer that was handed out before still leads to its shader.
\<close>

theorem shader_compiled_once:
  assumes r: "comp_at (sheap s) rend = Inr (CRenderer r)" and wf: "cache_wf (m_allShaders r) (length (hist s))"
    and add: "addShaderByPath env rend path k s = Inr (Ptr n, s')"
  shows "\<exists>r' sh. comp_at (sheap s') rend = Inr (CRenderer r') \<and> cache_wf (m_allShaders r') (length (hist s')) \<and>
    addShaderByPath env rend path k' s' = Inr (Ptr n, s') \<and> getShaderByPath path r' = Ptr n \<and>
    shader_at r' (Ptr n) = Inr sh \<and> (\<forall>q old. shader_at r q = Inr old \<longrightarrow> shader_at r' q = Inr old)"
proof -
  have "cached_or_added rend r path s (Ptr n) s'"
    using addShaderByPath_yields[OF r] add by (simp add: yields_def)
  then consider (cached) node where "smap_find (m_allShaders r) path = Some node" "n = fst node" "s' = s"
    | (added) sh where "smap_find (m_allShaders r) path = None" "length (hist s) < n" "length (hist s') = n"
        "comp_at (sheap s') rend = Inr (CRenderer (r\<lparr>m_allShaders := smap_insert path (n, sh) (m_allShaders r)\<rparr>))"
    unfolding cached_or_added_def by auto
  then show ?thesis
  proof cases
    case cached
    obtain sh where node: "node = (n, sh)" using cached(2) by (cases node) auto
    then have f: "smap_find (m_allShaders r) path = Some (n, sh)" using cached(1) by simp
    show ?thesis
      using r wf f cached_shader[OF wf f] addShaderByPath_cached[OF r f, of env k']
      by (auto intro!: exI[of _ r] exI[of _ sh] simp: cached(3) getShaderByPath_def shader_at_def)
  next
    case added
    let ?m = "smap_insert path (n, sh) (m_allShaders r)"
    note ins = cache_wf_insert[OF wf added(1,2), of sh]
    have f: "smap_find ?m path = Some (n, sh)" using wf added(1) by (intro std_map.ins_new) (simp_all add: cache_wf_def)
    have old: "shader_at (r\<lparr>m_allShaders := ?m\<rparr>) q = Inr old" if "shader_at r q = Inr old" for q old
    proof (cases q)
      case (Ptr i)
      then have i: "map_of (map snd (m_allShaders r)) i = Some old" using that by (auto simp: shader_at_def split: option.splits)
      then have "i \<in> fst ` snd ` set (m_allShaders r)" by (force dest: map_of_SomeD)
      then have "i \<noteq> n" using wf added(2) by (fastforce simp: cache_wf_def)
      then show ?thesis using i ins(2)[of i] by (simp add: shader_at_def Ptr)
    qed (use that in \<open>simp_all add: shader_at_def\<close>)
    show ?thesis
      using added(3,4) ins(1) ins(2)[of n] old addShaderByPath_cached[OF added(4), of path "(n, sh)" env k'] f
      by (auto intro!: exI[of _ "r\<lparr>m_allShaders := ?m\<rparr>"] exI[of _ sh] simp: getShaderByPath_def shader_at_def)
  qed
qed


lemma sprite_heap_renderer [simp]: "comp_at (sprite_heap r) (0, 0) = Inr (CRenderer r)"
  by (simp add: sprite_heap_def comp_at_def holder_def new_game_object_def)

lemma upd_sprite_heap [simp]: "upd_comp (0, 0) (CRenderer r') (sprite_heap r) = Inr (sprite_heap r')"
  by (simp add: sprite_heap_def upd_comp_def holder_def new_game_object_def fun_eq_iff)

theorem shader_compiled_once_witness:
  "\<exists>n s'. addShaderByPath working_env (0, 0) ''a'' 2 \<lparr>sheap = sprite_heap sprite_renderer, hist = []\<rparr> = Inr (Ptr n, s') \<and>
    addShaderByPath working_env (0, 0) ''a'' 2 s' = Inr (Ptr n, s')"
proof -
  let ?s = "\<lparr>sheap = sprite_heap sprite_renderer, hist = []\<rparr> :: matrix engine"
  have r: "comp_at (sheap ?s) (0, 0) = Inr (CRenderer sprite_renderer)" by simp
  have wf: "cache_wf (m_allShaders sprite_renderer) (length (hist ?s))"
    by (simp add: cache_wf_def sprite_renderer_def new_renderer_def)
  have "\<exists>n s'. addShaderByPath working_env (0, 0) ''a'' 2 ?s = Inr (Ptr n, s')"
    by (simp add: addShaderByPath_def CompileShader_def release_ptr_def act_defs working_env_def out_ptr_def modA_def
        Let_def sprite_renderer_def new_renderer_def)
  then obtain n s' where "addShaderByPath working_env (0, 0) ''a'' 2 ?s = Inr (Ptr n, s')" by blast
  with shader_compiled_once[OF r wf this] show ?thesis by blast
qed

end
