(* ===== verification/Object_Tree.thy ===== *)
theory Object_Tree
  imports Object_Roundtrip
begin

text \<open>
  Parents and children. The abstract state is the \<open>view\<close> of a storage: identifier to object.
  \<open>tree_ok\<close> says that parent pointers and child lists describe the same relation. \<open>setParrent\<close> is
  shown to implement an update of the view and to keep the invariant; \<open>toString\<close> returns on every
  scene whose child relation is well-founded.
\<close>

section \<open>The view of a storage\<close>

definition view :: "'c heap \<Rightarrow> storage \<Rightarrow> int \<Rightarrow> 'c game_object option" where
  "view h st i = Option.bind (map_getById (objects st) i) (cells h)"

lemma view_Some: "view h st i = Some g \<longleftrightarrow> (\<exists>a. map_getById (objects st) i = Some a \<and> cells h a = Some g)"
  by (simp add: view_def bind_eq_Some_conv)

lemma storage_wf_lookup:
  assumes "storage_wf h st" and "map_getById (objects st) i = Some a"
  obtains g where "cells h a = Some g" and "go_ID g = i"
proof -
  have "(i, a) \<in> set (objects st)"
    using assms(2) by (simp add: map_getById_def smap_find_in_set)
  moreover have "\<forall>p \<in> set (objects st). case p of (i, a) \<Rightarrow> \<exists>g. cells h a = Some g \<and> go_ID g = i"
    using assms(1) by (simp add: storage_wf_def)
  ultimately show ?thesis using that by fast
qed

lemma storage_wf_inj:
  assumes "storage_wf h st" and "map_getById (objects st) i = Some a" and "map_getById (objects st) j = Some a"
  shows "i = j"
  using storage_wf_lookup[OF assms(1,2)] storage_wf_lookup[OF assms(1,3)] by (metis option.inject)

lemma storage_wf_upd:
  assumes "storage_wf h st" and "cells h a = Some g" and "go_ID g' = go_ID g"
  shows "storage_wf (h\<lparr>cells := (cells h)(a \<mapsto> g')\<rparr>) st"
  using assms unfolding storage_wf_def by fastforce

lemma view_upd:
  assumes "storage_wf h st" and "map_getById (objects st) i = Some a"
  shows "view (h\<lparr>cells := (cells h)(a \<mapsto> g')\<rparr>) st = (view h st)(i \<mapsto> g')"
proof
  fix j
  show "view (h\<lparr>cells := (cells h)(a \<mapsto> g')\<rparr>) st j = ((view h st)(i \<mapsto> g')) j"
  proof (cases "map_getById (objects st) j")
    case None
    then show ?thesis using assms(2) by (auto simp: view_def)
  next
    case (Some b)
    show ?thesis
    proof (cases "j = i")
      case True
      then show ?thesis using assms(2) by (simp add: view_def)
    next
      case False
      then have "b \<noteq> a" using storage_wf_inj[OF assms(1,2)] Some by blast
      then show ?thesis using Some False by (simp add: view_def)
    qed
  qed
qed


section \<open>The invariant\<close>

definition tree_ok :: "(int \<Rightarrow> 'c game_object option) \<Rightarrow> bool" where
  "tree_ok V \<longleftrightarrow> V EMPTY_ID = None \<and>
     (\<forall>i g. V i = Some g \<longrightarrow> go_ID g = i \<and> (parrentID g \<noteq> EMPTY_ID \<longrightarrow> V (parrentID g) \<noteq> None)) \<and>
     (\<forall>p pg c. V p = Some pg \<longrightarrow>
        count_list (childrenIds pg) c =
          (case V c of None \<Rightarrow> 0 | Some g \<Rightarrow> if parrentID g = p then 1 else 0))"

lemma tree_okD:
  assumes "tree_ok V" and "V i = Some g"
  shows "go_ID g = i" and "parrentID g \<noteq> EMPTY_ID \<Longrightarrow> \<exists>pg. V (parrentID g) = Some pg" and "i \<noteq> EMPTY_ID"
    and "count_list (childrenIds g) c = (case V c of None \<Rightarrow> 0 | Some g' \<Rightarrow> if parrentID g' = i then 1 else 0)"
  using assms unfolding tree_ok_def by - (blast, blast, force, blast)

lemma count_list_remove1: "count_list (remove1 x xs) y = count_list xs y - (if x = y then 1 else 0)"
proof (induction xs)
  case Nil
  then show ?case by simp
next
  case (Cons z xs)
  have "count_list xs y \<noteq> 0" if "y \<in> set xs" using that by (simp add: count_list_0_iff)
  then show ?case using Cons by (cases "x = y"; cases "y \<in> set xs") (auto simp: count_notin)
qed

text \<open>What \<open>setParrent\<close> means for the view.\<close>

definition detach :: "int \<Rightarrow> (int \<Rightarrow> 'c game_object option) \<Rightarrow> int \<Rightarrow> 'c game_object option" where
  "detach i V = (\<lambda>j. map_option (\<lambda>g. g\<lparr>childrenIds := remove1 i (childrenIds g)\<rparr>) (V j))"

definition reparent :: "int \<Rightarrow> int \<Rightarrow> (int \<Rightarrow> 'c game_object option) \<Rightarrow> int \<Rightarrow> 'c game_object option" where
  "reparent i p V = (\<lambda>j. map_option (\<lambda>g. g\<lparr>
      childrenIds := remove1 i (childrenIds g) @ (if j = p then [i] else []),
      parrentID := (if j = i then p else parrentID g)\<rparr>) (V j))"

lemma reparent_tree_ok:
  assumes V: "tree_ok V" and i: "V i = Some g" and p: "p = EMPTY_ID \<or> V p \<noteq> None"
  shows "tree_ok (reparent i p V)"
  unfolding tree_ok_def
proof (intro conjI allI impI, goal_cases)
  case 1
  then show ?case using V by (simp add: reparent_def tree_ok_def)
next
  case (2 j x)
  then show ?case using V by (auto simp: reparent_def tree_ok_def)
next
  case (3 j x)
  then obtain y where y: "V j = Some y" "parrentID x = (if j = i then p else parrentID y)"
    by (auto simp: reparent_def)
  show ?case
  proof (cases "j = i")
    case True
    then show ?thesis using y p 3 by (auto simp: reparent_def)
  next
    case False
    then show ?thesis using y 3 tree_okD(2)[OF V y(1)] by (auto simp: reparent_def)
  qed
next
  case (4 q x c)
  then obtain y where y: "V q = Some y"
      "childrenIds x = remove1 i (childrenIds y) @ (if q = p then [i] else [])"
    by (auto simp: reparent_def)
  have cnt: "count_list (childrenIds y) c = (case V c of None \<Rightarrow> 0 | Some g' \<Rightarrow> if parrentID g' = q then 1 else 0)"
    by (rule tree_okD(4)[OF V y(1)])
  have "q \<noteq> EMPTY_ID" by (rule tree_okD(3)[OF V y(1)])
  then show ?case using cnt i y(2) by (auto simp: reparent_def count_list_remove1 split: option.splits)
qed

lemma tree_ok_only_parent:
  assumes V: "tree_ok V" and i: "V i = Some g" and j: "V j = Some x" and "j \<noteq> parrentID g"
  shows "remove1 i (childrenIds x) = childrenIds x"
proof -
  have "count_list (childrenIds x) i = 0"
    using tree_okD(4)[OF V j, of i] i assms(4) by simp
  then show ?thesis by (simp add: count_list_0_iff remove1_idem)
qed


section \<open>\<open>setParrent\<close>\<close>

lemma remChild_member:
  "i \<in> set (childrenIds g) \<Longrightarrow> remChild i g = Inr (g\<lparr>childrenIds := remove1 i (childrenIds g)\<rparr>)"
proof -
  assume m: "i \<in> set (childrenIds g)"
  then obtain k where k: "find_index (\<lambda>x. x = i) (childrenIds g) = Some k"
    using find_index_None[of "\<lambda>x. x = i" "childrenIds g"] by (cases "find_index (\<lambda>x. x = i) (childrenIds g)") auto
  then show ?thesis by (simp add: remChild_def vec_erase_find_index_remove1[OF k])
qed

lemma detach_old_parent:
  assumes wf: "storage_wf h st" and V: "tree_ok (view h st)"
    and self: "map_getById (objects st) i = Some this" "cells h this = Some self"
  shows "\<exists>h1. (if parrentID self \<noteq> EMPTY_ID
            then bindR (deref (map_getById (objects st) (parrentID self))) (\<lambda>old.
                 upd_objR old (remChild (go_ID self)) h)
            else Inr h) = Inr h1 \<and> storage_wf h1 st \<and> view h1 st = detach i (view h st)"
proof -
  have vi: "view h st i = Some self" using self by (auto simp: view_Some)
  have id: "go_ID self = i" by (rule tree_okD(1)[OF V vi])
  have other: "detach i (view h st) j = view h st j" if "j \<noteq> parrentID self" for j
    using tree_ok_only_parent[OF V vi _ that] by (cases "view h st j") (auto simp: detach_def)
  show ?thesis
  proof (cases "parrentID self = EMPTY_ID")
    case True
    have "view h st (parrentID self) = None" using True V by (simp add: tree_ok_def)
    then have "detach i (view h st) = view h st"
      using other by (force simp: fun_eq_iff detach_def)
    then show ?thesis using True wf by simp
  next
    case False
    obtain og where og: "view h st (parrentID self) = Some og"
      using tree_okD(2)[OF V vi False] by blast
    then obtain old where old: "map_getById (objects st) (parrentID self) = Some old" "cells h old = Some og"
      by (auto simp: view_Some)
    have "count_list (childrenIds og) i = 1"
      using tree_okD(4)[OF V og, of i] vi by simp
    then have m: "i \<in> set (childrenIds og)" by (metis count_list_0_iff zero_neq_one)
    let ?og = "og\<lparr>childrenIds := remove1 i (childrenIds og)\<rparr>"
    let ?h1 = "h\<lparr>cells := (cells h)(old \<mapsto> ?og)\<rparr>"
    have "view ?h1 st = (view h st)(parrentID self \<mapsto> ?og)"
      by (rule view_upd[OF wf old(1)])
    also have "\<dots> = detach i (view h st)"
      using other og by (auto simp: fun_eq_iff detach_def)
    finally have v: "view ?h1 st = detach i (view h st)" .
    have w: "storage_wf ?h1 st" by (rule storage_wf_upd[OF wf old(2)]) simp
    show ?thesis using False old v w id by (simp add: upd_objR_def remChild_member[OF m])
  qed
qed

lemma setParrent_refines:
  assumes wf: "storage_wf h st" and V: "tree_ok (view h st)"
    and thisp: "map_getById (objects st) i = Some this" and par: "map_getById (objects st) p = Some pa"
  shows "\<exists>h'. setParrent st this pa h = Inr h' \<and> storage_wf h' st \<and>
           view h' st = reparent i p (view h st)"
proof -
  obtain self where self: "cells h this = Some self" "go_ID self = i"
    using storage_wf_lookup[OF wf thisp] by blast
  obtain h1 where h1: "(if parrentID self \<noteq> EMPTY_ID
            then bindR (deref (map_getById (objects st) (parrentID self))) (\<lambda>old.
                 upd_objR old (remChild (go_ID self)) h)
            else Inr h) = Inr h1" and wf1: "storage_wf h1 st" and v1: "view h1 st = detach i (view h st)"
    using detach_old_parent[OF wf V thisp self(1)] by blast
  obtain pg where pg: "cells h1 pa = Some pg" "go_ID pg = p" using storage_wf_lookup[OF wf1 par] by blast
  let ?h2 = "h1\<lparr>cells := (cells h1)(pa \<mapsto> addChild i pg)\<rparr>"
  have wf2: "storage_wf ?h2 st" by (rule storage_wf_upd[OF wf1 pg(1)]) (simp add: addChild_def)
  have v2: "view ?h2 st = (detach i (view h st))(p \<mapsto> addChild i pg)"
    using view_upd[OF wf1 par] v1 by simp
  obtain self2 where self2: "cells ?h2 this = Some self2" "go_ID self2 = i"
    using storage_wf_lookup[OF wf2 thisp] by blast
  let ?h3 = "?h2\<lparr>cells := (cells ?h2)(this \<mapsto> self2\<lparr>parrentID := p\<rparr>)\<rparr>"
  have wf3: "storage_wf ?h3 st" by (rule storage_wf_upd[OF wf2 self2(1)]) (use self2 in simp)
  have "setParrent st this pa h = Inr ?h3"
    using self h1 pg self2 by (simp add: setParrent_def addChild_def)
  moreover have "view ?h3 st = reparent i p (view h st)"
  proof -
    have dp: "detach i (view h st) p = Some pg" using v1 pg(1) par by (auto simp: view_Some simp flip: v1)
    have di: "((detach i (view h st))(p \<mapsto> addChild i pg)) i = Some self2"
      using self2(1) thisp by (auto simp: view_Some simp flip: v2)
    have "view ?h3 st = ((detach i (view h st))(p \<mapsto> addChild i pg))(i \<mapsto> self2\<lparr>parrentID := p\<rparr>)"
      using view_upd[OF wf2 thisp] v2 by simp
    also have "\<dots> = reparent i p (view h st)"
      using dp di
      by (auto simp: fun_eq_iff reparent_def detach_def addChild_def map_option_case split: option.splits if_splits)
    finally show ?thesis .
  qed
  ultimately show ?thesis using wf3 by blast
qed

section \<open>\<open>setParrentID\<close>\<close>

lemma setParrentID_refines:
  assumes wf: "storage_wf h st" and V: "tree_ok (view h st)"
    and thisp: "map_getById (objects st) i = Some this"
    and par: "p = EMPTY_ID \<or> map_getById (objects st) p \<noteq> None"
  shows "\<exists>h'. setParrentID st this p h = (Inr (), h') \<and> storage_wf h' st \<and>
           view h' st = reparent i p (view h st)"
proof -
  obtain self where self: "cells h this = Some self" "go_ID self = i"
    using storage_wf_lookup[OF wf thisp] by blast
  obtain h1 where h1: "(if parrentID self \<noteq> EMPTY_ID
            then bindR (deref (map_getById (objects st) (parrentID self))) (\<lambda>old.
                 upd_objR old (remChild (go_ID self)) h)
            else Inr h) = Inr h1" and wf1: "storage_wf h1 st" and v1: "view h1 st = detach i (view h st)"
    using detach_old_parent[OF wf V thisp self(1)] by blast
  obtain self1 where self1: "cells h1 this = Some self1" "go_ID self1 = i"
    using storage_wf_lookup[OF wf1 thisp] by blast
  have vE: "view h st EMPTY_ID = None" using V by (simp add: tree_ok_def)
  have "\<exists>h2. (if p \<noteq> EMPTY_ID
             then (case map_getById (objects st) p of
                     Some temp \<Rightarrow> upd_obj temp (addChild (go_ID self1)) h1
                   | None \<Rightarrow> Inl (Exception ''parren not found''))
             else Inr h1) = Inr h2 \<and> storage_wf h2 st \<and>
           view h2 st = (\<lambda>j. if j = p then map_option (addChild i) (detach i (view h st) j) else detach i (view h st) j)"
  proof (cases "p = EMPTY_ID")
    case True
    then show ?thesis using wf1 v1 vE by (auto simp: fun_eq_iff detach_def)
  next
    case False
    then obtain pa where pa: "map_getById (objects st) p = Some pa" using par by auto
    obtain pg where pg: "cells h1 pa = Some pg" using storage_wf_lookup[OF wf1 pa] by blast
    have dp: "detach i (view h st) p = Some pg" using pg pa by (auto simp: view_Some simp flip: v1)
    have "storage_wf (h1\<lparr>cells := (cells h1)(pa \<mapsto> addChild i pg)\<rparr>) st"
      by (rule storage_wf_upd[OF wf1 pg]) (simp add: addChild_def)
    moreover have "view (h1\<lparr>cells := (cells h1)(pa \<mapsto> addChild i pg)\<rparr>) st
        = (detach i (view h st))(p \<mapsto> addChild i pg)"
      using view_upd[OF wf1 pa] v1 by simp
    ultimately show ?thesis using False pa pg self1(2) dp by (auto simp: fun_eq_iff)
  qed
  then obtain h2 where h2: "(if p \<noteq> EMPTY_ID
             then (case map_getById (objects st) p of
                     Some temp \<Rightarrow> upd_obj temp (addChild (go_ID self1)) h1
                   | None \<Rightarrow> Inl (Exception ''parren not found''))
             else Inr h1) = Inr h2" and wf2: "storage_wf h2 st"
    and v2: "view h2 st = (\<lambda>j. if j = p then map_option (addChild i) (detach i (view h st) j) else detach i (view h st) j)"
    by blast
  obtain self2 where self2: "cells h2 this = Some self2" "go_ID self2 = i"
    using storage_wf_lookup[OF wf2 thisp] by blast
  let ?h3 = "h2\<lparr>cells := (cells h2)(this \<mapsto> self2\<lparr>parrentID := p\<rparr>)\<rparr>"
  have "setParrentID st this p h = (Inr (), ?h3)"
    using self h1 self1 h2 self2 by (simp add: setParrentID_def)
  moreover have "storage_wf ?h3 st" by (rule storage_wf_upd[OF wf2 self2(1)]) simp
  moreover have "view ?h3 st = reparent i p (view h st)"
  proof -
    have di: "view h2 st i = Some self2" using self2(1) thisp by (auto simp: view_Some)
    have "view ?h3 st = (view h2 st)(i \<mapsto> self2\<lparr>parrentID := p\<rparr>)" by (rule view_upd[OF wf2 thisp])
    also have "\<dots> = reparent i p (view h st)"
      using di unfolding v2
      by (auto simp: fun_eq_iff reparent_def detach_def addChild_def map_option_case split: option.splits if_splits)
    finally show ?thesis .
  qed
  ultimately show ?thesis by blast
qed

text \<open>An unknown parent: the exception leaves after the object was removed from its old parent.\<close>

lemma setParrentID_unknown:
  assumes wf: "storage_wf h st" and V: "tree_ok (view h st)"
    and thisp: "map_getById (objects st) i = Some this"
    and p: "p \<noteq> EMPTY_ID" "map_getById (objects st) p = None"
  shows "\<exists>h1. setParrentID st this p h = (Inl (Exception ''parren not found''), h1) \<and>
           view h1 st = detach i (view h st)"
proof -
  obtain self where self: "cells h this = Some self" "go_ID self = i"
    using storage_wf_lookup[OF wf thisp] by blast
  obtain h1 where h1: "(if parrentID self \<noteq> EMPTY_ID
            then bindR (deref (map_getById (objects st) (parrentID self))) (\<lambda>old.
                 upd_objR old (remChild (go_ID self)) h)
            else Inr h) = Inr h1" and wf1: "storage_wf h1 st" and v1: "view h1 st = detach i (view h st)"
    using detach_old_parent[OF wf V thisp self(1)] by blast
  obtain self1 where "cells h1 this = Some self1"
    using storage_wf_lookup[OF wf1 thisp] by blast
  then show ?thesis using self h1 p v1 by (simp add: setParrentID_def)
qed

lemma detach_breaks_tree:
  assumes V: "tree_ok V" and i: "V i = Some g" and p: "parrentID g \<noteq> EMPTY_ID" "parrentID g \<noteq> i"
  shows "\<not> tree_ok (detach i V)"
proof
  assume d: "tree_ok (detach i V)"
  obtain pg where pg: "V (parrentID g) = Some pg" using tree_okD(2)[OF V i p(1)] by blast
  have "count_list (childrenIds pg) i = 1" using tree_okD(4)[OF V pg, of i] i by simp
  then have "count_list (remove1 i (childrenIds pg)) i = 0" by (simp add: count_list_remove1)
  moreover have "detach i V (parrentID g) = Some (pg\<lparr>childrenIds := remove1 i (childrenIds pg)\<rparr>)"
    using pg by (simp add: detach_def)
  moreover have "detach i V i = Some (g\<lparr>childrenIds := remove1 i (childrenIds g)\<rparr>)"
    using i by (simp add: detach_def)
  ultimately show False using tree_okD(4)[OF d, of "parrentID g" _ i] by fastforce
qed


section \<open>Reachable scenes\<close>

text \<open>
  Identifiers are handed out without gaps and no object is ever removed alone, so the loops that
  index the storage by \<open>0 .. size - 1\<close> always find an object.
\<close>

definition created_ok :: "'c heap \<Rightarrow> storage \<Rightarrow> bool" where
  "created_ok h st \<longleftrightarrow> storage_wf h st \<and>
     map fst (objects st) = map int [0..<length (objects st)] \<and>
     counter st = int (length (objects st)) \<and>
     (\<forall>a. next_addr h \<le> a \<longrightarrow> cells h a = None)"

text \<open>
  What a load must give back: identifier, parent, children and the classes of the components. The members of
  the components may differ, for the formats do not hold all of them.
\<close>

definition same_object :: "('c, 'w) component_class \<Rightarrow> 'c game_object \<Rightarrow> 'c game_object \<Rightarrow> bool" where
  "same_object V g g' \<longleftrightarrow> go_ID g' = go_ID g \<and> parrentID g' = parrentID g \<and> childrenIds g' = childrenIds g \<and>
     map (\<lambda>c. typeName V (obj c)) (componenten g') = map (\<lambda>c. typeName V (obj c)) (componenten g)"

text \<open>
  The scenes that a program builds with the component classes \<open>D\<close>: by \<open>createGameObject\<close>, \<open>setParrent\<close>,
  \<open>setParrentID\<close> when it returns, \<open>addComponent\<close> of a class of \<open>D\<close>, any write to the members of a component
  (its class cannot change), \<open>setActiv\<close>, renaming, \<open>clear\<close>, and by loading what was saved of such a scene into a
  cleared storage, as long as the components come back as instances of their classes. Not among the operations are
  the raw setters \<open>setID\<close>, \<open>addChild\<close> and \<open>remChild\<close>, with which a caller can write any relation, and
  \<open>setParrentID\<close> when it throws.
\<close>

inductive built_by :: "('c, 'w) component_class \<Rightarrow> 'c component_decl set \<Rightarrow> 'c heap \<Rightarrow> storage \<Rightarrow> bool" for V D where
  scene_init: "built_by V D empty_heap new_storage"
| scene_create: "built_by V D h st \<Longrightarrow> createGameObject h st = Inr (a, h', st') \<Longrightarrow> built_by V D h' st'"
| scene_parent: "built_by V D h st \<Longrightarrow> map_getById (objects st) i = Some this \<Longrightarrow>
    map_getById (objects st) j = Some p \<Longrightarrow> setParrent st this p h = Inr h' \<Longrightarrow> built_by V D h' st"
| scene_parentID: "built_by V D h st \<Longrightarrow> map_getById (objects st) i = Some this \<Longrightarrow>
    setParrentID st this p h = (Inr (), h') \<Longrightarrow> built_by V D h' st"
| scene_component: "built_by V D h st \<Longrightarrow> map_getById (objects st) i = Some this \<Longrightarrow>
    addComponent V T this h = Inr (c, h') \<Longrightarrow> T \<in> D \<Longrightarrow> built_by V D h' st"
| scene_write: "built_by V D h st \<Longrightarrow> map_getById (objects st) i = Some this \<Longrightarrow> cells h this = Some g \<Longrightarrow>
    k < length (componenten g) \<Longrightarrow> typeName V (obj c) = typeName V (obj (componenten g ! k)) \<Longrightarrow>
    upd_obj this (\<lambda>g. g\<lparr>componenten := (componenten g)[k := c]\<rparr>) h = Inr h' \<Longrightarrow> built_by V D h' st"
| scene_activ: "built_by V D h st \<Longrightarrow> map_getById (objects st) i = Some this \<Longrightarrow>
    upd_obj this (setActiv v) h = Inr h' \<Longrightarrow> built_by V D h' st"
| scene_name: "built_by V D h st \<Longrightarrow> map_getById (objects st) i = Some this \<Longrightarrow>
    upd_obj this (\<lambda>g. g\<lparr>go_name := n\<rparr>) h = Inr h' \<Longrightarrow> built_by V D h' st"
| scene_clear: "built_by V D h st \<Longrightarrow> clear_storage h st = Inr (h', st') \<Longrightarrow> built_by V D h' st'"
| scene_load: "built_by V D h st \<Longrightarrow> storage_serialize V h st [] = Inr so \<Longrightarrow> built_by V D h0 new_storage \<Longrightarrow>
    bindP pop_string (\<lambda>_. storage_set V (h0, new_storage)) (so, w) = Inr ((h', st'), s) \<Longrightarrow>
    list_all2 (same_object V) (stored h st) (stored h' st') \<Longrightarrow> built_by V D h' st'"

text \<open>A scene: built with any component classes at all.\<close>

abbreviation scene :: "('c, 'w) component_class \<Rightarrow> 'c heap \<Rightarrow> storage \<Rightarrow> bool" where
  "scene V \<equiv> built_by V UNIV"

lemma built_by_scene: "built_by V D h st \<Longrightarrow> scene V h st"
proof (induction rule: built_by.induct)
  case scene_init
  show ?case by (rule built_by.scene_init)
next
  case (scene_create h st a h' st')
  show ?case by (rule built_by.scene_create) fact+
next
  case (scene_parent h st i this j p h')
  show ?case by (rule built_by.scene_parent) fact+
next
  case (scene_parentID h st i this p h')
  show ?case by (rule built_by.scene_parentID) fact+
next
  case (scene_component h st i this T c h')
  show ?case by (rule built_by.scene_component) (fact | rule UNIV_I)+
next
  case (scene_write h st i this g k c h')
  show ?case by (rule built_by.scene_write) fact+
next
  case (scene_activ h st i this v h')
  show ?case by (rule built_by.scene_activ) fact+
next
  case (scene_name h st i this n h')
  show ?case by (rule built_by.scene_name) fact+
next
  case (scene_clear h st h' st')
  show ?case by (rule built_by.scene_clear) fact+
next
  case (scene_load h st so h0 w h' st' s)
  show ?case by (rule built_by.scene_load) fact+
qed

lemma created_key: "created_ok h st \<Longrightarrow> k < length (objects st) \<Longrightarrow> \<exists>a. map_getById (objects st) (int k) = Some a"
proof -
  assume c: "created_ok h st" and k: "k < length (objects st)"
  have "int k \<in> fst ` set (objects st)"
  proof -
    have "int k \<in> set (map int [0..<length (objects st)])" using k by simp
    then show ?thesis using c by (metis created_ok_def set_map)
  qed
  then show ?thesis using smap_find_None_iff[of "objects st" "int k"]
    by (cases "smap_find (objects st) (int k)") (auto simp: map_getById_def)
qed

lemma created_keys: "created_ok h st \<Longrightarrow> fst ` set (objects st) = int ` {0..<length (objects st)}"
proof -
  assume "created_ok h st"
  then have "set (map fst (objects st)) = set (map int [0..<length (objects st)])"
    by (simp add: created_ok_def)
  then show ?thesis by simp
qed

lemma created_upd:
  assumes c: "created_ok h st" and "cells h a = Some g" and "go_ID g' = go_ID g"
  shows "created_ok (h\<lparr>cells := (cells h)(a \<mapsto> g')\<rparr>) st"
proof -
  have "a < next_addr h" using assms(1,2) by (metis created_ok_def linorder_not_le option.distinct(1))
  then show ?thesis using assms storage_wf_upd by (auto simp: created_ok_def)
qed

text \<open>Updates that leave identifier, parent and children alone.\<close>

lemma tree_ok_frame:
  assumes V: "tree_ok V" and i: "V i = Some g"
    and g': "go_ID g' = go_ID g" "parrentID g' = parrentID g" "childrenIds g' = childrenIds g"
  shows "tree_ok (V(i \<mapsto> g'))"
  unfolding tree_ok_def
proof (intro conjI allI impI, goal_cases)
  case 1
  then show ?case using V i tree_okD(3)[OF V i] by (simp add: tree_ok_def)
next
  case (2 j x)
  then show ?case using V i g' by (auto simp: tree_ok_def split: if_splits)
next
  case (3 j x)
  then show ?case using tree_okD(2)[OF V] i g' by (cases "j = i") auto
next
  case (4 q x c)
  have "\<exists>y. V q = Some y \<and> childrenIds x = childrenIds y"
    using 4 i g' by (cases "q = i") auto
  then obtain y where y: "V q = Some y" "childrenIds x = childrenIds y" by blast
  show ?case using tree_okD(4)[OF V y(1), of c] y(2) i g' by (auto split: option.splits)
qed


lemma createGameObject_ok:
  assumes c: "created_ok h st" and V: "tree_ok (view h st)" and r: "createGameObject h st = Inr (a, h', st')"
  shows "created_ok h' st'" and "tree_ok (view h' st')"
    and "view h' st' = (view h st)(counter st \<mapsto> new_game_object\<lparr>go_ID := counter st\<rparr>)"
proof -
  let ?n = "length (objects st)" and ?g = "new_game_object\<lparr>go_ID := counter st\<rparr>"
  have cnt: "counter st = int ?n" using c by (simp add: created_ok_def)
  have bck: "map_addOnId (counter st) (next_addr h) (objects st) = objects st @ [(counter st, next_addr h)]"
    unfolding map_addOnId_def by (rule smap_insert_back) (use created_keys[OF c] cnt in auto)
  have h': "h' = h\<lparr>cells := (cells h)(next_addr h \<mapsto> ?g), next_addr := Suc (next_addr h)\<rparr>"
    and st': "st' = \<lparr>objects = objects st @ [(counter st, next_addr h)], counter = counter st + 1\<rparr>"
    and a: "a = next_addr h"
    using r bck by (auto simp: createGameObject_def alloc_def checked_int_eq_Inr Let_def)
  have old: "cells h b \<noteq> None \<Longrightarrow> b \<noteq> next_addr h" for b
    using c by (auto simp: created_ok_def)
  have wf: "storage_wf h st" using c by (simp add: created_ok_def)
  have "smap_inv (objects st')"
    using wf created_keys[OF c] cnt by (auto simp: st' smap_inv_def storage_wf_def sorted_wrt_append)
  moreover have "\<exists>g. cells h' b = Some g \<and> go_ID g = j" if "(j, b) \<in> set (objects st')" for j b
  proof (cases "(j, b) \<in> set (objects st)")
    case True
    then obtain g where "cells h b = Some g" "go_ID g = j"
      using wf by (auto simp: storage_wf_def dest!: bspec)
    then show ?thesis using old[of b] by (simp add: h')
  next
    case False
    then show ?thesis using that by (simp add: st' h')
  qed
  ultimately have wf': "storage_wf h' st'" by (auto simp: storage_wf_def)
  then show "created_ok h' st'"
    using c by (auto simp: created_ok_def h' st')
  have get: "map_getById (objects st') j = (if j = counter st then Some (next_addr h) else map_getById (objects st) j)" for j
  proof -
    have "smap_find (objects st) (counter st) = None"
      using created_keys[OF c] cnt by (auto simp: smap_find_None_iff)
    then show ?thesis
      using map_storage.find_ins[of "objects st" "counter st" "next_addr h" j] bck wf
      by (simp add: st' storage_wf_def map_getById_def)
  qed
  show v: "view h' st' = (view h st)(counter st \<mapsto> ?g)"
  proof
    fix j
    show "view h' st' j = ((view h st)(counter st \<mapsto> ?g)) j"
    proof (cases "map_getById (objects st) j")
      case None
      then show ?thesis by (simp add: view_def get h')
    next
      case (Some b)
      then obtain g where "cells h b = Some g" using storage_wf_lookup[OF wf] by blast
      then show ?thesis using Some old[of b] by (simp add: view_def get h')
    qed
  qed
  have fresh: "view h st (counter st) = None"
    using created_keys[OF c] cnt smap_find_None_iff[of "objects st" "counter st"]
    by (auto simp: view_def map_getById_def)
  show "tree_ok (view h' st')"
    unfolding v tree_ok_def
  proof (intro conjI allI impI, goal_cases)
    case 1
    then show ?case using V cnt by (auto simp: tree_ok_def)
  next
    case (2 j x)
    then show ?case using V by (auto simp: tree_ok_def split: if_splits)
  next
    case (3 j x)
    then show ?case using tree_okD(2)[OF V, of j x] by (auto simp: new_game_object_def split: if_splits)
  next
    case (4 q x k)
    show ?case
    proof (cases "q = counter st")
      case True
      have "parrentID y \<noteq> q" if "view h st k = Some y" for y
      proof
        assume "parrentID y = q"
        then have "q \<noteq> EMPTY_ID" "view h st q = None" using True cnt fresh by auto
        then show False using tree_okD(2)[OF V that] \<open>parrentID y = q\<close> by auto
      qed
      then show ?thesis using 4 True cnt
        by (auto simp: new_game_object_def split: option.splits if_splits)
    next
      case False
      then have "view h st q = Some x" using 4 by simp
      then show ?thesis
        using tree_okD(4)[OF V, of q x k] tree_okD(3)[OF V, of q x] fresh
        by (auto simp: new_game_object_def split: option.splits if_splits)
    qed
  qed
qed

lemma upd_obj_ok:
  assumes c: "created_ok h st" and V: "tree_ok (view h st)" and a: "map_getById (objects st) i = Some a"
    and r: "upd_obj a f h = Inr h'"
    and f: "\<And>g. go_ID (f g) = go_ID g \<and> parrentID (f g) = parrentID g \<and> childrenIds (f g) = childrenIds g"
  shows "created_ok h' st \<and> tree_ok (view h' st)"
proof -
  obtain g where g: "cells h a = Some g" and h': "h' = h\<lparr>cells := (cells h)(a \<mapsto> f g)\<rparr>"
    using r by (auto simp: upd_obj_eq_Inr)
  have wf: "storage_wf h st" using c by (simp add: created_ok_def)
  have "view h' st = (view h st)(i \<mapsto> f g)" unfolding h' by (rule view_upd[OF wf a])
  moreover have "view h st i = Some g" using a g by (auto simp: view_Some)
  ultimately show ?thesis
    using tree_ok_frame[OF V] created_upd[OF c g] f h' by simp
qed

lemma addComponent_upd:
  assumes "addComponent V T a h = Inr (c, h')"
  obtains d where "upd_obj a (\<lambda>g. g\<lparr>componenten := componenten g @
      [\<lparr>isActiv = go_isActiv g, gameobject = Some a, obj = d\<rparr>]\<rparr>) h = Inr h'"
  using assms by (auto simp: addComponent_def split: if_splits)

lemma setParrent_ok:
  assumes c: "created_ok h st" and V: "tree_ok (view h st)" and i: "map_getById (objects st) i = Some a"
    and v: "storage_wf h' st" "view h' st = reparent i p (view h st)"
    and p: "p = EMPTY_ID \<or> map_getById (objects st) p \<noteq> None"
    and n: "\<forall>b. next_addr h' \<le> b \<longrightarrow> cells h' b = None"
  shows "created_ok h' st \<and> tree_ok (view h' st)"
proof -
  have wf: "storage_wf h st" using c by (simp add: created_ok_def)
  obtain g where "cells h a = Some g" using storage_wf_lookup[OF wf i] by blast
  then have vi: "view h st i = Some g" using i by (auto simp: view_Some)
  have "p = EMPTY_ID \<or> view h st p \<noteq> None"
  proof (cases "map_getById (objects st) p")
    case (Some b)
    then obtain g' where "cells h b = Some g'" using storage_wf_lookup[OF wf] by blast
    then show ?thesis using Some by (simp add: view_def)
  qed (use p in simp)
  from reparent_tree_ok[OF V vi this] show ?thesis
    using c v n by (simp add: created_ok_def)
qed

text \<open>The heap operations never free or allocate a cell.\<close>

lemma upd_obj_dom: "upd_obj a f h = Inr h' \<Longrightarrow> next_addr h' = next_addr h \<and> (cells h' b = None \<longleftrightarrow> cells h b = None)"
  by (auto simp: upd_obj_eq_Inr split: if_splits)

lemma upd_objR_dom: "upd_objR a f h = Inr h' \<Longrightarrow> next_addr h' = next_addr h \<and> (cells h' b = None \<longleftrightarrow> cells h b = None)"
  by (auto simp: upd_objR_def split: if_splits option.splits sum.splits)

lemma setParrent_dom:
  "setParrent st a p h = Inr h' \<Longrightarrow> next_addr h' = next_addr h \<and> (cells h' b = None \<longleftrightarrow> cells h b = None)"
  unfolding setParrent_def
  by (auto dest!: upd_obj_dom[where b = b] upd_objR_dom[where b = b] split: if_splits)

lemma setParrentID_dom:
  "setParrentID st a p h = (Inr (), h') \<Longrightarrow> next_addr h' = next_addr h \<and> (cells h' b = None \<longleftrightarrow> cells h b = None)"
  unfolding setParrentID_def
  by (auto dest!: upd_obj_dom[where b = b] upd_objR_dom[where b = b] split: if_splits sum.splits option.splits)



section \<open>Loading\<close>

text \<open>What every load keeps of heap and storage, whatever the bytes are.\<close>

definition loading :: "'c heap \<Rightarrow> storage \<Rightarrow> bool" where
  "loading h st \<longleftrightarrow> storage_wf h st \<and> (\<forall>a. next_addr h \<le> a \<longrightarrow> cells h a = None) \<and> 0 \<le> counter st \<and>
     (\<forall>i \<in> fst ` set (objects st). i < counter st) \<and> (counter st = 0 \<or> counter st - 1 \<in> fst ` set (objects st))"

lemma set_loop_loading:
  "storage_set_loop V n (h, st) s = Inr ((h', st'), s') \<Longrightarrow> loading h st \<Longrightarrow> loading h' st'"
proof (induction n arbitrary: h st s)
  case 0
  then show ?case by simp
next
  case (Suc n)
  let ?n = "next_addr h"
  obtain g s1 where s1: "storage_set_loop V n
      (h\<lparr>next_addr := Suc ?n, cells := (cells h)(?n \<mapsto> g)\<rparr>,
       \<lparr>objects = map_addOnId (go_ID g) ?n (objects st), counter = max (counter st) (go_ID g + 1)\<rparr>) s1
      = Inr ((h', st'), s')" (is "storage_set_loop V n (?h, ?st) s1 = _")
    using Suc.prems(1) by (auto simp: alloc_def Let_def checked_int_eq_Inr split: prod.splits)
  have wf: "storage_wf h st" and fresh: "\<And>a. ?n \<le> a \<Longrightarrow> cells h a = None" using Suc.prems(2) by (simp_all add: loading_def)
  have keys: "fst ` set (objects ?st) = insert (go_ID g) (fst ` set (objects st))"
    by (simp add: map_addOnId_def fst_set_smap_insert)
  have inv: "smap_inv (objects st)" using wf by (simp add: storage_wf_def)
  then have inv': "smap_inv (objects ?st)" by (simp add: map_addOnId_def smap_inv_insert)
  have "\<exists>x. cells ?h b = Some x \<and> go_ID x = i" if ib: "(i, b) \<in> set (objects ?st)" for i b
  proof (cases "b = ?n")
    case True
    have "smap_find (objects ?st) i = Some b" using ib smap_find_Some_iff[OF inv', of i b] by blast
    then have "(i = go_ID g \<and> smap_find (objects st) i = None) \<or> smap_find (objects st) i = Some ?n"
      using True smap_find_insert[OF inv, of "go_ID g" ?n i] by (auto simp: map_addOnId_def split: if_splits)
    moreover have "smap_find (objects st) i \<noteq> Some ?n"
    proof
      assume "smap_find (objects st) i = Some ?n"
      then obtain x where "cells h ?n = Some x"
        using storage_wf_lookup[OF wf, of i ?n] by (auto simp: map_getById_def)
      then show False using fresh[of ?n] by simp
    qed
    ultimately show ?thesis using True by simp
  next
    case False
    have "smap_find (objects ?st) i = Some b" using ib smap_find_Some_iff[OF inv', of i b] by blast
    then have "smap_find (objects st) i = Some b"
      using False smap_find_insert[OF inv, of "go_ID g" ?n i] by (auto simp: map_addOnId_def split: if_splits)
    then show ?thesis using storage_wf_lookup[OF wf, of i b] False by (auto simp: map_getById_def)
  qed
  then have "\<forall>(i, b) \<in> set (objects ?st). \<exists>x. cells ?h b = Some x \<and> go_ID x = i"
    by (intro ballI) (simp only: split_paired_all prod.case)
  then have "storage_wf ?h ?st" unfolding storage_wf_def using inv' by (rule conjI[rotated])
  moreover have "counter ?st = 0 \<or> counter ?st - 1 \<in> fst ` set (objects ?st)"
    using Suc.prems(2) unfolding keys by (auto simp: loading_def max_def)
  moreover have "\<forall>i \<in> fst ` set (objects ?st). i < counter ?st"
    using Suc.prems(2) unfolding keys by (auto simp: loading_def)
  moreover have "0 \<le> counter ?st" using Suc.prems(2) by (simp add: loading_def max_def)
  ultimately have "loading ?h ?st" using fresh by (simp add: loading_def)
  from Suc.IH[OF s1 this] show ?case .
qed

lemma storage_set_loading:
  assumes "bindP pop_string (\<lambda>_. storage_set V (h0, new_storage)) s = Inr ((h', st'), s')"
    and "\<forall>a. next_addr h0 \<le> a \<longrightarrow> cells h0 a = None"
  shows "loading h' st'"
proof -
  have "loading h0 new_storage" using assms(2) by (simp add: loading_def storage_wf_def new_storage_def)
  moreover obtain n s1 where "storage_set_loop V n (h0, new_storage) s1 = Inr ((h', st'), s')"
    using assms(1) by (auto simp: bindP_def storage_set_def)
  ultimately show ?thesis by (rule set_loop_loading[rotated])
qed

lemma view_nth:
  assumes wf: "storage_wf h st" and k: "k < length (objects st)"
  shows "view h st (fst (objects st ! k)) = Some (stored h st ! k)"
proof -
  have "smap_find (objects st) (fst (objects st ! k)) = Some (snd (objects st ! k))"
    using wf k by (simp add: storage_wf_def smap_find_map_of smap_inv_distinct)
  then have f: "map_getById (objects st) (fst (objects st ! k)) = Some (snd (objects st ! k))" by (simp add: map_getById_def)
  obtain g where "cells h (snd (objects st ! k)) = Some g" using storage_wf_lookup[OF wf f] by blast
  then show ?thesis using f k by (simp add: view_def stored_def case_prod_beta)
qed

lemma view_outside: "i \<notin> fst ` set (objects st) \<Longrightarrow> view h st i = None"
  using smap_find_None_iff[of "objects st" i] by (simp add: view_def map_getById_def)

lemma same_stored_view:
  assumes wf: "storage_wf h st" "storage_wf h' st'" and R: "list_all2 (same_object V) (stored h st) (stored h' st')"
  shows "map fst (objects st') = map fst (objects st)"
    and "rel_option (same_object V) (view h st i) (view h' st' i)"
proof -
  have len: "length (objects st') = length (objects st)" using list_all2_lengthD[OF R] by simp
  have nth: "same_object V (stored h st ! k) (stored h' st' ! k)" if "k < length (objects st)" for k
    using list_all2_nthD[OF R, of k] that by simp
  have "map go_ID (stored h' st') = map go_ID (stored h st)"
    by (rule nth_equalityI) (use len nth in \<open>simp_all add: same_object_def\<close>)
  then show ids: "map fst (objects st') = map fst (objects st)" using wf by (simp add: stored_ids)
  show "rel_option (same_object V) (view h st i) (view h' st' i)"
  proof (cases "i \<in> fst ` set (objects st)")
    case True
    then obtain k where k: "k < length (objects st)" "i = fst (objects st ! k)" by (auto simp: in_set_conv_nth)
    then have "i = fst (objects st' ! k)" using ids len nth_map[of k "objects st'" fst] nth_map[of k "objects st" fst] by simp
    then show ?thesis using view_nth[OF wf(1) k(1)] view_nth[OF wf(2), of k] k len nth[OF k(1)] by simp
  next
    case False
    moreover have "i \<notin> fst ` set (objects st')" using False ids by (metis set_map)
    ultimately show ?thesis by (simp add: view_outside)
  qed
qed

text \<open>What a component class that keeps its contract reads back is the same object.\<close>

lemma go_img_same: "(\<And>c. typeName V (imgC c) = typeName V c) \<Longrightarrow> same_object V g (go_img imgC a g)"
  by (simp add: same_object_def go_img_def comp_img_def)

lemma img_same_stored:
  assumes "\<And>c. typeName V (imgC c) = typeName V c" and "map fst (objects st') = map fst (objects st)"
    and "stored h' st' = map2 (go_img imgC) (map snd (objects st')) (stored h st)"
  shows "list_all2 (same_object V) (stored h st) (stored h' st')"
proof -
  have "length (objects st') = length (objects st)" using assms(2) by (metis length_map)
  then show ?thesis unfolding assms(3) by (simp add: list_all2_conv_all_nth go_img_same[OF assms(1)])
qed

lemma same_view_tree_ok:
  assumes V: "tree_ok W" and R: "\<And>i. rel_option (same_object V) (W i) (W' i)"
  shows "tree_ok W'"
proof -
  have orig: "\<exists>g. W i = Some g \<and> same_object V g g'" if "W' i = Some g'" for i g'
    using R[of i] that by (auto simp: option_rel_Some2)
  have none: "W' i = None \<longleftrightarrow> W i = None" for i using R[of i] by (cases "W i"; cases "W' i") auto
  have par: "(case W' c of None \<Rightarrow> 0 | Some g \<Rightarrow> if parrentID g = p then 1 else 0) =
      (case W c of None \<Rightarrow> 0 | Some g \<Rightarrow> if parrentID g = p then 1 else (0 :: nat))" for c p
    using R[of c] by (cases "W c"; cases "W' c") (auto simp: same_object_def)
  show ?thesis
    unfolding tree_ok_def
  proof (intro conjI allI impI, goal_cases)
    case 1
    then show ?case using V by (simp add: none tree_ok_def)
  next
    case (2 i g)
    then show ?case using orig[of i g] tree_okD(1)[OF V] by (auto simp: same_object_def)
  next
    case (3 i g)
    then obtain x where "W i = Some x" "parrentID x = parrentID g" using orig[of i g] by (auto simp: same_object_def)
    then show ?case using tree_okD(2)[OF V, of i x] 3 by (auto simp: none)
  next
    case (4 p g c)
    then obtain x where "W p = Some x" "childrenIds x = childrenIds g" using orig[of p g] by (auto simp: same_object_def)
    then show ?case using tree_okD(4)[OF V, of p x c] by (simp add: par)
  qed
qed

lemma load_ok:
  assumes c: "created_ok h st" and V: "tree_ok (view h st)" and fresh: "\<forall>a. next_addr h0 \<le> a \<longrightarrow> cells h0 a = None"
    and ld: "bindP pop_string (\<lambda>_. storage_set CV (h0, new_storage)) s = Inr ((h', st'), s')"
    and same: "list_all2 (same_object CV) (stored h st) (stored h' st')"
  shows "created_ok h' st' \<and> tree_ok (view h' st')"
proof -
  have l: "loading h' st'" by (rule storage_set_loading[OF ld fresh])
  have wf: "storage_wf h st" "storage_wf h' st'" using c l by (simp_all add: created_ok_def loading_def)
  have ids: "map fst (objects st') = map fst (objects st)" by (rule same_stored_view(1)[OF wf same])
  then have len: "length (objects st') = length (objects st)" by (metis length_map)
  have fst': "map fst (objects st') = map int [0..<length (objects st')]" using c ids len by (simp add: created_ok_def)
  have "set (map fst (objects st')) = set (map int [0..<length (objects st')])" by (simp only: fst')
  then have keys: "fst ` set (objects st') = int ` {0..<length (objects st')}" by simp
  have "counter st' = int (length (objects st'))"
  proof (cases "length (objects st')")
    case 0
    then show ?thesis using l keys by (auto simp: loading_def)
  next
    case (Suc n)
    then have "int n \<in> fst ` set (objects st')" using keys by auto
    then have "int n < counter st'" using l unfolding loading_def by blast
    moreover from this have "counter st' - 1 \<in> int ` {0..<length (objects st')}" using l keys by (auto simp: loading_def)
    ultimately show ?thesis using Suc by auto
  qed
  then show ?thesis
    using l wf(2) fst' same_view_tree_ok[OF V same_stored_view(2)[OF wf same]] by (simp add: created_ok_def loading_def)
qed


section \<open>Every reachable scene is well-formed\<close>

lemma created_fresh: "created_ok h st \<Longrightarrow> next_addr h \<le> b \<Longrightarrow> cells h b = None"
  by (simp add: created_ok_def)

lemma delete_all_fresh:
  "foldR (\<lambda>(i, a) h. delete_obj a h) xs h = Inr h' \<Longrightarrow> \<forall>b \<ge> next_addr h. cells h b = None \<Longrightarrow>
   next_addr h' = next_addr h \<and> (\<forall>b \<ge> next_addr h. cells h' b = None)"
proof (induction xs arbitrary: h)
  case Nil
  then show ?case by simp
next
  case (Cons p xs)
  obtain i a where p: "p = (i, a)" by (cases p)
  from Cons.prems(1) p obtain h1 where h1: "delete_obj a h = Inr h1"
      "foldR (\<lambda>(i, a) h. delete_obj a h) xs h1 = Inr h'" by auto
  then have "next_addr h1 = next_addr h" "\<forall>b \<ge> next_addr h1. cells h1 b = None"
    using Cons.prems(2) by (auto simp: delete_obj_def)
  with Cons.IH[OF h1(2)] show ?case by simp
qed

lemma scene_ok:
  assumes "scene V h st"
  shows "created_ok h st \<and> tree_ok (view h st)"
  using assms
proof (induction rule: built_by.induct)
  case scene_init
  then show ?case
    by (simp add: created_ok_def storage_wf_def smap_inv_def new_storage_def empty_heap_def tree_ok_def
        view_def map_getById_def)
next
  case (scene_create h st a h' st')
  then show ?case using createGameObject_ok[of h st a h' st'] by blast
next
  case (scene_parent h st i this j p h')
  then have c: "created_ok h st" and V: "tree_ok (view h st)" by simp_all
  then have wf: "storage_wf h st" by (simp add: created_ok_def)
  obtain h2 where h2: "setParrent st this p h = Inr h2" "storage_wf h2 st" "view h2 st = reparent i j (view h st)"
    using setParrent_refines[OF wf V scene_parent(2,3)] by blast
  then have [simp]: "h2 = h'" using scene_parent(4) by simp
  show ?case
    by (rule setParrent_ok[OF c V scene_parent(2)])
       (use h2 scene_parent(3) setParrent_dom[OF scene_parent(4)] created_fresh[OF c] in auto)
next
  case (scene_parentID h st i this p h')
  then have c: "created_ok h st" and V: "tree_ok (view h st)" by simp_all
  then have wf: "storage_wf h st" by (simp add: created_ok_def)
  have p: "p = EMPTY_ID \<or> map_getById (objects st) p \<noteq> None"
    using setParrentID_unknown[OF wf V scene_parentID(2), of p] scene_parentID(3) by auto
  obtain h2 where h2: "setParrentID st this p h = (Inr (), h2)" "storage_wf h2 st"
      "view h2 st = reparent i p (view h st)"
    using setParrentID_refines[OF wf V scene_parentID(2) p] by blast
  then have [simp]: "h2 = h'" using scene_parentID(3) by simp
  show ?case
    by (rule setParrent_ok[OF c V scene_parentID(2)])
       (use h2 p setParrentID_dom[OF scene_parentID(3)] created_fresh[OF c] in auto)
next
  case (scene_component h st i this T c h')
  then obtain d where "upd_obj this (\<lambda>g. g\<lparr>componenten := componenten g @
      [\<lparr>isActiv = go_isActiv g, gameobject = Some this, obj = d\<rparr>]\<rparr>) h = Inr h'"
    by (blast elim: addComponent_upd)
  from upd_obj_ok[OF _ _ scene_component(2) this] scene_component(5) show ?case by simp
next
  case (scene_write h st i this g k c h')
  then show ?case using upd_obj_ok[OF _ _ scene_write(2,6)] by simp
next
  case (scene_activ h st i this v h')
  then show ?case using upd_obj_ok[OF _ _ scene_activ(2,3)] by (simp add: setActiv_def)
next
  case (scene_name h st i this n h')
  then show ?case using upd_obj_ok[OF _ _ scene_name(2,3)] by simp
next
  case (scene_clear h st h' st')
  then have "st' = new_storage" and "foldR (\<lambda>(i, a) h. delete_obj a h) (objects st) h = Inr h'"
    by (auto simp: clear_storage_def new_storage_def)
  moreover have "\<forall>b \<ge> next_addr h. cells h b = None" using scene_clear by (auto simp: created_fresh)
  ultimately show ?case using delete_all_fresh[of "objects st" h h']
    by (simp add: created_ok_def storage_wf_def smap_inv_def new_storage_def tree_ok_def
        view_def map_getById_def)
next
  case (scene_load h st so h0 w h' st' s)
  then show ?case using load_ok[OF _ _ _ scene_load(4,5)] by (simp add: created_ok_def)
qed

text \<open>\<open>clear\<close> succeeds on a well-formed storage: no object is deleted twice.\<close>

lemma delete_all_total:
  "distinct (map snd xs) \<Longrightarrow> \<forall>(i, a) \<in> set xs. cells h a \<noteq> None \<Longrightarrow>
   \<exists>h'. foldR (\<lambda>(i, a) h. delete_obj a h) xs h = Inr h' \<and>
        (\<forall>b. cells h' b = (if b \<in> snd ` set xs then None else cells h b))"
proof (induction xs arbitrary: h)
  case Nil
  then show ?case by simp
next
  case (Cons p xs)
  obtain i a where p: "p = (i, a)" by (cases p)
  then obtain g where g: "cells h a = Some g" using Cons.prems(2) by auto
  let ?h = "h\<lparr>cells := (cells h)(a := None)\<rparr>"
  have "\<forall>(i, b) \<in> set xs. cells ?h b \<noteq> None"
    using Cons.prems p by (force simp: image_iff)
  from Cons.IH[OF _ this] obtain h' where "foldR (\<lambda>(i, a) h. delete_obj a h) xs ?h = Inr h'"
      "\<forall>b. cells h' b = (if b \<in> snd ` set xs then None else cells ?h b)"
    using Cons.prems(1) by auto
  then show ?case using p g by (auto simp: delete_obj_def)
qed

lemma clear_storage_total:
  assumes wf: "storage_wf h st"
  shows "\<exists>h'. clear_storage h st = Inr (h', new_storage) \<and>
           (\<forall>b. cells h' b = (if b \<in> snd ` set (objects st) then None else cells h b))"
proof -
  have "i = j" if "(i, a) \<in> set (objects st)" "(j, a) \<in> set (objects st)" for i j a
  proof -
    have *: "\<forall>p \<in> set (objects st). case p of (i, a) \<Rightarrow> \<exists>g. cells h a = Some g \<and> go_ID g = i"
      using wf by (simp add: storage_wf_def)
    show ?thesis using bspec[OF * that(1)] bspec[OF * that(2)] by auto
  qed
  moreover have "distinct (objects st)"
    using wf by (auto simp: storage_wf_def smap_inv_def strict_sorted_iff distinct_map)
  ultimately have "distinct (map snd (objects st))"
    unfolding distinct_map by (auto simp: inj_on_def)
  moreover have "\<forall>(i, a) \<in> set (objects st). cells h a \<noteq> None" using wf by (fastforce simp: storage_wf_def)
  ultimately show ?thesis using delete_all_total[of "objects st" h]
    by (auto simp: clear_storage_def new_storage_def)
qed



section \<open>Properties\<close>

text \<open>Two objects as \<open>createGameObject\<close> makes them, and the second below the first.\<close>

definition two_storage :: storage where
  "two_storage = \<lparr>objects = [(0, 0), (1, 1)], counter = 2\<rparr>"

definition two_heap :: "'c heap" where
  "two_heap = \<lparr>cells = [0 \<mapsto> new_game_object\<lparr>go_ID := 0\<rparr>, 1 \<mapsto> new_game_object\<lparr>go_ID := 1\<rparr>], next_addr = 2\<rparr>"

definition family_heap :: "'c heap" where
  "family_heap = \<lparr>cells = [0 \<mapsto> new_game_object\<lparr>go_ID := 0, childrenIds := [1]\<rparr>,
     1 \<mapsto> new_game_object\<lparr>go_ID := 1, parrentID := 0\<rparr>], next_addr = 2\<rparr>"

lemma two_built: "built_by V D two_heap two_storage"
proof -
  let ?h1 = "\<lparr>cells = [0 \<mapsto> new_game_object\<lparr>go_ID := 0\<rparr>], next_addr = 1\<rparr>" and ?st1 = "\<lparr>objects = [(0, 0)], counter = 1\<rparr>"
  have "built_by V D ?h1 ?st1"
    by (rule scene_create[OF scene_init, where a = 0])
       (simp add: createGameObject_def alloc_def empty_heap_def new_storage_def map_addOnId_def checked_int_def int_ok_def)
  then show ?thesis
    by (rule scene_create[where a = 1])
       (simp add: createGameObject_def alloc_def map_addOnId_def checked_int_def int_ok_def two_heap_def two_storage_def)
qed

lemma two_scene: "scene V two_heap two_storage"
  by (rule two_built)

lemma family_step: "setParrent two_storage 1 0 two_heap = Inr family_heap"
  by (simp add: setParrent_def two_storage_def two_heap_def family_heap_def new_game_object_def addChild_def fun_eq_iff)

lemma family_scene: "scene V family_heap two_storage"
  by (rule scene_parent[OF two_scene _ _ family_step, where i = 1 and j = 0])
     (simp_all add: two_storage_def map_getById_def)



text \<open>
  C11. \<open>setParrent\<close> on two objects of a reachable scene returns; it moves the object from the child
  list of its old parent to the end of the list of the new one, changes no other object, and the
  relation stays consistent.
\<close>

theorem setParrent_moves:
  assumes "scene V h st" and "map_getById (objects st) i = Some this" and "map_getById (objects st) p = Some pa"
  shows "\<exists>h'. setParrent st this pa h = Inr h' \<and> view h' st = reparent i p (view h st) \<and> tree_ok (view h' st)"
proof -
  have wf: "storage_wf h st" and V: "tree_ok (view h st)"
    using scene_ok[OF assms(1)] by (simp_all add: created_ok_def)
  obtain h' where h': "setParrent st this pa h = Inr h'" "view h' st = reparent i p (view h st)"
    using setParrent_refines[OF wf V assms(2,3)] by blast
  have "scene V h' st" by (rule scene_parent[OF assms h'(1)])
  then show ?thesis using h' scene_ok by blast
qed

theorem setParrent_moves_witness:
  "\<exists>h'. setParrent two_storage 1 0 (two_heap :: unit heap) = Inr h' \<and>
     view h' two_storage = reparent 1 0 (view two_heap two_storage) \<and> tree_ok (view h' two_storage)"
  by (rule setParrent_moves[OF two_scene]) (simp_all add: two_storage_def map_getById_def)

text \<open>
  C20. \<open>setParrentID\<close> with an unknown identifier throws after it has taken the object out of the child
  list of its parent: the object still names that parent, and the scene is no longer consistent.
\<close>

theorem setParrentID_unknown_breaks:
  assumes "scene V h st" and "map_getById (objects st) i = Some this" and "view h st i = Some g"
    and "parrentID g \<noteq> EMPTY_ID" and "parrentID g \<noteq> i" and "p \<noteq> EMPTY_ID" and "map_getById (objects st) p = None"
  shows "\<exists>h1. setParrentID st this p h = (Inl (Exception ''parren not found''), h1) \<and> \<not> tree_ok (view h1 st)"
proof -
  have wf: "storage_wf h st" and V: "tree_ok (view h st)"
    using scene_ok[OF assms(1)] by (simp_all add: created_ok_def)
  show ?thesis
    using setParrentID_unknown[OF wf V assms(2,6,7)] detach_breaks_tree[OF V assms(3-5)] by auto
qed

theorem setParrentID_unknown_breaks_witness:
  "\<exists>h1. setParrentID two_storage 1 7 (family_heap :: unit heap) = (Inl (Exception ''parren not found''), h1) \<and>
     \<not> tree_ok (view h1 two_storage)"
  by (rule setParrentID_unknown_breaks[OF family_scene, where i = 1 and g = "new_game_object\<lparr>go_ID := 1, parrentID := 0\<rparr>"])
     (simp_all add: two_storage_def map_getById_def view_def family_heap_def)

text \<open>
  \<open>clear\<close> on a reachable scene deletes every stored object exactly once, no other cell, and
  leaves the empty storage with its counter reset.
\<close>

theorem clear_frees_all:
  assumes "scene V h st"
  shows "\<exists>h'. clear_storage h st = Inr (h', new_storage) \<and>
    (\<forall>b. cells h' b = (if b \<in> snd ` set (objects st) then None else cells h b))"
  using clear_storage_total[of h st] scene_ok[OF assms] unfolding created_ok_def by blast

theorem clear_frees_all_witness:
  "\<exists>h'. clear_storage (family_heap :: unit heap) two_storage = Inr (h', new_storage) \<and>
    (\<forall>b. cells h' b = (if b \<in> snd ` set (objects two_storage) then None else cells family_heap b))"
  by (rule clear_frees_all[OF family_scene])


end
