(* ===== verification/Object_Queries.thy ===== *)
theory Object_Queries
  imports Object_Tree
begin

text \<open>
  The queries of \<open>Serializer/Objects.h\<close> and \<open>addComponent\<close>: which of them return on every reachable
  scene, what they return, and which of them need more than the invariant (\<open>toString\<close> and the
  search by name recurse over the child lists and return when these are well-founded).
\<close>

section \<open>The loops over \<open>objects[0 .. size - 1]\<close>\<close>

lemma object_at_created:
  assumes c: "created_ok h st" and i: "i < length (objects st)"
  shows "\<exists>a g. map_getById (objects st) (int i) = Some a \<and> cells h a = Some g \<and> go_ID g = int i \<and>
    object_at_index h st i = Inr (a, g)"
proof -
  obtain a where a: "map_getById (objects st) (int i) = Some a" using created_key[OF c i] by blast
  have "storage_wf h st" using c by (simp add: created_ok_def)
  then obtain g where "cells h a = Some g" "go_ID g = int i" using storage_wf_lookup[OF _ a] by blast
  then show ?thesis using a by (auto simp: object_at_index_def map_getById_def)
qed

lemma object_at_gap: "map_getById (objects st) (int i) = None \<Longrightarrow> object_at_index h st i = Inl (Undefined NullDeref)"
  by (simp add: object_at_index_def map_getById_def)

definition named :: "string \<Rightarrow> 'c heap \<Rightarrow> storage \<Rightarrow> addr list" where
  "named n h st = map snd (filter (\<lambda>(i, a). map_option go_name (cells h a) = Some n) (objects st))"

lemma smap_find_nth:
  assumes "smap_inv m" and "i < length m"
  shows "smap_find m (fst (m ! i)) = Some (snd (m ! i))"
  using assms by (simp add: smap_find_map_of smap_inv_distinct)

lemma created_nth:
  assumes c: "created_ok h st" and i: "i < length (objects st)"
  shows "\<exists>g. object_at_index h st i = Inr (snd (objects st ! i), g) \<and> cells h (snd (objects st ! i)) = Some g"
proof -
  have "map fst (objects st) ! i = map int [0..<length (objects st)] ! i" using c by (simp add: created_ok_def)
  then have "fst (objects st ! i) = int i" using i by simp
  moreover have "smap_inv (objects st)" using c by (simp add: created_ok_def storage_wf_def)
  ultimately have "smap_find (objects st) (int i) = Some (snd (objects st ! i))"
    using smap_find_nth[OF _ i] by simp
  then show ?thesis using object_at_created[OF c i] by (auto simp: map_getById_def)
qed

lemma findByName_take:
  assumes c: "created_ok h st" and k: "k \<le> length (objects st)"
  shows "foldR (\<lambda>i toRet. bindR (object_at_index h st i) (\<lambda>(a, g).
        Inr (if go_name g = n then toRet @ [a] else toRet))) [0..<k] []
    = Inr (map snd (filter (\<lambda>(i, a). map_option go_name (cells h a) = Some n) (take k (objects st))))"
  using k
proof (induction k)
  case 0
  then show ?case by simp
next
  case (Suc k)
  then obtain g where "object_at_index h st k = Inr (snd (objects st ! k), g)"
      "cells h (snd (objects st ! k)) = Some g" using created_nth[OF c, of k] by auto
  then show ?case using Suc by (auto simp: foldR_append take_Suc_conv_app_nth split: prod.splits)
qed

lemma findByName_created:
  assumes "created_ok h st"
  shows "findByName n h st = Inr (named n h st)"
  using findByName_take[OF assms, of "length (objects st)" n]
  by (simp add: findByName_def named_def)

text \<open>A missing identifier below the size: the objects before the first one are read, then the null pointer.\<close>

lemma first_gap:
  fixes st :: storage
  assumes "k < length (objects st)" and "map_getById (objects st) (int k) = None"
  obtains m where "m < length (objects st)" and "map_getById (objects st) (int m) = None"
    and "\<And>i. i < m \<Longrightarrow> map_getById (objects st) (int i) \<noteq> None"
proof -
  let ?m = "LEAST m. map_getById (objects st) (int m) = None"
  have "map_getById (objects st) (int ?m) = None" by (rule LeastI[of _ k]) (rule assms(2))
  moreover have "?m < length (objects st)" using Least_le[of "\<lambda>m. map_getById (objects st) (int m) = None" k] assms by simp
  moreover have "map_getById (objects st) (int i) \<noteq> None" if "i < ?m" for i using not_less_Least[OF that] by blast
  ultimately show ?thesis using that by blast
qed

lemma object_at_wf:
  assumes "storage_wf h st" and "map_getById (objects st) (int i) \<noteq> None"
  shows "\<exists>a g. object_at_index h st i = Inr (a, g) \<and> cells h a = Some g"
proof -
  obtain a where a: "map_getById (objects st) (int i) = Some a" using assms(2) by blast
  then obtain g where "cells h a = Some g" using storage_wf_lookup[OF assms(1)] by blast
  then show ?thesis using a by (simp add: object_at_index_def map_getById_def)
qed

lemma loop_to_gap:
  assumes m: "m < n" and before: "\<exists>s'. foldR f [0..<m] s = Inr s' \<and> f m s' = Inl e"
  shows "foldR f [0..<n] s = Inl e"
proof -
  have "[0..<n] = [0..<m] @ m # [Suc m..<n]" using m upt_add_eq_append[of 0 m "n - m"] by (simp add: upt_conv_Cons)
  then show ?thesis using before by (auto simp: foldR_append)
qed

lemma findByName_gap:
  assumes wf: "storage_wf h st" and gap: "k < length (objects st)" "map_getById (objects st) (int k) = None"
  shows "findByName n h st = Inl (Undefined NullDeref)"
proof -
  let ?f = "\<lambda>i toRet. bindR (object_at_index h st i) (\<lambda>(a, g). Inr (if go_name g = n then toRet @ [a] else toRet))"
  obtain m where m: "m < length (objects st)" "map_getById (objects st) (int m) = None"
    and before: "\<And>i. i < m \<Longrightarrow> map_getById (objects st) (int i) \<noteq> None" using first_gap[OF gap] by metis
  have ex: "\<exists>s'. ?f i s = Inr s' \<and> True" if "i \<in> set [0..<m]" for i s
    using object_at_wf[OF wf before[of i]] that by auto
  have "\<exists>s'. foldR ?f [0..<m] [] = Inr s' \<and> True" by (rule foldR_total) (use ex in auto)
  then have "foldR ?f [0..<length (objects st)] [] = Inl (Undefined NullDeref)"
    using object_at_gap[OF m(2), of h] by (intro loop_to_gap[OF m(1)]) auto
  then show ?thesis by (simp add: findByName_def)
qed

text \<open>\<open>afterSet\<close> of the objects before the gap keeps the storage well-formed when the components return.\<close>

lemma go_afterSet_wf:
  assumes hook: "\<And>h r c. \<exists>c'. hook h r c = Inr c'" and wf: "storage_wf h st" and g: "cells h a = Some g"
  shows "\<exists>h'. go_afterSet hook a h = Inr h' \<and> storage_wf h' st"
proof -
  let ?P = "\<lambda>h'. storage_wf h' st \<and> (\<exists>g'. cells h' a = Some g' \<and> length (componenten g') = length (componenten g))"
  have step: "\<exists>h''. bindR (get_obj h' a) (\<lambda>g. bindR (vec_at (componenten g) i) (\<lambda>c. bindR (hook h' (a, i) c) (\<lambda>c'.
        upd_obj a (\<lambda>g. g\<lparr>componenten := (componenten g)[i := c']\<rparr>) h'))) = Inr h'' \<and> ?P h''"
    if i: "i \<in> set [0..<length (componenten g)]" and P: "?P h'" for i h'
  proof -
    obtain g' where g': "cells h' a = Some g'" "length (componenten g') = length (componenten g)" using P by blast
    obtain c' where "hook h' (a, i) (componenten g' ! i) = Inr c'" using hook by blast
    then show ?thesis using i g' P by (auto simp: vec_at_def intro!: storage_wf_upd)
  qed
  have "\<exists>h'. foldR (\<lambda>i h. bindR (get_obj h a) (\<lambda>g. bindR (vec_at (componenten g) i) (\<lambda>c. bindR (hook h (a, i) c) (\<lambda>c'.
        upd_obj a (\<lambda>g. g\<lparr>componenten := (componenten g)[i := c']\<rparr>) h)))) [0..<length (componenten g)] h = Inr h' \<and> ?P h'"
    by (rule foldR_total) (use step wf g in blast)+
  then show ?thesis using g by (auto simp: go_afterSet_def)
qed

lemma afterSet_gap:
  assumes hook: "\<And>h r c. \<exists>c'. hook h r c = Inr c'" and wf: "storage_wf h st"
    and gap: "k < length (objects st)" "map_getById (objects st) (int k) = None"
  shows "storage_afterSet hook st h = Inl (Undefined NullDeref)"
proof -
  let ?f = "\<lambda>i h. bindR (object_at_index h st i) (\<lambda>(a, g). go_afterSet hook a h)"
  obtain m where m: "m < length (objects st)" "map_getById (objects st) (int m) = None"
    and before: "\<And>i. i < m \<Longrightarrow> map_getById (objects st) (int i) \<noteq> None" using first_gap[OF gap] by metis
  have ex: "\<exists>h''. ?f i h' = Inr h'' \<and> storage_wf h'' st" if i: "i \<in> set [0..<m]" and w: "storage_wf h' st" for i h'
  proof -
    obtain a g where "object_at_index h' st i = Inr (a, g)" "cells h' a = Some g"
      using object_at_wf[OF w before[of i]] i by auto
    then show ?thesis using go_afterSet_wf[OF hook w] by simp
  qed
  have gapm: "?f m h' = Inl (Undefined NullDeref)" for h' by (simp add: object_at_gap[OF m(2)])
  have "\<exists>h'. foldR ?f [0..<m] h = Inr h' \<and> storage_wf h' st" by (rule foldR_total) (use ex wf in auto)
  then have "foldR ?f [0..<length (objects st)] h = Inl (Undefined NullDeref)"
    using gapm by (intro loop_to_gap[OF m(1)]) auto
  then show ?thesis by (simp add: storage_afterSet_def)
qed


section \<open>\<open>toString\<close>\<close>

text \<open>A measure that falls from every object to its children; it exists iff no object is its own descendant.\<close>

definition child_rank :: "(int \<Rightarrow> nat) \<Rightarrow> (int \<Rightarrow> 'c game_object option) \<Rightarrow> bool" where
  "child_rank r V \<longleftrightarrow> (\<forall>i g c. V i = Some g \<longrightarrow> c \<in> set (childrenIds g) \<longrightarrow> r c < r i)"

lemma tree_ok_child: "tree_ok V \<Longrightarrow> V i = Some g \<Longrightarrow> c \<in> set (childrenIds g) \<Longrightarrow> \<exists>x. V c = Some x \<and> parrentID x = i"
proof -
  assume V: "tree_ok V" and i: "V i = Some g" and c: "c \<in> set (childrenIds g)"
  have "count_list (childrenIds g) c \<noteq> 0" using c by (simp add: count_list_0_iff)
  then show ?thesis using tree_okD(4)[OF V i, of c] by (auto split: option.splits if_splits)
qed

text \<open>The number of objects of lower rank is a rank too, and it is bounded by the number of objects.\<close>

lemma child_rank_bounded:
  assumes V: "tree_ok W" and r: "child_rank r W" and fin: "finite (dom W)"
  obtains r' where "child_rank r' W" and "\<And>i. W i \<noteq> None \<Longrightarrow> r' i < card (dom W)"
proof
  let ?below = "\<lambda>i. {j \<in> dom W. r j < r i}"
  show "child_rank (\<lambda>i. card (?below i)) W"
    unfolding child_rank_def
  proof (intro allI impI)
    fix i g c
    assume g: "W i = Some g" and c: "c \<in> set (childrenIds g)"
    have rc: "r c < r i" using r g c by (simp add: child_rank_def)
    have cd: "c \<in> dom W" using tree_ok_child[OF V g c] by blast
    have "?below c \<subseteq> ?below i" using rc by auto
    moreover have "c \<in> ?below i" "c \<notin> ?below c" using rc cd by simp_all
    ultimately have "?below c \<subset> ?below i" by blast
    then show "card (?below c) < card (?below i)" by (rule psubset_card_mono[rotated]) (simp add: fin)
  qed
  fix i
  assume "W i \<noteq> None"
  then have "i \<in> dom W" "i \<notin> ?below i" by auto
  then have "?below i \<subset> dom W" by blast
  then show "card (?below i) < card (dom W)" by (rule psubset_card_mono[OF fin])
qed

lemma dom_view: "dom (view h st) \<subseteq> fst ` set (objects st)"
  using view_outside[of _ st h] by fastforce

lemma toString_total:
  assumes V: "tree_ok (view h st)" and r: "child_rank r (view h st)"
    and ids: "\<forall>i g. view h st i = Some g \<longrightarrow> int_ok (i + 48)"
  shows "map_getById (objects st) i = Some a \<Longrightarrow> view h st i = Some g \<Longrightarrow> r i < fuel \<Longrightarrow>
    -2147483648 \<le> layer \<Longrightarrow> layer + int (r i) < 2147483648 \<Longrightarrow> \<exists>s. toString fuel h st a layer = Inr s"
proof (induction fuel arbitrary: i a g layer)
  case 0
  then show ?case by simp
next
  case (Suc fuel)
  have g: "cells h a = Some g" using Suc.prems by (auto simp: view_Some)
  have id: "go_ID g = i" by (rule tree_okD(1)[OF V Suc.prems(2)])
  let ?body = "\<lambda>(i, cid) s. bindR (checked_int (layer + 1)) (\<lambda>next.
            let s = (if 0 < i then s @ replicate (nat next) (CHR 0x09) else s) @ ''->'' in
            bindR (deref (map_getById (objects st) cid)) (\<lambda>ca.
            bindR (toString fuel h st ca next) (\<lambda>t. Inr (s @ t))))"
  have child: "\<exists>s'. ?body (k, c) s = Inr s'" if c: "c \<in> set (childrenIds g)" for k :: nat and c s
  proof -
    obtain x where x: "view h st c = Some x" using tree_ok_child[OF V Suc.prems(2) c] by blast
    then obtain ca where ca: "map_getById (objects st) c = Some ca" by (auto simp: view_Some)
    have rc: "r c < r i" using r Suc.prems(2) c by (fastforce simp: child_rank_def)
    then have "r c < fuel" "-2147483648 \<le> layer + 1" "layer + 1 + int (r c) < 2147483648"
      using Suc.prems(3-5) by simp_all
    from Suc.IH[OF ca x this] obtain t where "toString fuel h st ca (layer + 1) = Inr t" by blast
    moreover have "int_ok (layer + 1)" using Suc.prems(4,5) rc by (simp add: int_ok_def)
    ultimately show ?thesis using ca by (simp add: Let_def)
  qed
  have "\<exists>s'. foldR ?body (zip [0..<length (childrenIds g)] (childrenIds g)) s = Inr s' \<and> True" for s
    by (rule foldR_total) (use child in \<open>auto dest!: set_zip_rightD\<close>)
  moreover have "int_ok (i + 48)" using ids Suc.prems(2) by blast
  ultimately show ?case using g id by (simp add: Let_def)
qed

text \<open>On a cycle the recursion ends only where the layer overflows.\<close>

lemma toString_cycle:
  assumes C: "\<forall>i \<in> C. int_ok (i + 48) \<and> (\<exists>a g c cs. map_getById (objects st) i = Some a \<and> cells h a = Some g \<and>
      go_ID g = i \<and> childrenIds g = c # cs \<and> c \<in> C)"
  shows "i \<in> C \<Longrightarrow> map_getById (objects st) i = Some a \<Longrightarrow> toString fuel h st a (int layer) =
    Inl (Undefined (if fuel = 0 \<or> fuel + layer \<le> 2147483647 then NoReturn else SignedOverflow))"
proof (induction fuel arbitrary: i a layer)
  case 0
  then show ?case by simp
next
  case (Suc fuel)
  then obtain g c cs where g: "cells h a = Some g" "go_ID g = i" "childrenIds g = c # cs" "c \<in> C" "int_ok (i + 48)"
    using C by fastforce
  then obtain ca where ca: "map_getById (objects st) c = Some ca" using C by blast
  have n: "int layer + 1 = int (Suc layer)" by simp
  show ?case
  proof (cases "int_ok (int layer + 1)")
    case True
    then have ok: "int_ok (int (Suc layer))" by (simp only: n)
    then have "Suc layer \<le> 2147483647" by (simp add: int_ok_def)
    then have "(fuel = 0 \<or> fuel + Suc layer \<le> 2147483647) = (Suc fuel + layer \<le> 2147483647)" by auto
    then show ?thesis using g ca Suc.IH[OF g(4) ca, of "Suc layer"] ok
      by (simp add: Let_def upt_conv_Cons n del: upt_Suc of_nat_Suc)
  next
    case False
    then have "\<not> Suc fuel + layer \<le> 2147483647" by (simp add: int_ok_def)
    then show ?thesis using g False by (simp add: Let_def upt_conv_Cons checked_int_def del: upt_Suc)
  qed
qed


section \<open>Search in the children\<close>

lemma findComponentsInChildren_total:
  assumes V: "tree_ok (view h st)" and i: "map_getById (objects st) i = Some a" "view h st i = Some g"
  shows "findComponentsInChildren P h st a = Inr (findComponents P a g @
      concat (map (\<lambda>c. case map_getById (objects st) c of None \<Rightarrow> []
          | Some ca \<Rightarrow> (case cells h ca of None \<Rightarrow> [] | Some cg \<Rightarrow> findComponents P ca cg)) (childrenIds g)))"
proof -
  have *: "foldR (\<lambda>cid toRet.
        bindR (deref (map_getById (objects st) cid)) (\<lambda>ca.
        bindR (get_obj h ca) (\<lambda>cg. Inr (toRet @ findComponents P ca cg)))) cs acc
     = Inr (acc @ concat (map (\<lambda>c. case map_getById (objects st) c of None \<Rightarrow> []
          | Some ca \<Rightarrow> (case cells h ca of None \<Rightarrow> [] | Some cg \<Rightarrow> findComponents P ca cg)) cs))"
    if "set cs \<subseteq> set (childrenIds g)" for cs acc
    using that
  proof (induction cs arbitrary: acc)
    case Nil
    then show ?case by simp
  next
    case (Cons c cs)
    obtain x where "view h st c = Some x" using tree_ok_child[OF V i(2), of c] Cons.prems by auto
    then obtain ca where "map_getById (objects st) c = Some ca" "cells h ca = Some x" by (auto simp: view_Some)
    then show ?case using Cons by simp
  qed
  have "cells h a = Some g" using i by (auto simp: view_Some)
  then show ?thesis using *[of "childrenIds g" "findComponents P a g"] by (simp add: findComponentsInChildren_def)
qed

lemma findComponentsInChildrenNamed_total:
  assumes V: "tree_ok (view h st)" and r: "child_rank r (view h st)"
  shows "map_getById (objects st) i = Some a \<Longrightarrow> view h st i = Some g \<Longrightarrow> r i < fuel \<Longrightarrow>
    \<exists>cs. findComponentsInChildrenNamed fuel CV n h st a = Inr cs"
proof (induction fuel arbitrary: i a g)
  case 0
  then show ?case by simp
next
  case (Suc fuel)
  have g: "cells h a = Some g" using Suc.prems by (auto simp: view_Some)
  let ?body = "\<lambda>cid toRet. bindR (deref (map_getById (objects st) cid)) (\<lambda>ca.
        bindR (findComponentsInChildrenNamed fuel CV n h st ca) (\<lambda>temp. Inr (toRet @ temp)))"
  have child: "\<exists>s'. ?body c s = Inr s'" if c: "c \<in> set (childrenIds g)" for c s
  proof -
    obtain x where x: "view h st c = Some x" using tree_ok_child[OF V Suc.prems(2) c] by blast
    then obtain ca where ca: "map_getById (objects st) c = Some ca" by (auto simp: view_Some)
    have "r c < fuel" using r Suc.prems(2,3) c by (fastforce simp: child_rank_def)
    from Suc.IH[OF ca x this] show ?thesis using ca by auto
  qed
  have "\<exists>s'. foldR ?body (childrenIds g) s = Inr s' \<and> True" for s
    by (rule foldR_total) (use child in auto)
  then show ?case using g by simp
qed


section \<open>\<open>addComponent\<close>\<close>

lemma findComponents_empty:
  "findComponents P a g = [] \<longleftrightarrow> (\<forall>c \<in> set (componenten g). \<not> P (obj c))"
  by (simp add: findComponents_def hits_from_empty)

lemma collectRequirements_ok:
  "\<forall>r \<in> set rs. \<exists>c \<in> set (componenten g). typeName CV (obj c) = r \<Longrightarrow>
   \<exists>cs. collectRequirements CV rs a g = Inr cs \<and> length cs = length rs"
proof (induction rs)
  case Nil
  then show ?case by simp
next
  case (Cons r rs)
  have "findComponentsNamed CV r a g \<noteq> []"
    using Cons.prems by (auto simp: findComponentsNamed_def hits_from_empty)
  then show ?case using Cons by (auto split: list.split)
qed

lemma hd_hits_from_least:
  "hits_from i P xs = k # ks \<Longrightarrow> \<forall>j. i \<le> j \<and> j < k \<longrightarrow> \<not> P (xs ! (j - i))"
proof (induction xs arbitrary: i)
  case Nil
  then show ?case by simp
next
  case (Cons x xs)
  show ?case
  proof (cases "P x")
    case True
    then show ?thesis using Cons.prems by auto
  next
    case False
    then have "\<forall>j. Suc i \<le> j \<and> j < k \<longrightarrow> \<not> P (xs ! (j - Suc i))" using Cons by simp
    then show ?thesis using False
      by (metis Suc_diff_Suc diff_self_eq_0 le_eq_less_or_eq less_eq_Suc_le nth_Cons_0 nth_Cons_Suc)
  qed
qed

lemma collectRequirements_nth:
  "collectRequirements CV rs a g = Inr cs \<Longrightarrow> length cs = length rs \<and>
   (\<forall>k < length rs. \<exists>j. cs ! k = (a, j) \<and> j < length (componenten g) \<and>
      typeName CV (obj (componenten g ! j)) = rs ! k \<and>
      (\<forall>m < j. typeName CV (obj (componenten g ! m)) \<noteq> rs ! k))"
proof (induction rs arbitrary: cs)
  case Nil
  then show ?case by simp
next
  case (Cons r rs)
  obtain j js where hits: "hits_from 0 (\<lambda>c. typeName CV (obj c) = r) (componenten g) = j # js"
    using Cons.prems by (auto simp: findComponentsNamed_def split: list.splits)
  then obtain cs' where cs: "cs = (a, j) # cs'" "collectRequirements CV rs a g = Inr cs'"
    using Cons.prems by (auto simp: findComponentsNamed_def)
  have "j \<in> set (hits_from 0 (\<lambda>c. typeName CV (obj c) = r) (componenten g))" using hits by simp
  then have j: "j < length (componenten g)" "typeName CV (obj (componenten g ! j)) = r"
    by (simp_all add: hits_from_nth)
  have "\<forall>m < j. typeName CV (obj (componenten g ! m)) \<noteq> r" using hd_hits_from_least[OF hits] by simp
  then show ?case using Cons.IH[OF cs(2)] cs(1) j by (auto simp: nth_Cons split: nat.split)
qed




section \<open>Lonely classes\<close>

text \<open>
  A class that declares itself lonely, among the classes \<open>D\<close> of a program: what is an instance of it depends on
  the dynamic class only, and of all the classes only its own is created as an instance of it.
\<close>

definition lonely_class :: "('c, 'w) component_class \<Rightarrow> 'c component_decl set \<Rightarrow> 'c component_decl \<Rightarrow> bool" where
  "lonely_class V D T \<longleftrightarrow> isLonly T \<and>
     (\<forall>c c'. typeName V c = typeName V c' \<longrightarrow> isInstance T c = isInstance T c') \<and>
     (\<forall>U \<in> D. \<forall>d toSet d'. fst (createInstance (declName U) (registry V)) = Some d \<longrightarrow>
        setRequirementsC V d toSet = Inr d' \<longrightarrow> isInstance T d' \<longrightarrow> U = T)"

definition instances :: "'c component_decl \<Rightarrow> 'c game_object \<Rightarrow> nat" where
  "instances T g = length (filter (\<lambda>c. isInstance T (obj c)) (componenten g))"

lemma instances_find: "length (findComponents (isInstance T) a g) = instances T g"
  by (simp add: findComponents_def length_hits_from instances_def)

definition at_most_one :: "'c component_decl \<Rightarrow> (int \<Rightarrow> 'c game_object option) \<Rightarrow> bool" where
  "at_most_one T W \<longleftrightarrow> (\<forall>i g. W i = Some g \<longrightarrow> instances T g \<le> 1)"

lemma at_most_one_upd: "at_most_one T W \<Longrightarrow> instances T g \<le> 1 \<Longrightarrow> at_most_one T (W(i \<mapsto> g))"
  by (simp add: at_most_one_def)

lemma at_most_one_view:
  assumes "storage_wf h st" and "map_getById (objects st) i = Some a" and "at_most_one T (view h st)"
    and "instances T g \<le> 1" and "h' = h\<lparr>cells := (cells h)(a \<mapsto> g)\<rparr>"
  shows "at_most_one T (view h' st)"
  unfolding assms(5) view_upd[OF assms(1,2)] by (rule at_most_one_upd[OF assms(3,4)])

lemma at_most_one_reparent: "at_most_one T W \<Longrightarrow> at_most_one T (reparent i p W)"
  by (auto simp: at_most_one_def reparent_def instances_def)

lemma instances_classes:
  assumes T: "\<And>c c'. typeName V c = typeName V c' \<Longrightarrow> isInstance T c = isInstance T c'"
    and eq: "map (\<lambda>c. typeName V (obj c)) xs = map (\<lambda>c. typeName V (obj c)) ys"
  shows "length (filter (\<lambda>c. isInstance T (obj c)) xs) = length (filter (\<lambda>c. isInstance T (obj c)) ys)"
proof -
  have "list_all2 (\<lambda>x y. typeName V (obj x) = typeName V (obj y)) xs ys"
    using eq by (simp add: list_all2_conv_all_nth list_eq_iff_nth_eq)
  then show ?thesis by (induction rule: list_all2_induct) (auto dest: T)
qed

lemma lonely_classes:
  "lonely_class V D T \<Longrightarrow> map (\<lambda>c. typeName V (obj c)) (componenten g') = map (\<lambda>c. typeName V (obj c)) (componenten g) \<Longrightarrow>
   instances T g' = instances T g"
  unfolding instances_def lonely_class_def by (rule instances_classes[where V = V]) blast+

lemma addComponent_instances:
  assumes T: "lonely_class V D T" and U: "U \<in> D" and g: "cells h a = Some g" "instances T g \<le> 1"
    and r: "addComponent V U a h = Inr (c, h')"
  shows "\<exists>g'. h' = h\<lparr>cells := (cells h)(a \<mapsto> g')\<rparr> \<and> go_ID g' = go_ID g \<and> instances T g' \<le> 1"
proof -
  obtain toSet d d' where d: "fst (createInstance (declName U) (registry V)) = Some d"
      "setRequirementsC V d toSet = Inr d'"
    and h': "h' = h\<lparr>cells := (cells h)(a \<mapsto> g\<lparr>componenten := componenten g @
      [\<lparr>isActiv = go_isActiv g, gameobject = Some a, obj = d'\<rparr>]\<rparr>)\<rparr>"
    and none: "isLonly U \<longrightarrow> findComponents (isInstance U) a g = []"
    using g(1) r by (auto simp: addComponent_def split: if_splits)
  let ?g = "g\<lparr>componenten := componenten g @ [\<lparr>isActiv = go_isActiv g, gameobject = Some a, obj = d'\<rparr>]\<rparr>"
  have "instances T ?g \<le> 1"
  proof (cases "isInstance T d'")
    case True
    then have "U = T" "isLonly T" using T U d unfolding lonely_class_def by blast+
    then have "instances T g = 0" using none instances_find[of T a g] by simp
    then show ?thesis using True by (simp add: instances_def)
  next
    case False
    then show ?thesis using g(2) by (simp add: instances_def)
  qed
  then show ?thesis using h' by (intro exI[of _ ?g]) simp
qed

lemma lonely_kept:
  assumes T: "lonely_class V D T"
  shows "built_by V D h st \<Longrightarrow> at_most_one T (view h st)"
proof (induction rule: built_by.induct)
  case scene_init
  show ?case by (simp add: at_most_one_def view_def new_storage_def map_getById_def)
next
  case (scene_create h st a h' st')
  have "created_ok h st" "tree_ok (view h st)" using scene_ok[OF built_by_scene[OF scene_create(1)]] by simp_all
  then have v: "view h' st' = (view h st)(counter st \<mapsto> new_game_object\<lparr>go_ID := counter st\<rparr>)"
    by (rule createGameObject_ok(3)[OF _ _ scene_create(2)])
  show ?case unfolding v
    by (rule at_most_one_upd[OF scene_create(3)]) (simp add: instances_def new_game_object_def)
next
  case (scene_parent h st i this j p h')
  have "storage_wf h st" "tree_ok (view h st)"
    using scene_ok[OF built_by_scene[OF scene_parent(1)]] by (simp_all add: created_ok_def)
  from setParrent_refines[OF this scene_parent(2,3)] have "view h' st = reparent i j (view h st)"
    using scene_parent(4) by auto
  then show ?case using at_most_one_reparent[OF scene_parent(5)] by simp
next
  case (scene_parentID h st i this p h')
  have wf: "storage_wf h st" "tree_ok (view h st)"
    using scene_ok[OF built_by_scene[OF scene_parentID(1)]] by (simp_all add: created_ok_def)
  have "p = EMPTY_ID \<or> map_getById (objects st) p \<noteq> None"
    using setParrentID_unknown[OF wf scene_parentID(2), of p] scene_parentID(3) by auto
  from setParrentID_refines[OF wf scene_parentID(2) this] have "view h' st = reparent i p (view h st)"
    using scene_parentID(3) by auto
  then show ?case using at_most_one_reparent[OF scene_parentID(4)] by simp
next
  case (scene_component h st i this U c h')
  have wf: "storage_wf h st" using scene_ok[OF built_by_scene[OF scene_component(1)]] by (simp add: created_ok_def)
  obtain g where g: "cells h this = Some g" using storage_wf_lookup[OF wf scene_component(2)] by blast
  then have "view h st i = Some g" using scene_component(2) by (auto simp: view_Some)
  then have "instances T g \<le> 1" using scene_component(5) by (simp add: at_most_one_def)
  then obtain g' where "h' = h\<lparr>cells := (cells h)(this \<mapsto> g')\<rparr>" "instances T g' \<le> 1"
    using addComponent_instances[OF T scene_component(4) g _ scene_component(3)] by blast
  then show ?case using at_most_one_view[OF wf scene_component(2,5)] by blast
next
  case (scene_write h st i this g k c h')
  have wf: "storage_wf h st" using scene_ok[OF built_by_scene[OF scene_write(1)]] by (simp add: created_ok_def)
  let ?g = "g\<lparr>componenten := (componenten g)[k := c]\<rparr>"
  have "view h st i = Some g" using scene_write(2,3) by (auto simp: view_Some)
  then have "instances T g \<le> 1" using scene_write(7) by (simp add: at_most_one_def)
  moreover have "map (\<lambda>c. typeName V (obj c)) ((componenten g)[k := c]) = map (\<lambda>c. typeName V (obj c)) (componenten g)"
    using scene_write(4,5) by (simp add: list_eq_iff_nth_eq nth_list_update)
  then have "instances T ?g = instances T g" by (intro lonely_classes[OF T]) simp
  ultimately have "instances T ?g \<le> 1" by simp
  moreover have "h' = h\<lparr>cells := (cells h)(this \<mapsto> ?g)\<rparr>" using scene_write(3,6) by simp
  ultimately show ?case by (rule at_most_one_view[OF wf scene_write(2,7)])
next
  case (scene_activ h st i this v h')
  have wf: "storage_wf h st" using scene_ok[OF built_by_scene[OF scene_activ(1)]] by (simp add: created_ok_def)
  obtain g where g: "cells h this = Some g" using storage_wf_lookup[OF wf scene_activ(2)] by blast
  then have "view h st i = Some g" using scene_activ(2) by (auto simp: view_Some)
  then have "instances T g \<le> 1" using scene_activ(4) by (simp add: at_most_one_def)
  then have "instances T (setActiv v g) \<le> 1" by (simp add: instances_def setActiv_def filter_map o_def)
  then show ?case by (rule at_most_one_view[OF wf scene_activ(2,4)]) (use scene_activ(3) g in simp)
next
  case (scene_name h st i this n h')
  have wf: "storage_wf h st" using scene_ok[OF built_by_scene[OF scene_name(1)]] by (simp add: created_ok_def)
  obtain g where g: "cells h this = Some g" using storage_wf_lookup[OF wf scene_name(2)] by blast
  then have "view h st i = Some g" using scene_name(2) by (auto simp: view_Some)
  then have "instances T (g\<lparr>go_name := n\<rparr>) \<le> 1" using scene_name(4) by (simp add: at_most_one_def instances_def)
  then show ?case by (rule at_most_one_view[OF wf scene_name(2,4)]) (use scene_name(3) g in simp)
next
  case (scene_clear h st h' st')
  then have "st' = new_storage" by (auto simp: clear_storage_def new_storage_def)
  then show ?case by (simp add: at_most_one_def view_def new_storage_def map_getById_def)
next
  case (scene_load h st so h0 w h' st' s)
  have c: "created_ok h st" "created_ok h0 new_storage"
    using scene_ok[OF built_by_scene[OF scene_load(1)]] scene_ok[OF built_by_scene[OF scene_load(3)]] by simp_all
  have wf: "storage_wf h st" "storage_wf h' st'"
    using c storage_set_loading[OF scene_load(4)] by (simp_all add: created_ok_def loading_def)
  show ?case
    unfolding at_most_one_def
  proof (intro allI impI)
    fix i g'
    assume "view h' st' i = Some g'"
    then obtain g where g: "view h st i = Some g" "same_object V g g'"
      using same_stored_view(2)[OF wf scene_load(5), of i] by (auto simp: option_rel_Some2)
    then have "instances T g' = instances T g" by (intro lonely_classes[OF T]) (simp add: same_object_def)
    then show "instances T g' \<le> 1" using g(1) scene_load(6) by (simp add: at_most_one_def)
  qed
qed

text \<open>What one call does to an object that already has an instance, and to one that has none.\<close>

lemma addComponent_lonely:
  assumes "lonely_class V D T" and g: "cells h a = Some g"
    and T: "\<And>d toSet d'. fst (createInstance (declName T) (registry V)) = Some d \<Longrightarrow>
      setRequirementsC V d toSet = Inr d' \<Longrightarrow> isInstance T d'"
  shows "findComponents (isInstance T) a g \<noteq> [] \<Longrightarrow> addComponent V T a h = Inl (Exception
      ''es ist bereits eine Instanz dieser componente enthalten und die Componente ist als Lonly Makiert'')"
    and "addComponent V T a h = Inr (c, h') \<Longrightarrow> \<exists>g'. cells h' a = Some g' \<and> findComponents (isInstance T) a g' = [c]"
proof -
  have l: "isLonly T" using assms(1) by (simp add: lonely_class_def)
  then show "findComponents (isInstance T) a g \<noteq> [] \<Longrightarrow> addComponent V T a h = Inl (Exception
      ''es ist bereits eine Instanz dieser componente enthalten und die Componente ist als Lonly Makiert'')"
    using g by (simp add: addComponent_def)
  assume r: "addComponent V T a h = Inr (c, h')"
  then have none: "findComponents (isInstance T) a g = []"
    using g l by (auto simp: addComponent_def split: if_splits)
  obtain toSet d d' where d: "fst (createInstance (declName T) (registry V)) = Some d"
      "setRequirementsC V d toSet = Inr d'" and c: "c = (a, length (componenten g))"
    and h': "h' = h\<lparr>cells := (cells h)(a \<mapsto> g\<lparr>componenten := componenten g @
      [\<lparr>isActiv = go_isActiv g, gameobject = Some a, obj = d'\<rparr>]\<rparr>)\<rparr>"
    using g r by (auto simp: addComponent_def split: if_splits)
  let ?g = "g\<lparr>componenten := componenten g @ [\<lparr>isActiv = go_isActiv g, gameobject = Some a, obj = d'\<rparr>]\<rparr>"
  have "isInstance T d'" by (rule T[OF d])
  then have "hits_from 0 (\<lambda>c. isInstance T (obj c)) (componenten g @
      [\<lparr>isActiv = go_isActiv g, gameobject = Some a, obj = d'\<rparr>]) = [length (componenten g)]"
    using none hits_from_last[of "componenten g" "\<lambda>c. isInstance T (obj c)"] unfolding findComponents_empty by simp
  then have "findComponents (isInstance T) a ?g = [c]" by (simp add: findComponents_def c)
  then show "\<exists>g'. cells h' a = Some g' \<and> findComponents (isInstance T) a g' = [c]"
    using h' by (intro exI[of _ ?g]) simp
qed


section \<open>Properties\<close>

text \<open>
  On a reachable scene \<open>findByName\<close> returns the addresses of exactly the objects with that name,
  in the order of their identifiers.
\<close>

theorem findByName_scene:
  assumes "scene V h st"
  shows "findByName n h st = Inr (map snd (filter (\<lambda>(i, a). map_option go_name (cells h a) = Some n) (objects st)))"
  using findByName_created[of h st n] scene_ok[OF assms] by (simp add: named_def)

theorem findByName_scene_witness:
  "findByName '''' (family_heap :: unit heap) two_storage =
     Inr (map snd (filter (\<lambda>(i, a). map_option go_name (cells (family_heap :: unit heap) a) = Some '''') (objects two_storage)))"
  by (rule findByName_scene[OF family_scene])

text \<open>
  C24. In a storage whose identifiers are not \<open>0 .. size - 1\<close> an identifier below the size is missing. \<open>findByName\<close>
  then dereferences the null pointer that \<open>objects[i]\<close> has inserted for it, whatever name it looks for, and so does
  \<open>afterSet\<close> when the \<open>afterSet\<close> of the components returns. A saved scene whose object was given another
  identifier is loaded as such a storage.
\<close>

theorem findByName_gap_undefined:
  assumes "storage_wf h st" and "k < length (objects st)" and "map_getById (objects st) (int k) = None"
    and "\<And>h r c. \<exists>c'. hook h r c = Inr c'"
  shows "findByName n h st = Inl (Undefined NullDeref) \<and> storage_afterSet hook st h = Inl (Undefined NullDeref)"
  using findByName_gap[OF assms(1-3)] afterSet_gap[OF assms(4,1-3)] by (rule conjI)

text \<open>
  C18. When no object of a reachable scene is its own descendant, which a rank falling from every object to its
  children expresses, \<open>toString\<close> returns a string: the recursion is no deeper than there are objects. The layer it
  starts from must leave room for as many increments in an \<open>int\<close>.
\<close>

theorem toString_returns:
  assumes "scene V h st" and "child_rank r (view h st)" and "length (objects st) \<le> 2147483600"
    and "map_getById (objects st) i = Some a" and "length (objects st) \<le> fuel"
    and "-2147483648 \<le> layer" and "layer + int (length (objects st)) \<le> 2147483648"
  shows "\<exists>s. toString fuel h st a layer = Inr s"
proof -
  have c: "created_ok h st" and V: "tree_ok (view h st)" using scene_ok[OF assms(1)] by simp_all
  have wf: "storage_wf h st" using c by (simp add: created_ok_def)
  obtain g where "cells h a = Some g" using storage_wf_lookup[OF wf assms(4)] by blast
  then have vi: "view h st i = Some g" using assms(4) by (simp add: view_def)
  have "int_ok (j + 48)" if "view h st j = Some g" for j g
  proof -
    have "j \<in> fst ` set (objects st)" using that view_outside[of j st h] by (cases "j \<in> fst ` set (objects st)") auto
    then have "0 \<le> j \<and> j < int (length (objects st))" using created_keys[OF c] by auto
    then show ?thesis using assms(3) by (simp add: int_ok_def)
  qed
  then have ids: "\<forall>j g. view h st j = Some g \<longrightarrow> int_ok (j + 48)" by blast
  have fin: "finite (dom (view h st))" by (rule finite_subset[OF dom_view]) simp
  have "card (dom (view h st)) \<le> card (fst ` set (objects st))" by (rule card_mono[OF _ dom_view]) simp
  also have "\<dots> \<le> length (objects st)" using card_image_le[of "set (objects st)" fst] card_length[of "objects st"] by simp
  finally have card: "card (dom (view h st)) \<le> length (objects st)" .
  obtain r' where r': "child_rank r' (view h st)" "\<And>j. view h st j \<noteq> None \<Longrightarrow> r' j < card (dom (view h st))"
    using child_rank_bounded[OF V assms(2) fin] by metis
  have "r' i < length (objects st)" using r'(2)[of i] vi card by simp
  then show ?thesis using toString_total[OF V r'(1) ids assms(4) vi, of fuel layer] assms(5-7) by simp
qed

theorem toString_returns_witness:
  "\<exists>s. toString 2 (family_heap :: unit heap) two_storage 0 2147483646 = Inr s"
proof -
  have r: "child_rank (\<lambda>i. if i = 0 then 1 else 0) (view (family_heap :: unit heap) two_storage)"
    unfolding child_rank_def view_def family_heap_def two_storage_def map_getById_def
    by (auto simp: new_game_object_def bind_eq_Some_conv split: if_splits)
  have "length (objects two_storage) \<le> 2147483600" "map_getById (objects two_storage) 0 = Some 0"
      "length (objects two_storage) \<le> 2" "2147483646 + int (length (objects two_storage)) \<le> 2147483648"
    by (simp_all add: two_storage_def map_getById_def)
  with toString_returns[OF family_scene r, of 0 0 2 2147483646] show ?thesis by simp
qed

text \<open>
  C19. Nothing prevents \<open>setParrent\<close> from making two objects parents of each other: from such a
  reachable scene \<open>toString\<close> never returns a string, whatever its recursion depth; the recursion goes on until
  \<open>layer + 1\<close> overflows.
\<close>

theorem toString_diverges:
  "\<exists>h st a. scene (V :: ('c, 'w) component_class) h st \<and> map_getById (objects st) 0 = Some a \<and>
     (\<forall>fuel layer. toString fuel h st a (int layer) =
        Inl (Undefined (if fuel = 0 \<or> fuel + layer \<le> 2147483647 then NoReturn else SignedOverflow)))"
proof -
  let ?h = "\<lparr>cells = [0 \<mapsto> new_game_object\<lparr>go_ID := 0, childrenIds := [1], parrentID := 1\<rparr>,
     1 \<mapsto> new_game_object\<lparr>go_ID := 1, parrentID := 0, childrenIds := [0]\<rparr>], next_addr = 2\<rparr> :: 'c heap"
  have "setParrent two_storage 0 1 family_heap = Inr ?h"
    by (simp add: setParrent_def two_storage_def family_heap_def new_game_object_def addChild_def fun_eq_iff)
  then have s: "scene V ?h two_storage"
    by (rule scene_parent[OF family_scene, where i = 0 and j = 1, rotated 2])
       (simp_all add: two_storage_def map_getById_def)
  have "toString fuel ?h two_storage 0 (int layer) =
      Inl (Undefined (if fuel = 0 \<or> fuel + layer \<le> 2147483647 then NoReturn else SignedOverflow))" for fuel layer
    by (rule toString_cycle[where C = "{0, 1}" and i = 0])
       (simp_all add: two_storage_def map_getById_def int_ok_def)
  then show ?thesis using s by (intro exI[of _ ?h] exI[of _ two_storage] exI[of _ 0])
       (simp add: two_storage_def map_getById_def)
qed

text \<open>
  A successful \<open>addComponent\<close> appends one component that is owned by the object and takes over its
  activity flag, and hands the new component, in the order of its requirements, the first component
  of the object with the required class name.
\<close>

theorem addComponent_wires_requirements:
  assumes "cells h this = Some g" and "addComponent V T this h = Inr (c, h')"
  shows "\<exists>d toSet d'. c = (this, length (componenten g)) \<and>
    fst (createInstance (declName T) (registry V)) = Some d \<and> setRequirementsC V d toSet = Inr d' \<and>
    cells h' = (cells h)(this \<mapsto> g\<lparr>componenten := componenten g @
      [\<lparr>isActiv = go_isActiv g, gameobject = Some this, obj = d'\<rparr>]\<rparr>) \<and>
    length toSet = length (requirements T) \<and>
    (\<forall>k < length toSet. \<exists>j. toSet ! k = (this, j) \<and> j < length (componenten g) \<and>
       typeName V (obj (componenten g ! j)) = requirements T ! k \<and>
       (\<forall>m < j. typeName V (obj (componenten g ! m)) \<noteq> requirements T ! k))"
proof -
  obtain toSet d d' where t: "collectRequirements V (requirements T) this g = Inr toSet"
    and d: "fst (createInstance (declName T) (registry V)) = Some d" "setRequirementsC V d toSet = Inr d'"
    and c: "c = (this, length (componenten g))"
    and h': "h' = h\<lparr>cells := (cells h)(this \<mapsto> g\<lparr>componenten := componenten g @
      [\<lparr>isActiv = go_isActiv g, gameobject = Some this, obj = d'\<rparr>]\<rparr>)\<rparr>"
    using assms by (auto simp: addComponent_def split: if_splits)
  show ?thesis using collectRequirements_nth[OF t] c d h'
    by (intro exI[of _ d] exI[of _ toSet] exI[of _ d']) simp
qed

end
