(* ===== verification/Event_System.thy ===== *)
theory Event_System
  imports Object_Queries
begin

text \<open>
  \<open>EventSystem/EventSystem.h\<close>. Events are objects on a heap of their own, listeners are references
  to components. The virtual \<open>onEvent\<close> is an argument \<open>onEvent el e s\<close> of every operation that calls
  it: it may do anything to the state, in particular register listeners and queue further events.
  The loops re-read \<open>size()\<close> on every iteration, as the code does, and \<open>fuel\<close> bounds their number of
  iterations.
\<close>

record event =
  usable :: "bool option"
  destroy :: "bool option"

record 'w event_system =
  listener :: "cref list"
  listenerIDs :: "(int \<times> int) list"
  onNextUpdate :: "addr list"
  events :: "addr \<Rightarrow> event option"
  world :: 'w

type_synonym 'w on_event = "cref \<Rightarrow> addr \<Rightarrow> 'w event_system \<Rightarrow> (bool \<times> 'w event_system) result"

text \<open>An uninitialised member is read: \<open>None\<close>.\<close>

definition read_flag :: "(event \<Rightarrow> bool option) \<Rightarrow> addr \<Rightarrow> 'w event_system \<Rightarrow> bool result" where
  "read_flag f e s =
     (case events s e of
        None \<Rightarrow> Inl (Undefined Dangling)
      | Some ev \<Rightarrow> (case f ev of None \<Rightarrow> Inl (Undefined Uninit) | Some b \<Rightarrow> Inr b))"

definition new_event_system :: "(addr \<Rightarrow> event option) \<Rightarrow> 'w \<Rightarrow> 'w event_system" where
  "new_event_system evs w = \<lparr>listener = [], listenerIDs = [], onNextUpdate = [], events = evs, world = w\<rparr>"


section \<open>Listeners\<close>

text \<open>\<open>P\<close> is the \<open>dynamic_cast<EventListener*>\<close>; \<open>el\<close> is stored with its rank among the listeners
  of its game object.\<close>

definition addEventListener ::
    "('c \<Rightarrow> bool) \<Rightarrow> 'c heap \<Rightarrow> cref \<Rightarrow> 'w event_system \<Rightarrow> 'w event_system result" where
  "addEventListener P h el s =
     bindR (get_obj h (fst el)) (\<lambda>g0.
     bindR (vec_at (componenten g0) (snd el)) (\<lambda>comp.
     bindR (deref (gameobject comp)) (\<lambda>owner.
     bindR (get_obj h owner) (\<lambda>g.
     (case find_index (\<lambda>c. c = el) (findComponents P owner g) of
        None \<Rightarrow> Inr s
      | Some i \<Rightarrow> Inr (s\<lparr>listener := listener s @ [el], listenerIDs := listenerIDs s @ [(go_ID g, int i)]\<rparr>))))))"

definition removeEventListener :: "cref \<Rightarrow> 'w event_system \<Rightarrow> 'w event_system result" where
  "removeEventListener el s =
     (case find_index (\<lambda>l. l = el) (listener s) of
        None \<Rightarrow> Inr s
      | Some i \<Rightarrow>
          if i < length (listenerIDs s)
          then Inr (s\<lparr>listener := vec_erase i (listener s), listenerIDs := vec_erase i (listenerIDs s)\<rparr>)
          else Inl (Undefined EraseEnd))"


section \<open>Events\<close>

fun instant_loop :: "nat \<Rightarrow> 'w on_event \<Rightarrow> addr \<Rightarrow> nat \<Rightarrow> 'w event_system \<Rightarrow> 'w event_system result" where
  "instant_loop 0 onEvent e i s = Inl (Undefined NoReturn)"
| "instant_loop (Suc fuel) onEvent e i s =
     (if i < length (listener s)
      then bindR (onEvent (listener s ! i) e s) (\<lambda>(handled, s).
           bindR (if handled then read_flag usable e s else Inr False) (\<lambda>stop.
           if stop then Inr s else instant_loop fuel onEvent e (Suc i) s))
      else Inr s)"

definition addInstantTrigger :: "nat \<Rightarrow> 'w on_event \<Rightarrow> addr \<Rightarrow> 'w event_system \<Rightarrow> 'w event_system result" where
  "addInstantTrigger fuel onEvent e s = instant_loop fuel onEvent e 0 s"

definition addUpdateTrigger :: "addr \<Rightarrow> 'w event_system \<Rightarrow> 'w event_system" where
  "addUpdateTrigger e s = s\<lparr>onNextUpdate := onNextUpdate s @ [e]\<rparr>"

text \<open>The inner loop of \<open>update\<close> reads \<open>onNextUpdate[i]\<close> again for every listener.\<close>

fun update_listeners :: "nat \<Rightarrow> 'w on_event \<Rightarrow> nat \<Rightarrow> nat \<Rightarrow> 'w event_system \<Rightarrow> 'w event_system result" where
  "update_listeners 0 onEvent i j s = Inl (Undefined NoReturn)"
| "update_listeners (Suc fuel) onEvent i j s =
     (if j < length (listener s)
      then bindR (vec_at (onNextUpdate s) i) (\<lambda>e.
           bindR (onEvent (listener s ! j) e s) (\<lambda>(handled, s).
           bindR (if handled then bindR (vec_at (onNextUpdate s) i) (\<lambda>e. read_flag usable e s) else Inr False) (\<lambda>stop.
           if stop then Inr s else update_listeners fuel onEvent i (Suc j) s)))
      else Inr s)"

definition delete_event :: "addr \<Rightarrow> 'w event_system \<Rightarrow> 'w event_system" where
  "delete_event e s = s\<lparr>events := (events s)(e := None)\<rparr>"

fun update_events :: "nat \<Rightarrow> nat \<Rightarrow> 'w on_event \<Rightarrow> nat \<Rightarrow> 'w event_system \<Rightarrow> 'w event_system result" where
  "update_events 0 inner onEvent i s = Inl (Undefined NoReturn)"
| "update_events (Suc fuel) inner onEvent i s =
     (if i < length (onNextUpdate s)
      then bindR (update_listeners inner onEvent i 0 s) (\<lambda>s.
           bindR (vec_at (onNextUpdate s) i) (\<lambda>e.
           bindR (read_flag destroy e s) (\<lambda>d.
           update_events fuel inner onEvent (Suc i) (if d then delete_event e s else s))))
      else Inr s)"

definition es_update :: "nat \<Rightarrow> nat \<Rightarrow> 'w on_event \<Rightarrow> 'w event_system \<Rightarrow> 'w event_system result" where
  "es_update fuel inner onEvent s =
     bindR (update_events fuel inner onEvent 0 s) (\<lambda>s. Inr (s\<lparr>onNextUpdate := []\<rparr>))"


section \<open>Saving\<close>

definition es_serialize :: "'w event_system \<Rightarrow> writer" where
  "es_serialize s = write_all
     [write_all (map (\<lambda>p. write_all [push_int (fst p), push_int (snd p)]) (listenerIDs s)),
      push_size (length (listenerIDs s)),
      push_cstr ''class EventSystem'']"

definition es_set :: "'w event_system \<Rightarrow> ('v, 'w event_system) reader" where
  "es_set s = retP s"

definition es_afterSet :: "'w event_system \<Rightarrow> 'w event_system" where
  "es_afterSet s = s"


section \<open>The listener tables stay in step\<close>

definition es_inv :: "('c \<Rightarrow> bool) \<Rightarrow> 'c heap \<Rightarrow> 'w event_system \<Rightarrow> bool" where
  "es_inv P h s \<longleftrightarrow> list_all2 (\<lambda>el p. \<exists>owner g. cells h owner = Some g \<and> fst p = go_ID g \<and>
      0 \<le> snd p \<and> nat (snd p) < length (findComponents P owner g) \<and> findComponents P owner g ! nat (snd p) = el)
    (listener s) (listenerIDs s)"

lemma add_listener_inv:
  fixes s :: "'b event_system"
  assumes "es_inv P h s" and "addEventListener P h el s = Inr s'"
  shows "es_inv P h s'"
proof -
  from assms(2) obtain owner g where g: "cells h owner = Some g"
      "(case find_index (\<lambda>c. c = el) (findComponents P owner g) of
        None \<Rightarrow> Inr s
      | Some i \<Rightarrow> Inr (s\<lparr>listener := listener s @ [el], listenerIDs := listenerIDs s @ [(go_ID g, int i)]\<rparr>)) = (Inr s' :: 'b event_system result)"
    unfolding addEventListener_def by (elim bindR_eq_InrE) (erule that[rotated], simp)
  show ?thesis
  proof (cases "find_index (\<lambda>c. c = el) (findComponents P owner g)")
    case None
    have "s' = s" using g(2) unfolding None by simp
    then show ?thesis using assms(1) by simp
  next
    case (Some i)
    have s': "s' = s\<lparr>listener := listener s @ [el], listenerIDs := listenerIDs s @ [(go_ID g, int i)]\<rparr>"
      using g(2) Some by simp
    have "i < length (findComponents P owner g) \<and> findComponents P owner g ! i = el"
      using find_index_SomeD[OF Some] by simp
    then have "\<exists>owner' g'. cells h owner' = Some g' \<and> go_ID g = go_ID g' \<and>
        i < length (findComponents P owner' g') \<and> findComponents P owner' g' ! i = el"
      using g(1) by blast
    then show ?thesis using assms(1) by (simp add: es_inv_def s' list_all2_appendI)
  qed
qed

lemma remove_listener_inv:
  assumes "es_inv P h s"
  shows "\<exists>s'. removeEventListener el s = Inr s' \<and> es_inv P h s' \<and> listener s' = remove1 el (listener s)"
proof (cases "find_index (\<lambda>l. l = el) (listener s)")
  case None
  then have "el \<notin> set (listener s)" by auto
  then show ?thesis using assms by (simp add: removeEventListener_def None remove1_idem)
next
  case (Some i)
  have "length (listener s) = length (listenerIDs s)"
    using assms by (auto simp: es_inv_def dest: list_all2_lengthD)
  then have "i < length (listenerIDs s)" using find_index_SomeD[OF Some] by simp
  then have "removeEventListener el s =
      Inr (s\<lparr>listener := vec_erase i (listener s), listenerIDs := vec_erase i (listenerIDs s)\<rparr>)"
    using Some by (simp add: removeEventListener_def)
  moreover have "es_inv P h (s\<lparr>listener := vec_erase i (listener s), listenerIDs := vec_erase i (listenerIDs s)\<rparr>)"
    using list_all2_vec_erase[OF assms[unfolded es_inv_def], of i] by (simp add: es_inv_def)
  ultimately show ?thesis using vec_erase_find_index_remove1[OF Some] by auto
qed


text \<open>The exact effect of both calls.\<close>

lemma listener_found:
  assumes "snd el < length (componenten g)" and "P (obj (componenten g ! snd el))"
  obtains i where "find_index (\<lambda>c. c = el) (findComponents P (fst el) g) = Some i"
    and "i < length (findComponents P (fst el) g)" and "findComponents P (fst el) g ! i = el"
proof -
  have "snd el \<in> set (hits_from 0 (\<lambda>c. P (obj c)) (componenten g))" using assms by (simp add: hits_from_nth)
  then have "el \<in> set (findComponents P (fst el) g)" unfolding findComponents_def by (cases el) auto
  then obtain i where i: "find_index (\<lambda>c. c = el) (findComponents P (fst el) g) = Some i"
    by (cases "find_index (\<lambda>c. c = el) (findComponents P (fst el) g)") auto
  then show ?thesis using that find_index_SomeD[OF i] by simp
qed

lemma add_listener_effect:
  fixes s :: "'w event_system"
  assumes el: "cells h (fst el) = Some g" "snd el < length (componenten g)"
    "gameobject (componenten g ! snd el) = Some (fst el)" "P (obj (componenten g ! snd el))"
  shows "\<exists>i. i < length (findComponents P (fst el) g) \<and> findComponents P (fst el) g ! i = el \<and>
    addEventListener P h el s = Inr (s\<lparr>listener := listener s @ [el], listenerIDs := listenerIDs s @ [(go_ID g, int i)]\<rparr>)"
proof -
  obtain i where i: "find_index (\<lambda>c. c = el) (findComponents P (fst el) g) = Some i"
      "i < length (findComponents P (fst el) g)" "findComponents P (fst el) g ! i = el"
    by (rule listener_found[where P = P, OF el(2,4)])
  then show ?thesis using el by (auto simp: addEventListener_def vec_at_def)
qed

lemma remove_listener_effect:
  assumes s: "es_inv P h s" and k: "find_index (\<lambda>l. l = el) (listener s) = Some k"
  shows "removeEventListener el s = Inr (s\<lparr>listener := take k (listener s) @ drop (Suc k) (listener s),
    listenerIDs := take k (listenerIDs s) @ drop (Suc k) (listenerIDs s)\<rparr>)"
proof -
  have "length (listener s) = length (listenerIDs s)"
    using s by (auto simp: es_inv_def dest: list_all2_lengthD)
  then have "k < length (listenerIDs s)" using find_index_SomeD[OF k] by simp
  then show ?thesis using k by (simp add: removeEventListener_def vec_erase_def)
qed

lemma find_index_last: "el \<notin> set xs \<Longrightarrow> find_index (\<lambda>l. l = el) (xs @ [el]) = Some (length xs)"
  by (induction xs) auto


section \<open>Delivery\<close>

text \<open>
  What a trigger means when the handlers only act on the world: the listeners are asked in the order
  of registration, and a usable event stops at the first one that handles it.
\<close>

fun deliver :: "(cref \<Rightarrow> 'w \<Rightarrow> bool) \<Rightarrow> (cref \<Rightarrow> 'w \<Rightarrow> 'w) \<Rightarrow> bool \<Rightarrow> cref list \<Rightarrow> 'w \<Rightarrow> 'w" where
  "deliver ans act u [] w = w"
| "deliver ans act u (l # ls) w = (if ans l w \<and> u then act l w else deliver ans act u ls (act l w))"

lemma instant_loop_deliver:
  assumes H: "\<And>l s. onEvent l e s = Inr (ans l (world s), s\<lparr>world := act l (world s)\<rparr>)"
    and u: "events s e = Some ev" "usable ev = Some u"
    and f: "length (listener s) - i < fuel"
  shows "instant_loop fuel onEvent e i s = Inr (s\<lparr>world := deliver ans act u (drop i (listener s)) (world s)\<rparr>)"
  using u f
proof (induction fuel arbitrary: i s)
  case 0
  then show ?case by simp
next
  case (Suc fuel)
  show ?case
  proof (cases "i < length (listener s)")
    case True
    then have d: "drop i (listener s) = listener s ! i # drop (Suc i) (listener s)"
      by (simp add: Cons_nth_drop_Suc)
    let ?s = "s\<lparr>world := act (listener s ! i) (world s)\<rparr>"
    have "instant_loop fuel onEvent e (Suc i) ?s =
        Inr (?s\<lparr>world := deliver ans act u (drop (Suc i) (listener ?s)) (world ?s)\<rparr>)"
      by (rule Suc.IH) (use Suc.prems True in auto)
    then show ?thesis using True Suc.prems
      by (cases "ans (listener s ! i) (world s)"; cases u) (simp_all add: H d read_flag_def)
  next
    case False
    then show ?thesis by simp
  qed
qed

lemma update_listeners_deliver:
  assumes H: "\<And>l s. onEvent l e s = Inr (ans l (world s), s\<lparr>world := act l (world s)\<rparr>)"
    and u: "events s e = Some ev" "usable ev = Some u"
    and i: "i < length (onNextUpdate s)" "onNextUpdate s ! i = e"
    and f: "length (listener s) - j < fuel"
  shows "update_listeners fuel onEvent i j s = Inr (s\<lparr>world := deliver ans act u (drop j (listener s)) (world s)\<rparr>)"
  using u i f
proof (induction fuel arbitrary: j s)
  case 0
  then show ?case by simp
next
  case (Suc fuel)
  show ?case
  proof (cases "j < length (listener s)")
    case True
    then have d: "drop j (listener s) = listener s ! j # drop (Suc j) (listener s)"
      by (simp add: Cons_nth_drop_Suc)
    let ?s = "s\<lparr>world := act (listener s ! j) (world s)\<rparr>"
    have "update_listeners fuel onEvent i (Suc j) ?s =
        Inr (?s\<lparr>world := deliver ans act u (drop (Suc j) (listener ?s)) (world ?s)\<rparr>)"
      by (rule Suc.IH) (use Suc.prems True in auto)
    then show ?thesis using True Suc.prems
      by (cases "ans (listener s ! j) (world s)"; cases u) (simp_all add: H d read_flag_def)
  next
    case False
    then show ?thesis by simp
  qed
qed

text \<open>One frame: every queued event is delivered in order, the marked ones are deleted.\<close>

definition flag :: "(event \<Rightarrow> bool option) \<Rightarrow> (addr \<Rightarrow> event option) \<Rightarrow> addr \<Rightarrow> bool" where
  "flag f evs e = (case evs e of None \<Rightarrow> False | Some ev \<Rightarrow> f ev = Some True)"

definition flags_set :: "(addr \<Rightarrow> event option) \<Rightarrow> addr \<Rightarrow> bool" where
  "flags_set evs e \<longleftrightarrow> (\<exists>ev u d. evs e = Some ev \<and> usable ev = Some u \<and> destroy ev = Some d)"

definition without :: "addr set \<Rightarrow> (addr \<Rightarrow> event option) \<Rightarrow> addr \<Rightarrow> event option" where
  "without D evs = (\<lambda>e. if e \<in> D then None else evs e)"

lemma update_events_deliver:
  assumes H: "\<And>l e s. onEvent l e s = Inr (ans e l (world s), s\<lparr>world := act e l (world s)\<rparr>)"
    and q: "distinct (drop i (onNextUpdate s))" "\<forall>e \<in> set (drop i (onNextUpdate s)). flags_set (events s) e"
    and f: "length (onNextUpdate s) - i < fuel" "length (listener s) < inner"
  shows "update_events fuel inner onEvent i s = Inr (s\<lparr>
     events := without {e \<in> set (drop i (onNextUpdate s)). flag destroy (events s) e} (events s),
     world := fold (\<lambda>e. deliver (ans e) (act e) (flag usable (events s) e) (listener s))
       (drop i (onNextUpdate s)) (world s)\<rparr>)"
  using q f
proof (induction fuel arbitrary: i s)
  case 0
  then show ?case by simp
next
  case (Suc fuel)
  show ?case
  proof (cases "i < length (onNextUpdate s)")
    case True
    let ?e = "onNextUpdate s ! i" and ?r = "drop (Suc i) (onNextUpdate s)"
    have d: "drop i (onNextUpdate s) = ?e # ?r" using True by (simp add: Cons_nth_drop_Suc)
    have fresh: "?e \<notin> set ?r" and dist: "distinct ?r" using Suc.prems(1) d by simp_all
    obtain ev u k where ev: "events s ?e = Some ev" "usable ev = Some u" "destroy ev = Some k"
      using Suc.prems(2) d by (auto simp: flags_set_def)
    let ?s1 = "s\<lparr>world := deliver (ans ?e) (act ?e) u (listener s) (world s)\<rparr>"
    have up: "update_listeners inner onEvent i 0 s = Inr ?s1"
      using update_listeners_deliver[of onEvent ?e "ans ?e" "act ?e" s ev u i 0 inner] H ev True Suc.prems(4)
      by simp
    let ?s2 = "if k then delete_event ?e ?s1 else ?s1"
    have same: "events ?s2 e = events s e" if "e \<in> set ?r" for e
      using that fresh by (auto simp: delete_event_def)
    have "update_events fuel inner onEvent (Suc i) ?s2 = Inr (?s2\<lparr>
     events := without {e \<in> set (drop (Suc i) (onNextUpdate ?s2)). flag destroy (events ?s2) e} (events ?s2),
     world := fold (\<lambda>e. deliver (ans e) (act e) (flag usable (events ?s2) e) (listener ?s2))
       (drop (Suc i) (onNextUpdate ?s2)) (world ?s2)\<rparr>)"
      by (rule Suc.IH) (use Suc.prems True d dist same in \<open>auto simp: flags_set_def delete_event_def\<close>)
    moreover have "fold (\<lambda>e. deliver (ans e) (act e) (flag usable (events ?s2) e) (listener s)) ?r w
        = fold (\<lambda>e. deliver (ans e) (act e) (flag usable (events s) e) (listener s)) ?r w" for w
      by (rule fold_cong) (use same in \<open>auto simp: flag_def\<close>)
    moreover have "without {e \<in> set ?r. flag destroy (events ?s2) e} (events ?s2)
        = without {e \<in> set (drop i (onNextUpdate s)). flag destroy (events s) e} (events s)"
      using ev fresh same unfolding d
      by (auto simp: without_def fun_eq_iff flag_def delete_event_def)
    ultimately show ?thesis
      using True up ev d by (cases k; cases u) (simp_all add: read_flag_def flag_def delete_event_def)
  next
    case False
    then show ?thesis by (simp add: without_def)
  qed
qed



lemma es_update_deliver:
  assumes H: "\<And>l e s. onEvent l e s = Inr (ans e l (world s), s\<lparr>world := act e l (world s)\<rparr>)"
    and q: "distinct (onNextUpdate s)" "\<forall>e \<in> set (onNextUpdate s). flags_set (events s) e"
    and f: "length (onNextUpdate s) < fuel" "length (listener s) < inner"
  shows "es_update fuel inner onEvent s = Inr (s\<lparr>
     onNextUpdate := [],
     events := without {e \<in> set (onNextUpdate s). flag destroy (events s) e} (events s),
     world := fold (\<lambda>e. deliver (ans e) (act e) (flag usable (events s) e) (listener s))
       (onNextUpdate s) (world s)\<rparr>)"
  using update_events_deliver[of onEvent ans act 0 s fuel inner, OF H] q f by (simp add: es_update_def)

text \<open>Whatever the handlers do, a call of \<open>update\<close> that returns leaves the queue empty.\<close>

lemma es_update_clears: "es_update fuel inner onEvent s = Inr s' \<Longrightarrow> onNextUpdate s' = []"
  by (auto simp: es_update_def)

text \<open>The same event queued twice and marked for destruction: the second turn reads freed memory.\<close>

lemma es_update_twice:
  assumes "events s e = Some ev" and "destroy ev = Some True"
    and "onNextUpdate s = [e, e]" and "listener s = []" and "2 \<le> fuel" and "1 \<le> inner"
  shows "es_update fuel inner onEvent s = Inl (Undefined Dangling)"
proof -
  obtain n m where n: "fuel = Suc (Suc n)" and m: "inner = Suc m"
    using assms(5,6) by (metis One_nat_def Suc_1 Suc_le_D le_Suc_eq)
  show ?thesis using assms(1-4) unfolding n m
    by (simp add: es_update_def read_flag_def delete_event_def)
qed

text \<open>A handler that unregisters its own listener makes the loop skip the next one.\<close>

definition leaves_after :: "cref \<Rightarrow> (cref list) on_event" where
  "leaves_after a l e s =
     bindR (if l = a then removeEventListener a s else Inr s) (\<lambda>s. Inr (False, s\<lparr>world := world s @ [l]\<rparr>))"

lemma instant_skips:
  assumes "listener s = [a, b, c]" and "distinct [a, b, c]" and "listenerIDs s = [p, q, r]"
  shows "addInstantTrigger 4 (leaves_after a) e s = Inr (s\<lparr>
    listener := [b, c], listenerIDs := [q, r], world := world s @ [a, c]\<rparr>)"
  using assms by (auto simp: addInstantTrigger_def eval_nat_numeral leaves_after_def removeEventListener_def
    vec_erase_def simp del: bindR_eq_Inr)

text \<open>A saved event system is read back as a new, empty one: the table stays in the stream.\<close>

lemma es_serialize_appends:
  "appends (es_serialize s)
    (concat (map (\<lambda>p. int_bytes (fst p) @ int_bytes (snd p)) (listenerIDs s)) @
     size_bytes (length (listenerIDs s)) @ enc_string ''class EventSystem'')"
proof -
  have "appends (write_all [push_int (fst p), push_int (snd p)]) (int_bytes (fst p) @ int_bytes (snd p))" for p
    using appends_Cons[OF appends_pod appends_Cons[OF appends_pod appends_Nil]] by simp
  then have "appends (write_all (map (\<lambda>p. write_all [push_int (fst p), push_int (snd p)]) (listenerIDs s)))
     (concat (map (\<lambda>p. int_bytes (fst p) @ int_bytes (snd p)) (listenerIDs s)))"
    by (rule appends_write_all_map)
  moreover have "appends (push_cstr ''class EventSystem'') (enc_string ''class EventSystem'')"
    unfolding enc_string_def by (rule appends_cstr) simp
  ultimately have "appends (es_serialize s)
    (concat (map (\<lambda>p. int_bytes (fst p) @ int_bytes (snd p)) (listenerIDs s)) @
     size_bytes (length (listenerIDs s)) @ enc_string ''class EventSystem'' @ [])"
    unfolding es_serialize_def by (intro appends_Cons appends_Nil appends_pod)
  then show ?thesis by simp
qed




section \<open>Properties\<close>

text \<open>Two events and two listeners for the witnesses; the second listener handles event 0.\<close>

definition sample_events :: "addr \<Rightarrow> event option" where
  "sample_events = [0 \<mapsto> \<lparr>usable = Some True, destroy = Some True\<rparr>, 1 \<mapsto> \<lparr>usable = Some False, destroy = Some False\<rparr>]"

definition sample_system :: "nat list event_system" where
  "sample_system = \<lparr>listener = [(0, 0), (1, 0)], listenerIDs = [(0, 0), (1, 0)], onNextUpdate = [0, 1],
     events = sample_events, world = []\<rparr>"

definition sample_handler :: "nat list on_event" where
  "sample_handler l e s = Inr (e = 0 \<and> fst l = 1, s\<lparr>world := world s @ [e]\<rparr>)"

text \<open>
  C8. One call of \<open>update\<close>: every event queued before it is offered to the listeners in the order of
  their registration, and goes no further than the first listener that handles it when it is
  usable; then the events marked for destruction are deleted, each once, and the queue is empty.
  The handlers may do anything to the world but not to the event system.
\<close>

theorem es_update_frame:
  assumes "\<And>l e s. onEvent l e s = Inr (ans e l (world s), s\<lparr>world := act e l (world s)\<rparr>)"
    and "distinct (onNextUpdate s)" and "\<forall>e \<in> set (onNextUpdate s). flags_set (events s) e"
    and "length (onNextUpdate s) < fuel" and "length (listener s) < inner"
  shows "es_update fuel inner onEvent s = Inr (s\<lparr>
     onNextUpdate := [],
     events := without {e \<in> set (onNextUpdate s). flag destroy (events s) e} (events s),
     world := fold (\<lambda>e. deliver (ans e) (act e) (flag usable (events s) e) (listener s))
       (onNextUpdate s) (world s)\<rparr>)"
  using es_update_deliver[of onEvent ans act s fuel inner] assms by blast

theorem es_update_frame_witness:
  "\<exists>s. es_update 3 3 sample_handler sample_system = Inr s \<and> onNextUpdate s = [] \<and> world s = [0, 0, 1, 1]"
proof -
  have "es_update 3 3 sample_handler sample_system = Inr (sample_system\<lparr>
     onNextUpdate := [],
     events := without {e \<in> set (onNextUpdate sample_system). flag destroy (events sample_system) e} (events sample_system),
     world := fold (\<lambda>e. deliver (\<lambda>l w. e = 0 \<and> fst l = 1) (\<lambda>l w. w @ [e]) (flag usable (events sample_system) e)
       (listener sample_system)) (onNextUpdate sample_system) (world sample_system)\<rparr>)"
    by (rule es_update_frame)
       (auto simp: sample_handler_def sample_system_def sample_events_def flags_set_def)
  then show ?thesis by (simp add: sample_system_def sample_events_def flag_def)
qed

text \<open>
  An instant trigger reaches the listeners in order and stops at the first one that handles a
  usable event.
\<close>

theorem instant_trigger_order:
  assumes "\<And>l s. onEvent l e s = Inr (ans l (world s), s\<lparr>world := act l (world s)\<rparr>)"
    and "events s e = Some ev" and "usable ev = Some u" and "length (listener s) < fuel"
  shows "addInstantTrigger fuel onEvent e s = Inr (s\<lparr>world := deliver ans act u (listener s) (world s)\<rparr>)"
  using instant_loop_deliver[of onEvent e ans act s ev u 0 fuel] assms by (simp add: addInstantTrigger_def)

theorem instant_trigger_order_witness:
  "addInstantTrigger 3 sample_handler 1 sample_system = Inr (sample_system\<lparr>world := [1, 1]\<rparr>)"
proof -
  have "addInstantTrigger 3 sample_handler 1 sample_system =
      Inr (sample_system\<lparr>world := deliver (\<lambda>l w. False) (\<lambda>l w. w @ [1]) False (listener sample_system) (world sample_system)\<rparr>)"
    by (rule instant_trigger_order)
       (auto simp: sample_handler_def sample_system_def sample_events_def)
  then show ?thesis by (simp add: sample_system_def)
qed

text \<open>
  C27. The two tables of the event system in step. Registering a component that is a listener and owned by its object
  always succeeds: it is appended to the listeners, and beside it the identifier of its owner and its rank among the
  listeners of the owner. Unregistering it takes its first registration out of both tables and nothing else, and
  undoes the registration when it was the only one; a component that is not registered is left alone. Both
  keep every registration beside the right owner and rank.
\<close>

theorem listener_tables_in_step:
  fixes s :: "'w event_system"
  assumes "es_inv P h s" and "cells h (fst el) = Some g" and "snd el < length (componenten g)"
    and "gameobject (componenten g ! snd el) = Some (fst el)" and "P (obj (componenten g ! snd el))"
  shows "(\<exists>s1 i. addEventListener P h el s = Inr s1 \<and>
      s1 = s\<lparr>listener := listener s @ [el], listenerIDs := listenerIDs s @ [(go_ID g, int i)]\<rparr> \<and>
      i < length (findComponents P (fst el) g) \<and> findComponents P (fst el) g ! i = el \<and> es_inv P h s1 \<and>
      (el \<notin> set (listener s) \<longrightarrow> removeEventListener el s = Inr s \<and> removeEventListener el s1 = Inr s)) \<and>
    (el \<in> set (listener s) \<longrightarrow> (\<exists>k. k < length (listener s) \<and> listener s ! k = el \<and> el \<notin> set (take k (listener s)) \<and>
      removeEventListener el s = Inr (s\<lparr>listener := take k (listener s) @ drop (Suc k) (listener s),
        listenerIDs := take k (listenerIDs s) @ drop (Suc k) (listenerIDs s)\<rparr>) \<and>
      es_inv P h (s\<lparr>listener := take k (listener s) @ drop (Suc k) (listener s),
        listenerIDs := take k (listenerIDs s) @ drop (Suc k) (listenerIDs s)\<rparr>)))"
proof -
  obtain i where i: "i < length (findComponents P (fst el) g)" "findComponents P (fst el) g ! i = el"
      "addEventListener P h el s = Inr (s\<lparr>listener := listener s @ [el], listenerIDs := listenerIDs s @ [(go_ID g, int i)]\<rparr>)"
    using add_listener_effect[where P = P, OF assms(2-5), of s] by blast
  let ?s1 = "s\<lparr>listener := listener s @ [el], listenerIDs := listenerIDs s @ [(go_ID g, int i)]\<rparr>"
  have inv1: "es_inv P h ?s1" by (rule add_listener_inv[OF assms(1) i(3)])
  have "removeEventListener el s = Inr s \<and> removeEventListener el ?s1 = Inr s" if new: "el \<notin> set (listener s)"
  proof -
    have "find_index (\<lambda>l. l = el) (listener ?s1) = Some (length (listener s))" using find_index_last[OF new] by simp
    from remove_listener_effect[OF inv1 this] have "removeEventListener el ?s1 = Inr s"
      using list_all2_lengthD[OF assms(1)[unfolded es_inv_def]] by simp
    moreover have none: "find_index (\<lambda>l. l = el) (listener s) = None" using new by auto
    ultimately show ?thesis unfolding removeEventListener_def[of el s] none option.case by simp
  qed
  then have add: "\<exists>s1 i. addEventListener P h el s = Inr s1 \<and>
      s1 = s\<lparr>listener := listener s @ [el], listenerIDs := listenerIDs s @ [(go_ID g, int i)]\<rparr> \<and>
      i < length (findComponents P (fst el) g) \<and> findComponents P (fst el) g ! i = el \<and> es_inv P h s1 \<and>
      (el \<notin> set (listener s) \<longrightarrow> removeEventListener el s = Inr s \<and> removeEventListener el s1 = Inr s)"
    using i inv1 by (intro exI[of _ ?s1] exI[of _ i]) simp
  have "el \<in> set (listener s) \<longrightarrow> (\<exists>k. k < length (listener s) \<and> listener s ! k = el \<and> el \<notin> set (take k (listener s)) \<and>
      removeEventListener el s = Inr (s\<lparr>listener := take k (listener s) @ drop (Suc k) (listener s),
        listenerIDs := take k (listenerIDs s) @ drop (Suc k) (listenerIDs s)\<rparr>) \<and>
      es_inv P h (s\<lparr>listener := take k (listener s) @ drop (Suc k) (listener s),
        listenerIDs := take k (listenerIDs s) @ drop (Suc k) (listenerIDs s)\<rparr>))"
  proof
    assume "el \<in> set (listener s)"
    then obtain k where k: "find_index (\<lambda>l. l = el) (listener s) = Some k"
      by (cases "find_index (\<lambda>l. l = el) (listener s)") auto
    have e: "removeEventListener el s = Inr (s\<lparr>listener := take k (listener s) @ drop (Suc k) (listener s),
        listenerIDs := take k (listenerIDs s) @ drop (Suc k) (listenerIDs s)\<rparr>)"
      by (rule remove_listener_effect[OF assms(1) k])
    show "\<exists>k. k < length (listener s) \<and> listener s ! k = el \<and> el \<notin> set (take k (listener s)) \<and>
      removeEventListener el s = Inr (s\<lparr>listener := take k (listener s) @ drop (Suc k) (listener s),
        listenerIDs := take k (listenerIDs s) @ drop (Suc k) (listenerIDs s)\<rparr>) \<and>
      es_inv P h (s\<lparr>listener := take k (listener s) @ drop (Suc k) (listener s),
        listenerIDs := take k (listenerIDs s) @ drop (Suc k) (listenerIDs s)\<rparr>)"
      using find_index_SomeD[OF k] e remove_listener_inv[OF assms(1), of el]
      by (intro exI[of _ k]) (auto simp: in_set_conv_nth)
  qed
  with add show ?thesis by (rule conjI)
qed

text \<open>An object with three components, of which the last two are listeners; the first of these is registered.\<close>

definition listening_heap :: "bool heap" where
  "listening_heap = \<lparr>cells = [0 \<mapsto> new_game_object\<lparr>go_ID := 7, componenten :=
     [\<lparr>isActiv = None, gameobject = Some 0, obj = False\<rparr>, \<lparr>isActiv = None, gameobject = Some 0, obj = True\<rparr>,
      \<lparr>isActiv = None, gameobject = Some 0, obj = True\<rparr>]\<rparr>], next_addr = 1\<rparr>"

theorem listener_tables_in_step_witness:
  "\<exists>s1. addEventListener (\<lambda>b. b) listening_heap (0, 2)
      \<lparr>listener = [(0, 1)], listenerIDs = [(7, 0)], onNextUpdate = [], events = Map.empty, world = ()\<rparr> = Inr s1 \<and>
    listener s1 = [(0, 1), (0, 2)] \<and> listenerIDs s1 = [(7, 0), (7, 1)] \<and>
    removeEventListener (0, 1) s1 =
      Inr \<lparr>listener = [(0, 2)], listenerIDs = [(7, 1)], onNextUpdate = [], events = Map.empty, world = ()\<rparr>"
proof -
  let ?s = "\<lparr>listener = [(0, 1)], listenerIDs = [(7, 0)], onNextUpdate = [], events = Map.empty, world = ()\<rparr>"
  let ?P = "\<lambda>b :: bool. b"
  obtain G where G: "cells listening_heap 0 = Some G" "G = new_game_object\<lparr>go_ID := 7, componenten :=
     [\<lparr>isActiv = None, gameobject = Some 0, obj = False\<rparr>, \<lparr>isActiv = None, gameobject = Some 0, obj = True\<rparr>,
      \<lparr>isActiv = None, gameobject = Some 0, obj = True\<rparr>]\<rparr>"
    by (simp add: listening_heap_def)
  have f: "findComponents ?P 0 G = [(0, 1), (0, 2)]" and id: "go_ID G = 7" and l: "length (componenten G) = 3"
    by (simp_all add: G(2) findComponents_def)
  have c: "gameobject (componenten G ! k) = Some 0 \<and> obj (componenten G ! k)" if "k = 1 \<or> k = 2" for k
    using that by (auto simp: G(2))
  have inv: "es_inv ?P listening_heap ?s"
    unfolding es_inv_def by (simp, intro exI[of _ 0] exI[of _ G]) (simp add: G(1) f id)
  have at: "cells listening_heap (fst (0 :: addr, k)) = Some G" "snd (0 :: addr, k) < length (componenten G)"
      "gameobject (componenten G ! snd (0 :: addr, k)) = Some (fst (0 :: addr, k))" "?P (obj (componenten G ! snd (0 :: addr, k)))"
    if "k = 1 \<or> k = 2" for k
    using that G(1) l c by auto
  from conjunct1[OF listener_tables_in_step[where P = ?P, OF inv at[OF disjI2[OF refl]]], unfolded fst_conv]
  obtain s1 i where s1: "addEventListener ?P listening_heap (0, 2) ?s = Inr s1"
      "s1 = ?s\<lparr>listener := listener ?s @ [(0, 2)], listenerIDs := listenerIDs ?s @ [(go_ID G, int i)]\<rparr>"
      "i < length (findComponents ?P 0 G)" "findComponents ?P 0 G ! i = (0, 2)" "es_inv ?P listening_heap s1"
    by (elim exE conjE) simp_all
  have i: "i = 1" using s1(3,4) unfolding f by (auto simp: less_Suc_eq nth_Cons split: nat.splits)
  then have e: "s1 = \<lparr>listener = [(0, 1), (0, 2)], listenerIDs = [(7, 0), (7, 1)], onNextUpdate = [],
      events = Map.empty, world = ()\<rparr>" using s1(2) id by simp
  have "(0, 1) \<in> set (listener s1)" by (simp add: e)
  then obtain k where k: "k < length (listener s1)" "listener s1 ! k = (0, 1)"
      "removeEventListener (0, 1) s1 = Inr (s1\<lparr>listener := take k (listener s1) @ drop (Suc k) (listener s1),
        listenerIDs := take k (listenerIDs s1) @ drop (Suc k) (listenerIDs s1)\<rparr>)"
    using conjunct2[OF listener_tables_in_step[where P = ?P, OF s1(5) at[OF disjI1[OF refl]]]] by blast
  have "k = 0" using k(1,2) by (auto simp: e less_Suc_eq nth_Cons split: nat.splits)
  then have "removeEventListener (0, 1) s1 =
      Inr \<lparr>listener = [(0, 2)], listenerIDs = [(7, 1)], onNextUpdate = [], events = Map.empty, world = ()\<rparr>"
    using k(3) by (simp add: e)
  then show ?thesis using s1(1) e by auto
qed

text \<open>
  A listener that unregisters itself while it handles an instant event makes the loop skip the
  listener registered after it.
\<close>

theorem unregistering_skips_next:
  assumes "listener s = [a, b, c]" and "distinct [a, b, c]" and "listenerIDs s = [p, q, r]"
  shows "addInstantTrigger 4 (leaves_after a) e s =
    Inr (s\<lparr>listener := [b, c], listenerIDs := [q, r], world := world s @ [a, c]\<rparr>)"
  by (rule instant_skips[OF assms])

theorem unregistering_skips_next_witness:
  "\<exists>s. addInstantTrigger 4 (leaves_after (0, 0)) 0 \<lparr>listener = [(0, 0), (1, 0), (2, 0)],
      listenerIDs = [(0, 0), (1, 0), (2, 0)], onNextUpdate = [], events = Map.empty, world = []\<rparr> = Inr s \<and>
    world s = [(0, 0), (2, 0)]"
  using unregistering_skips_next[of "\<lparr>listener = [(0, 0), (1, 0), (2, 0)],
      listenerIDs = [(0, 0), (1, 0), (2, 0)], onNextUpdate = [], events = Map.empty, world = []\<rparr>"
      "(0, 0)" "(1, 0)" "(2, 0)" "(0, 0)" "(1, 0)" "(2, 0)" 0] by simp

text \<open>
  An event that is marked for destruction and queued twice for the same update is deleted after
  its first turn and read again in its second one.
\<close>

theorem queued_twice_dangles:
  assumes "events s e = Some ev" and "destroy ev = Some True"
    and "onNextUpdate s = [e, e]" and "listener s = []" and "2 \<le> fuel" and "1 \<le> inner"
  shows "es_update fuel inner onEvent s = Inl (Undefined Dangling)"
  by (rule es_update_twice[OF assms])

theorem queued_twice_dangles_witness:
  "es_update 2 1 sample_handler (sample_system\<lparr>onNextUpdate := [0, 0], listener := []\<rparr>) = Inl (Undefined Dangling)"
  by (rule queued_twice_dangles[where ev = "\<lparr>usable = Some True, destroy = Some True\<rparr>" and e = 0])
     (simp_all add: sample_system_def sample_events_def)


end
