(* ===== verification/Viewer_Components.thy ===== *)
theory Viewer_Components
  imports Shader_Cache Event_System
begin

text \<open>
  The component classes of \<open>Application/SceenViewer/Main.cpp\<close>: \<open>DragMover\<close>, which moves a transform
  with the mouse, \<open>ButtonChecker\<close>, which passes mouse events to the buttons of a renderer, and
  \<open>objectKlicker\<close>, which changes the picture of an instance when its button is clicked. The two demo
  programs \<open>Application/Siedler/Main.cpp\<close> and \<open>Application/StandaretAnwendung/Main.cpp\<close> have the same
  three classes with an empty \<open>klicked\<close> (theory \<open>Demo_Program\<close>).
\<close>

section \<open>Events\<close>

text \<open>\<open>new T()\<close> zeroes the members of these structures.\<close>

record mouse_button_event =
  LButton :: bool
  RButton :: bool
  MButton :: bool
  LButtonAlt :: bool
  RButtonAlt :: bool
  MButtonAlt :: bool
  mousePosX :: int
  mousePosY :: int
  mousePosXAlt :: int
  mousePosYAlt :: int

datatype viewer_event = MouseButton mouse_button_event | MouseScroll byte

definition new_mouse_button_event :: mouse_button_event where
  "new_mouse_button_event = \<lparr>LButton = False, RButton = False, MButton = False,
     LButtonAlt = False, RButtonAlt = False, MButtonAlt = False,
     mousePosX = 0, mousePosY = 0, mousePosXAlt = 0, mousePosYAlt = 0\<rparr>"


section \<open>\<open>DragMover\<close>\<close>

definition new_drag_mover :: drag_mover where
  "new_drag_mover = \<lparr>d_transform = Null\<rparr>"

text \<open>Registering with the event system is done by the caller, which has it.\<close>

definition dragMover_setRequirements :: "cref list \<Rightarrow> drag_mover \<Rightarrow> drag_mover result" where
  "dragMover_setRequirements toSet d = bindR (vec_at toSet 0) (\<lambda>t. Inr (d\<lparr>d_transform := Ptr t\<rparr>))"

text \<open>\<open>long\<close> has 32 bits. The steps of the zoom are \<open>(int)dir - 1\<close>.\<close>

definition drag_step :: "mouse_button_event \<Rightarrow> 'm transform \<Rightarrow> 'm transform result" where
  "drag_step mbe t =
     (let depth = f32_add (f3z (m_position t)) f32_one in
      bindR (checked_int (mousePosX mbe - mousePosXAlt mbe)) (\<lambda>dx.
      bindR (checked_int (mousePosYAlt mbe - mousePosY mbe)) (\<lambda>dy.
      Inr (AddPosition_xyz (f32_mul (f32_mul (f32_of_int dx) depth) f32_two)
             (f32_mul (f32_mul (f32_of_int dy) depth) f32_two) f32_zero t))))"

definition zoom_step :: "byte \<Rightarrow> 'm transform \<Rightarrow> 'm transform" where
  "zoom_step dir t =
     (let t = AddPosition_xyz f32_zero f32_zero (f32_of_int (uint dir - 1)) t in
      if f32_lt (f3z (m_position t)) f32_zero
      then AddPosition_xyz f32_zero f32_zero (f32_neg (f3z (m_position t))) t
      else t)"

definition dragMover_onEvent :: "cref \<Rightarrow> viewer_event \<Rightarrow> 'm eheap \<Rightarrow> (bool \<times> 'm eheap) result" where
  "dragMover_onEvent this e h =
     bindR (cast_at as_drag_mover h this) (\<lambda>d.
     case e of
       MouseButton mbe \<Rightarrow>
         if LButton mbe \<and> LButtonAlt mbe
         then bindR (follow (d_transform d)) (\<lambda>r.
              bindR (transform_at h r) (\<lambda>t.
              bindR (drag_step mbe t) (\<lambda>t.
              bindR (upd_comp r (CTransform t) h) (\<lambda>h. Inr (True, h)))))
         else Inr (False, h)
     | MouseScroll dir \<Rightarrow>
         bindR (follow (d_transform d)) (\<lambda>r.
         bindR (transform_at h r) (\<lambda>t.
         bindR (upd_comp r (CTransform (zoom_step dir t)) h) (\<lambda>h. Inr (False, h)))))"

definition dragMover_serialize :: "drag_mover \<Rightarrow> writer" where
  "dragMover_serialize d = write_all [push_cstr ''class DragMover'']"

definition dragMover_set :: "drag_mover \<Rightarrow> ('w, drag_mover) reader" where
  "dragMover_set d = retP d"

interpretation drag_mover: class_codec "''class DragMover''" new_drag_mover dragMover_serialize dragMover_set
    "\<lambda>_. []" "\<lambda>_. new_drag_mover" "\<lambda>_ w. w" "\<lambda>_. True"
proof
  fix d :: drag_mover
  have nm: "appends (push_cstr ''class DragMover'') (enc_string ''class DragMover'')"
    by (rule appends_class_name) simp
  have "appends (dragMover_serialize d) (enc_string ''class DragMover'' @ [])"
    unfolding dragMover_serialize_def by (intro appends_Cons appends_Nil nm)
  then show "appends (dragMover_serialize d) ([] @ enc_string ''class DragMover'')" by simp
  show "reads (dragMover_set new_drag_mover) [] new_drag_mover (\<lambda>w. w)"
    unfolding dragMover_set_def by (rule reads_ret)
qed


section \<open>\<open>ButtonChecker\<close>\<close>

definition new_button_checker :: button_checker where
  "new_button_checker = \<lparr>bc_button = Null\<rparr>"

definition buttonChecker_setRequirements :: "cref list \<Rightarrow> button_checker \<Rightarrow> button_checker result" where
  "buttonChecker_setRequirements toSet b = bindR (vec_at toSet 0) (\<lambda>r. Inr (b\<lparr>bc_button := Ptr r\<rparr>))"

definition buttonChecker_onEvent ::
    "nat \<Rightarrow> 'm env \<Rightarrow> 'm actor \<Rightarrow> cref \<Rightarrow> viewer_event \<Rightarrow> ('m, bool) act" where
  "buttonChecker_onEvent fuel env act this e =
     bindA (readA (\<lambda>h. cast_at as_button_checker h this)) (\<lambda>b.
     case e of
       MouseButton m \<Rightarrow>
         bindA (liftA (follow (bc_button b))) (\<lambda>r.
         bindA (if LButton m \<and> \<not> LButtonAlt m then checkButtons fuel env act r True False
                else if \<not> LButton m \<and> LButtonAlt m then checkButtons fuel env act r False True
                else checkButtons fuel env act r False False) (\<lambda>_.
         retA False))
     | MouseScroll dir \<Rightarrow> retA False)"

text \<open>It writes the name of the other class.\<close>

definition buttonChecker_serialize :: "button_checker \<Rightarrow> writer" where
  "buttonChecker_serialize b = write_all [push_cstr ''class DragMover'']"

definition buttonChecker_set :: "button_checker \<Rightarrow> ('w, button_checker) reader" where
  "buttonChecker_set b = retP b"


section \<open>\<open>objectKlicker\<close>\<close>

definition new_object_klicker :: object_klicker where
  "new_object_klicker = \<lparr>klick = None, onklick = [None, None], ok_inst = Wild\<rparr>"

definition objectKlicker_setRequirements :: "cref list \<Rightarrow> object_klicker \<Rightarrow> object_klicker result" where
  "objectKlicker_setRequirements toSet k = bindR (vec_at toSet 0) (\<lambda>i. Inr (k\<lparr>ok_inst := Ptr i\<rparr>))"

definition objectKlicker_klicked :: "cref \<Rightarrow> 'm eheap \<Rightarrow> 'm eheap result" where
  "objectKlicker_klicked this h =
     bindR (cast_at as_object_klicker h this) (\<lambda>k.
     bindR (read_member (klick k)) (\<lambda>b.
     bindR (upd_comp this (CObjectKlicker (k\<lparr>klick := Some (\<not> b)\<rparr>)) h) (\<lambda>h.
     bindR (follow (ok_inst k)) (\<lambda>i.
     bindR (cast_at as_its_instance h i) (\<lambda>inst.
     bindR (vec_at (onklick k) (if b then 0 else 1)) (\<lambda>v.
     bindR (read_member v) (\<lambda>rect.
     upd_comp i (CITSInstance (inst\<lparr>i_rect := Some rect\<rparr>)) h)))))))"

definition objectKlicker_serialize :: "object_klicker \<Rightarrow> writer" where
  "objectKlicker_serialize k = write_all [push_cstr ''class objectKlicker'']"

definition objectKlicker_set :: "object_klicker \<Rightarrow> ('w, object_klicker) reader" where
  "objectKlicker_set k = retP k"

interpretation object_klicker: class_codec "''class objectKlicker''" new_object_klicker objectKlicker_serialize
    objectKlicker_set "\<lambda>_. []" "\<lambda>_. new_object_klicker" "\<lambda>_ w. w" "\<lambda>_. True"
proof
  fix k :: object_klicker
  have nm: "appends (push_cstr ''class objectKlicker'') (enc_string ''class objectKlicker'')"
    by (rule appends_class_name) simp
  have "appends (objectKlicker_serialize k) (enc_string ''class objectKlicker'' @ [])"
    unfolding objectKlicker_serialize_def by (intro appends_Cons appends_Nil nm)
  then show "appends (objectKlicker_serialize k) ([] @ enc_string ''class objectKlicker'')" by simp
  show "reads (objectKlicker_set new_object_klicker) [] new_object_klicker (\<lambda>w. w)"
    unfolding objectKlicker_set_def by (rule reads_ret)
qed

text \<open>The virtual functions of \<open>Button::ButtonActor\<close> in the viewer; the other calls have empty bodies.\<close>

definition viewer_actor :: "'m actor" where
  "viewer_actor c r h =
     bindR (comp_at h r) (\<lambda>a. case a of
       CObjectKlicker k \<Rightarrow> (case c of Klicked \<Rightarrow> objectKlicker_klicked r h | _ \<Rightarrow> Inr h)
     | _ \<Rightarrow> Inl (Undefined BadCast))"


section \<open>The actors keep the contract of a button\<close>

text \<open>A klicker whose members are set: both pictures, the state and the instance it changes.\<close>

definition klicker_ok :: "'m eheap \<Rightarrow> cref \<Rightarrow> bool" where
  "klicker_ok h r \<longleftrightarrow> (\<exists>k v u w q i. comp_at h r = Inr (CObjectKlicker k) \<and> klick k = Some v \<and>
     onklick k = [Some u, Some w] \<and> ok_inst k = Ptr q \<and> comp_at h q = Inr (CITSInstance i))"

definition klickers_ok :: "cref \<Rightarrow> cref list \<Rightarrow> 'm eheap \<Rightarrow> bool" where
  "klickers_ok b rs h \<longleftrightarrow> (\<exists>x. comp_at h b = Inr (CButton x)) \<and> (\<forall>r \<in> set rs. klicker_ok h r)"

definition klicks :: "'m eheap \<Rightarrow> cref \<Rightarrow> bool option" where
  "klicks h r = (case comp_at h r of Inr (CObjectKlicker k) \<Rightarrow> klick k | _ \<Rightarrow> None)"

definition toggle :: "cref \<Rightarrow> (cref \<Rightarrow> bool option) \<Rightarrow> cref \<Rightarrow> bool option" where
  "toggle r o' = o'(r := map_option Not (o' r))"

lemma klicked_runs:
  assumes "klicker_ok h r"
  shows "\<exists>h' k q i j v. objectKlicker_klicked r h = Inr h' \<and> comp_at h r = Inr (CObjectKlicker k) \<and>
    klick k = Some v \<and> comp_at h q = Inr (CITSInstance i) \<and>
    comp_at h' = (comp_at h)(r := Inr (CObjectKlicker (k\<lparr>klick := Some (\<not> v)\<rparr>)), q := Inr (CITSInstance j))"
proof -
  obtain k v u w q i where k: "comp_at h r = Inr (CObjectKlicker k)" "klick k = Some v"
      "onklick k = [Some u, Some w]" "ok_inst k = Ptr q" and i: "comp_at h q = Inr (CITSInstance i)"
    using assms by (auto simp: klicker_ok_def)
  have rq: "q \<noteq> r" using k(1) i by auto
  obtain h1 where h1: "upd_comp r (CObjectKlicker (k\<lparr>klick := Some (\<not> v)\<rparr>)) h = Inr h1"
    using upd_comp_total[OF k(1)] by blast
  have i1: "comp_at h1 q = Inr (CITSInstance i)" using comp_at_upd[OF h1] rq i by simp
  let ?j = "i\<lparr>i_rect := Some (if v then u else w)\<rparr>"
  obtain h2 where h2: "upd_comp q (CITSInstance ?j) h1 = Inr h2" using upd_comp_total[OF i1] by blast
  have "comp_at h2 = (comp_at h)(r := Inr (CObjectKlicker (k\<lparr>klick := Some (\<not> v)\<rparr>)), q := Inr (CITSInstance ?j))"
    by (rule ext) (simp add: comp_at_upd[OF h2] comp_at_upd[OF h1])
  moreover have "objectKlicker_klicked r h = Inr h2"
    using k h1 i1 h2 by (cases v) (simp_all add: objectKlicker_klicked_def vec_at_def)
  ultimately show ?thesis using k i by blast
qed

lemma klicker_ok_cong:
  assumes "klicker_ok h r"
    and "\<And>q i. comp_at h q = Inr (CITSInstance i) \<Longrightarrow> \<exists>j. comp_at h' q = Inr (CITSInstance j)"
    and "\<And>k v. comp_at h r = Inr (CObjectKlicker k) \<Longrightarrow> klick k = Some v \<Longrightarrow>
           \<exists>v'. comp_at h' r = Inr (CObjectKlicker (k\<lparr>klick := Some v'\<rparr>))"
  shows "klicker_ok h' r"
proof -
  obtain k v u w q i where k: "comp_at h r = Inr (CObjectKlicker k)" "klick k = Some v"
      "onklick k = [Some u, Some w]" "ok_inst k = Ptr q" and i: "comp_at h q = Inr (CITSInstance i)"
    using assms(1) by (auto simp: klicker_ok_def)
  obtain v' where "comp_at h' r = Inr (CObjectKlicker (k\<lparr>klick := Some v'\<rparr>))" using assms(3)[OF k(1,2)] by blast
  moreover obtain j where "comp_at h' q = Inr (CITSInstance j)" using assms(2)[OF i] by blast
  ultimately show ?thesis using k unfolding klicker_ok_def
    by (intro exI[of _ "k\<lparr>klick := Some v'\<rparr>"]) simp
qed

lemma actor_call_ok:
  assumes ok: "klickers_ok b rs h" and r: "r \<in> set rs"
  shows "\<exists>h'. viewer_actor c r h = Inr h' \<and> klickers_ok b rs h' \<and> comp_at h' b = comp_at h b \<and>
    klicks h' = (if c = Klicked then toggle r (klicks h) else klicks h)"
proof -
  obtain x where b: "comp_at h b = Inr (CButton x)" using ok by (auto simp: klickers_ok_def)
  have kr: "klicker_ok h r" using ok r by (simp add: klickers_ok_def)
  obtain h' k q i j v where k: "objectKlicker_klicked r h = Inr h'" "comp_at h r = Inr (CObjectKlicker k)"
      "klick k = Some v" "comp_at h q = Inr (CITSInstance i)"
    and h': "comp_at h' = (comp_at h)(r := Inr (CObjectKlicker (k\<lparr>klick := Some (\<not> v)\<rparr>)), q := Inr (CITSInstance j))"
    using klicked_runs[OF kr] by blast
  have run: "viewer_actor c r h = (if c = Klicked then Inr h' else Inr h)"
    using k(1,2) by (simp add: viewer_actor_def split: actor_call.split)
  show ?thesis
  proof (cases "c = Klicked")
    case False
    then show ?thesis using run ok by simp
  next
    case True
    have ne: "b \<noteq> r" "b \<noteq> q" "q \<noteq> r" using b k(2,4) by auto
    have "klicker_ok h' s" if "s \<in> set rs" for s
    proof (rule klicker_ok_cong[of h])
      show "klicker_ok h s" using ok that by (simp add: klickers_ok_def)
      show "\<exists>l. comp_at h' p = Inr (CITSInstance l)" if "comp_at h p = Inr (CITSInstance m)" for p m
        using that k(2) by (auto simp: h')
      show "\<exists>v'. comp_at h' s = Inr (CObjectKlicker (l\<lparr>klick := Some v'\<rparr>))"
        if "comp_at h s = Inr (CObjectKlicker l)" "klick l = Some u" for l u
      proof (cases "s = r")
        case True
        then show ?thesis using that k(2) ne by (auto simp: h')
      next
        case False
        have "s \<noteq> q" using that(1) k(4) by auto
        moreover have "l = l\<lparr>klick := Some u\<rparr>" using that(2) by (cases l) simp
        ultimately show ?thesis using False that(1) by (intro exI[of _ u]) (simp add: h')
      qed
    qed
    moreover have "comp_at h' b = comp_at h b" using ne by (simp add: h')
    moreover have "klicks h' = toggle r (klicks h)"
      by (rule ext) (use k(2-4) ne in \<open>simp add: klicks_def toggle_def h'\<close>)
    ultimately show ?thesis using run True b by (simp add: klickers_ok_def)
  qed
qed

lemma button_flags_ok:
  assumes ok: "klickers_ok b rs h" and b: "comp_at h b = Inr (CButton x)" and u: "upd_comp b (CButton y) h = Inr h'"
  shows "klickers_ok b rs h' \<and> klicks h' = klicks h"
proof
  note h' = comp_at_upd[OF u]
  have "klicker_ok h' s" if "s \<in> set rs" for s
  proof (rule klicker_ok_cong[of h])
    show "klicker_ok h s" using ok that by (simp add: klickers_ok_def)
    show "\<exists>l. comp_at h' p = Inr (CITSInstance l)" if "comp_at h p = Inr (CITSInstance m)" for p m
      using that b by (auto simp: h')
    show "\<exists>v'. comp_at h' s = Inr (CObjectKlicker (l\<lparr>klick := Some v'\<rparr>))"
      if "comp_at h s = Inr (CObjectKlicker l)" "klick l = Some v" for l v
    proof -
      have "l = l\<lparr>klick := Some v\<rparr>" using that(2) by (cases l) simp
      moreover have "s \<noteq> b" using that(1) b by auto
      ultimately show ?thesis using that(1) by (intro exI[of _ v]) (simp add: h')
    qed
  qed
  then show "klickers_ok b rs h'" by (simp add: klickers_ok_def h')
  show "klicks h' = klicks h" by (rule ext) (use b in \<open>simp add: klicks_def h'\<close>)
qed

interpretation viewer: actor_contract viewer_actor "klickers_ok b rs" b rs klicks toggle for b rs
  by unfold_locales (use actor_call_ok button_flags_ok in blast)+



section \<open>Buttons in the viewer\<close>

text \<open>
  C34. One mouse poll of a viewer button does what the protocol says: the call returns, the flags move as
  the automaton moves, and every klicker of the button is toggled exactly when the automaton clicks, no
  other klicker ever; a press and a release inside the rectangle click, leaving it in between does not.
\<close>

theorem button_follows_protocol:
  assumes "button_at h0 b = Inr x" and "b_transform x = Ptr t" and "payload x = rs" and "in_state s x"
    and "klickers_ok b rs h0" and "length rs < fuel"
    and "screenPos fuel xm t vm vp h0 = Inr (r, h)"
    and "btn_step s (input_of (inside (px mod 65536) (py mod 65536) r) isDown isUp) = (s', click)"
  shows "\<exists>h' y. checkKlicked fuel xm viewer_actor b px py vm vp isDown isUp h0 = Inr h' \<and>
    button_at h' b = Inr y \<and> in_state s' y \<and> payload y = rs \<and> klickers_ok b rs h' \<and>
    klicks h' = (if click then fold toggle rs (klicks h0) else klicks h0)"
proof -
  note frame = screenPos_frame[OF assms(7)]
  have b: "comp_at h b = Inr (CButton x)" using assms(1) by (auto intro: frame)
  have ok0: "klicker_ok h q" if "klicker_ok h0 q" for q
  proof (rule klicker_ok_cong[OF that])
    show "\<exists>l. comp_at h p = Inr (CITSInstance l)" if "comp_at h0 p = Inr (CITSInstance m)" for p m
      using frame[OF that] by simp
    show "\<exists>v'. comp_at h q = Inr (CObjectKlicker (l\<lparr>klick := Some v'\<rparr>))"
      if "comp_at h0 q = Inr (CObjectKlicker l)" "klick l = Some v" for l v
    proof -
      have "l = l\<lparr>klick := Some v\<rparr>" using that(2) by (cases l) simp
      then show ?thesis using frame[OF that(1)] by (intro exI[of _ v]) simp
    qed
  qed
  then have ok: "klickers_ok b rs h" using assms(5) b by (auto simp: klickers_ok_def)
  have kl: "klicks h = klicks h0"
  proof
    fix q show "klicks h q = klicks h0 q"
      using screenPos_changes[OF assms(7), of q] by (auto simp: klicks_def)
  qed
  obtain h' y where "checkKlicked fuel xm viewer_actor b px py vm vp isDown isUp h0 = Inr h'"
      "comp_at h' b = Inr (CButton y)" "in_state s' y" "payload y = rs" "klickers_ok b rs h'"
      "klicks h' = (if click then fold toggle rs (klicks h) else klicks h)"
    using viewer.check_follows[OF assms(1,2,7) ok b assms(3,6,4,8)] by blast
  then show ?thesis using kl by (intro exI[of _ h'] exI[of _ y]) simp
qed

text \<open>A matrix library whose matrices all stretch the unit square over the plane, and one pressed button on it.\<close>

definition f32_infinity :: f32 where
  "f32_infinity = 2139095040"

definition unit_xna :: "unit xnamath" where
  "unit_xna = \<lparr>XMMatrixTranslation = \<lambda>_ _ _. (), XMMatrixRotationX = \<lambda>_. (), XMMatrixRotationY = \<lambda>_. (),
     XMMatrixRotationZ = \<lambda>_. (), XMMatrixScaling = \<lambda>_ _ _. (), XMMatrixMultiply = \<lambda>_ _. (),
     XMMatrixTranspose = \<lambda>_. (), XMMatrixOrthographicOffCenterLH = \<lambda>_ _ _ _ _ _. (),
     XMMatrixPerspectiveOffCenterLH = \<lambda>_ _ _ _ _ _. (),
     matElem = \<lambda>_ i j. if i < 2 \<and> j < 2 then f32_infinity else if i = 3 \<and> j = 3 then f32_one else f32_zero\<rparr>"

definition pressed_button :: button where
  "pressed_button = \<lparr>b_transform = Ptr (0, 0), b_up = Some False, b_down = Some True,
     payload = [(0, 2)], payloadIDs = [(4, 0)]\<rparr>"

definition button_picture :: xmfloat4 where
  "button_picture = \<lparr>f4x = f32_zero, f4y = f32_zero, f4z = f32_one, f4w = f32_one\<rparr>"

definition button_heap :: "unit eheap" where
  "button_heap = \<lparr>cells = [0 \<mapsto> holder 0 4 [CTransform new_transform, CButton pressed_button,
     CObjectKlicker \<lparr>klick = Some False, onklick = [Some button_picture, Some button_picture], ok_inst = Ptr (0, 3)\<rparr>,
     CITSInstance \<lparr>i_transform = Ptr (0, 0), i_rect = Some button_picture\<rparr>]], next_addr = 1\<rparr>"

definition small_viewport :: viewport where
  "small_viewport = \<lparr>TopLeftX = f32_zero, TopLeftY = f32_zero, vpWidth = f32_one, vpHeight = f32_one\<rparr>"

lemma button_heap_at:
  "comp_at button_heap (0, 0) = Inr (CTransform new_transform)"
  "comp_at button_heap (0, 1) = Inr (CButton pressed_button)"
  "comp_at button_heap (0, 2) = Inr (CObjectKlicker \<lparr>klick = Some False,
     onklick = [Some button_picture, Some button_picture], ok_inst = Ptr (0, 3)\<rparr>)"
  "comp_at button_heap (0, 3) = Inr (CITSInstance \<lparr>i_transform = Ptr (0, 0), i_rect = Some button_picture\<rparr>)"
  by (simp_all add: comp_at_def button_heap_def holder_def new_game_object_def get_obj_def vec_at_def
      numeral_2_eq_2 numeral_3_eq_3)

definition screen_rect :: xmfloat4 where
  "screen_rect = \<lparr>f4x = f32_infinity, f4y = f32_neg f32_infinity, f4z = f32_neg f32_infinity, f4w = f32_infinity\<rparr>"

lemma infinite_steps:
  "f32_mul f32_half f32_infinity = f32_infinity"
  "f32_mul f32_half f32_zero = f32_zero"
  "f32_mul (f32_neg f32_half) f32_infinity = f32_neg f32_infinity"
  "f32_mul (f32_neg f32_half) f32_zero = f32_neg f32_zero"
  "f32_add f32_infinity f32_infinity = f32_infinity"
  "f32_add (f32_neg f32_infinity) (f32_neg f32_infinity) = f32_neg f32_infinity"
  "f32_add f32_infinity f32_zero = f32_infinity"
  "f32_add (f32_neg f32_infinity) f32_zero = f32_neg f32_infinity"
  "f32_add f32_zero f32_zero = f32_zero"
  "f32_add (f32_neg f32_zero) (f32_neg f32_zero) = f32_neg f32_zero"
  "f32_add (f32_neg f32_zero) f32_zero = f32_zero"
  "f32_add f32_zero f32_one = f32_one"
  "f32_div f32_infinity f32_one = f32_infinity"
  "f32_div (f32_neg f32_infinity) f32_one = f32_neg f32_infinity"
  "f32_add f32_infinity f32_one = f32_infinity"
  "f32_add (f32_neg f32_infinity) f32_one = f32_neg f32_infinity"
  "f32_sub f32_one f32_infinity = f32_neg f32_infinity"
  "f32_sub f32_one (f32_neg f32_infinity) = f32_infinity"
  "f32_mul f32_infinity f32_half = f32_infinity"
  "f32_mul (f32_neg f32_infinity) f32_half = f32_neg f32_infinity"
  "f32_mul f32_infinity f32_one = f32_infinity"
  "f32_mul (f32_neg f32_infinity) f32_one = f32_neg f32_infinity"
  by (simp_all add: f32_infinity_def f32_half_def f32_one_def f32_zero_def f32_run)


lemma two_between: "f32_lt f32_two f32_infinity" "f32_lt (f32_neg f32_infinity) f32_two"
  by (simp_all add: f32_infinity_def f32_two_def f32_lt_def f32_order_def f32_is_nan_def f32_mag_def
      f32_sign_def f32_neg_def)

lemma button_on_screen: "\<exists>h. screenPos 2 unit_xna (0, 0) () small_viewport button_heap = Inr (screen_rect, h)"
proof -
  have n: "(2 :: nat) = Suc (Suc 0)" by simp
  obtain h where h: "upd_comp (0, 0) (CTransform (refresh unit_xna new_transform)) button_heap = Inr h"
    using upd_comp_total[OF button_heap_at(1)] by blast
  have "GetWorldMatrix 2 unit_xna (0, 0) button_heap = Inr ((), h)"
    unfolding n using button_heap_at(1) h by (simp add: Let_def refresh_def new_transform_def)
  moreover have "screenCorner unit_xna f32_half () small_viewport = (f32_infinity, f32_neg f32_infinity)"
    by (simp add: screenCorner_def unit_xna_def small_viewport_def infinite_steps Let_def)
  moreover have "screenCorner unit_xna (f32_neg f32_half) () small_viewport = (f32_neg f32_infinity, f32_infinity)"
    by (simp add: screenCorner_def unit_xna_def small_viewport_def infinite_steps Let_def)
  ultimately show ?thesis by (simp add: screenPos_def screen_rect_def)
qed

lemma pointer_over_button: "inside (2 mod 65536) (2 mod 65536) screen_rect"
  by (simp add: inside_def screen_rect_def f32_constants two_between)

theorem button_follows_protocol_witness:
  "\<exists>h' y. checkKlicked 2 unit_xna viewer_actor (0, 1) 2 2 () small_viewport False True button_heap = Inr h' \<and>
    button_at h' (0, 1) = Inr y \<and> in_state Idle y \<and> klicks h' (0, 2) = Some True"
proof -
  obtain h where h: "screenPos 2 unit_xna (0, 0) () small_viewport button_heap = Inr (screen_rect, h)"
    using button_on_screen by blast
  have ok: "klickers_ok (0, 1) [(0, 2)] button_heap"
    by (auto simp: klickers_ok_def klicker_ok_def button_heap_at simp del: One_nat_def)
  have st: "btn_step Pressed (input_of (inside (2 mod 65536) (2 mod 65536) screen_rect) False True) = (Idle, True)"
    using pointer_over_button by (simp add: input_of_def)
  obtain h' y where "checkKlicked 2 unit_xna viewer_actor (0, 1) 2 2 () small_viewport False True button_heap = Inr h'"
      "button_at h' (0, 1) = Inr y" "in_state Idle y" "klicks h' = toggle (0, 2) (klicks button_heap)"
    using button_follows_protocol[OF _ _ _ _ ok _ h st, of pressed_button]
    by (auto simp: button_heap_at pressed_button_def in_state_def simp del: One_nat_def)
  moreover have "klicks h' (0, 2) = Some True"
    unfolding calculation(4) by (simp add: toggle_def klicks_def button_heap_at)
  ultimately show ?thesis by blast
qed



section \<open>The zoom of the camera\<close>

lemma f32_neg_mag: "f32_mag (f32_neg a) = f32_mag a"
proof -
  have "take_bit 31 (xor a (2147483648 :: f32)) = take_bit 31 a"
    by (simp add: take_bit_xor)
  then have "unat (take_bit 31 (f32_neg a)) = unat (take_bit 31 a)" by (simp add: f32_neg_def)
  then show ?thesis by (simp add: f32_mag_def take_bit_eq_mod unat_mod)
qed

lemma f32_sign_bit: "f32_sign a = bit a 31"
proof -
  have "unat a < 2 ^ 32" using unsigned_less[of a] by simp
  then have "unat a < 2 * 2147483648" by simp
  then have "unat a div 2147483648 < 2" by (rule less_mult_imp_div_less)
  then have "odd (unat a div 2147483648) \<longleftrightarrow> unat a div 2147483648 \<noteq> 0" by (auto simp: less_2_cases_iff)
  also have "\<dots> \<longleftrightarrow> 2147483648 \<le> unat a" by (simp add: div_eq_0_iff not_less)
  finally have "2147483648 \<le> unat a \<longleftrightarrow> bit (unat a) 31" by (simp add: bit_iff_odd)
  then show ?thesis by (simp add: f32_sign_def bit_unsigned_iff)
qed

lemma f32_neg_sign: "f32_sign (f32_neg a) = (\<not> f32_sign a)"
proof -
  have "(2147483648 :: f32) = push_bit 31 1" by simp
  then show ?thesis by (simp only: f32_sign_bit f32_neg_def bit_xor_iff bit_push_bit_iff) simp
qed

lemma f32_neg_steps: "f32_steps (f32_neg a) = - f32_steps a"
  by (simp add: f32_steps_def f32_neg_sign f32_neg_mag)

lemma f32_not_lt_zero: "\<not> f32_lt f32_zero f32_zero"
  by (simp add: f32_lt_def)

lemma f32_sub_self:
  assumes "\<not> f32_is_nan z" and "\<not> f32_is_inf z" and "f32_sign z"
  shows "f32_add z (f32_neg z) = f32_zero"
  using assms by (simp add: f32_add_def f32_neg_steps f32_neg_sign f32_is_nan_def f32_is_inf_def f32_neg_mag
      f32_make_def f32_zero_def)

lemma f32_inf_cancels:
  assumes "f32_is_inf z"
  shows "f32_add z (f32_neg z) = f32_default_nan"
  using assms by (simp add: f32_add_def f32_neg_sign f32_is_nan_def f32_is_inf_def f32_neg_mag)

text \<open>Adding the negation of a negative number leaves nothing negative.\<close>

lemma f32_cancel_not_negative:
  assumes "f32_lt z f32_zero"
  shows "\<not> f32_lt (f32_add z (f32_neg z)) f32_zero"
proof (cases "f32_is_inf z")
  case True
  then show ?thesis
    by (simp add: f32_inf_cancels f32_lt_def f32_default_nan_def f32_is_nan_def f32_mag_def)
next
  case False
  have "\<not> f32_is_nan z" "f32_sign z"
    using assms by (auto simp: f32_lt_def f32_order_def f32_zero_def f32_mag_def f32_sign_def split: if_splits)
  then show ?thesis using f32_sub_self[OF _ False] f32_not_lt_zero by simp
qed

lemma zoom_step_z:
  "f3z (m_position (zoom_step dir t)) =
     (let z = f32_add (f3z (m_position t)) (f32_of_int (uint dir - 1)) in
      if f32_lt z f32_zero then f32_add z (f32_neg z) else z)"
  by (simp add: zoom_step_def Let_def AddPosition_xyz_def vec3_add_def)

lemma zoom_of_int:
  assumes "f3z (m_position t) = f32_of_int n" and "int24 n" and "int24 (n + uint dir - 1)"
  shows "f3z (m_position (zoom_step dir t)) = f32_of_int (max 0 (n + uint dir - 1))"
proof -
  let ?m = "n + uint dir - 1"
  have "0 \<le> uint dir" and "uint dir < 256" using uint_bounded[of dir] by simp_all
  then have d: "int24 (uint dir - 1)" unfolding int24_def by linarith
  have m: "f32_add (f32_of_int n) (f32_of_int (uint dir - 1)) = f32_of_int ?m"
    using f32_add_of_int[OF assms(2) d] assms(3) by (simp add: add_diff_eq)
  have z: "f32_lt (f32_of_int ?m) f32_zero \<longleftrightarrow> ?m < 0"
    using f32_lt_of_int[OF assms(3), of 0] by (simp add: f32_constants int24_def)
  show ?thesis
  proof (cases "?m < 0")
    case True
    then have "f32_add (f32_of_int ?m) (f32_neg (f32_of_int ?m)) = f32_zero"
      using f32_of_int_int24[OF assms(3)] by (intro f32_sub_self) simp_all
    then show ?thesis using True z by (simp add: zoom_step_z assms(1) m Let_def f32_constants max_def)
  next
    case False
    then show ?thesis using z by (simp add: zoom_step_z assms(1) m Let_def max_def)
  qed
qed

text \<open>
  C35. A wheel event moves the camera along z by \<open>dir - 1\<close> and never behind the plane: whatever the
  position was, even an infinite one, the new z is not negative; a whole number is moved exactly and
  stopped at 0. Nothing else of the scene changes.
\<close>

theorem zoom_stays_in_front:
  assumes "comp_at h this = Inr (CDragMover d)" and "d_transform d = Ptr r" and "comp_at h r = Inr (CTransform t)"
  shows "\<exists>h' t'. dragMover_onEvent this (MouseScroll dir) h = Inr (False, h') \<and>
    comp_at h' = (comp_at h)(r := Inr (CTransform t')) \<and> m_dirty t' \<and>
    \<not> f32_lt (f3z (m_position t')) f32_zero \<and>
    (\<forall>n. f3z (m_position t) = f32_of_int n \<and> int24 n \<and> int24 (n + uint dir - 1) \<longrightarrow>
       f3z (m_position t') = f32_of_int (max 0 (n + uint dir - 1)))"
proof -
  let ?t = "zoom_step dir t"
  obtain h' where h': "upd_comp r (CTransform ?t) h = Inr h'" using upd_comp_total[OF assms(3)] by blast
  have "comp_at h' = (comp_at h)(r := Inr (CTransform ?t))" by (rule ext) (simp add: comp_at_upd[OF h'])
  moreover have "dragMover_onEvent this (MouseScroll dir) h = Inr (False, h')"
    using assms h' by (simp add: dragMover_onEvent_def)
  moreover have "m_dirty ?t" by (simp add: zoom_step_def Let_def AddPosition_xyz_def)
  moreover have "\<not> f32_lt (f3z (m_position ?t)) f32_zero"
    by (simp add: zoom_step_z Let_def f32_cancel_not_negative)
  ultimately show ?thesis using zoom_of_int by blast
qed

definition camera_heap :: "unit eheap" where
  "camera_heap = \<lparr>cells = [0 \<mapsto> holder 0 1
     [CTransform (SetPosition_xyz f32_zero f32_zero f32_two new_transform), CDragMover \<lparr>d_transform = Ptr (0, 0)\<rparr>]],
     next_addr = 1\<rparr>"

theorem zoom_stays_in_front_witness:
  "\<exists>h' t'. dragMover_onEvent (0, 1) (MouseScroll 255) camera_heap = Inr (False, h') \<and>
    comp_at h' (0, 0) = Inr (CTransform t') \<and> f3z (m_position t') = f32_of_int 256"
proof -
  have h: "comp_at camera_heap (0, 1) = Inr (CDragMover \<lparr>d_transform = Ptr (0, 0)\<rparr>)"
    "comp_at camera_heap (0, 0) = Inr (CTransform (SetPosition_xyz f32_zero f32_zero f32_two new_transform))"
    by (simp_all add: comp_at_def camera_heap_def holder_def new_game_object_def get_obj_def vec_at_def)
  show ?thesis using zoom_stays_in_front[OF h(1) _ h(2), of 255]
    by (fastforce simp: SetPosition_xyz_def vec3_def int24_def f32_constants(2)[symmetric])
qed

end
