(* ===== verification/Engine_Scene.thy ===== *)
theory Engine_Scene
  imports Viewer_Components
begin

text \<open>
  The component classes of the program as one class table: names, virtual functions, registrations and
  the static members \<open>getIsLonly\<close> and \<open>getRequirements\<close>. With it the operations of game objects and
  storages run on scenes of engine components, and the contract of saving and loading holds for every
  class but one.
\<close>

section \<open>Virtual functions\<close>

text \<open>\<open>serialize\<close>, \<open>set\<close> and \<open>setRequirements\<close> of the class of a component.\<close>

fun engine_serialize :: "'m engine_component \<Rightarrow> writer" where
  "engine_serialize (CFile x) = fileComponent_serialize x"
| "engine_serialize (CTransform x) = transform_serialize x"
| "engine_serialize (CKamera x) = kamera_serialize x"
| "engine_serialize (CButton x) = button_serialize x"
| "engine_serialize (CRenderer x) = renderer_serialize x"
| "engine_serialize (CSprite x) = sprite_serialize x"
| "engine_serialize (CTeilSprite x) = teilSprite_serialize x"
| "engine_serialize (CInstancedSprite x) = instancedSprite_serialize x"
| "engine_serialize (CITSInstance x) = itsInstance_serialize x"
| "engine_serialize (CInstancedTeilSprite x) = instancedTeilSprite_serialize x"
| "engine_serialize (CStringInstance x) = stringInstance_serialize x"
| "engine_serialize (CStringRenderer x) = stringRenderer_serialize x"
| "engine_serialize (CDragMover x) = dragMover_serialize x"
| "engine_serialize (CButtonChecker x) = buttonChecker_serialize x"
| "engine_serialize (CObjectKlicker x) = objectKlicker_serialize x"

fun engine_set :: "'m engine_component \<Rightarrow> (file_system, 'm engine_component) reader" where
  "engine_set (CFile x) = bindP (fileComponent_set x) (\<lambda>x. retP (CFile x))"
| "engine_set (CTransform x) = bindP (transform_set x) (\<lambda>x. retP (CTransform x))"
| "engine_set (CKamera x) = bindP (kamera_set x) (\<lambda>x. retP (CKamera x))"
| "engine_set (CButton x) = bindP (button_set x) (\<lambda>x. retP (CButton x))"
| "engine_set (CRenderer x) = bindP (renderer_set x) (\<lambda>x. retP (CRenderer x))"
| "engine_set (CSprite x) = bindP (sprite_set x) (\<lambda>x. retP (CSprite x))"
| "engine_set (CTeilSprite x) = bindP (teilSprite_set x) (\<lambda>x. retP (CTeilSprite x))"
| "engine_set (CInstancedSprite x) = bindP (instancedSprite_set x) (\<lambda>x. retP (CInstancedSprite x))"
| "engine_set (CITSInstance x) = bindP (itsInstance_set x) (\<lambda>x. retP (CITSInstance x))"
| "engine_set (CInstancedTeilSprite x) = bindP (instancedTeilSprite_set x) (\<lambda>x. retP (CInstancedTeilSprite x))"
| "engine_set (CStringInstance x) = bindP (stringInstance_set x) (\<lambda>x. retP (CStringInstance x))"
| "engine_set (CStringRenderer x) = bindP (stringRenderer_set x) (\<lambda>x. retP (CStringRenderer x))"
| "engine_set (CDragMover x) = bindP (dragMover_set x) (\<lambda>x. retP (CDragMover x))"
| "engine_set (CButtonChecker x) = bindP (buttonChecker_set x) (\<lambda>x. retP (CButtonChecker x))"
| "engine_set (CObjectKlicker x) = bindP (objectKlicker_set x) (\<lambda>x. retP (CObjectKlicker x))"

fun engine_setRequirements :: "'m engine_component \<Rightarrow> cref list \<Rightarrow> 'm engine_component result" where
  "engine_setRequirements (CFile x) toSet = Inr (CFile x)"
| "engine_setRequirements (CTransform x) toSet = Inr (CTransform x)"
| "engine_setRequirements (CKamera x) toSet = bindR (kamera_setRequirements toSet x) (\<lambda>x. Inr (CKamera x))"
| "engine_setRequirements (CButton x) toSet = bindR (button_setRequirements toSet x) (\<lambda>x. Inr (CButton x))"
| "engine_setRequirements (CRenderer x) toSet = Inr (CRenderer x)"
| "engine_setRequirements (CSprite x) toSet = bindR (sprite_setRequirements toSet x) (\<lambda>x. Inr (CSprite x))"
| "engine_setRequirements (CTeilSprite x) toSet = bindR (teilSprite_setRequirements toSet x) (\<lambda>x. Inr (CTeilSprite x))"
| "engine_setRequirements (CInstancedSprite x) toSet = Inr (CInstancedSprite x)"
| "engine_setRequirements (CITSInstance x) toSet = bindR (itsInstance_setRequirements toSet x) (\<lambda>x. Inr (CITSInstance x))"
| "engine_setRequirements (CInstancedTeilSprite x) toSet = Inr (CInstancedTeilSprite x)"
| "engine_setRequirements (CStringInstance x) toSet = bindR (stringInstance_setRequirements toSet x) (\<lambda>x. Inr (CStringInstance x))"
| "engine_setRequirements (CStringRenderer x) toSet = Inr (CStringRenderer x)"
| "engine_setRequirements (CDragMover x) toSet = bindR (dragMover_setRequirements toSet x) (\<lambda>x. Inr (CDragMover x))"
| "engine_setRequirements (CButtonChecker x) toSet = bindR (buttonChecker_setRequirements toSet x) (\<lambda>x. Inr (CButtonChecker x))"
| "engine_setRequirements (CObjectKlicker x) toSet = bindR (objectKlicker_setRequirements toSet x) (\<lambda>x. Inr (CObjectKlicker x))"

text \<open>\<open>afterSet\<close>; the classes that are not named have an empty one.\<close>

definition engine_afterSet ::
    "storage \<Rightarrow> 'm eheap \<Rightarrow> cref \<Rightarrow> 'm engine_component component \<Rightarrow> 'm engine_component component result" where
  "engine_afterSet st h r c =
     bindR (case obj c of
         CTransform x \<Rightarrow> bindR (transform_afterSet h st x) (\<lambda>x. Inr (CTransform x))
       | CButton x \<Rightarrow> bindR (button_afterSet h st x) (\<lambda>x. Inr (CButton x))
       | CRenderer x \<Rightarrow> bindR (renderer_afterSet h st x) (\<lambda>x. Inr (CRenderer x))
       | CInstancedSprite x \<Rightarrow> bindR (instancedSprite_afterSet h st x) (\<lambda>x. Inr (CInstancedSprite x))
       | CInstancedTeilSprite x \<Rightarrow> bindR (instancedTeilSprite_afterSet h st x) (\<lambda>x. Inr (CInstancedTeilSprite x))
       | CStringInstance x \<Rightarrow>
           bindR (deref (gameobject c)) (\<lambda>a.
           bindR (stringInstance_afterSet h a x) (\<lambda>x. Inr (CStringInstance x)))
       | CStringRenderer x \<Rightarrow> bindR (stringRenderer_afterSet h st x) (\<lambda>x. Inr (CStringRenderer x))
       | x \<Rightarrow> Inr x)
     (\<lambda>x. Inr (c\<lparr>obj := x\<rparr>))"


section \<open>Registrations\<close>

text \<open>The static members \<open>ComponentRegister<T> T::reg(typeid(T).name())\<close>.\<close>

definition engine_registrations :: "(string \<times> (unit \<Rightarrow> 'm engine_component)) list" where
  "engine_registrations =
    [(''class FileComponent'', \<lambda>_. CFile new_file_component),
     (''class Transform'', \<lambda>_. CTransform new_transform),
     (''class Kamera'', \<lambda>_. CKamera new_kamera),
     (''class Button'', \<lambda>_. CButton new_button),
     (''class DrawableRenderer'', \<lambda>_. CRenderer new_renderer),
     (''class Sprite'', \<lambda>_. CSprite new_sprite),
     (''class TeilSprite'', \<lambda>_. CTeilSprite new_teil_sprite),
     (''class InstancedSprite'', \<lambda>_. CInstancedSprite new_instanced_sprite),
     (''class InstancedTeilSprite::Instance'', \<lambda>_. CITSInstance new_its_instance),
     (''class InstancedTeilSprite'', \<lambda>_. CInstancedTeilSprite new_instanced_teil_sprite),
     (''class StringRenderer::Instance'', \<lambda>_. CStringInstance new_string_instance),
     (''class StringRenderer'', \<lambda>_. CStringRenderer new_string_renderer),
     (''class DragMover'', \<lambda>_. CDragMover new_drag_mover),
     (''class ButtonChecker'', \<lambda>_. CButtonChecker new_button_checker),
     (''class objectKlicker'', \<lambda>_. CObjectKlicker new_object_klicker)]"

definition engine_class :: "('m engine_component, file_system) component_class" where
  "engine_class = \<lparr>typeName = class_name, serializeC = engine_serialize, setC = engine_set,
     setRequirementsC = engine_setRequirements, registry = registerAll engine_registrations None\<rparr>"

lemma engine_class_simps [simp]:
  "typeName engine_class = class_name" "serializeC engine_class = engine_serialize"
  "setC engine_class = engine_set" "setRequirementsC engine_class = engine_setRequirements"
  by (simp_all add: engine_class_def)

lemma engine_created:
  "fst (createInstance s (registry engine_class)) = map_option (\<lambda>create. create ()) (map_of engine_registrations s)"
  by (simp add: engine_class_def createInstance_registerAll)


section \<open>Static members\<close>

text \<open>\<open>findComponents<T>()\<close> accepts derived classes; none of these classes has one.\<close>

definition decl_of :: "string \<Rightarrow> bool \<Rightarrow> string list \<Rightarrow> 'm engine_component component_decl" where
  "decl_of name lonly req = \<lparr>declName = name, isLonly = lonly, requirements = req,
     isInstance = (\<lambda>c. class_name c = name)\<rparr>"

definition transform_decl :: "'m engine_component component_decl" where
  "transform_decl = decl_of ''class Transform'' True []"

definition kamera_decl :: "'m engine_component component_decl" where
  "kamera_decl = decl_of ''class Kamera'' True [''class Transform'']"

definition button_decl :: "'m engine_component component_decl" where
  "button_decl = decl_of ''class Button'' True [''class Transform'']"

definition renderer_decl :: "'m engine_component component_decl" where
  "renderer_decl = decl_of ''class DrawableRenderer'' True []"

definition sprite_decl :: "'m engine_component component_decl" where
  "sprite_decl = decl_of ''class Sprite'' False [''class Transform'']"

definition teilSprite_decl :: "'m engine_component component_decl" where
  "teilSprite_decl = decl_of ''class TeilSprite'' False [''class Transform'']"

definition instancedSprite_decl :: "'m engine_component component_decl" where
  "instancedSprite_decl = decl_of ''class InstancedSprite'' False []"

definition itsInstance_decl :: "'m engine_component component_decl" where
  "itsInstance_decl = decl_of ''class InstancedTeilSprite::Instance'' False [''class Transform'']"

definition instancedTeilSprite_decl :: "'m engine_component component_decl" where
  "instancedTeilSprite_decl = decl_of ''class InstancedTeilSprite'' False []"

definition stringInstance_decl :: "'m engine_component component_decl" where
  "stringInstance_decl = decl_of ''class StringRenderer::Instance'' True [''class Transform'']"

definition stringRenderer_decl :: "'m engine_component component_decl" where
  "stringRenderer_decl = decl_of ''class StringRenderer'' False []"

definition dragMover_decl :: "'m engine_component component_decl" where
  "dragMover_decl = decl_of ''class DragMover'' True [''class Transform'']"

definition buttonChecker_decl :: "'m engine_component component_decl" where
  "buttonChecker_decl = decl_of ''class ButtonChecker'' True [''class DrawableRenderer'']"

definition objectKlicker_decl :: "'m engine_component component_decl" where
  "objectKlicker_decl = decl_of ''class objectKlicker'' False [''class InstancedTeilSprite::Instance'']"

lemmas engine_decls = transform_decl_def kamera_decl_def button_decl_def renderer_decl_def sprite_decl_def teilSprite_decl_def instancedSprite_decl_def itsInstance_decl_def instancedTeilSprite_decl_def stringInstance_decl_def stringRenderer_decl_def dragMover_decl_def buttonChecker_decl_def objectKlicker_decl_def


text \<open>\<open>FileComponent\<close> has the defaults of \<open>Component\<close>.\<close>

definition fileComponent_decl :: "'m engine_component component_decl" where
  "fileComponent_decl = decl_of ''class FileComponent'' False []"

definition engine_type_list :: "'m engine_component component_decl list" where
  "engine_type_list = [fileComponent_decl, transform_decl, kamera_decl, button_decl, renderer_decl, sprite_decl,
     teilSprite_decl, instancedSprite_decl, itsInstance_decl, instancedTeilSprite_decl, stringInstance_decl,
     stringRenderer_decl, dragMover_decl, buttonChecker_decl, objectKlicker_decl]"

definition engine_types :: "'m engine_component component_decl set" where
  "engine_types = set engine_type_list"


section \<open>The lonely classes\<close>

lemma engine_created_class:
  "fst (createInstance s (registry engine_class)) = Some d \<Longrightarrow> class_name d = s"
  by (auto simp: engine_created engine_registrations_def split: if_splits)

lemma engine_setRequirements_class: "engine_setRequirements d toSet = Inr d' \<Longrightarrow> class_name d' = class_name d"
  by (cases d) auto

lemma engine_types_decl: "T \<in> engine_types \<Longrightarrow> isInstance T c \<longleftrightarrow> class_name c = declName T"
proof -
  assume "T \<in> engine_types"
  moreover have "list_all (\<lambda>T. isInstance T c \<longleftrightarrow> class_name c = declName T) engine_type_list"
    by (simp add: engine_type_list_def engine_decls fileComponent_decl_def decl_of_def)
  ultimately show ?thesis unfolding engine_types_def list_all_iff by blast
qed

lemma engine_types_inj: "inj_on declName engine_types"
proof -
  have "distinct (map declName engine_type_list)"
    by (simp add: engine_type_list_def engine_decls fileComponent_decl_def decl_of_def)
  then show ?thesis unfolding engine_types_def distinct_map by blast
qed

lemma engine_lonely:
  fixes T :: "'m engine_component component_decl"
  assumes T: "T \<in> engine_types" "isLonly T"
  shows "lonely_class engine_class engine_types T"
  unfolding lonely_class_def
proof (intro conjI allI ballI impI)
  show "isLonly T" by (rule T(2))
next
  fix c c' :: "'m engine_component"
  assume "typeName engine_class c = typeName engine_class c'"
  then show "isInstance T c = isInstance T c'" using engine_types_decl[OF T(1)] by simp
next
  fix U :: "'m engine_component component_decl" and d toSet d'
  assume U: "U \<in> engine_types" "fst (createInstance (declName U) (registry engine_class)) = Some d"
    "setRequirementsC engine_class d toSet = Inr d'" "isInstance T d'"
  then have "declName T = class_name d'" using engine_types_decl[OF T(1)] by simp
  also have "\<dots> = declName U" using U(3) engine_setRequirements_class[of d toSet d'] engine_created_class[OF U(2)] by simp
  finally show "U = T" using inj_onD[OF engine_types_inj] U(1) T(1) by metis
qed

lemma engine_creates_instance:
  assumes "T \<in> engine_types" and "fst (createInstance (declName T) (registry engine_class)) = Some d"
    and "setRequirementsC engine_class d toSet = Inr d'"
  shows "isInstance T d'"
  using engine_types_decl[OF assms(1)] engine_setRequirements_class[of d toSet d'] engine_created_class[OF assms(2)] assms(3)
  by simp

text \<open>
  C25. A component class that declares itself lonely (\<open>Transform\<close>, \<open>Kamera\<close>, \<open>Button\<close>, \<open>DrawableRenderer\<close>,
  \<open>StringRenderer::Instance\<close>, \<open>DragMover\<close>, \<open>ButtonChecker\<close>): in every scene that is built with the classes of the
  program by the operations of \<open>built_by\<close>, writes to components and loads that give every component its class back
  included, no object has two instances of it. \<open>addComponent\<close> throws on an object that has one, and when it returns the object has exactly the
  instance it returned.
\<close>

theorem lonely_at_most_once:
  fixes T :: "'m engine_component component_decl"
  assumes "built_by engine_class engine_types h st" and "map_getById (objects st) i = Some a" and "cells h a = Some g"
    and "T \<in> engine_types" and "isLonly T"
  shows "length (findComponents (isInstance T) a g) \<le> 1 \<and>
    (findComponents (isInstance T) a g \<noteq> [] \<longrightarrow> addComponent engine_class T a h = Inl (Exception
      ''es ist bereits eine Instanz dieser componente enthalten und die Componente ist als Lonly Makiert'')) \<and>
    (\<forall>c h'. addComponent engine_class T a h = Inr (c, h') \<longrightarrow>
      (\<exists>g'. cells h' a = Some g' \<and> findComponents (isInstance T) a g' = [c]))"
proof -
  note T = engine_lonely[OF assms(4,5)]
  have "view h st i = Some g" using assms(2,3) by (auto simp: view_Some)
  then have one: "length (findComponents (isInstance T) a g) \<le> 1"
    using lonely_kept[OF T assms(1)] unfolding at_most_one_def instances_find by blast
  have creates: "isInstance T d'" if "fst (createInstance (declName T) (registry engine_class)) = Some d"
      "setRequirementsC engine_class d toSet = Inr d'" for d toSet d'
    by (rule engine_creates_instance[OF assms(4) that])
  show ?thesis using one addComponent_lonely(1)[OF T assms(3) creates] addComponent_lonely(2)[OF T assms(3) creates]
    by (intro conjI impI allI) simp_all
qed

theorem lonely_at_most_once_witness:
  "\<exists>c h' g'. addComponent engine_class transform_decl 0 (two_heap :: unit eheap) = Inr (c, h') \<and> cells h' 0 = Some g' \<and>
    findComponents (isInstance transform_decl) 0 g' = [c] \<and>
    addComponent engine_class transform_decl 0 h' = Inl (Exception
      ''es ist bereits eine Instanz dieser componente enthalten und die Componente ist als Lonly Makiert'')"
proof -
  have T: "transform_decl \<in> engine_types" "isLonly transform_decl"
    by (simp_all add: engine_types_def engine_type_list_def transform_decl_def decl_of_def)
  have m: "map_getById (objects two_storage) 0 = Some 0" by (simp add: two_storage_def map_getById_def)
  have s: "built_by engine_class engine_types two_heap two_storage" by (rule two_built)
  have g: "cells two_heap 0 = Some (new_game_object\<lparr>go_ID := 0\<rparr>)" by (simp add: two_heap_def)
  obtain c h' where a: "addComponent engine_class transform_decl 0 (two_heap :: unit eheap) = Inr (c, h')"
    by (simp add: addComponent_def two_heap_def new_game_object_def findComponents_def transform_decl_def decl_of_def
        engine_created engine_registrations_def)
  obtain g' where g': "cells h' 0 = Some g'" "findComponents (isInstance transform_decl) 0 g' = [c]"
    using lonely_at_most_once[OF s m g T] a by blast
  have "built_by engine_class engine_types h' two_storage" by (rule scene_component[OF s m a T(1)])
  from lonely_at_most_once[OF this m g'(1) T] g' a show ?thesis by auto
qed


section \<open>The contract of saving and loading\<close>

fun engine_enc :: "'m engine_component \<Rightarrow> byte list" where
  "engine_enc (CFile x) = fileComponent_enc x"
| "engine_enc (CTransform x) = transform_enc x"
| "engine_enc (CKamera x) = kamera_enc x"
| "engine_enc (CButton x) = enc_vec pair_bytes (payloadIDs x)"
| "engine_enc (CRenderer x) = renderer_enc x"
| "engine_enc (CSprite x) = sprite_enc x"
| "engine_enc (CTeilSprite x) = teilSprite_enc x"
| "engine_enc (CInstancedSprite x) = instancedSprite_enc x"
| "engine_enc (CITSInstance x) = itsInstance_enc x"
| "engine_enc (CInstancedTeilSprite x) = instancedTeilSprite_enc x"
| "engine_enc (CStringInstance x) = enc_string (si_string x)"
| "engine_enc (CStringRenderer x) = stringRenderer_enc x"
| "engine_enc (CDragMover x) = []"
| "engine_enc (CButtonChecker x) = []"
| "engine_enc (CObjectKlicker x) = []"

fun engine_img :: "'m engine_component \<Rightarrow> 'm engine_component" where
  "engine_img (CFile x) = CFile x"
| "engine_img (CTransform x) = CTransform (transform_img x)"
| "engine_img (CKamera x) = CKamera (kamera_img x)"
| "engine_img (CButton x) = CButton (button_img x)"
| "engine_img (CRenderer x) = CRenderer (renderer_img x)"
| "engine_img (CSprite x) = CSprite (sprite_img x)"
| "engine_img (CTeilSprite x) = CTeilSprite (teilSprite_img x)"
| "engine_img (CInstancedSprite x) = CInstancedSprite (instancedSprite_img x)"
| "engine_img (CITSInstance x) = CITSInstance (itsInstance_img x)"
| "engine_img (CInstancedTeilSprite x) = CInstancedTeilSprite (instancedTeilSprite_img x)"
| "engine_img (CStringInstance x) = CStringInstance (stringInstance_img x)"
| "engine_img (CStringRenderer x) = CStringRenderer (stringRenderer_img x)"
| "engine_img (CDragMover x) = CDragMover new_drag_mover"
| "engine_img (CButtonChecker x) = CButtonChecker x"
| "engine_img (CObjectKlicker x) = CObjectKlicker new_object_klicker"

fun engine_ok :: "'m engine_component \<Rightarrow> bool" where
  "engine_ok (CFile x) = (length (toPutInFile x) < 2147483648)"
| "engine_ok (CTransform x) = (int_ok (pGOID x))"
| "engine_ok (CKamera x) = (kamera_ready x)"
| "engine_ok (CButton x) = (ok_vec pair_ok (payloadIDs x))"
| "engine_ok (CRenderer x) = (renderer_ok x)"
| "engine_ok (CSprite x) = True"
| "engine_ok (CTeilSprite x) = (length (m_spriteRect x) = 4)"
| "engine_ok (CInstancedSprite x) = (ok_vec int_ok (m_instancenID x))"
| "engine_ok (CITSInstance x) = (i_rect x \<noteq> None)"
| "engine_ok (CInstancedTeilSprite x) = (ok_vec pair_ok (its_instancenIDs x))"
| "engine_ok (CStringInstance x) = True"
| "engine_ok (CStringRenderer x) = (ok_vec pair_ok (sr_instancenIDs x) \<and> glyphs_ok x)"
| "engine_ok (CDragMover x) = True"
| "engine_ok (CButtonChecker x) = False"
| "engine_ok (CObjectKlicker x) = True"

fun engine_eff :: "'m engine_component \<Rightarrow> file_system \<Rightarrow> file_system" where
  "engine_eff (CFile x) = createFileWith (filePath x) (toPutInFile x)"
| "engine_eff _ = (\<lambda>w. w)"

lemma reads_wrap: "reads rd bs x eff \<Longrightarrow> reads (bindP rd (\<lambda>x. retP (f x))) bs (f x) eff"
  using reads_bind[where f = "\<lambda>x. retP (f x)", OF _ reads_ret] by fastforce

lemma engine_serialize_appends:
  "engine_ok c \<Longrightarrow> appends (engine_serialize c) (engine_enc c @ enc_string (class_name c))"
proof (cases c)
  case (CFile x)
  then show "engine_ok c \<Longrightarrow> ?thesis" using file_component.ser_appends[of x] by simp
next
  case (CTransform x)
  then show "engine_ok c \<Longrightarrow> ?thesis" using transform.ser_appends[of x] by simp
next
  case (CKamera x)
  then show "engine_ok c \<Longrightarrow> ?thesis" using kamera.ser_appends[of x] by simp
next
  case (CButton x)
  then show "engine_ok c \<Longrightarrow> ?thesis" using button.ser_appends[of x] by simp
next
  case (CRenderer x)
  then show "engine_ok c \<Longrightarrow> ?thesis" using renderer.ser_appends[of x] by simp
next
  case (CSprite x)
  then show "engine_ok c \<Longrightarrow> ?thesis" using sprite.ser_appends[of x] by simp
next
  case (CTeilSprite x)
  then show "engine_ok c \<Longrightarrow> ?thesis" using teil_sprite.ser_appends[of x] by simp
next
  case (CInstancedSprite x)
  then show "engine_ok c \<Longrightarrow> ?thesis" using instanced_sprite.ser_appends[of x] by simp
next
  case (CITSInstance x)
  then show "engine_ok c \<Longrightarrow> ?thesis" using its_instance.ser_appends[of x] by simp
next
  case (CInstancedTeilSprite x)
  then show "engine_ok c \<Longrightarrow> ?thesis" using instanced_teil_sprite.ser_appends[of x] by simp
next
  case (CStringInstance x)
  then show "engine_ok c \<Longrightarrow> ?thesis" using string_instance.ser_appends[of x] by simp
next
  case (CStringRenderer x)
  then show "engine_ok c \<Longrightarrow> ?thesis" using string_renderer.ser_appends[of x] by simp
next
  case (CDragMover x)
  then show "engine_ok c \<Longrightarrow> ?thesis" using drag_mover.ser_appends[of x] by simp
next
  case (CButtonChecker x)
  then show "engine_ok c \<Longrightarrow> ?thesis" by simp
next
  case (CObjectKlicker x)
  then show "engine_ok c \<Longrightarrow> ?thesis" using object_klicker.ser_appends[of x] by simp
qed

lemma engine_creates:
  "engine_ok c \<Longrightarrow> \<exists>d. fst (createInstance (class_name c) (registry engine_class)) = Some d \<and>
     reads (engine_set d) (engine_enc c) (engine_img c) (engine_eff c)"
proof (cases c)
  case (CFile x)
  then show "engine_ok c \<Longrightarrow> ?thesis" using reads_wrap[OF file_component.set_reads[of x], of CFile]
    by (simp add: engine_created engine_registrations_def)
next
  case (CTransform x)
  then show "engine_ok c \<Longrightarrow> ?thesis" using reads_wrap[OF transform.set_reads[of x], of CTransform]
    by (simp add: engine_created engine_registrations_def)
next
  case (CKamera x)
  then show "engine_ok c \<Longrightarrow> ?thesis" using reads_wrap[OF kamera.set_reads[of x], of CKamera]
    by (simp add: engine_created engine_registrations_def)
next
  case (CButton x)
  then show "engine_ok c \<Longrightarrow> ?thesis" using reads_wrap[OF button.set_reads[of x], of CButton]
    by (simp add: engine_created engine_registrations_def)
next
  case (CRenderer x)
  then show "engine_ok c \<Longrightarrow> ?thesis" using reads_wrap[OF renderer.set_reads[of x], of CRenderer]
    by (simp add: engine_created engine_registrations_def)
next
  case (CSprite x)
  then show "engine_ok c \<Longrightarrow> ?thesis" using reads_wrap[OF sprite.set_reads[of x], of CSprite]
    by (simp add: engine_created engine_registrations_def)
next
  case (CTeilSprite x)
  then show "engine_ok c \<Longrightarrow> ?thesis" using reads_wrap[OF teil_sprite.set_reads[of x], of CTeilSprite]
    by (simp add: engine_created engine_registrations_def)
next
  case (CInstancedSprite x)
  then show "engine_ok c \<Longrightarrow> ?thesis" using reads_wrap[OF instanced_sprite.set_reads[of x], of CInstancedSprite]
    by (simp add: engine_created engine_registrations_def)
next
  case (CITSInstance x)
  then show "engine_ok c \<Longrightarrow> ?thesis" using reads_wrap[OF its_instance.set_reads[of x], of CITSInstance]
    by (simp add: engine_created engine_registrations_def)
next
  case (CInstancedTeilSprite x)
  then show "engine_ok c \<Longrightarrow> ?thesis" using reads_wrap[OF instanced_teil_sprite.set_reads[of x], of CInstancedTeilSprite]
    by (simp add: engine_created engine_registrations_def)
next
  case (CStringInstance x)
  then show "engine_ok c \<Longrightarrow> ?thesis" using reads_wrap[OF string_instance.set_reads[of x], of CStringInstance]
    by (simp add: engine_created engine_registrations_def)
next
  case (CStringRenderer x)
  then show "engine_ok c \<Longrightarrow> ?thesis" using reads_wrap[OF string_renderer.set_reads[of x], of CStringRenderer]
    by (simp add: engine_created engine_registrations_def)
next
  case (CDragMover x)
  then show "engine_ok c \<Longrightarrow> ?thesis" using reads_wrap[OF drag_mover.set_reads, of CDragMover]
    by (simp add: engine_created engine_registrations_def)
next
  case (CButtonChecker x)
  then show "engine_ok c \<Longrightarrow> ?thesis" by simp
next
  case (CObjectKlicker x)
  then show "engine_ok c \<Longrightarrow> ?thesis" using reads_wrap[OF object_klicker.set_reads, of CObjectKlicker]
    by (simp add: engine_created engine_registrations_def)
qed

lemma engine_img_class: "class_name (engine_img c) = class_name c"
  by (cases c) simp_all

interpretation engine: component_codec engine_class engine_enc engine_img engine_eff engine_ok
  by unfold_locales (use engine_serialize_appends engine_creates in simp_all)



section \<open>Whole scenes\<close>










section \<open>What loading loses\<close>

lemma engine_component_saved:
  assumes "engine_ok c" and "length bs + length (engine_enc c) + length (class_name c) + 4 < 2147483648"
  shows "engine_serialize c bs = Inr (bs @ engine_enc c @ enc_string (class_name c))"
    and "readComponent engine_class a (bs @ engine_enc c @ enc_string (class_name c), w)
      = Inr (\<lparr>isActiv = None, gameobject = Some a, obj = engine_img c\<rparr>, (bs, engine_eff c w))"
proof -
  let ?c = "\<lparr>isActiv = None, gameobject = None, obj = c\<rparr>"
  have l: "length bs + length (comp_enc engine_class engine_enc ?c) < 2147483648"
    using assms(2) by (simp add: comp_enc_def)
  show "engine_serialize c bs = Inr (bs @ engine_enc c @ enc_string (class_name c))"
    using appendsD[OF engine_serialize_appends[OF assms(1)], of bs] l by (simp add: comp_enc_def)
  show "readComponent engine_class a (bs @ engine_enc c @ enc_string (class_name c), w)
      = Inr (\<lparr>isActiv = None, gameobject = Some a, obj = engine_img c\<rparr>, (bs, engine_eff c w))"
    using readsD[OF codec.rd_back[OF engine.comp_codec, where x = ?c] l] assms(1)
    by (simp add: comp_enc_def comp_img_def)
qed

text \<open>
  \<open>ButtonChecker\<close> writes the class name of \<open>DragMover\<close>: what is read back in its place is a
  \<open>DragMover\<close> without a transform, which the next turn of the wheel dereferences.
\<close>

theorem button_checker_loads_as_drag_mover:
  assumes "length bs + 19 < 2147483648" and "comp_at h r = Inr (CDragMover new_drag_mover)"
  shows "\<exists>so. serializeC engine_class (CButtonChecker b) bs = Inr so \<and>
    readComponent engine_class a (so, w)
      = Inr (\<lparr>isActiv = None, gameobject = Some a, obj = CDragMover new_drag_mover\<rparr>, (bs, w)) \<and>
    dragMover_onEvent r (MouseScroll dir) h = Inl (Undefined NullDeref)"
proof -
  have e: "buttonChecker_serialize b = dragMover_serialize new_drag_mover"
    by (simp add: buttonChecker_serialize_def dragMover_serialize_def)
  have "dragMover_onEvent r (MouseScroll dir) h = Inl (Undefined NullDeref)"
    using assms(2) by (simp add: dragMover_onEvent_def new_drag_mover_def)
  then show ?thesis using engine_component_saved(1)[of "CDragMover new_drag_mover" bs]
      engine_component_saved(2)[of "CDragMover new_drag_mover" bs a w] assms(1) by (simp add: e)
qed

text \<open>A disk without files for the examples.\<close>

definition empty_disk :: file_system where
  "empty_disk = \<lparr>files = (\<lambda>_. None), writable = (\<lambda>_. True)\<rparr>"

theorem button_checker_loads_as_drag_mover_witness:
  "\<exists>so. serializeC engine_class (CButtonChecker new_button_checker) [] = Inr so \<and>
    readComponent engine_class 7 (so, empty_disk)
      = Inr (\<lparr>isActiv = None, gameobject = Some 7, obj = CDragMover new_drag_mover\<rparr>, ([], empty_disk))"
proof -
  let ?h = "\<lparr>cells = [7 \<mapsto> holder 7 0 [CDragMover new_drag_mover]], next_addr = 8\<rparr>"
  have "comp_at ?h (7, 0) = Inr (CDragMover new_drag_mover)"
    by (simp add: comp_at_def holder_def new_game_object_def)
  from button_checker_loads_as_drag_mover[OF _ this, of "[]" new_button_checker 7 empty_disk] show ?thesis by auto
qed

text \<open>
  So a scene with \<open>ButtonChecker\<close>s is saved as if each of them were a new \<open>DragMover\<close>.
\<close>

fun as_saved :: "'m engine_component \<Rightarrow> 'm engine_component" where
  "as_saved (CButtonChecker x) = CDragMover new_drag_mover"
| "as_saved c = c"

lemma as_saved_mover: "class_name (as_saved c) = ''class DragMover'' \<longleftrightarrow>
    class_name c = ''class DragMover'' \<or> class_name c = ''class ButtonChecker''"
  by (cases c) simp_all

lemma engine_serialize_as_saved: "engine_serialize (as_saved c) = engine_serialize c"
  by (cases c) (simp_all add: buttonChecker_serialize_def dragMover_serialize_def)

definition object_as_saved :: "'m engine_component game_object \<Rightarrow> 'm engine_component game_object" where
  "object_as_saved g = g\<lparr>componenten := map (\<lambda>c. c\<lparr>obj := as_saved (obj c)\<rparr>) (componenten g)\<rparr>"

definition heap_as_saved :: "'m eheap \<Rightarrow> 'm eheap" where
  "heap_as_saved h = h\<lparr>cells := (\<lambda>a. map_option object_as_saved (cells h a))\<rparr>"

lemma write_rev_map: "write_rev f (map k xs) = write_rev (\<lambda>x. f (k x)) xs"
  by (simp add: write_rev_def rev_map take_map o_def)

lemma go_serialize_as_saved: "go_serialize engine_class (object_as_saved g) = go_serialize engine_class g"
  by (simp add: go_serialize_def object_as_saved_def write_vec_def write_rev_map engine_serialize_as_saved)

lemma storage_serialize_as_saved: "storage_serialize engine_class (heap_as_saved h) st = storage_serialize engine_class h st"
proof -
  have "bindR (get_obj (heap_as_saved h) a) (\<lambda>g. go_serialize engine_class g msg) =
      bindR (get_obj h a) (\<lambda>g. go_serialize engine_class g msg)" for a msg
    by (cases "cells h a") (simp_all add: heap_as_saved_def get_obj_def go_serialize_as_saved)
  then show ?thesis by (simp add: storage_serialize_def)
qed

lemma stored_as_saved: "storage_wf h st \<Longrightarrow> stored (heap_as_saved h) st = map object_as_saved (stored h st)"
  unfolding stored_def heap_as_saved_def storage_wf_def by (auto dest!: bspec)

lemma storage_wf_as_saved: "storage_wf h st \<Longrightarrow> storage_wf (heap_as_saved h) st"
  unfolding heap_as_saved_def storage_wf_def by (auto simp: object_as_saved_def dest!: bspec)

text \<open>
  C36. Loading does not keep the promise of the lonely classes: an object that holds a \<open>DragMover\<close> and a
  \<open>ButtonChecker\<close> is saved and loaded without any error, and the loaded object has two instances of the lonely
  class \<open>DragMover\<close>.
\<close>

theorem loaded_object_has_two_movers:
  fixes h h0 :: "'m eheap"
  assumes "storage_wf h st" and "list_all (go_ok engine_ok) (map object_as_saved (stored h st))"
    and "length (storage_enc engine_class engine_enc (map object_as_saved (stored h st))) < 2147483648"
    and "map_getById (objects st) i = Some a" and "cells h a = Some g"
    and "findComponents (isInstance dragMover_decl) a g \<noteq> []" and "findComponents (isInstance buttonChecker_decl) a g \<noteq> []"
  shows "\<exists>so h' st' w' a' g'. storage_serialize engine_class h st [] = Inr so \<and>
    bindP pop_string (\<lambda>_. storage_set engine_class (h0, new_storage)) (so, w) = Inr ((h', st'), w') \<and>
    map_getById (objects st') i = Some a' \<and> cells h' a' = Some g' \<and>
    isLonly (dragMover_decl :: 'm engine_component component_decl) \<and>
    2 \<le> length (findComponents (isInstance dragMover_decl) a' g')"
proof -
  let ?h = "heap_as_saved h"
  have wf: "storage_wf ?h st" by (rule storage_wf_as_saved[OF assms(1)])
  note stored = stored_as_saved[OF assms(1)]
  obtain so h' st' where s: "storage_serialize engine_class h st [] = Inr so"
      "bindP pop_string (\<lambda>_. storage_set engine_class (h0, new_storage)) (so, w)
        = Inr ((h', st'), ([], fold (go_eff engine_eff) (rev (stored ?h st)) w))"
      "map fst (objects st') = map fst (objects st)"
      "stored h' st' = map2 (go_img engine_img) (map snd (objects st')) (stored ?h st)" "storage_wf h' st'"
    using engine.storage_roundtrip[OF wf, of h0 w] assms(2,3) unfolding stored storage_serialize_as_saved by blast
  have same: "list_all2 (same_object engine_class) (stored ?h st) (stored h' st')"
    by (rule img_same_stored[OF _ s(3,4)]) (simp add: engine_img_class)
  have vi: "view ?h st i = Some (object_as_saved g)" using assms(4,5) by (simp add: view_def heap_as_saved_def)
  then obtain g' where g': "view h' st' i = Some g'" "same_object engine_class (object_as_saved g) g'"
    using same_stored_view(2)[OF wf s(5) same, of i] by (auto simp: option_rel_Some1)
  then obtain a' where a': "map_getById (objects st') i = Some a'" "cells h' a' = Some g'" by (auto simp: view_Some)
  have names: "map (\<lambda>c. class_name (obj c)) (componenten g') = map (\<lambda>c. class_name (as_saved (obj c))) (componenten g)"
    using g'(2) by (simp add: same_object_def object_as_saved_def o_def)
  have "length (filter (\<lambda>n. n = ''class DragMover'') (map (\<lambda>c. class_name (as_saved (obj c))) cs))
      = length (filter (\<lambda>c. class_name (obj c) = ''class DragMover'') cs)
      + length (filter (\<lambda>c. class_name (obj c) = ''class ButtonChecker'') cs)" for cs :: "'m engine_component component list"
    by (induction cs) (auto simp: as_saved_mover)
  moreover have "filter (\<lambda>c. class_name (obj c) = ''class DragMover'') (componenten g) \<noteq> []"
      "filter (\<lambda>c. class_name (obj c) = ''class ButtonChecker'') (componenten g) \<noteq> []"
    using assms(6,7) by (simp_all add: findComponents_empty dragMover_decl_def buttonChecker_decl_def decl_of_def filter_empty_conv)
  ultimately have "2 \<le> length (filter (\<lambda>n. n = ''class DragMover'') (map (\<lambda>c. class_name (obj c)) (componenten g')))"
    unfolding names by (simp add: Suc_le_eq[symmetric] flip: length_greater_0_conv)
  then have "2 \<le> length (findComponents (isInstance dragMover_decl) a' g')"
    unfolding instances_find instances_def by (simp add: dragMover_decl_def decl_of_def filter_map o_def)
  then show ?thesis using s(1,2) a' by (intro exI conjI) (assumption | simp add: dragMover_decl_def decl_of_def)+
qed

text \<open>A camera that can be dragged, with a renderer and its checker on the same object.\<close>

definition crowded_heap :: "unit eheap" where
  "crowded_heap = \<lparr>cells = [0 \<mapsto> holder 0 0 [CTransform new_transform, CDragMover new_drag_mover,
     CInstancedSprite new_instanced_sprite, CButtonChecker new_button_checker]], next_addr = 1\<rparr>"

theorem loaded_object_has_two_movers_witness:
  "\<exists>so h' st' w' a' g'. storage_serialize engine_class crowded_heap \<lparr>objects = [(0, 0)], counter = 1\<rparr> [] = Inr so \<and>
    bindP pop_string (\<lambda>_. storage_set engine_class (empty_heap :: unit eheap, new_storage)) (so, empty_disk) = Inr ((h', st'), w') \<and>
    cells h' a' = Some g' \<and> 2 \<le> length (findComponents (isInstance dragMover_decl) a' g')"
proof -
  let ?st = "\<lparr>objects = [(0, 0)], counter = 1\<rparr> :: storage"
  let ?cs = "[CTransform new_transform, CDragMover new_drag_mover, CInstancedSprite new_instanced_sprite,
    CButtonChecker new_button_checker] :: unit engine_component list"
  have st: "stored crowded_heap ?st = [holder 0 0 ?cs]" by (simp add: stored_def crowded_heap_def)
  have wf: "storage_wf crowded_heap ?st"
    by (simp add: storage_wf_def crowded_heap_def smap_inv_def holder_def new_game_object_def)
  have ok: "list_all (go_ok engine_ok) (map object_as_saved (stored crowded_heap ?st))"
    by (simp add: st go_ok_def holder_def new_game_object_def object_as_saved_def ok_vec_def new_transform_def
        new_instanced_sprite_def int_ok_def)
  have ln: "length (storage_enc engine_class engine_enc (map object_as_saved (stored crowded_heap ?st))) < 2147483648"
    by (simp add: st storage_enc_def go_enc_def comp_enc_def holder_def new_game_object_def object_as_saved_def
        enc_vec_def transform_enc_def instancedSprite_enc_def new_instanced_sprite_def)
  have at: "map_getById (objects ?st) 0 = Some 0" "cells crowded_heap 0 = Some (holder 0 0 ?cs)"
    by (simp_all add: map_getById_def crowded_heap_def)
  have two: "findComponents (isInstance dragMover_decl) 0 (holder 0 0 ?cs) \<noteq> []"
      "findComponents (isInstance buttonChecker_decl) 0 (holder 0 0 ?cs) \<noteq> []"
    by (simp_all add: findComponents_def dragMover_decl_def buttonChecker_decl_def decl_of_def holder_def new_game_object_def)
  from loaded_object_has_two_movers[OF wf ok ln at two, of empty_heap empty_disk] show ?thesis by blast
qed

text \<open>
  C37. A camera that was saved with all its members is read back with its view, but its transform is lost
  and \<open>afterSet\<close> does not look for it: in every scene that holds the loaded camera the projection reads
  the pointer uninitialised.
\<close>

theorem loaded_camera_is_unusable:
  fixes k :: "'m kamera" and xm :: "'m xnamath"
  assumes "kamera_ready k" and "length bs + 40 < 2147483648"
  shows "\<exists>so c. serializeC engine_class (CKamera k) bs = Inr so \<and>
    readComponent engine_class a (so, w) = Inr (c, (bs, w)) \<and>
    (\<forall>st h r. engine_afterSet st h r c = Inr c) \<and>
    (\<forall>h r fuel. comp_at h r = Inr (obj c) \<longrightarrow> getProjectionMatrix fuel xm r h = Inl (Undefined Uninit))"
proof -
  let ?c = "\<lparr>isActiv = None, gameobject = Some a, obj = CKamera (kamera_img k)\<rparr>"
  have rd: "readComponent engine_class a (bs @ kamera_enc k @ enc_string ''class Kamera'', w) = Inr (?c, (bs, w))"
    and sr: "kamera_serialize k bs = Inr (bs @ kamera_enc k @ enc_string ''class Kamera'')"
    using engine_component_saved(1)[of "CKamera k" bs] engine_component_saved(2)[of "CKamera k" bs a w] assms by (simp_all add: kamera_enc_def)
  have pr: "getProjectionMatrix fuel xm r h = Inl (Undefined Uninit)"
    if at: "comp_at h r = Inr (CKamera (kamera_img k))" for h :: "'m eheap" and r fuel
  proof -
    obtain m where m: "projection_matrix xm (kamera_img k) = Inr m"
      using assms(1) by (auto simp: kamera_ready_def projection_matrix_def kamera_img_def new_kamera_def Let_def)
    let ?k = "(kamera_img k)\<lparr>m_projectionMatrix := Some m, m_projectionDirty := Some False\<rparr>"
    obtain h' where "upd_comp r (CKamera ?k) h = Inr h'" using upd_comp_total[OF at] by blast
    then show ?thesis using at m by (simp add: getProjectionMatrix_def kamera_img_def new_kamera_def)
  qed
  show ?thesis by (intro exI conjI) (use rd sr pr in \<open>auto simp: engine_afterSet_def\<close>)
qed

theorem loaded_camera_is_unusable_witness:
  "\<exists>so c. serializeC engine_class (CKamera (setOrthogonal False
      (setProjection f32_two f32_two f32_two f32_one (new_kamera :: unit kamera)))) [] = Inr so \<and>
    readComponent engine_class 7 (so, empty_disk) = Inr (c, ([], empty_disk)) \<and>
    getProjectionMatrix 1 unit_xna (7, 0) \<lparr>cells = [7 \<mapsto> holder 7 0 [obj c]], next_addr = 8\<rparr> = Inl (Undefined Uninit)"
proof -
  let ?k = "setOrthogonal False (setProjection f32_two f32_two f32_two f32_one (new_kamera :: unit kamera))"
  have "kamera_ready ?k" by (simp add: kamera_ready_def setOrthogonal_def setProjection_def new_kamera_def)
  from loaded_camera_is_unusable[OF this, of "[]" 7 empty_disk unit_xna]
  obtain so c where "serializeC engine_class (CKamera ?k) [] = Inr so"
      "readComponent engine_class 7 (so, empty_disk) = Inr (c, ([], empty_disk))"
      and p: "\<forall>h r fuel. comp_at h r = Inr (obj c) \<longrightarrow> getProjectionMatrix fuel unit_xna r h = Inl (Undefined Uninit)"
    by (auto simp del: engine_class_simps split_paired_All split_paired_Ex)
  moreover have "comp_at \<lparr>cells = [7 \<mapsto> holder 7 0 [obj c]], next_addr = 8\<rparr> (7, 0) = Inr (obj c)"
    by (simp add: comp_at_def holder_def new_game_object_def)
  ultimately show ?thesis by blast
qed

end
