(* ===== verification/Scene_Display.thy ===== *)
theory Scene_Display
  imports Engine_Scene
begin

text \<open>
  \<open>addGameobjectDisplayer\<close> of \<open>Application/SceenViewer/Main.cpp\<close>: for every object of an inspected scene
  the viewer creates three objects of its own, a row and column apart, with a picture, a button and a
  label. The recursion over the children is the fold of one step over a layout of the tree, in which no
  two objects share a cell.
\<close>

section \<open>Edits through pointers\<close>

text \<open>\<open>p->f(...)\<close> on a component that the program holds a typed pointer to.\<close>

definition edit ::
    "('m engine_component \<Rightarrow> 'x option) \<Rightarrow> ('x \<Rightarrow> 'm engine_component) \<Rightarrow> cref \<Rightarrow> ('x \<Rightarrow> 'x result) \<Rightarrow>
     'm eheap \<Rightarrow> 'm eheap result" where
  "edit as mk r f h = bindR (cast_at as h r) (\<lambda>x. bindR (f x) (\<lambda>x. upd_comp r (mk x) h))"

abbreviation edit_transform :: "cref \<Rightarrow> ('m transform \<Rightarrow> 'm transform) \<Rightarrow> 'm eheap \<Rightarrow> 'm eheap result" where
  "edit_transform r f \<equiv> edit as_transform CTransform r (\<lambda>t. Inr (f t))"


section \<open>One object\<close>

text \<open>The parts of the body, in its order: the three objects, their transforms, the picture, the label.\<close>

definition shown_object :: "'m eheap \<times> storage \<Rightarrow> (addr \<times> cref \<times> 'm eheap \<times> storage) result" where
  "shown_object = (\<lambda>(h, st).
     bindR (createGameObject h st) (\<lambda>(temp, h, st).
     bindR (addComponent engine_class transform_decl temp h) (\<lambda>(tempTransform, h).
     Inr (temp, tempTransform, h, st))))"

definition shown_parent :: "storage \<Rightarrow> addr \<Rightarrow> cref \<Rightarrow> addr \<Rightarrow> cref \<Rightarrow> 'm eheap \<Rightarrow> 'm eheap result" where
  "shown_parent st temp tempTransform temp0 tempTransform0 h =
     bindR (setParrent st temp temp0 h)
       (edit_transform tempTransform (\<lambda>t. t\<lparr>m_parrent := Ptr tempTransform0\<rparr>))"

definition shown_place :: "int \<Rightarrow> int \<Rightarrow> int \<Rightarrow> cref \<Rightarrow> 'm eheap \<Rightarrow> 'm eheap result" where
  "shown_place screenHeight cnt sidecount tempTransform0 h =
     bindR (checked_int (sidecount * 80)) (\<lambda>x.
     bindR (checked_int (80 * cnt)) (\<lambda>row.
     bindR (checked_int (screenHeight - row)) (\<lambda>y.
     bindR (edit_transform tempTransform0 (SetPosition_xyz (f32_of_int x) (f32_of_int y) f32_zero) h)
       (edit_transform tempTransform0 (SetScale_xyz (f32_of_int 8) (f32_of_int 8) f32_one)))))"

definition shown_picture ::
    "xmfloat4 list \<Rightarrow> cref \<Rightarrow> cref \<Rightarrow> addr \<Rightarrow> cref \<Rightarrow> 'm eheap \<Rightarrow> 'm eheap result" where
  "shown_picture rects1 instanceRenderer buttonChecker temp1 tempTransform1 h =
     bindR (addComponent engine_class itsInstance_decl temp1 h) (\<lambda>(tempInstance, h).
     bindR (vec_at rects1 2) (\<lambda>rect2.
     bindR (edit as_its_instance CITSInstance tempInstance (\<lambda>i. Inr (i\<lparr>i_rect := Some rect2\<rparr>)) h) (\<lambda>h.
     bindR (edit_transform tempTransform1 (SetScale_xyz (f32_of_int 64) (f32_of_int 64) f32_one) h) (\<lambda>h.
     bindR (edit as_instanced_teil_sprite CInstancedTeilSprite instanceRenderer (its_addInstance h tempInstance) h) (\<lambda>h.
     bindR (addComponent engine_class button_decl temp1 h) (\<lambda>(button, h).
     bindR (edit as_renderer CRenderer buttonChecker (addButton h button) h) (\<lambda>h.
     bindR (addComponent engine_class objectKlicker_decl temp1 h) (\<lambda>(klicker, h).
     bindR (vec_at rects1 3) (\<lambda>rect3.
     bindR (edit as_object_klicker CObjectKlicker klicker (\<lambda>k. Inr (k\<lparr>onklick := [Some rect2, Some rect3]\<rparr>)) h) (\<lambda>h.
     edit as_button CButton button (addActor h klicker) h))))))))))"

text \<open>\<open>std::string = int\<close> assigns the one character with that code.\<close>

definition shown_label :: "addr \<Rightarrow> addr \<Rightarrow> cref \<Rightarrow> 'm eheap \<Rightarrow> 'm eheap result" where
  "shown_label it temp2 tempTransform2 h =
     bindR (addComponent engine_class stringInstance_decl temp2 h) (\<lambda>(textInstance, h).
     bindR (get_obj h it) (\<lambda>g.
     bindR (checked_int (go_ID g + 48)) (\<lambda>c.
     bindR (edit as_string_instance CStringInstance textInstance
             (\<lambda>i. Inr (i\<lparr>si_string := [char_of (nat (c mod 256))]\<rparr>)) h)
       (edit_transform tempTransform2 (SetPosition_xyz (f32_of_int (- 16)) (f32_of_int 16) f32_zero)))))"

definition show_one ::
    "int \<Rightarrow> xmfloat4 list \<Rightarrow> cref \<Rightarrow> cref \<Rightarrow> int \<times> int \<times> addr \<Rightarrow> 'm eheap \<times> storage \<Rightarrow>
     ('m eheap \<times> storage) result" where
  "show_one screenHeight rects1 instanceRenderer buttonChecker = (\<lambda>(cnt, sidecount, it) s.
     bindR (shown_object s) (\<lambda>(temp0, tempTransform0, s).
     bindR (shown_object s) (\<lambda>(temp1, tempTransform1, s).
     bindR (shown_object s) (\<lambda>(temp2, tempTransform2, h, st).
     bindR (shown_parent st temp1 tempTransform1 temp0 tempTransform0 h) (\<lambda>h.
     bindR (shown_parent st temp2 tempTransform2 temp0 tempTransform0 h) (\<lambda>h.
     bindR (shown_place screenHeight cnt sidecount tempTransform0 h) (\<lambda>h.
     bindR (shown_picture rects1 instanceRenderer buttonChecker temp1 tempTransform1 h) (\<lambda>h.
     bindR (shown_label it temp2 tempTransform2 h) (\<lambda>h.
     Inr (h, st))))))))))"


section \<open>The recursion\<close>

text \<open>\<open>fuel\<close> bounds the nesting of the calls.\<close>

fun addGameobjectDisplayer ::
    "nat \<Rightarrow> storage \<Rightarrow> int \<Rightarrow> xmfloat4 list \<Rightarrow> cref \<Rightarrow> cref \<Rightarrow> int \<Rightarrow> int \<Rightarrow> addr \<Rightarrow> 'm eheap \<times> storage \<Rightarrow>
     (int \<times> 'm eheap \<times> storage) result" where
  "addGameobjectDisplayer 0 inspected screenHeight rects1 ir bc cnt sidecount it s = Inl (Undefined NoReturn)"
| "addGameobjectDisplayer (Suc fuel) inspected screenHeight rects1 ir bc cnt sidecount it s =
     bindR (show_one screenHeight rects1 ir bc (cnt, sidecount, it) s) (\<lambda>s.
     bindR (get_obj (fst s) it) (\<lambda>g.
     bindR (foldR (\<lambda>child (childDepth, s).
          bindR (checked_int (cnt + childDepth)) (\<lambda>row.
          bindR (checked_int (sidecount + 1)) (\<lambda>column.
          bindR (deref (map_getById (objects inspected) child)) (\<lambda>c.
          bindR (addGameobjectDisplayer fuel inspected screenHeight rects1 ir bc row column c s) (\<lambda>(depth, s).
          bindR (checked_int (childDepth + depth)) (\<lambda>d.
          bindR (checked_int (d + 1)) (\<lambda>d.
          Inr (d, s))))))))
        (childrenIds g) (0, s)) (\<lambda>(childDepth, s).
     bindR (checked_int (childDepth - 1)) (\<lambda>d.
     Inr (max d 0, s)))))"



section \<open>One object is shown\<close>

lemma edit_runs:
  "comp_at h r = Inr c \<Longrightarrow> as c = Some x \<Longrightarrow> f x = Inr y \<Longrightarrow> edit as mk r f h = upd_comp r (mk y) h"
  by (simp add: edit_def)

lemma add_engine_component:
  assumes "cells h a = Some g" and "isLonly T \<Longrightarrow> findComponents (isInstance T) a g = []"
    and "collectRequirements engine_class (requirements T) a g = Inr toSet"
    and "map_of engine_registrations (declName T) = Some mk" and "engine_setRequirements (mk ()) toSet = Inr c"
  shows "addComponent engine_class T a h = Inr ((a, length (componenten g)), h\<lparr>cells := (cells h)(a \<mapsto>
    g\<lparr>componenten := componenten g @ [\<lparr>isActiv = go_isActiv g, gameobject = Some a, obj = c\<rparr>]\<rparr>)\<rparr>)"
  using assms by (simp add: addComponent_def engine_created)

text \<open>The three objects of a shown object.\<close>

definition shown_root :: "addr \<Rightarrow> int \<Rightarrow> int \<Rightarrow> int \<Rightarrow> int \<Rightarrow> 'm engine_component game_object" where
  "shown_root n k screenHeight row col = (holder n k [CTransform
     (SetScale_xyz (f32_of_int 8) (f32_of_int 8) f32_one
       (SetPosition_xyz (f32_of_int (col * 80)) (f32_of_int (screenHeight - 80 * row)) f32_zero new_transform))])
     \<lparr>childrenIds := [k + 1, k + 2]\<rparr>"

definition shown_button :: "addr \<Rightarrow> int \<Rightarrow> xmfloat4 list \<Rightarrow> 'm engine_component game_object" where
  "shown_button n k rects = (holder (n + 1) (k + 1)
     [CTransform (SetScale_xyz (f32_of_int 64) (f32_of_int 64) f32_one (new_transform\<lparr>m_parrent := Ptr (n, 0)\<rparr>)),
      CITSInstance \<lparr>i_transform = Ptr (n + 1, 0), i_rect = Some (rects ! 2)\<rparr>,
      CButton (new_button\<lparr>b_transform := Ptr (n + 1, 0), payload := [(n + 1, 3)], payloadIDs := [(k + 1, 0)]\<rparr>),
      CObjectKlicker \<lparr>klick = None, onklick = [Some (rects ! 2), Some (rects ! 3)], ok_inst = Ptr (n + 1, 1)\<rparr>])
     \<lparr>parrentID := k\<rparr>"

definition shown_text :: "addr \<Rightarrow> int \<Rightarrow> int \<Rightarrow> 'm engine_component game_object" where
  "shown_text n k i = (holder (n + 2) (k + 2)
     [CTransform (SetPosition_xyz (f32_of_int (- 16)) (f32_of_int 16) f32_zero (new_transform\<lparr>m_parrent := Ptr (n, 0)\<rparr>)),
      CStringInstance \<lparr>si_transform = Ptr (n + 2, 0), si_string = [char_of (nat ((i + 48) mod 256))]\<rparr>])
     \<lparr>parrentID := k\<rparr>"

lemma shown_object_ok:
  assumes "next_addr h = n" and "counter st = k" and "int_ok (k + 1)"
  shows "\<exists>h' st'. shown_object (h, st) = Inr (n, (n, 0), h', st') \<and> next_addr h' = n + 1 \<and> counter st' = k + 1 \<and>
    cells h' = (cells h)(n \<mapsto> holder n k [CTransform new_transform])"
  using assms
  by (simp add: shown_object_def createGameObject_def alloc_def addComponent_def engine_created
      engine_registrations_def transform_decl_def decl_of_def holder_def new_game_object_def findComponents_def)

lemma shown_parent_ok:
  assumes "cells h a = Some (holder a i [CTransform t])" and "cells h b = Some g" and "a \<noteq> b"
  shows "\<exists>h'. shown_parent st a (a, 0) b (b, 0) h = Inr h' \<and> next_addr h' = next_addr h \<and>
    cells h' = (cells h)(a \<mapsto> (holder a i [CTransform (t\<lparr>m_parrent := Ptr (b, 0)\<rparr>)])\<lparr>parrentID := go_ID g\<rparr>,
      b \<mapsto> g\<lparr>childrenIds := childrenIds g @ [i]\<rparr>)"
  using assms
  by (simp add: shown_parent_def setParrent_def holder_def new_game_object_def addChild_def edit_def cast_at_def
      comp_at_def upd_comp_def vec_at_def fun_eq_iff)

lemma shown_place_ok:
  assumes "cells h a = Some ((holder a i [CTransform t])\<lparr>childrenIds := cs\<rparr>)"
    and "int_ok (col * 80)" and "int_ok (80 * row)" and "int_ok (sh - 80 * row)"
  shows "\<exists>h'. shown_place sh row col (a, 0) h = Inr h' \<and> next_addr h' = next_addr h \<and>
    cells h' = (cells h)(a \<mapsto> (holder a i [CTransform
     (SetScale_xyz (f32_of_int 8) (f32_of_int 8) f32_one
       (SetPosition_xyz (f32_of_int (col * 80)) (f32_of_int (sh - 80 * row)) f32_zero t))])\<lparr>childrenIds := cs\<rparr>)"
  using assms
  by (simp add: shown_place_def holder_def new_game_object_def edit_def cast_at_def
      comp_at_def upd_comp_def vec_at_def)

lemma shown_label_ok:
  assumes "cells h a = Some ((holder a i [CTransform t])\<lparr>parrentID := p\<rparr>)" and "cells h it = Some g"
    and "it \<noteq> a" and "int_ok (go_ID g + 48)"
  shows "\<exists>h'. shown_label it a (a, 0) h = Inr h' \<and> next_addr h' = next_addr h \<and>
    cells h' = (cells h)(a \<mapsto> (holder a i [CTransform (SetPosition_xyz (f32_of_int (- 16)) (f32_of_int 16) f32_zero t),
      CStringInstance \<lparr>si_transform = Ptr (a, 0), si_string = [char_of (nat ((go_ID g + 48) mod 256))]\<rparr>])
      \<lparr>parrentID := p\<rparr>)"
  using assms
  by (simp add: shown_label_def holder_def new_game_object_def edit_def cast_at_def
      comp_at_def upd_comp_def vec_at_def addComponent_def engine_created engine_registrations_def
      stringInstance_decl_def decl_of_def findComponents_def findComponentsNamed_def
      stringInstance_setRequirements_def new_string_instance_def)


lemma upd_comp_cells:
  assumes "upd_comp q x h = Inr h'"
  shows "\<exists>g'. cells h' = (cells h)(fst q \<mapsto> g') \<and> next_addr h' = next_addr h \<and> cells h (fst q) \<noteq> None"
  using assms by (auto simp: upd_comp_def)

text \<open>The part of the scene that the picture of object \<open>a\<close> may change, besides \<open>a\<close> itself.\<close>

definition tables_extended ::
    "cref \<Rightarrow> cref \<Rightarrow> instanced_teil_sprite \<Rightarrow> drawable_renderer \<Rightarrow> addr \<Rightarrow> int \<Rightarrow> 'm eheap \<Rightarrow> 'm eheap \<Rightarrow> bool" where
  "tables_extended ir br s r a i h h' \<longleftrightarrow>
     (\<forall>q. fst q \<noteq> a \<longrightarrow> comp_at h' q =
        (if q = br then Inr (CRenderer (r\<lparr>m_buttons := m_buttons r @ [(a, 2)],
           m_buttonGameObjectIDs := m_buttonGameObjectIDs r @ [i]\<rparr>))
         else if q = ir then Inr (CInstancedTeilSprite (s\<lparr>its_instancen := its_instancen s @ [(a, 1)],
           its_instancenIDs := its_instancenIDs s @ [(i, 0)]\<rparr>))
         else comp_at h q)) \<and>
     (\<forall>b. b \<noteq> a \<longrightarrow> b \<noteq> fst ir \<longrightarrow> b \<noteq> fst br \<longrightarrow> cells h' b = cells h b) \<and>
     (\<forall>b. b \<noteq> a \<longrightarrow> (cells h' b = None) = (cells h b = None)) \<and> next_addr h' = next_addr h"

lemma tables_extendedD:
  assumes "tables_extended ir br s r a i h h'"
  shows "fst q \<noteq> a \<Longrightarrow> q \<noteq> ir \<Longrightarrow> q \<noteq> br \<Longrightarrow> comp_at h' q = comp_at h q"
    and "fst br \<noteq> a \<Longrightarrow> comp_at h' br = Inr (CRenderer (r\<lparr>m_buttons := m_buttons r @ [(a, 2)],
           m_buttonGameObjectIDs := m_buttonGameObjectIDs r @ [i]\<rparr>))"
    and "fst ir \<noteq> a \<Longrightarrow> ir \<noteq> br \<Longrightarrow> comp_at h' ir = Inr (CInstancedTeilSprite (s\<lparr>
           its_instancen := its_instancen s @ [(a, 1)], its_instancenIDs := its_instancenIDs s @ [(i, 0)]\<rparr>))"
    and "b \<noteq> a \<Longrightarrow> b \<noteq> fst ir \<Longrightarrow> b \<noteq> fst br \<Longrightarrow> cells h' b = cells h b"
    and "b \<noteq> a \<Longrightarrow> (cells h' b = None) = (cells h b = None)" and "next_addr h' = next_addr h"
  using assms unfolding tables_extended_def by metis+

lemma comp_at_cell: "fst q \<noteq> a \<Longrightarrow> comp_at (h\<lparr>cells := (cells h)(a := g)\<rparr>) q = comp_at h q"
  by (simp add: comp_at_def get_obj_def)

lemma shown_picture_ok:
  assumes a: "cells h a = Some ((holder a i [CTransform t])\<lparr>parrentID := p\<rparr>)"
    and ir: "comp_at h ir = Inr (CInstancedTeilSprite s)" "fst ir \<noteq> a"
    and br: "comp_at h br = Inr (CRenderer r)" "fst br \<noteq> a" "(a, 2) \<notin> set (m_buttons r)"
    and rects: "3 < length rects"
  shows "\<exists>h'. shown_picture rects ir br a (a, 0) h = Inr h' \<and> tables_extended ir br s r a i h h' \<and>
    cells h' a = Some ((holder a i
     [CTransform (SetScale_xyz (f32_of_int 64) (f32_of_int 64) f32_one t),
      CITSInstance \<lparr>i_transform = Ptr (a, 0), i_rect = Some (rects ! 2)\<rparr>,
      CButton (new_button\<lparr>b_transform := Ptr (a, 0), payload := [(a, 3)], payloadIDs := [(i, 0)]\<rparr>),
      CObjectKlicker \<lparr>klick = None, onklick = [Some (rects ! 2), Some (rects ! 3)], ok_inst = Ptr (a, 1)\<rparr>])
     \<lparr>parrentID := p\<rparr>)"
proof -
  let ?obj = "\<lambda>cs. (holder a i cs)\<lparr>parrentID := p\<rparr> :: 'a engine_component game_object"
  let ?t = "CTransform (SetScale_xyz (f32_of_int 64) (f32_of_int 64) f32_one t) :: 'a engine_component"
  let ?inst = "CITSInstance \<lparr>i_transform = Ptr (a, 0), i_rect = Some (rects ! 2)\<rparr> :: 'a engine_component"
  let ?h1 = "h\<lparr>cells := (cells h)(a \<mapsto> ?obj [CTransform t, CITSInstance (new_its_instance\<lparr>i_transform := Ptr (a, 0)\<rparr>)])\<rparr>"
  let ?h2 = "h\<lparr>cells := (cells h)(a \<mapsto> ?obj [?t, ?inst])\<rparr>"
  note run = holder_def new_game_object_def edit_def cast_at_def comp_at_def upd_comp_def vec_at_def
    addComponent_def engine_created engine_registrations_def decl_of_def findComponents_def findComponentsNamed_def
  have 1: "addComponent engine_class itsInstance_decl a h = Inr ((a, 1), ?h1)"
    using a by (simp add: run itsInstance_decl_def itsInstance_setRequirements_def)
  let ?h1' = "h\<lparr>cells := (cells h)(a \<mapsto> ?obj [CTransform t, ?inst])\<rparr>"
  have 2: "edit as_its_instance CITSInstance (a, 1) (\<lambda>i. Inr (i\<lparr>i_rect := Some (rects ! 2)\<rparr>)) ?h1 = Inr ?h1'"
      "edit_transform (a, 0) (SetScale_xyz (f32_of_int 64) (f32_of_int 64) f32_one) ?h1' = Inr ?h2"
    by (simp_all add: run new_its_instance_def)
  have ir2: "comp_at ?h2 ir = Inr (CInstancedTeilSprite s)" using ir by (simp add: comp_at_cell)
  have "rank_of is_its_instance ?h2 (a, 1) = Inr (Some (i, 0))" by (simp add: rank_of_def run)
  then have add: "its_addInstance ?h2 (a, 1) s = Inr (s\<lparr>its_instancen := its_instancen s @ [(a, 1)],
      its_instancenIDs := its_instancenIDs s @ [(i, 0)]\<rparr>)" by (simp add: its_addInstance_def)
  obtain h3 where h3: "upd_comp ir (CInstancedTeilSprite (s\<lparr>its_instancen := its_instancen s @ [(a, 1)],
      its_instancenIDs := its_instancenIDs s @ [(i, 0)]\<rparr>)) ?h2 = Inr h3" using upd_comp_total[OF ir2] by blast
  have 3: "edit as_instanced_teil_sprite CInstancedTeilSprite ir (its_addInstance ?h2 (a, 1)) ?h2 = Inr h3"
    using edit_runs[where as = as_instanced_teil_sprite, OF ir2 as_class_Some(9)[THEN iffD2, OF refl], where f = "its_addInstance ?h2 (a, 1)", OF add] h3 by simp
  have a3: "cells h3 a = Some (?obj [?t, ?inst])" using upd_comp_cells[OF h3] ir(2) by auto
  let ?b = "new_button\<lparr>b_transform := Ptr (a, 0)\<rparr>"
  let ?h4 = "h3\<lparr>cells := (cells h3)(a \<mapsto> ?obj [?t, ?inst, CButton ?b])\<rparr>"
  have 4: "addComponent engine_class button_decl a h3 = Inr ((a, 2), ?h4)"
    using a3 by (simp add: run button_decl_def button_setRequirements_def numeral_2_eq_2)
  have ne: "ir \<noteq> br" using ir(1) br(1) by auto
  have br4: "comp_at ?h4 br = Inr (CRenderer r)"
    using br(1,2) ne comp_at_upd[OF h3, of br] by (simp add: comp_at_cell)
  have addb: "addButton ?h4 (a, 2) r = Inr (r\<lparr>m_buttons := m_buttons r @ [(a, 2)],
      m_buttonGameObjectIDs := m_buttonGameObjectIDs r @ [i]\<rparr>)"
    using br(3) by (simp add: addButton_def owner_id_def run)
  obtain h5 where h5: "upd_comp br (CRenderer (r\<lparr>m_buttons := m_buttons r @ [(a, 2)],
      m_buttonGameObjectIDs := m_buttonGameObjectIDs r @ [i]\<rparr>)) ?h4 = Inr h5" using upd_comp_total[OF br4] by blast
  have 5: "edit as_renderer CRenderer br (addButton ?h4 (a, 2)) ?h4 = Inr h5"
    using edit_runs[where as = as_renderer, OF br4 as_class_Some(4)[THEN iffD2, OF refl], where f = "addButton ?h4 (a, 2)", OF addb] h5 by simp
  have a5: "cells h5 a = Some (?obj [?t, ?inst, CButton ?b])" using upd_comp_cells[OF h5] br(2) by auto
  let ?k = "\<lambda>pics. CObjectKlicker \<lparr>klick = None, onklick = pics, ok_inst = Ptr (a, 1)\<rparr> :: 'a engine_component"
  let ?h6 = "h5\<lparr>cells := (cells h5)(a \<mapsto> ?obj [?t, ?inst, CButton ?b, ?k [None, None]])\<rparr>"
  let ?h7 = "h5\<lparr>cells := (cells h5)(a \<mapsto> ?obj [?t, ?inst, CButton ?b, ?k [Some (rects ! 2), Some (rects ! 3)]])\<rparr>"
  let ?h8 = "h5\<lparr>cells := (cells h5)(a \<mapsto> ?obj [?t, ?inst,
    CButton (?b\<lparr>payload := [(a, 3)], payloadIDs := [(i, 0)]\<rparr>), ?k [Some (rects ! 2), Some (rects ! 3)]])\<rparr>"
  have 6: "addComponent engine_class objectKlicker_decl a h5 = Inr ((a, 3), ?h6)"
    using a5 by (simp add: run objectKlicker_decl_def objectKlicker_setRequirements_def new_object_klicker_def numeral_3_eq_3)
  have 7: "edit as_object_klicker CObjectKlicker (a, 3) (\<lambda>k. Inr (k\<lparr>onklick := [Some (rects ! 2), Some (rects ! 3)]\<rparr>)) ?h6 = Inr ?h7"
    by (simp add: run numeral_3_eq_3)
  have "rank_of is_actor ?h7 (a, 3) = Inr (Some (i, 0))" by (simp add: rank_of_def run numeral_3_eq_3)
  then have 8: "edit as_button CButton (a, 2) (addActor ?h7 (a, 3)) ?h7 = Inr ?h8"
    by (simp add: addActor_def edit_def cast_at_def comp_at_def upd_comp_def vec_at_def holder_def new_game_object_def
        new_button_def numeral_2_eq_2)
  have rs: "vec_at rects 2 = Inr (rects ! 2)" "vec_at rects 3 = Inr (rects ! 3)" using rects by (simp_all add: vec_at_def)
  have "shown_picture rects ir br a (a, 0) h = Inr ?h8"
    by (simp only: shown_picture_def 1 2 3 4 5 6 7 8 rs bindR_Inr prod.case)
  moreover have "tables_extended ir br s r a i h ?h8"
  proof -
    have c: "comp_at ?h8 q = (if q = br then Inr (CRenderer (r\<lparr>m_buttons := m_buttons r @ [(a, 2)],
        m_buttonGameObjectIDs := m_buttonGameObjectIDs r @ [i]\<rparr>)) else if q = ir then Inr (CInstancedTeilSprite (s\<lparr>
        its_instancen := its_instancen s @ [(a, 1)], its_instancenIDs := its_instancenIDs s @ [(i, 0)]\<rparr>))
        else comp_at h q)" if "fst q \<noteq> a" for q
      using that comp_at_upd[OF h5, of q] comp_at_upd[OF h3, of q] by (simp add: comp_at_cell)
    obtain g3 where g3: "cells h3 = (cells ?h2)(fst ir \<mapsto> g3)" "next_addr h3 = next_addr ?h2" "cells ?h2 (fst ir) \<noteq> None"
      using upd_comp_cells[OF h3] by blast
    obtain g5 where g5: "cells h5 = (cells ?h4)(fst br \<mapsto> g5)" "next_addr h5 = next_addr ?h4" "cells ?h4 (fst br) \<noteq> None"
      using upd_comp_cells[OF h5] by blast
    have "cells ?h8 b = cells h b" if "b \<noteq> a" "b \<noteq> fst ir" "b \<noteq> fst br" for b
      using that by (simp add: g5(1) g3(1))
    moreover have "(cells ?h8 b = None) = (cells h b = None)" if "b \<noteq> a" for b
      using that g3(3) g5(3) by (auto simp: g5(1) g3(1) ir(2) br(2) split: if_splits)
    moreover have "next_addr ?h8 = next_addr h" using g3(2) g5(2) by simp
    ultimately show ?thesis unfolding tables_extended_def using c by blast
  qed
  ultimately show ?thesis by (intro exI[of _ ?h8]) simp
qed


lemma comp_at_cong: "cells h' (fst q) = cells h (fst q) \<Longrightarrow> comp_at h' q = comp_at h q"
  by (simp add: comp_at_def get_obj_def)

lemma holder_simps [simp]:
  "go_ID (holder a i cs) = i" "childrenIds (holder a i cs) = []" "parrentID (holder a i cs) = -1"
  by (simp_all add: holder_def new_game_object_def)

text \<open>The state of the viewer while it shows the objects \<open>I\<close>, with room for \<open>m\<close> more.\<close>

definition stage ::
    "(addr \<Rightarrow> 'm engine_component game_object option) \<Rightarrow> cref \<Rightarrow> cref \<Rightarrow> nat \<Rightarrow> 'm eheap \<times> storage \<Rightarrow> bool" where
  "stage I ir br m = (\<lambda>(h, st).
     (\<forall>a \<ge> next_addr h. cells h a = None) \<and> (\<exists>s. comp_at h ir = Inr (CInstancedTeilSprite s)) \<and>
     (\<exists>r. comp_at h br = Inr (CRenderer r) \<and> (\<forall>b \<in> set (m_buttons r). fst b < next_addr h)) \<and>
     (\<forall>a g. I a = Some g \<longrightarrow> cells h a = Some g \<and> a \<noteq> fst ir \<and> a \<noteq> fst br) \<and>
     0 \<le> counter st \<and> counter st + 3 * int m < 2147483648)"

text \<open>What showing one object does.\<close>

definition shown ::
    "int \<Rightarrow> xmfloat4 list \<Rightarrow> cref \<Rightarrow> cref \<Rightarrow> int \<Rightarrow> int \<Rightarrow> int \<Rightarrow> 'm eheap \<times> storage \<Rightarrow> 'm eheap \<times> storage \<Rightarrow> bool" where
  "shown sh rects ir br row col i = (\<lambda>(h, st) (h', st'). let n = next_addr h; k = counter st in
     next_addr h' = n + 3 \<and> counter st' = k + 3 \<and>
     cells h' n = Some (shown_root n k sh row col) \<and> cells h' (n + 1) = Some (shown_button n k rects) \<and>
     cells h' (n + 2) = Some (shown_text n k i) \<and>
     (\<exists>s. comp_at h ir = Inr (CInstancedTeilSprite s) \<and> comp_at h' ir = Inr (CInstancedTeilSprite (s\<lparr>
          its_instancen := its_instancen s @ [(n + 1, 1)], its_instancenIDs := its_instancenIDs s @ [(k + 1, 0)]\<rparr>))) \<and>
     (\<exists>r. comp_at h br = Inr (CRenderer r) \<and> comp_at h' br = Inr (CRenderer (r\<lparr>
          m_buttons := m_buttons r @ [(n + 1, 2)], m_buttonGameObjectIDs := m_buttonGameObjectIDs r @ [k + 1]\<rparr>))) \<and>
     (\<forall>q. fst q < n \<longrightarrow> q \<noteq> ir \<longrightarrow> q \<noteq> br \<longrightarrow> comp_at h' q = comp_at h q) \<and>
     (\<forall>b < n. b \<noteq> fst ir \<longrightarrow> b \<noteq> fst br \<longrightarrow> cells h' b = cells h b))"

lemma show_one_ok:
  assumes stage: "stage I ir br (Suc m) (h, st)" and it: "I it = Some g" "int_ok (go_ID g + 48)"
    and rects: "3 < length rects" and pos: "int_ok (col * 80)" "int_ok (80 * row)" "int_ok (sh - 80 * row)"
  shows "\<exists>s'. show_one sh rects ir br (row, col, it) (h, st) = Inr s' \<and>
    shown sh rects ir br row col (go_ID g) (h, st) s' \<and> stage I ir br m s'"
proof -
  let ?n = "next_addr h" and ?k = "counter st"
  have fresh: "\<And>a. ?n \<le> a \<Longrightarrow> cells h a = None" using stage by (simp add: stage_def)
  obtain s where ir: "comp_at h ir = Inr (CInstancedTeilSprite s)" using stage by (auto simp: stage_def)
  obtain r where br: "comp_at h br = Inr (CRenderer r)" "\<And>b. b \<in> set (m_buttons r) \<Longrightarrow> fst b < ?n"
    using stage unfolding stage_def prod.case by blast
  have I: "\<And>a g. I a = Some g \<Longrightarrow> cells h a = Some g \<and> a \<noteq> fst ir \<and> a \<noteq> fst br" using stage by (simp add: stage_def)
  have k: "0 \<le> ?k" "?k + 3 + 3 * int m < 2147483648" using stage by (simp_all add: stage_def)
  have below: "a < ?n" if "cells h a \<noteq> None" for a using fresh[of a] that by (cases "a < ?n") auto
  have lt: "fst ir < ?n" "fst br < ?n" "it < ?n"
    using ir br(1) I[OF it(1)] by (auto intro!: below simp: comp_at_eq_Inr)
  have ks: "int_ok (?k + 1)" "int_ok (?k + 1 + 1)" "int_ok (?k + 2 + 1)" using k by (simp_all add: int_ok_def)
  obtain h1 st1 where 1: "shown_object (h, st) = Inr (?n, (?n, 0), h1, st1)" "next_addr h1 = ?n + 1" "counter st1 = ?k + 1"
      "cells h1 = (cells h)(?n \<mapsto> holder ?n ?k [CTransform new_transform])"
    using shown_object_ok[OF refl refl ks(1), of h] by blast
  obtain h2 st2 where 2: "shown_object (h1, st1) = Inr (?n + 1, (?n + 1, 0), h2, st2)" "next_addr h2 = ?n + 1 + 1"
      "counter st2 = ?k + 1 + 1" "cells h2 = (cells h1)(?n + 1 \<mapsto> holder (?n + 1) (?k + 1) [CTransform new_transform])"
    using shown_object_ok[OF 1(2,3) ks(2)] by blast
  have "next_addr h2 = ?n + 2" "counter st2 = ?k + 2" using 2(2,3) by simp_all
  from shown_object_ok[OF this ks(3)]
  obtain h3 st3 where 3: "shown_object (h2, st2) = Inr (?n + 2, (?n + 2, 0), h3, st3)" "next_addr h3 = ?n + 2 + 1"
      "counter st3 = ?k + 2 + 1" "cells h3 = (cells h2)(?n + 2 \<mapsto> holder (?n + 2) (?k + 2) [CTransform new_transform])"
    by blast
  obtain h4 where 4: "shown_parent st3 (?n + 1) (?n + 1, 0) ?n (?n, 0) h3 = Inr h4" "next_addr h4 = next_addr h3"
      "cells h4 = (cells h3)(?n + 1 \<mapsto> (holder (?n + 1) (?k + 1) [CTransform (new_transform\<lparr>m_parrent := Ptr (?n, 0)\<rparr>)])\<lparr>parrentID := ?k\<rparr>,
        ?n \<mapsto> (holder ?n ?k [CTransform new_transform])\<lparr>childrenIds := [?k + 1]\<rparr>)"
    using shown_parent_ok[of h3 "?n + 1" "?k + 1" new_transform ?n "holder ?n ?k [CTransform new_transform]" st3]
    by (auto simp: 1 2 3)
  obtain h5 where 5: "shown_parent st3 (?n + 2) (?n + 2, 0) ?n (?n, 0) h4 = Inr h5" "next_addr h5 = next_addr h3"
      "cells h5 = (cells h4)(?n + 2 \<mapsto> (holder (?n + 2) (?k + 2) [CTransform (new_transform\<lparr>m_parrent := Ptr (?n, 0)\<rparr>)])\<lparr>parrentID := ?k\<rparr>,
        ?n \<mapsto> (holder ?n ?k [CTransform new_transform])\<lparr>childrenIds := [?k + 1, ?k + 2]\<rparr>)"
    using shown_parent_ok[of h4 "?n + 2" "?k + 2" new_transform ?n "(holder ?n ?k [CTransform new_transform])\<lparr>childrenIds := [?k + 1]\<rparr>" st3]
    by (auto simp: 1 2 3 4)
  obtain h6 where 6: "shown_place sh row col (?n, 0) h5 = Inr h6" "next_addr h6 = next_addr h3"
      "cells h6 = (cells h5)(?n \<mapsto> shown_root ?n ?k sh row col)"
    using shown_place_ok[OF _ pos, where h = h5 and a = ?n and i = ?k and t = new_transform and cs = "[?k + 1, ?k + 2]"]
    by (auto simp: 5 shown_root_def)
  have old: "cells h6 a = cells h a" if "a < ?n" for a using that by (simp add: 1 2 3 4 5 6)
  have c6: "comp_at h6 q = comp_at h q" if "fst q < ?n" for q using old[OF that] by (rule comp_at_cong)
  have new6: "cells h6 (?n + 1) = Some ((holder (?n + 1) (?k + 1) [CTransform (new_transform\<lparr>m_parrent := Ptr (?n, 0)\<rparr>)])\<lparr>parrentID := ?k\<rparr>)"
    by (simp add: 1 2 3 4 5 6)
  obtain h7 where 7: "shown_picture rects ir br (?n + 1) (?n + 1, 0) h6 = Inr h7"
      "tables_extended ir br s r (?n + 1) (?k + 1) h6 h7" "cells h7 (?n + 1) = Some (shown_button ?n ?k rects)"
    using shown_picture_ok[OF new6 c6[OF lt(1), unfolded ir] _ c6[OF lt(2), unfolded br(1)] _ _ rects] lt br(2)[of "(?n + 1, 2)"]
    by (auto simp: shown_button_def)
  note e7 = tables_extendedD(1)[OF 7(2)] and keep7 = tables_extendedD(4)[OF 7(2)]
  have ne: "ir \<noteq> br" using ir br(1) by auto
  have ir7: "comp_at h7 ir = Inr (CInstancedTeilSprite (s\<lparr>its_instancen := its_instancen s @ [(?n + 1, 1)],
      its_instancenIDs := its_instancenIDs s @ [(?k + 1, 0)]\<rparr>))"
    by (rule tables_extendedD(3)[OF 7(2) _ ne]) (use lt in simp)
  have br7: "comp_at h7 br = Inr (CRenderer (r\<lparr>m_buttons := m_buttons r @ [(?n + 1, 2)],
      m_buttonGameObjectIDs := m_buttonGameObjectIDs r @ [?k + 1]\<rparr>))"
    by (rule tables_extendedD(2)[OF 7(2)]) (use lt in simp)
  have lab: "cells h7 (?n + 2) = Some ((holder (?n + 2) (?k + 2) [CTransform (new_transform\<lparr>m_parrent := Ptr (?n, 0)\<rparr>)])\<lparr>parrentID := ?k\<rparr>)"
    using keep7[of "?n + 2"] lt by (simp add: 1 2 3 4 5 6)
  have it7: "cells h7 it = Some g" using keep7[of it] I[OF it(1)] old[OF lt(3)] lt by simp
  obtain h8 where 8: "shown_label it (?n + 2) (?n + 2, 0) h7 = Inr h8" "next_addr h8 = next_addr h7"
      "cells h8 = (cells h7)(?n + 2 \<mapsto> shown_text ?n ?k (go_ID g))"
    using shown_label_ok[OF lab it7 _ it(2)] lt by (auto simp: shown_text_def)
  have c8: "comp_at h8 q = comp_at h7 q" if "fst q < ?n" for q
    using that by (intro comp_at_cong) (simp add: 8)
  have run: "show_one sh rects ir br (row, col, it) (h, st) = Inr (h8, st3)"
    by (simp only: show_one_def prod.case bindR_Inr 1(1) 2(1) 3(1) 4(1) 5(1) 6(1) 7(1) 8(1))
  have n8: "next_addr h8 = ?n + 3" using tables_extendedD(6)[OF 7(2)] 6(2) 8(2) 3(2) by simp
  have root8: "cells h8 ?n = Some (shown_root ?n ?k sh row col)" using keep7[of ?n] lt by (simp add: 8 6)
  have keep8: "cells h8 b = cells h b" if "b < ?n" "b \<noteq> fst ir" "b \<noteq> fst br" for b
    using that keep7[of b] old[of b] by (simp add: 8)
  have "shown sh rects ir br row col (go_ID g) (h, st) (h8, st3)"
    unfolding shown_def Let_def prod.case
    using n8 3(3) root8 7(3) ir br(1) ir7 br7 c8 lt keep8 e7 c6 by (auto simp: 8)
  moreover have "stage I ir br m (h8, st3)"
  proof -
    have "cells h8 a = None" if "?n + 3 \<le> a" for a
      using that fresh[of a] keep7[of a] lt by (simp add: 8 1 2 3 4 5 6)
    moreover have "comp_at h8 ir = comp_at h7 ir" "comp_at h8 br = comp_at h7 br" using c8 lt by simp_all
    moreover have "I a = Some x \<Longrightarrow> cells h8 a = Some x \<and> a \<noteq> fst ir \<and> a \<noteq> fst br" for a x
      using I[of a x] keep8[of a] below[of a] by auto
    ultimately show ?thesis using n8 ir7 br7 3(3) k br(2) by (fastforce simp: stage_def)
  qed
  ultimately show ?thesis using run by blast
qed

end
