(* ===== verification/Display_Layout.thy ===== *)
theory Display_Layout
  imports Scene_Display
begin

text \<open>
  The layout of a tree of objects, one row for every leaf and one column for every level, and the proof
  that \<open>addGameobjectDisplayer\<close> shows exactly this layout.
\<close>

section \<open>Trees and their layout\<close>

datatype view_tree = Node addr "view_tree list"

primrec root :: "view_tree \<Rightarrow> addr" where
  "root (Node a ts) = a"

text \<open>The tree below an object of the inspected scene; \<open>I\<close> holds its objects.\<close>

fun tree_at :: "(addr \<Rightarrow> 'm engine_component game_object option) \<Rightarrow> storage \<Rightarrow> view_tree \<Rightarrow> bool" where
  "tree_at I ist (Node a ts) = (case I a of None \<Rightarrow> False | Some g \<Rightarrow>
     int_ok (go_ID g + 48) \<and>
     map (map_getById (objects ist)) (childrenIds g) = map (\<lambda>t. Some (root t)) ts \<and>
     (\<forall>t \<in> set ts. tree_at I ist t))"

fun leaves :: "view_tree \<Rightarrow> int" where
  "leaves (Node a ts) = (if ts = [] then 1 else sum_list (map leaves ts))"

fun height :: "view_tree \<Rightarrow> nat" where
  "height (Node a ts) = Suc (fold max (map height ts) 0)"

fun layout :: "int \<Rightarrow> int \<Rightarrow> view_tree \<Rightarrow> (int \<times> int \<times> addr) list"
  and layouts :: "int \<Rightarrow> int \<Rightarrow> view_tree list \<Rightarrow> (int \<times> int \<times> addr) list" where
  "layout row col (Node a ts) = (row, col, a) # layouts row (col + 1) ts"
| "layouts row col [] = []"
| "layouts row col (t # ts) = layout row col t @ layouts (row + leaves t) col ts"

lemma leaves_pos: "1 \<le> leaves t"
proof (induction t rule: leaves.induct)
  case (1 a ts)
  show ?case
  proof (cases ts)
    case (Cons u us)
    have "0 \<le> sum_list (map leaves us)" by (rule sum_list_nonneg) (use 1 Cons in force)
    moreover have "1 \<le> leaves u" using 1 Cons by simp
    ultimately show ?thesis using Cons by simp
  qed simp
qed

lemma sum_leaves_nonneg: "0 \<le> sum_list (map leaves ts)"
  by (rule sum_list_nonneg) (auto intro: order_trans[OF _ leaves_pos])

lemma sum_leaves_le: "sum_list (map leaves ts) \<le> leaves (Node a ts)"
  by simp

lemma fold_max_le: "fold max (map height ts) n \<le> k \<longleftrightarrow> n \<le> k \<and> (\<forall>t \<in> set ts. height t \<le> k)"
  by (induction ts arbitrary: n) auto

lemma height_child: "t \<in> set ts \<Longrightarrow> Suc (height t) \<le> height (Node a ts)"
  using fold_max_le[of ts 0 "fold max (map height ts) 0"] by simp

text \<open>A layout stays within the rows of its leaves and the columns of its levels.\<close>

lemma layout_within:
  "(r, c, a) \<in> set (layout row col t) \<Longrightarrow> row \<le> r \<and> r < row + leaves t \<and> col \<le> c \<and> c < col + int (height t)"
  "(r, c, a) \<in> set (layouts row col ts) \<Longrightarrow> row \<le> r \<and> r < row + sum_list (map leaves ts) \<and> col \<le> c \<and>
     (\<exists>t \<in> set ts. c < col + int (height t))"
proof (induction row col t and row col ts rule: layout_layouts.induct)
  case (1 row col b ts)
  consider "r = row" "c = col" | "(r, c, a) \<in> set (layouts row (col + 1) ts)" using "1.prems" by auto
  then show ?case
  proof cases
    case 1
    then show ?thesis using leaves_pos[of "Node b ts"] by simp
  next
    case 2
    from "1.IH"[OF 2] obtain t where t: "row \<le> r" "r < row + sum_list (map leaves ts)" "col + 1 \<le> c" "t \<in> set ts"
        "c < col + 1 + int (height t)" by blast
    then have "c < col + int (height (Node b ts))" using height_child[OF t(4), of b] by linarith
    then show ?thesis using t sum_leaves_le[of ts b] by (simp del: leaves.simps height.simps)
  qed
next
  case (2 row col)
  then show ?case by simp
next
  case (3 row col t ts)
  then show ?case using leaves_pos[of t] sum_leaves_nonneg[of ts] by fastforce
qed

lemma layout_distinct:
  "distinct (map (\<lambda>(r, c, a). (r, c)) (layout row col t))"
  "distinct (map (\<lambda>(r, c, a). (r, c)) (layouts row col ts))"
proof (induction row col t and row col ts rule: layout_layouts.induct)
  case (1 row col b ts)
  then show ?case using layout_within(2)[of row col _ row "col + 1" ts] by auto
next
  case (3 row col t ts)
  have "False" if "(r, c, a) \<in> set (layout row col t)" "(r, c, b) \<in> set (layouts (row + leaves t) col ts)" for r c a b
    using layout_within(1)[OF that(1)] layout_within(2)[OF that(2)] by linarith
  then show ?case using "3.IH" by auto
qed simp

lemma length_layout_pos: "0 < length (layout row col t)"
  by (cases t) simp


section \<open>The recursion shows the layout\<close>

lemma map_Cons_split: "map f xs = y # ys \<Longrightarrow> \<exists>x xs'. xs = x # xs' \<and> f x = y \<and> map f xs' = ys"
  by (cases xs) auto

lemma stageD: "stage I ir br m (h, st) \<Longrightarrow> I a = Some g \<Longrightarrow> cells h a = Some g"
  by (simp add: stage_def)

lemma displayer_is_layout:
  "tree_at I ist t \<Longrightarrow> stage I ir br (length (layout row col t) + m) s \<Longrightarrow> 3 < length rects \<Longrightarrow>
     0 \<le> sh \<Longrightarrow> sh \<le> 65535 \<Longrightarrow> 0 \<le> row \<Longrightarrow> row + leaves t \<le> 20000000 \<Longrightarrow> 0 \<le> col \<Longrightarrow>
     col + int (height t) \<le> 20000000 \<Longrightarrow> height t \<le> fuel \<Longrightarrow>
   \<exists>s'. addGameobjectDisplayer fuel ist sh rects ir br row col (root t) s = Inr (leaves t - 1, s') \<and>
     foldR (show_one sh rects ir br) (layout row col t) s = Inr s' \<and> stage I ir br m s'"
  "\<forall>t \<in> set ts. tree_at I ist t \<Longrightarrow> map (map_getById (objects ist)) ids = map (\<lambda>t. Some (root t)) ts \<Longrightarrow>
     stage I ir br (length (layouts row col ts) + m) s \<Longrightarrow> 3 < length rects \<Longrightarrow>
     0 \<le> sh \<Longrightarrow> sh \<le> 65535 \<Longrightarrow> row = cnt + d \<Longrightarrow> 0 \<le> cnt \<Longrightarrow> 0 \<le> d \<Longrightarrow> row + sum_list (map leaves ts) \<le> 20000000 \<Longrightarrow>
     col = side + 1 \<Longrightarrow> 0 \<le> side \<Longrightarrow> \<forall>t \<in> set ts. col + int (height t) \<le> 20000000 \<and> height t \<le> fuel \<Longrightarrow>
   \<exists>s'. foldR (\<lambda>child (childDepth, s).
          bindR (checked_int (cnt + childDepth)) (\<lambda>row.
          bindR (checked_int (side + 1)) (\<lambda>column.
          bindR (deref (map_getById (objects ist) child)) (\<lambda>c.
          bindR (addGameobjectDisplayer fuel ist sh rects ir br row column c s) (\<lambda>(depth, s).
          bindR (checked_int (childDepth + depth)) (\<lambda>d.
          bindR (checked_int (d + 1)) (\<lambda>d.
          Inr (d, s)))))))) ids (d, s) = Inr (d + sum_list (map leaves ts), s') \<and>
     foldR (show_one sh rects ir br) (layouts row col ts) s = Inr s' \<and> stage I ir br m s'"
proof (induction row col t and row col ts arbitrary: m s fuel and m s fuel cnt d side ids rule: layout_layouts.induct)
  case (1 row col a ts)
  obtain f where f: "fuel = Suc f" using "1.prems"(10) by (cases fuel) auto
  obtain g where g: "I a = Some g" "int_ok (go_ID g + 48)"
      "map (map_getById (objects ist)) (childrenIds g) = map (\<lambda>t. Some (root t)) ts" "\<forall>t \<in> set ts. tree_at I ist t"
    using "1.prems"(1) by (auto split: option.splits)
  obtain h st where s: "s = (h, st)" by (cases s)
  have st1: "stage I ir br (Suc (length (layouts row (col + 1) ts) + m)) (h, st)" using "1.prems"(2) s by simp
  have b: "row < 20000000" "col < 20000000"
    using "1.prems"(7,9) leaves_pos[of "Node a ts"] height_child by (simp_all del: leaves.simps)
  have pos: "int_ok (col * 80)" "int_ok (80 * row)" "int_ok (sh - 80 * row)"
    using b "1.prems"(4,5,6,8) by (simp_all add: int_ok_def)
  obtain s1 where s1: "show_one sh rects ir br (row, col, a) (h, st) = Inr s1"
      "stage I ir br (length (layouts row (col + 1) ts) + m) s1"
    using show_one_ok[OF st1 g(1,2) "1.prems"(3) pos] by blast
  have it: "cells (fst s1) a = Some g" using stageD[of I ir br _ "fst s1" "snd s1"] s1(2) g(1) by simp
  have hs: "\<forall>t \<in> set ts. col + 1 + int (height t) \<le> 20000000 \<and> height t \<le> f"
    using "1.prems"(9,10) height_child[of _ ts a] f by (fastforce simp del: height.simps)
  have ls: "row + sum_list (map leaves ts) \<le> 20000000" using "1.prems"(7) sum_leaves_le[of ts a] by linarith
  obtain s2 where s2: "foldR (\<lambda>child (childDepth, s).
          bindR (checked_int (row + childDepth)) (\<lambda>row.
          bindR (checked_int (col + 1)) (\<lambda>column.
          bindR (deref (map_getById (objects ist) child)) (\<lambda>c.
          bindR (addGameobjectDisplayer f ist sh rects ir br row column c s) (\<lambda>(depth, s).
          bindR (checked_int (childDepth + depth)) (\<lambda>d.
          bindR (checked_int (d + 1)) (\<lambda>d.
          Inr (d, s)))))))) (childrenIds g) (0, s1) = Inr (0 + sum_list (map leaves ts), s2)"
      "foldR (show_one sh rects ir br) (layouts row (col + 1) ts) s1 = Inr s2" "stage I ir br m s2"
    using "1.IH"[OF g(4,3) s1(2) "1.prems"(3-5) _ "1.prems"(6) order_refl ls refl "1.prems"(8) hs] by auto
  have n: "int_ok (sum_list (map leaves ts) - 1)"
    using sum_leaves_nonneg[of ts] ls "1.prems"(6) by (simp add: int_ok_def)
  have "max (sum_list (map leaves ts) - 1) 0 = leaves (Node a ts) - 1"
    using leaves_pos[of "Node a ts"] by (cases ts) simp_all
  then show ?case using s1 s2 n it s by (simp add: f)
next
  case (2 row col)
  then show ?case by simp
next
  case (3 row col t ts)
  obtain i js where ids: "ids = i # js" "map_getById (objects ist) i = Some (root t)"
      "map (map_getById (objects ist)) js = map (\<lambda>t. Some (root t)) ts"
    using map_Cons_split[OF "3.prems"(2)[simplified list.map]] by blast
  have sl: "0 \<le> sum_list (map leaves ts)" "1 \<le> leaves t" by (rule sum_leaves_nonneg, rule leaves_pos)
  have st1: "stage I ir br (length (layout row col t) + (length (layouts (row + leaves t) col ts) + m)) s"
    using "3.prems"(3) by (simp add: add.assoc)
  have t: "tree_at I ist t" "col + int (height t) \<le> 20000000" "height t \<le> fuel"
    using "3.prems"(1,13) by simp_all
  have r: "0 \<le> row" "row + leaves t \<le> 20000000" "0 \<le> col" using "3.prems"(7-12) sl by auto
  obtain s1 where s1: "addGameobjectDisplayer fuel ist sh rects ir br row col (root t) s = Inr (leaves t - 1, s1)"
      "foldR (show_one sh rects ir br) (layout row col t) s = Inr s1"
      "stage I ir br (length (layouts (row + leaves t) col ts) + m) s1"
    using "3.IH"(1)[OF t(1) st1 "3.prems"(4-6) r t(2,3)] by blast
  obtain s2 where s2: "foldR (\<lambda>child (childDepth, s).
          bindR (checked_int (cnt + childDepth)) (\<lambda>row.
          bindR (checked_int (side + 1)) (\<lambda>column.
          bindR (deref (map_getById (objects ist) child)) (\<lambda>c.
          bindR (addGameobjectDisplayer fuel ist sh rects ir br row column c s) (\<lambda>(depth, s).
          bindR (checked_int (childDepth + depth)) (\<lambda>d.
          bindR (checked_int (d + 1)) (\<lambda>d.
          Inr (d, s)))))))) js (d + leaves t, s1) = Inr (d + leaves t + sum_list (map leaves ts), s2)"
      "foldR (show_one sh rects ir br) (layouts (row + leaves t) col ts) s1 = Inr s2" "stage I ir br m s2"
    using "3.IH"(2)[OF _ ids(3) s1(3) "3.prems"(4-6), of cnt "d + leaves t" side fuel] "3.prems" sl
    by (auto simp: add.assoc)
  have n: "int_ok (cnt + d)" "int_ok (side + 1)" "int_ok (d + (leaves t - 1))" "int_ok (d + leaves t)"
    using "3.prems"(7-13) sl by (auto simp: int_ok_def)
  have c: "checked_int (cnt + d) = Inr row" "checked_int (side + 1) = Inr col"
      "checked_int (d + (leaves t - 1)) = Inr (d + (leaves t - 1))"
      "checked_int (d + (leaves t - 1) + 1) = Inr (d + leaves t)"
    using n "3.prems"(7,11) by (simp_all add: checked_int_def algebra_simps)
  have "deref (map_getById (objects ist) i) = Inr (root t)" by (simp add: ids(2))
  then show ?case using s1(2) s2
    by (intro exI[of _ s2])
      (simp only: ids(1) foldR.simps layouts.simps foldR_append prod.case bindR_Inr c \<open>deref _ = _\<close> s1(1) list.map sum_list.Cons add.assoc[of d "leaves t" "sum_list _"] simp_thms)
qed



section \<open>What a layout leaves in the scene\<close>

lemma layout_nodes:
  "(r, c, a) \<in> set (layout row col t) \<Longrightarrow> tree_at I ist t \<Longrightarrow> \<exists>g. I a = Some g \<and> int_ok (go_ID g + 48)"
  "(r, c, a) \<in> set (layouts row col ts) \<Longrightarrow> \<forall>t \<in> set ts. tree_at I ist t \<Longrightarrow>
     \<exists>g. I a = Some g \<and> int_ok (go_ID g + 48)"
  by (induction row col t and row col ts rule: layout_layouts.induct) (auto split: option.splits)

text \<open>The objects, buttons and instances that the cells of \<open>L\<close> have got, in the order of \<open>L\<close>.\<close>

definition displayed ::
    "(addr \<Rightarrow> 'm engine_component game_object option) \<Rightarrow> int \<Rightarrow> xmfloat4 list \<Rightarrow> cref \<Rightarrow> cref \<Rightarrow>
     (int \<times> int \<times> addr) list \<Rightarrow> 'm eheap \<times> storage \<Rightarrow> 'm eheap \<times> storage \<Rightarrow> bool" where
  "displayed I sh rects ir br L = (\<lambda>(h, st) (h', st'). let n = next_addr h; k = counter st in
     (\<forall>j < length L. case L ! j of (row, col, a) \<Rightarrow>
        cells h' (n + 3 * j) = Some (shown_root (n + 3 * j) (k + 3 * int j) sh row col) \<and>
        cells h' (n + 3 * j + 1) = Some (shown_button (n + 3 * j) (k + 3 * int j) rects) \<and>
        cells h' (n + 3 * j + 2) = Some (shown_text (n + 3 * j) (k + 3 * int j) (go_ID (the (I a))))) \<and>
     (\<exists>s. comp_at h ir = Inr (CInstancedTeilSprite s) \<and> comp_at h' ir = Inr (CInstancedTeilSprite (s\<lparr>
        its_instancen := its_instancen s @ map (\<lambda>j. (n + 3 * j + 1, 1)) [0..<length L],
        its_instancenIDs := its_instancenIDs s @ map (\<lambda>j. (k + 3 * int j + 1, 0)) [0..<length L]\<rparr>))) \<and>
     (\<exists>r. comp_at h br = Inr (CRenderer r) \<and> comp_at h' br = Inr (CRenderer (r\<lparr>
        m_buttons := m_buttons r @ map (\<lambda>j. (n + 3 * j + 1, 2)) [0..<length L],
        m_buttonGameObjectIDs := m_buttonGameObjectIDs r @ map (\<lambda>j. k + 3 * int j + 1) [0..<length L]\<rparr>))) \<and>
     (\<forall>b < n. b \<noteq> fst ir \<longrightarrow> b \<noteq> fst br \<longrightarrow> cells h' b = cells h b))"

lemma stage_below:
  assumes "stage I ir br m (h, st)"
  shows "fst ir < next_addr h" and "fst br < next_addr h"
proof -
  have f: "\<And>a. next_addr h \<le> a \<Longrightarrow> cells h a = None" using assms by (simp add: stage_def)
  have "cells h (fst ir) \<noteq> None" "cells h (fst br) \<noteq> None"
    using assms by (auto simp: stage_def comp_at_eq_Inr)
  then show "fst ir < next_addr h" "fst br < next_addr h" using f by (meson not_less)+
qed

lemma upt_Cons_map: "map f [0..<Suc n] = f 0 # map (\<lambda>j. f (Suc j)) [0..<n]"
  by (simp only: map_upt_Suc)

lemma fold_shown:
  assumes "stage I ir br (length L + m) (h, st)" and "3 < length rects"
    and "\<And>r c a. (r, c, a) \<in> set L \<Longrightarrow> (\<exists>g. I a = Some g \<and> int_ok (go_ID g + 48)) \<and>
      int_ok (c * 80) \<and> int_ok (80 * r) \<and> int_ok (sh - 80 * r)"
    and "foldR (show_one sh rects ir br) L (h, st) = Inr s'"
  shows "displayed I sh rects ir br L (h, st) s'"
  using assms
proof (induction L arbitrary: h st)
  case Nil
  then show ?case by (auto simp: displayed_def stage_def)
next
  case (Cons x L)
  obtain row col a where x: "x = (row, col, a)" by (cases x)
  obtain g where g: "I a = Some g" "int_ok (go_ID g + 48)" and pos: "int_ok (col * 80)" "int_ok (80 * row)" "int_ok (sh - 80 * row)"
    using Cons.prems(3)[of row col a] x by auto
  have "stage I ir br (Suc (length L + m)) (h, st)" using Cons.prems(1) by simp
  from show_one_ok[OF this g Cons.prems(2) pos]
  obtain h1 st1 where s1: "show_one sh rects ir br x (h, st) = Inr (h1, st1)"
      "shown sh rects ir br row col (go_ID g) (h, st) (h1, st1)" "stage I ir br (length L + m) (h1, st1)"
    using x by auto
  have "foldR (show_one sh rects ir br) L (h1, st1) = Inr s'" using Cons.prems(4) s1(1) by simp
  from Cons.IH[OF s1(3) Cons.prems(2) _ this] Cons.prems(3)
  have D: "displayed I sh rects ir br L (h1, st1) s'" by auto
  obtain h' st' where s': "s' = (h', st')" by (cases s')
  have n: "next_addr h1 = next_addr h + 3" "counter st1 = counter st + 3" using s1(2) by (simp_all add: shown_def Let_def)
  note below = stage_below[OF Cons.prems(1)]
  have keep: "cells h' b = cells h1 b" if "b < next_addr h1" "b \<noteq> fst ir" "b \<noteq> fst br" for b
    using D that by (simp add: displayed_def s' Let_def)
  let ?n = "next_addr h" and ?k = "counter st"
  have S: "cells h1 ?n = Some (shown_root ?n ?k sh row col)" "cells h1 (?n + 1) = Some (shown_button ?n ?k rects)"
      "cells h1 (?n + 2) = Some (shown_text ?n ?k (go_ID g))"
      "\<And>b. b < ?n \<Longrightarrow> b \<noteq> fst ir \<Longrightarrow> b \<noteq> fst br \<Longrightarrow> cells h1 b = cells h b"
    using s1(2) by (simp_all add: shown_def Let_def)
  have idx: "?n + 3 * Suc j = next_addr h1 + 3 * j" "?k + 3 * int (Suc j) = counter st1 + 3 * int j" for j
    by (simp_all add: n)
  have cells: "case (x # L) ! j of (row, col, a) \<Rightarrow>
        cells h' (?n + 3 * j) = Some (shown_root (?n + 3 * j) (?k + 3 * int j) sh row col) \<and>
        cells h' (?n + 3 * j + 1) = Some (shown_button (?n + 3 * j) (?k + 3 * int j) rects) \<and>
        cells h' (?n + 3 * j + 2) = Some (shown_text (?n + 3 * j) (?k + 3 * int j) (go_ID (the (I a))))"
    if "j < length (x # L)" for j
  proof (cases j)
    case 0
    then show ?thesis using keep[of ?n] keep[of "?n + 1"] keep[of "?n + 2"] S(1-3) below g(1) n(1) x by simp
  next
    case (Suc i)
    then have "i < length L" using that by simp
    then show ?thesis unfolding Suc idx using D by (simp only: displayed_def s' Let_def prod.case nth_Cons_Suc)
  qed
  obtain s where s: "comp_at h ir = Inr (CInstancedTeilSprite s)" "comp_at h1 ir = Inr (CInstancedTeilSprite (s\<lparr>
          its_instancen := its_instancen s @ [(?n + 1, 1)], its_instancenIDs := its_instancenIDs s @ [(?k + 1, 0)]\<rparr>))"
    using s1(2) by (auto simp: shown_def Let_def)
  have ir: "comp_at h' ir = Inr (CInstancedTeilSprite (s\<lparr>
        its_instancen := its_instancen s @ map (\<lambda>j. (?n + 3 * j + 1, 1)) [0..<length (x # L)],
        its_instancenIDs := its_instancenIDs s @ map (\<lambda>j. (?k + 3 * int j + 1, 0)) [0..<length (x # L)]\<rparr>))"
    using D s(2) unfolding length_Cons upt_Cons_map idx by (simp add: displayed_def s' Let_def)
  obtain r where r: "comp_at h br = Inr (CRenderer r)" "comp_at h1 br = Inr (CRenderer (r\<lparr>
          m_buttons := m_buttons r @ [(?n + 1, 2)], m_buttonGameObjectIDs := m_buttonGameObjectIDs r @ [?k + 1]\<rparr>))"
    using s1(2) by (auto simp: shown_def Let_def)
  have br: "comp_at h' br = Inr (CRenderer (r\<lparr>
        m_buttons := m_buttons r @ map (\<lambda>j. (?n + 3 * j + 1, 2)) [0..<length (x # L)],
        m_buttonGameObjectIDs := m_buttonGameObjectIDs r @ map (\<lambda>j. ?k + 3 * int j + 1) [0..<length (x # L)]\<rparr>))"
    using D r(2) unfolding length_Cons upt_Cons_map idx by (simp add: displayed_def s' Let_def)
  have "cells h' b = cells h b" if "b < ?n" "b \<noteq> fst ir" "b \<noteq> fst br" for b
    using keep[of b] S(4)[OF that] that n(1) by simp
  then show ?case unfolding displayed_def s' Let_def prod.case using cells s(1) ir r(1) br by blast
qed

text \<open>
  For a tree of inspected objects \<open>addGameobjectDisplayer\<close> returns the number of its leaves less one
  and shows every object exactly once: the \<open>j\<close>-th object in pre-order gets three new objects with its
  picture, button and label at its own cell of the layout, one row for every leaf and one column for every
  level, and its button and instance are registered. The inspected scene and all other objects stay as
  they were.
\<close>

lemma displayer_shows:
  assumes "tree_at I ist t" and "stage I ir br (length (layout row col t)) s" and "3 < length rects"
    and "0 \<le> sh" and "sh \<le> 65535" and "0 \<le> row" and "row + leaves t \<le> 20000000" and "0 \<le> col"
    and "col + int (height t) \<le> 20000000" and "height t \<le> fuel"
  shows "\<exists>s'. addGameobjectDisplayer fuel ist sh rects ir br row col (root t) s = Inr (leaves t - 1, s') \<and>
    displayed I sh rects ir br (layout row col t) s s' \<and>
    distinct (map (\<lambda>(r, c, a). (r, c)) (layout row col t)) \<and>
    (\<forall>(r, c, a) \<in> set (layout row col t). row \<le> r \<and> r < row + leaves t \<and> col \<le> c \<and> c < col + int (height t))"
proof -
  obtain h st where s: "s = (h, st)" by (cases s)
  have st: "stage I ir br (length (layout row col t) + 0) s" using assms(2) by simp
  obtain s' where s': "addGameobjectDisplayer fuel ist sh rects ir br row col (root t) s = Inr (leaves t - 1, s')"
      "foldR (show_one sh rects ir br) (layout row col t) s = Inr s'"
    using displayer_is_layout(1)[OF assms(1) st assms(3-10)] by blast
  have "(\<exists>g. I a = Some g \<and> int_ok (go_ID g + 48)) \<and> int_ok (c * 80) \<and> int_ok (80 * r) \<and> int_ok (sh - 80 * r)"
    if "(r, c, a) \<in> set (layout row col t)" for r c a
    using layout_nodes(1)[OF that assms(1)] layout_within(1)[OF that] assms(4-9) by (auto simp: int_ok_def)
  then have "displayed I sh rects ir br (layout row col t) s s'"
    using fold_shown[OF st[unfolded s] assms(3)] s'(2) unfolding s by blast
  then show ?thesis using s'(1) layout_distinct(1) layout_within(1) by blast
qed

end
