(* ===== verification/Text_Tables.thy ===== *)
theory Text_Tables
  imports Engine_Base
begin

text \<open>
  \<open>Engine/Factorys/InstancedTeilSpriteFactory.h\<close>: tables of rectangles read from text files, with
  \<open>getline\<close>, \<open>find\<close>, \<open>substr\<close> and \<open>stoi\<close> of the standard library. A file is opened in text mode:
  a carriage return in front of a line feed is dropped.
\<close>

section \<open>Lines and fields\<close>

fun text_mode :: "string \<Rightarrow> string" where
  "text_mode (CHR 0x0D # CHR 0x0A # cs) = CHR 0x0A # text_mode cs"
| "text_mode (c # cs) = c # text_mode cs"
| "text_mode [] = []"

text \<open>\<open>getline\<close>: the characters up to a line feed; it fails when nothing is left to read.\<close>

definition getline :: "string \<Rightarrow> (string \<times> string) option" where
  "getline cs =
     (if cs = [] then None
      else Some (takeWhile (\<lambda>c. c \<noteq> CHR 0x0A) cs, drop 1 (dropWhile (\<lambda>c. c \<noteq> CHR 0x0A) cs)))"

text \<open>The position of \<open>", "\<close>; \<open>npos\<close> is \<open>None\<close>.\<close>

fun find_separator :: "string \<Rightarrow> nat option" where
  "find_separator (a # b # cs) =
     (if a = CHR 0x2C \<and> b = CHR 0x20 then Some 0 else map_option Suc (find_separator (b # cs)))"
| "find_separator _ = None"

text \<open>\<open>line.substr(0, line.find(", "))\<close> and \<open>line.substr(line.find(", ") + 1)\<close>: \<open>npos + 1\<close> is zero.\<close>

definition field_text :: "string \<Rightarrow> string" where
  "field_text line = (case find_separator line of None \<Rightarrow> line | Some p \<Rightarrow> take p line)"

definition rest_text :: "string \<Rightarrow> string" where
  "rest_text line = (case find_separator line of None \<Rightarrow> line | Some p \<Rightarrow> drop (Suc p) line)"

definition is_space :: "char \<Rightarrow> bool" where
  "is_space c = (c \<in> {CHR 0x20, CHR 0x09, CHR 0x0A, CHR 0x0B, CHR 0x0C, CHR 0x0D})"

definition is_digit :: "char \<Rightarrow> bool" where
  "is_digit c = (48 \<le> (of_char c :: nat) \<and> (of_char c :: nat) \<le> 57)"

definition digits_value :: "string \<Rightarrow> nat" where
  "digits_value ds = foldl (\<lambda>n c. 10 * n + (of_char c - 48)) 0 ds"

definition stoi :: "string \<Rightarrow> int result" where
  "stoi s =
     (let s = dropWhile is_space s;
          neg = (s \<noteq> [] \<and> hd s = CHR 0x2D);
          s = (if s \<noteq> [] \<and> (hd s = CHR 0x2D \<or> hd s = CHR 0x2B) then tl s else s);
          ds = takeWhile is_digit s;
          v = (if neg then - int (digits_value ds) else int (digits_value ds)) in
      if ds = [] then Inl (Exception ''invalid_argument'')
      else if int_ok v then Inr v
      else Inl (Exception ''out_of_range''))"

text \<open>The next number of a line, and what is left of the line.\<close>

definition next_int :: "string \<Rightarrow> (int \<times> string) result" where
  "next_int line = bindR (stoi (field_text line)) (\<lambda>i. Inr (i, rest_text line))"

definition next_ints4 :: "string \<Rightarrow> (int \<times> int \<times> int \<times> int) result" where
  "next_ints4 line =
     bindR (next_int line) (\<lambda>(a, line).
     bindR (next_int line) (\<lambda>(b, line).
     bindR (next_int line) (\<lambda>(c, line).
     bindR (next_int line) (\<lambda>(d, line).
     Inr (a, b, c, d)))))"

text \<open>\<open>while (getline(myfile, line))\<close>; every turn takes at least one character.\<close>

function rows_loop :: "(string \<Rightarrow> 'a result) \<Rightarrow> string \<Rightarrow> 'a list \<Rightarrow> 'a list result" where
  "rows_loop row cs toRet =
     (case getline cs of
        None \<Rightarrow> Inr toRet
      | Some (line, cs') \<Rightarrow> bindR (row line) (\<lambda>x. rows_loop row cs' (toRet @ [x])))"
  by pat_completeness auto

termination
proof (relation "measure (\<lambda>(row, cs, toRet). length cs)")
  fix row :: "string \<Rightarrow> 'a result" and cs toRet x2 line cs' x
  assume g: "getline cs = Some x2" "(line, cs') = x2"
  have "length cs' < length cs"
  proof -
    have l: "length (dropWhile (\<lambda>c. c \<noteq> CHR 0x0A) cs) \<le> length cs" by (rule length_dropWhile_le)
    have "cs \<noteq> []" and "cs' = drop 1 (dropWhile (\<lambda>c. c \<noteq> CHR 0x0A) cs)"
      using g by (auto simp: getline_def split: if_splits)
    then show ?thesis using l by (cases cs) (simp_all add: less_Suc_eq_le le_diff_conv)
  qed
  then show "((row, cs', toRet @ [x]), row, cs, toRet) \<in> measure (\<lambda>(row, cs, toRet). length cs)"
    by simp
qed simp

declare rows_loop.simps [simp del]


section \<open>The two tables\<close>

definition rect_row :: "int \<Rightarrow> int \<Rightarrow> string \<Rightarrow> xmfloat4 result" where
  "rect_row width height line =
     bindR (next_ints4 line) (\<lambda>(a, b, c, d).
     bindR (checked_int (c - a)) (\<lambda>w.
     bindR (checked_int (d - b)) (\<lambda>h.
     Inr \<lparr>f4x = f32_div (f32_of_int w) (f32_of_int width), f4y = f32_div (f32_of_int h) (f32_of_int height),
          f4z = f32_div (f32_of_int a) (f32_of_int width), f4w = f32_div (f32_of_int b) (f32_of_int height)\<rparr>)))"

definition RectVectorBuilder :: "(string \<Rightarrow> string option) \<Rightarrow> string \<Rightarrow> xmfloat4 list result" where
  "RectVectorBuilder file describerPath =
     (case file describerPath of
        None \<Rightarrow> Inr []
      | Some content \<Rightarrow>
          let (line, cs) = (case getline (text_mode content) of None \<Rightarrow> ('''', '''') | Some p \<Rightarrow> p) in
          bindR (next_int line) (\<lambda>(width, line).
          bindR (stoi (field_text line)) (\<lambda>height.
          rows_loop (rect_row width height) cs [])))"

text \<open>Integer division of C++ truncates.\<close>

definition half_int :: "int \<Rightarrow> int" where
  "half_int c = (if 0 \<le> c then c div 2 else - ((- c) div 2))"

definition char_row :: "int \<Rightarrow> int \<Rightarrow> string \<Rightarrow> float6 result" where
  "char_row imgWidth imgHeight line =
     bindR (next_ints4 line) (\<lambda>(a, b, c, d).
     bindR (checked_int (a - half_int c)) (\<lambda>x.
     bindR (checked_int (b - half_int d)) (\<lambda>y.
     Inr \<lparr>f6a = f32_div (f32_of_int c) (f32_of_int imgWidth), f6b = f32_div (f32_of_int d) (f32_of_int imgHeight),
          f6c = f32_div (f32_of_int x) (f32_of_int imgWidth), f6d = f32_div (f32_of_int y) (f32_of_int imgHeight),
          f6e = f32_of_int c, f6f = f32_of_int d\<rparr>)))"

definition charVectorBuilder :: "(string \<Rightarrow> string option) \<Rightarrow> string \<Rightarrow> float6 list result" where
  "charVectorBuilder file describerPath =
     (case file describerPath of
        None \<Rightarrow> Inr []
      | Some content \<Rightarrow>
          let (line, cs) = (case getline (text_mode content) of None \<Rightarrow> ('''', '''') | Some p \<Rightarrow> p) in
          bindR (next_ints4 line) (\<lambda>(imgWidth, imgHeight, width, height).
          rows_loop (char_row imgWidth imgHeight) cs []))"


section \<open>Reading what the format prescribes\<close>

text \<open>A whole number in decimal digits, as the files hold it.\<close>

fun decimal :: "nat \<Rightarrow> string" where
  "decimal n = (if n < 10 then [char_of (48 + n)] else decimal (n div 10) @ [char_of (48 + n mod 10)])"

declare decimal.simps [simp del]

definition row_text :: "nat \<times> nat \<times> nat \<times> nat \<Rightarrow> string" where
  "row_text = (\<lambda>(a, b, c, d). decimal a @ '', '' @ decimal b @ '', '' @ decimal c @ '', '' @ decimal d)"

definition rows_text :: "(nat \<times> nat \<times> nat \<times> nat) list \<Rightarrow> string" where
  "rows_text rows = concat (map (\<lambda>r. CHR 0x0A # row_text r) rows)"

definition rect_table_text :: "nat \<Rightarrow> nat \<Rightarrow> (nat \<times> nat \<times> nat \<times> nat) list \<Rightarrow> string" where
  "rect_table_text width height rows = decimal width @ '', '' @ decimal height @ rows_text rows"

definition char_table_text :: "nat \<times> nat \<times> nat \<times> nat \<Rightarrow> (nat \<times> nat \<times> nat \<times> nat) list \<Rightarrow> string" where
  "char_table_text sizes rows = row_text sizes @ rows_text rows"

text \<open>What a row means: the size and the corner of a rectangle, relative to the image.\<close>

definition rect_of :: "nat \<Rightarrow> nat \<Rightarrow> nat \<times> nat \<times> nat \<times> nat \<Rightarrow> xmfloat4" where
  "rect_of width height = (\<lambda>(a, b, c, d).
     \<lparr>f4x = f32_div (f32_of_int (int c - int a)) (f32_of_int (int width)),
      f4y = f32_div (f32_of_int (int d - int b)) (f32_of_int (int height)),
      f4z = f32_div (f32_of_int (int a)) (f32_of_int (int width)),
      f4w = f32_div (f32_of_int (int b)) (f32_of_int (int height))\<rparr>)"

definition glyph_of :: "nat \<Rightarrow> nat \<Rightarrow> nat \<times> nat \<times> nat \<times> nat \<Rightarrow> float6" where
  "glyph_of width height = (\<lambda>(a, b, c, d).
     \<lparr>f6a = f32_div (f32_of_int (int c)) (f32_of_int (int width)),
      f6b = f32_div (f32_of_int (int d)) (f32_of_int (int height)),
      f6c = f32_div (f32_of_int (int a - int (c div 2))) (f32_of_int (int width)),
      f6d = f32_div (f32_of_int (int b - int (d div 2))) (f32_of_int (int height)),
      f6e = f32_of_int (int c), f6f = f32_of_int (int d)\<rparr>)"

definition entries_ok :: "nat \<times> nat \<times> nat \<times> nat \<Rightarrow> bool" where
  "entries_ok = (\<lambda>(a, b, c, d). a < 2147483648 \<and> b < 2147483648 \<and> c < 2147483648 \<and> d < 2147483648)"

lemma decimal_digits: "c \<in> set (decimal n) \<Longrightarrow> is_digit c"
proof (induction n rule: decimal.induct)
  case (1 n)
  show ?case
  proof (cases "n < 10")
    case True
    then show ?thesis using 1(2) by (simp add: decimal.simps[of n] is_digit_def of_char_of)
  next
    case False
    then have "c \<in> set (decimal (n div 10)) \<or> c = char_of (48 + n mod 10)"
      using 1(2) by (auto simp: decimal.simps[of n])
    moreover have "is_digit (char_of (48 + n mod 10))"
    proof -
      have "n mod 10 < 10" by simp
      then have "(48 + n mod 10) mod 256 = 48 + n mod 10" by simp
      then show ?thesis by (simp add: is_digit_def of_char_of)
    qed
    ultimately show ?thesis using 1(1) False by blast
  qed
qed

lemma decimal_nonempty [simp]: "decimal n \<noteq> []"
  by (simp add: decimal.simps[of n])

lemma digits_value_decimal [simp]: "digits_value (decimal n) = n"
proof (induction n rule: decimal.induct)
  case (1 n)
  show ?case
  proof (cases "n < 10")
    case True
    then show ?thesis by (simp add: decimal.simps[of n] digits_value_def of_char_of)
  next
    case False
    have "n mod 10 < 10" by simp
    then have "(48 + n mod 10) mod 256 = 48 + n mod 10" by simp
    then have "digits_value (decimal n) = 10 * (n div 10) + n mod 10"
      using 1 False by (simp add: decimal.simps[of n] digits_value_def of_char_of)
    then show ?thesis by simp
  qed
qed

lemma digit_not_special:
  "is_digit c \<Longrightarrow> \<not> is_space c \<and> c \<noteq> CHR 0x2D \<and> c \<noteq> CHR 0x2B \<and> c \<noteq> CHR 0x2C \<and> c \<noteq> CHR 0x0A \<and> c \<noteq> CHR 0x0D"
  by (auto simp: is_digit_def is_space_def)

lemma stoi_decimal:
  assumes "n < 2147483648" and "cs = [] \<or> \<not> is_digit (hd cs)" and "list_all is_space ws"
  shows "stoi (ws @ decimal n @ cs) = Inr (int n)"
proof -
  obtain d ds where d: "decimal n = d # ds" by (cases "decimal n") auto
  have dd: "is_digit d" using decimal_digits[of d n] d by simp
  note sp = digit_not_special[OF dd]
  have "dropWhile is_space (ws @ decimal n @ cs) = decimal n @ cs"
    using assms(3) sp by (induction ws) (auto simp: d)
  moreover have "takeWhile is_digit (decimal n @ cs) = decimal n"
  proof -
    have "takeWhile is_digit (decimal n @ cs) = decimal n @ takeWhile is_digit cs"
      by (rule takeWhile_append2) (rule decimal_digits)
    then show ?thesis using assms(2) by (cases cs) auto
  qed
  moreover have "int_ok (int n)" using assms(1) by (rule int_ok_of_nat)
  ultimately show ?thesis using sp by (simp add: stoi_def Let_def d[symmetric] hd_append) (simp add: d)
qed

lemma find_separator_decimal: "find_separator (decimal n @ '', '' @ cs) = Some (length (decimal n))"
proof -
  have "(\<forall>c \<in> set ds. c \<noteq> CHR 0x2C) \<Longrightarrow> find_separator (ds @ '', '' @ cs) = Some (length ds)" for ds
  proof (induction ds)
    case Nil
    then show ?case by simp
  next
    case (Cons d ds)
    then show ?case by (cases ds) auto
  qed
  then show ?thesis using decimal_digits digit_not_special by blast
qed

lemma no_separator: "CHR 0x2C \<notin> set cs \<Longrightarrow> find_separator cs = None"
  by (induction cs rule: find_separator.induct) auto

lemma no_comma_decimal: "CHR 0x2C \<notin> set (decimal n)"
  using decimal_digits digit_not_special by blast

lemma next_int_decimal:
  assumes "n < 2147483648" and "ws = '''' \<or> ws = '' ''"
  shows "next_int (ws @ decimal n @ '', '' @ cs) = Inr (int n, CHR 0x20 # cs)"
proof -
  have f: "find_separator (ws @ decimal n @ '', '' @ cs) = Some (length ws + length (decimal n))"
    using assms(2) find_separator_decimal[of n cs] by (cases "decimal n") auto
  have "stoi (ws @ decimal n @ []) = Inr (int n)"
    by (rule stoi_decimal) (use assms in \<open>auto simp: is_space_def\<close>)
  then show ?thesis using f by (simp add: next_int_def field_text_def rest_text_def)
qed

lemma last_int_decimal:
  assumes "n < 2147483648"
  shows "stoi (field_text (CHR 0x20 # decimal n)) = Inr (int n)"
proof -
  have "find_separator (CHR 0x20 # decimal n) = None"
    by (rule no_separator) (use no_comma_decimal in auto)
  moreover have "stoi ('' '' @ decimal n @ []) = Inr (int n)"
    by (rule stoi_decimal) (use assms in \<open>auto simp: is_space_def\<close>)
  ultimately show ?thesis by (simp add: field_text_def)
qed

lemma next_ints4_row:
  assumes "entries_ok (a, b, c, d)"
  shows "next_ints4 (row_text (a, b, c, d)) = Inr (int a, int b, int c, int d)"
proof -
  have n: "a < 2147483648" "b < 2147483648" "c < 2147483648" "d < 2147483648"
    using assms by (simp_all add: entries_ok_def)
  have 1: "next_int (decimal a @ '', '' @ cs) = Inr (int a, CHR 0x20 # cs)" for cs
    using next_int_decimal[OF n(1), of "''''"] by simp
  have 2: "next_int (CHR 0x20 # decimal b @ '', '' @ cs) = Inr (int b, CHR 0x20 # cs)" for cs
    using next_int_decimal[OF n(2), of "'' ''"] by simp
  have 3: "next_int (CHR 0x20 # decimal c @ '', '' @ cs) = Inr (int c, CHR 0x20 # cs)" for cs
    using next_int_decimal[OF n(3), of "'' ''"] by simp
  have 4: "next_int (CHR 0x20 # decimal d) = Inr (int d, rest_text (CHR 0x20 # decimal d))"
    using last_int_decimal[OF n(4)] by (simp add: next_int_def)
  show ?thesis unfolding next_ints4_def row_text_def prod.case 1 bindR_Inr 2 3 4 ..
qed

lemma rect_row_text: "entries_ok r \<Longrightarrow> rect_row (int w) (int h) (row_text r) = Inr (rect_of w h r)"
proof -
  assume ok: "entries_ok r"
  obtain a b c d where r: "r = (a, b, c, d)" by (cases r)
  have "int_ok (int c - int a)" and "int_ok (int d - int b)"
    using ok by (simp_all add: r entries_ok_def int_ok_def)
  then show ?thesis using next_ints4_row[of a b c d] ok by (simp add: rect_row_def rect_of_def r)
qed

lemma half_int_nat [simp]: "half_int (int n) = int (n div 2)"
  by (simp add: half_int_def zdiv_int)

lemma char_row_text: "entries_ok r \<Longrightarrow> char_row (int w) (int h) (row_text r) = Inr (glyph_of w h r)"
proof -
  assume ok: "entries_ok r"
  obtain a b c d where r: "r = (a, b, c, d)" by (cases r)
  have "int_ok (int a - int (c div 2))" and "int_ok (int b - int (d div 2))"
    using ok by (auto simp: r entries_ok_def int_ok_def)
  then show ?thesis using next_ints4_row[of a b c d] ok by (simp add: char_row_def glyph_of_def r)
qed

lemma no_newline_decimal: "c \<in> set (decimal n) \<Longrightarrow> c \<noteq> CHR 0x0A \<and> c \<noteq> CHR 0x0D"
  using decimal_digits digit_not_special by blast

lemma no_newline_row: "c \<in> set (row_text r) \<Longrightarrow> c \<noteq> CHR 0x0A \<and> c \<noteq> CHR 0x0D"
  by (cases r) (auto simp: row_text_def dest: no_newline_decimal)

lemma getline_line:
  assumes "\<forall>c \<in> set l. c \<noteq> CHR 0x0A" and "l \<noteq> []"
  shows "getline (l @ rows_text rows) = Some (l, drop 1 (rows_text rows))"
proof -
  have "takeWhile (\<lambda>c. c \<noteq> CHR 0x0A) (l @ rows_text rows) = l"
    and "dropWhile (\<lambda>c. c \<noteq> CHR 0x0A) (l @ rows_text rows) = rows_text rows"
    using assms(1) by (simp_all add: takeWhile_append2 dropWhile_append2)
      (cases rows; simp add: rows_text_def)+
  then show ?thesis using assms(2) by (simp add: getline_def)
qed

lemma rows_loop_text:
  assumes "\<And>r. r \<in> set rows \<Longrightarrow> row (row_text r) = Inr (f r)"
  shows "rows_loop row (drop 1 (rows_text rows)) acc = Inr (acc @ map f rows)"
  using assms
proof (induction rows arbitrary: acc)
  case Nil
  then show ?case by (simp add: rows_text_def getline_def rows_loop.simps[of row "[]"])
next
  case (Cons r rows)
  have ne: "row_text r \<noteq> []" by (cases r) (simp add: row_text_def)
  have d: "drop 1 (rows_text (r # rows)) = row_text r @ rows_text rows" by (simp add: rows_text_def)
  have "getline (row_text r @ rows_text rows) = Some (row_text r, drop 1 (rows_text rows))"
    by (rule getline_line) (use no_newline_row ne in blast)+
  then show ?case using Cons
    unfolding d by (subst rows_loop.simps) simp
qed

lemma text_mode_id: "\<forall>c \<in> set cs. c \<noteq> CHR 0x0D \<Longrightarrow> text_mode cs = cs"
  by (induction cs rule: text_mode.induct) auto

lemma rows_text_no_cr: "c \<in> set (rows_text rows) \<Longrightarrow> c \<noteq> CHR 0x0D"
  by (auto simp: rows_text_def split: if_splits dest: no_newline_row)

text \<open>
  Every table of rectangles written in the format of the asset files is read as written: one
  rectangle per row, its size and corner divided by the size of the image. The same holds for the
  tables of glyphs.
\<close>

lemma RectVectorBuilder_text:
  assumes "width < 2147483648" and "height < 2147483648" and "list_all entries_ok rows"
    and "file path = Some (rect_table_text width height rows)"
  shows "RectVectorBuilder file path = Inr (map (rect_of width height) rows)"
proof -
  have rows: "r \<in> set rows \<Longrightarrow> entries_ok r" for r using assms(3) by (simp add: list_all_iff)
  let ?head = "decimal width @ '', '' @ decimal height"
  have hc: "c \<in> set ?head \<Longrightarrow> c \<noteq> CHR 0x0A \<and> c \<noteq> CHR 0x0D" for c by (auto dest: no_newline_decimal)
  have "text_mode (?head @ rows_text rows) = ?head @ rows_text rows"
    by (rule text_mode_id) (use hc rows_text_no_cr in auto)
  moreover have "getline (?head @ rows_text rows) = Some (?head, drop 1 (rows_text rows))"
    by (rule getline_line) (use hc in blast, simp)
  moreover have "next_int ?head = Inr (int width, CHR 0x20 # decimal height)"
    using next_int_decimal[OF assms(1), of "''''" "decimal height"] by simp
  moreover note last_int_decimal[OF assms(2)]
  moreover have "rows_loop (rect_row (int width) (int height)) (drop 1 (rows_text rows)) [] =
      Inr ([] @ map (rect_of width height) rows)"
    by (rule rows_loop_text) (rule rect_row_text[OF rows])
  ultimately show ?thesis by (simp add: RectVectorBuilder_def assms(4) rect_table_text_def)
qed

lemma charVectorBuilder_text:
  assumes "entries_ok (width, height, cw, ch)" and "list_all entries_ok rows"
    and "file path = Some (char_table_text (width, height, cw, ch) rows)"
  shows "charVectorBuilder file path = Inr (map (glyph_of width height) rows)"
proof -
  have rows: "r \<in> set rows \<Longrightarrow> entries_ok r" for r using assms(2) by (simp add: list_all_iff)
  let ?head = "row_text (width, height, cw, ch)"
  have "text_mode (?head @ rows_text rows) = ?head @ rows_text rows"
    by (rule text_mode_id) (use no_newline_row rows_text_no_cr in fastforce)
  moreover have "getline (?head @ rows_text rows) = Some (?head, drop 1 (rows_text rows))"
    by (rule getline_line) (use no_newline_row in blast, simp add: row_text_def)
  moreover note next_ints4_row[OF assms(1)]
  moreover have "rows_loop (char_row (int width) (int height)) (drop 1 (rows_text rows)) [] =
      Inr ([] @ map (glyph_of width height) rows)"
    by (rule rows_loop_text) (rule char_row_text[OF rows])
  ultimately show ?thesis by (simp add: charVectorBuilder_def assms(3) char_table_text_def)
qed

text \<open>The file \<open>Assets/ColoredRectsCoords.txt\<close> of the applications.\<close>

definition ColoredRectsCoords :: string where
  "ColoredRectsCoords = ''64, 64'' @ [CHR 0x0A] @ ''00, 00, 32, 32'' @ [CHR 0x0A] @ ''31, 00, 64, 32'' @
     [CHR 0x0A] @ ''00, 31, 32, 64'' @ [CHR 0x0A] @ ''31, 31, 64, 64''"

lemma coords_floats:
  "f32_of_int 64 = 1115684864" "f32_of_int 32 = 1107296256" "f32_of_int 33 = 1107558400" "f32_of_int 31 = 1106771968"
  "f32_of_int 0 = 0"
  by (simp_all add: f32_of_int_run)

lemma coords_quotients:
  "f32_div 1107296256 1115684864 = 1056964608" "f32_div 1107558400 1115684864 = 1057226752"
  "f32_div 1106771968 1115684864 = 1056440320" "f32_div 0 1115684864 = 0"
  by (simp_all add: f32_run)

lemma coords_lines:
  "rect_row 64 64 ''00, 00, 32, 32'' = Inr \<lparr>f4x = 1056964608, f4y = 1056964608, f4z = 0, f4w = 0\<rparr>"
  "rect_row 64 64 ''31, 00, 64, 32'' = Inr \<lparr>f4x = 1057226752, f4y = 1056964608, f4z = 1056440320, f4w = 0\<rparr>"
  "rect_row 64 64 ''00, 31, 32, 64'' = Inr \<lparr>f4x = 1056964608, f4y = 1057226752, f4z = 0, f4w = 1056440320\<rparr>"
  "rect_row 64 64 ''31, 31, 64, 64'' = Inr \<lparr>f4x = 1057226752, f4y = 1057226752, f4z = 1056440320, f4w = 1056440320\<rparr>"
  by (simp_all add: rect_row_def next_ints4_def next_int_def field_text_def rest_text_def stoi_def is_space_def
      is_digit_def digits_value_def int_ok_def checked_int_def coords_floats coords_quotients)

text \<open>
  From the file of the applications \<open>RectVectorBuilder\<close> makes four rectangles; the third and fourth,
  which the viewer shows before and after a click, have the sizes 1/2 by 33/64 and 33/64 by 33/64.
\<close>

theorem coloredRects_parsed:
  "RectVectorBuilder [''Assets/ColoredRectsCoords.txt'' \<mapsto> ColoredRectsCoords] ''Assets/ColoredRectsCoords.txt'' = Inr
     [\<lparr>f4x = 1056964608, f4y = 1056964608, f4z = 0, f4w = 0\<rparr>,
      \<lparr>f4x = 1057226752, f4y = 1056964608, f4z = 1056440320, f4w = 0\<rparr>,
      \<lparr>f4x = 1056964608, f4y = 1057226752, f4z = 0, f4w = 1056440320\<rparr>,
      \<lparr>f4x = 1057226752, f4y = 1057226752, f4z = 1056440320, f4w = 1056440320\<rparr>]"
  by (simp add: RectVectorBuilder_def ColoredRectsCoords_def getline_def rows_loop.simps coords_lines
      next_int_def field_text_def rest_text_def stoi_def is_space_def is_digit_def digits_value_def int_ok_def)

end
