(* ===== verification/Viewer_Main.thy ===== *)
theory Viewer_Main
  imports Display_Layout Text_Tables
begin

text \<open>
  \<open>Application/SceenViewer/Main.cpp\<close>: the window procedure, the scene that \<open>wWinMain\<close> builds and its
  loop. The state of the program is the event system whose world holds the engine, the contents of the
  events and the size of the window. What Windows delivers in one turn of the loop (a message, the state
  of the mouse buttons) and the numbers of \<open>rand\<close> are arguments; painting and the creation of the window
  leave no trace in the state and are left out.
\<close>

section \<open>The state of the program\<close>

record 'm viewer =
  v_engine :: "'m engine"
  v_payload :: "addr \<Rightarrow> viewer_event option"
  v_next :: addr
  v_width :: int
  v_height :: int

type_synonym 'm program = "'m viewer event_system"

abbreviation v_heap :: "'m program \<Rightarrow> 'm eheap" where
  "v_heap s \<equiv> sheap (v_engine (world s))"

definition set_engine :: "'m engine \<Rightarrow> 'm program \<Rightarrow> 'm program" where
  "set_engine eng s = s\<lparr>world := (world s)\<lparr>v_engine := eng\<rparr>\<rparr>"

text \<open>A step of the engine, and a change of the scene alone.\<close>

definition run_engine :: "('m, 'a) act \<Rightarrow> 'm program \<Rightarrow> ('a \<times> 'm program) result" where
  "run_engine m s = bindR (m (v_engine (world s))) (\<lambda>(x, eng). Inr (x, set_engine eng s))"

definition on_scene :: "('m eheap \<Rightarrow> ('a \<times> 'm eheap) result) \<Rightarrow> 'm program \<Rightarrow> ('a \<times> 'm program) result" where
  "on_scene f = run_engine (heapA f)"

definition edit_scene :: "('m eheap \<Rightarrow> 'm eheap result) \<Rightarrow> 'm program \<Rightarrow> 'm program result" where
  "edit_scene f s = bindR (f (v_heap s)) (\<lambda>h. Inr (set_engine ((v_engine (world s))\<lparr>sheap := h\<rparr>) s))"

text \<open>\<open>new mouseScrollEvent()\<close> and \<open>new mouseButtonEvent()\<close> with the two flags of \<open>Event\<close> set.\<close>

definition new_event :: "bool \<Rightarrow> bool \<Rightarrow> viewer_event \<Rightarrow> 'm program \<Rightarrow> addr \<times> 'm program" where
  "new_event u d ev s =
     (let e = v_next (world s) in
      (e, s\<lparr>events := (events s)(e \<mapsto> \<lparr>usable = Some u, destroy = Some d\<rparr>),
            world := (world s)\<lparr>v_payload := (v_payload (world s))(e \<mapsto> ev), v_next := Suc e\<rparr>\<rparr>))"

text \<open>\<open>onEvent\<close> of the listener's class; the casts of the event read it, so it must not be deleted.\<close>

definition viewer_onEvent :: "nat \<Rightarrow> 'm env \<Rightarrow> 'm viewer on_event" where
  "viewer_onEvent fuel env el e s =
     bindR (case events s e of None \<Rightarrow> Inl (Undefined Dangling) | Some _ \<Rightarrow> Inr ()) (\<lambda>_.
     bindR (case v_payload (world s) e of None \<Rightarrow> Inl (Undefined Dangling) | Some ev \<Rightarrow> Inr ev) (\<lambda>ev.
     bindR (comp_at (v_heap s) el) (\<lambda>c. case c of
       CDragMover d \<Rightarrow> on_scene (dragMover_onEvent el ev) s
     | CButtonChecker b \<Rightarrow> run_engine (buttonChecker_onEvent fuel env viewer_actor el ev) s
     | _ \<Rightarrow> Inl (Undefined BadCast))))"


section \<open>The window procedure\<close>

datatype window_message = MouseWheel int | PaintWindow | WindowSize int int | DestroyWindow | QuitMessage int | OtherMessage

text \<open>\<open>(GET_WHEEL_DELTA_WPARAM(wParam) / 120) + 1\<close> in a \<open>byte\<close>; the division of C truncates.\<close>

definition wheel_dir :: "int \<Rightarrow> byte" where
  "wheel_dir delta = word_of_int (sgn delta * (\<bar>delta\<bar> div 120) + 1)"

definition WndProc :: "'m env \<Rightarrow> window_message \<Rightarrow> 'm program \<Rightarrow> 'm program result" where
  "WndProc env message s =
     (case message of
        MouseWheel delta \<Rightarrow>
          let (e, s) = new_event False True (MouseScroll (wheel_dir delta)) s in Inr (addUpdateTrigger e s)
      | WindowSize w h \<Rightarrow>
          Inr (s\<lparr>world := (world s)\<lparr>v_width := w mod 65536, v_height := h mod 65536\<rparr>\<rparr>)
      | DestroyWindow \<Rightarrow> bindR (run_engine (callA env (PostQuitMessage 0)) s) (\<lambda>(_, s). Inr s)
      | _ \<Rightarrow> Inr s)"


section \<open>The loop\<close>

record frame_input =
  fi_message :: "window_message option"
  fi_left :: bool
  fi_right :: bool
  fi_middle :: bool

text \<open>\<open>GetCursorPos(&mPoint); ScreenToClient(g_hWnd, &mPoint);\<close> \<close>

definition mouse_point :: "'m env \<Rightarrow> handle ptr \<Rightarrow> ('m, int \<times> int) act" where
  "mouse_point env g_hWnd =
     bindA (callA env GetCursorPos) (\<lambda>p.
     bindA (callA env (ScreenToClient g_hWnd (r_int0 p) (r_int1 p))) (\<lambda>p.
     retA (r_int0 p, r_int1 p)))"

definition next_mouse :: "frame_input \<Rightarrow> int \<times> int \<Rightarrow> int \<times> int \<Rightarrow> mouse_button_event \<Rightarrow> mouse_button_event" where
  "next_mouse fi old new m = m\<lparr>LButtonAlt := LButton m, RButtonAlt := RButton m, MButtonAlt := MButton m,
     LButton := fi_left fi, RButton := fi_right fi, MButton := fi_middle fi,
     mousePosXAlt := fst old, mousePosYAlt := snd old, mousePosX := fst new, mousePosY := snd new\<rparr>"

text \<open>
  One turn: \<open>e\<close> is the mouse event of the program, \<open>rend\<close> its main renderer, \<open>p\<close> the last position of
  the mouse. \<open>WM_QUIT\<close> has no window, so dispatching it does nothing.
\<close>

definition viewer_turn ::
    "nat \<Rightarrow> 'm env \<Rightarrow> handle ptr \<Rightarrow> cref \<Rightarrow> addr \<Rightarrow> frame_input \<Rightarrow> int \<times> int \<Rightarrow> 'm program \<Rightarrow>
     ((int \<times> int) \<times> 'm program) result" where
  "viewer_turn fuel env g_hWnd rend e fi p s =
     bindR (case fi_message fi of None \<Rightarrow> Inr s | Some m \<Rightarrow> WndProc env m s) (\<lambda>s.
     bindR (run_engine (mouse_point env g_hWnd) s) (\<lambda>(q, s).
     bindR (case v_payload (world s) e of Some (MouseButton m) \<Rightarrow> Inr m | _ \<Rightarrow> Inl (Undefined BadCast)) (\<lambda>m.
     let s = s\<lparr>world := (world s)\<lparr>v_payload := (v_payload (world s))(e \<mapsto> MouseButton (next_mouse fi p q m))\<rparr>\<rparr> in
     bindR (es_update fuel fuel (viewer_onEvent fuel env) (addUpdateTrigger e s)) (\<lambda>s.
     bindR (run_engine (Render fuel env rend) s) (\<lambda>(_, s). Inr (q, s))))))"

text \<open>The inputs that are given are used up; without a \<open>WM_QUIT\<close> among them the program is still running.\<close>

fun viewer_loop ::
    "nat \<Rightarrow> 'm env \<Rightarrow> handle ptr \<Rightarrow> cref \<Rightarrow> addr \<Rightarrow> frame_input list \<Rightarrow> int \<times> int \<Rightarrow> 'm program \<Rightarrow>
     (int option \<times> 'm program) result" where
  "viewer_loop fuel env g_hWnd rend e [] p s = Inr (None, s)"
| "viewer_loop fuel env g_hWnd rend e (fi # fis) p s =
     bindR (viewer_turn fuel env g_hWnd rend e fi p s) (\<lambda>(p, s).
     case fi_message fi of
       Some (QuitMessage code) \<Rightarrow>
         bindR (run_engine (renderer_Terminate env rend) s) (\<lambda>(_, s). Inr (Some code, s))
     | _ \<Rightarrow> viewer_loop fuel env g_hWnd rend e fis p s)"


section \<open>The scene of the viewer\<close>

definition setRequirements_listens ::
    "cref \<Rightarrow> 'm program \<Rightarrow> 'm program result" where
  "setRequirements_listens el s = addEventListener is_listener (v_heap s) el s"

text \<open>Strings with a backslash.\<close>

definition bslash :: string where
  "bslash = [CHR 0x5C]"

definition shader_path :: string where
  "shader_path = ''Assets'' @ bslash @ ''Shader'' @ bslash @ ''ShaderTexture_01.hlsl''"

definition float6_zero :: float6 where
  "float6_zero = \<lparr>f6a = f32_zero, f6b = f32_zero, f6c = f32_zero, f6d = f32_zero, f6e = f32_zero, f6f = f32_zero\<rparr>"

text \<open>The two loops over the glyphs; the second starts at 128.\<close>

definition viewer_glyphs :: "float6 list \<Rightarrow> float6 option list \<Rightarrow> float6 option list result" where
  "viewer_glyphs rects0 a =
     bindR (foldR (\<lambda>i a. bindR (vec_at rects0 i) (\<lambda>r. Inr (a[i := Some r]))) [0..<127] a) (\<lambda>a.
     Inr (fold (\<lambda>i a. a[i := Some float6_zero]) [128..<256] a))"

definition named_object :: "string \<Rightarrow> 'm program \<times> storage \<Rightarrow> (addr \<times> 'm program \<times> storage) result" where
  "named_object name = (\<lambda>(s, st).
     bindR (createGameObject (v_heap s) st) (\<lambda>(a, h, st).
     bindR (upd_obj a (\<lambda>g. g\<lparr>go_name := name\<rparr>) h) (\<lambda>h.
     bindR (edit_scene (\<lambda>_. Inr h) s) (\<lambda>s. Inr (a, s, st)))))"

abbreviation add_to :: "addr \<Rightarrow> 'm engine_component component_decl \<Rightarrow> 'm program \<Rightarrow> (cref \<times> 'm program) result" where
  "add_to a T \<equiv> on_scene (addComponent engine_class T a)"

definition build_renderer ::
    "(string \<Rightarrow> string option) \<Rightarrow> 'm program \<times> storage \<Rightarrow> ((cref \<times> cref \<times> cref) \<times> 'm program \<times> storage) result" where
  "build_renderer file s =
     bindR (named_object ''rendererObject'' s) (\<lambda>(renderObject, s, st).
     bindR (add_to renderObject renderer_decl s) (\<lambda>(mainRenderer, s).
     bindR (add_to renderObject instancedTeilSprite_decl s) (\<lambda>(instanceRenderer, s).
     bindR (edit_scene (edit as_instanced_teil_sprite CInstancedTeilSprite instanceRenderer (\<lambda>i.
              Inr (i\<lparr>its_shaderPath := shader_path, its_texturePath := ''Assets'' @ bslash @ ''ColoredRects.png''\<rparr>))) s) (\<lambda>s.
     bindR (add_to renderObject stringRenderer_decl s) (\<lambda>(stringRenderer, s).
     bindR (charVectorBuilder file (''Assets'' @ bslash @ ''charStellen.txt'')) (\<lambda>rects0.
     bindR (edit_scene (edit as_string_renderer CStringRenderer stringRenderer (\<lambda>r.
              bindR (viewer_glyphs rects0 (m_alphabetRects r)) (\<lambda>a.
              Inr (r\<lparr>sr_shaderPath := shader_path, sr_texturePath := ''Assets'' @ bslash @ ''Ascii.png'',
                m_tabSize := f32_of_int 10, m_endLineSize := f32_of_int 20, m_charSizeMultiplier := f32_one,
                m_alphabetRects := a\<rparr>)))) s) (\<lambda>s.
     bindR (add_to renderObject buttonChecker_decl s) (\<lambda>(checker, s).
     bindR (setRequirements_listens checker s) (\<lambda>s.
     Inr ((mainRenderer, instanceRenderer, stringRenderer), s, st))))))))))"

text \<open>\<open>0.1f\<close>.\<close>

definition f32_tenth :: f32 where
  "f32_tenth = 1036831949"

definition build_camera ::
    "cref \<Rightarrow> 'm program \<times> storage \<Rightarrow> ('m program \<times> storage) result" where
  "build_camera mainRenderer s =
     bindR (named_object ''kameraObject'' s) (\<lambda>(kamerObject, s, st).
     bindR (add_to kamerObject transform_decl s) (\<lambda>(mainKameraTransform, s).
     bindR (add_to kamerObject kamera_decl s) (\<lambda>(mainKamera, s).
     bindR (edit_scene (edit as_kamera CKamera mainKamera (\<lambda>k. Inr (setOrthogonal False
              (setProjection (f32_of_int (v_width (world s))) (f32_of_int (v_height (world s)))
                 (f32_of_int 100) f32_tenth (k\<lparr>k_transform := Ptr mainKameraTransform\<rparr>))))) s) (\<lambda>s.
     bindR (edit_scene (\<lambda>h. edit as_renderer CRenderer mainRenderer (setKamera h mainKamera) h) s) (\<lambda>s.
     bindR (add_to kamerObject dragMover_decl s) (\<lambda>(mover, s).
     bindR (setRequirements_listens mover s) (\<lambda>s. Inr (s, st))))))))"

text \<open>
  \<open>rnd i\<close> is the answer of the \<open>i\<close>-th call of \<open>rand\<close>; \<open>next\<close> is the array of the objects so far.
  \<open>setParrent\<close> asks the storage of the program, \<open>singleton\<close>, whatever storage holds the object.
\<close>

fun random_tree ::
    "(nat \<Rightarrow> nat) \<Rightarrow> storage \<Rightarrow> nat \<Rightarrow> addr list \<Rightarrow> 'm eheap \<times> storage \<Rightarrow> ('m eheap \<times> storage) result" where
  "random_tree rnd singleton 0 next s = Inr s"
| "random_tree rnd singleton (Suc n) next (h, st) =
     bindR (createGameObject h st) (\<lambda>(a, h, st).
     let i = length next in
     bindR (if i = 0 then Inr h else bindR (vec_at next (rnd i mod i)) (\<lambda>p. setParrent singleton a p h)) (\<lambda>h.
     random_tree rnd singleton n (next @ [a]) (h, st)))"

text \<open>The roots of the inspected scene, in the order of its identifiers.\<close>

definition show_roots ::
    "nat \<Rightarrow> storage \<Rightarrow> int \<Rightarrow> xmfloat4 list \<Rightarrow> cref \<Rightarrow> cref \<Rightarrow> 'm eheap \<times> storage \<Rightarrow> (int \<times> 'm eheap \<times> storage) result" where
  "show_roots fuel inspected screenHeight rects1 ir mr s =
     foldR (\<lambda>(i, it) (cnt, s).
        bindR (get_obj (fst s) it) (\<lambda>g.
        if parrentID g = EMPTY_ID
        then bindR (addGameobjectDisplayer fuel inspected screenHeight rects1 ir mr cnt 0 it s) (\<lambda>(n, s).
             bindR (checked_int (cnt + n)) (\<lambda>c. bindR (checked_int (c + 1)) (\<lambda>c. Inr (c, s))))
        else Inr (cnt, s)))
      (objects inspected) (0, s)"

definition wWinMain ::
    "nat \<Rightarrow> 'm env \<Rightarrow> (string \<Rightarrow> string option) \<Rightarrow> (nat \<Rightarrow> nat) \<Rightarrow> handle ptr \<Rightarrow> handle ptr \<Rightarrow> frame_input list \<Rightarrow>
     'm program \<Rightarrow> (int option \<times> 'm program) result" where
  "wWinMain fuel env file rnd g_hWnd g_hInst inputs s =
     bindR (build_renderer file (s, new_storage)) (\<lambda>((mainRenderer, instanceRenderer, stringRenderer), s).
     bindR (build_camera mainRenderer s) (\<lambda>s.
     bindR (named_object ''fpsObject'' s) (\<lambda>(fpsObject, s, st).
     bindR (edit_scene (\<lambda>h. edit as_renderer CRenderer mainRenderer (addDrawable h instanceRenderer) h) s) (\<lambda>s.
     bindR (edit_scene (\<lambda>h. edit as_renderer CRenderer mainRenderer (addDrawable h stringRenderer) h) s) (\<lambda>s.
     bindR (random_tree rnd st 500 [] (v_heap s, new_storage)) (\<lambda>(h, inspected).
     bindR (RectVectorBuilder file (''Assets'' @ bslash @ ''ColoredRectsCoords.txt'')) (\<lambda>rects1.
     bindR (show_roots fuel inspected (v_height (world s)) rects1 instanceRenderer mainRenderer (h, st)) (\<lambda>(_, h, st).
     bindR (edit_scene (\<lambda>_. Inr h) s) (\<lambda>s.
     bindR (run_engine (renderer_Initialize env mainRenderer g_hWnd g_hInst) s) (\<lambda>(ok, s).
     if \<not> ok then Inr (Some (- 1), s)
     else
     bindR (run_engine (mouse_point env g_hWnd) s) (\<lambda>(p, s).
     let (e, s) = new_event True False (MouseButton new_mouse_button_event) s in
     viewer_loop fuel env g_hWnd mainRenderer e inputs p s)))))))))))"

end
