(* ===== verification/Viewer_Scene.thy ===== *)
theory Viewer_Scene
  imports Viewer_Main
begin

text \<open>
  The scene that the viewer inspects: \<open>wWinMain\<close> attaches every new object to a random older one, which
  gives a tree of all the objects, and the loop over the roots shows each of them once.
\<close>

section \<open>Growing a tree\<close>

fun graft :: "addr \<Rightarrow> addr \<Rightarrow> view_tree \<Rightarrow> view_tree" where
  "graft p a (Node b ts) = Node b (map (graft p a) ts @ (if b = p then [Node a []] else []))"

fun tree_nodes :: "view_tree \<Rightarrow> addr list" where
  "tree_nodes (Node a ts) = a # concat (map tree_nodes ts)"

text \<open>The tree after \<open>n\<close> objects have been attached to the first, which is at \<open>b\<close>.\<close>

primrec random_view :: "(nat \<Rightarrow> nat) \<Rightarrow> addr \<Rightarrow> nat \<Rightarrow> view_tree" where
  "random_view rnd b 0 = Node b []"
| "random_view rnd b (Suc n) = graft (b + rnd (Suc n) mod Suc n) (b + Suc n) (random_view rnd b n)"

lemma root_graft [simp]: "root (graft p a t) = root t"
  by (cases t) simp

lemma mset_tree_nodes_graft:
  "mset (tree_nodes (graft p a t)) = mset (tree_nodes t) + replicate_mset (count (mset (tree_nodes t)) p) a"
proof (induction p a t rule: graft.induct)
  case (1 p a b ts)
  have "mset (concat (map (\<lambda>u. tree_nodes (graft p a u)) ts)) =
      mset (concat (map tree_nodes ts)) + replicate_mset (count (mset (concat (map tree_nodes ts))) p) a"
    using 1
  proof (induction ts)
    case (Cons u us)
    have "mset (tree_nodes (graft p a u)) = mset (tree_nodes u) + replicate_mset (count (mset (tree_nodes u)) p) a"
      using Cons.prems by simp
    moreover have "mset (concat (map (\<lambda>u. tree_nodes (graft p a u)) us)) =
        mset (concat (map tree_nodes us)) + replicate_mset (count (mset (concat (map tree_nodes us))) p) a"
      using Cons by (simp add: comp_def)
    ultimately show ?case by (simp add: multiset_eq_iff)
  qed simp
  then show ?case by (simp add: comp_def)
qed

lemma root_random_view [simp]: "root (random_view rnd b n) = b"
  by (induction n) simp_all

lemma mset_random_view: "mset (tree_nodes (random_view rnd b n)) = mset [b..<b + Suc n]"
proof (induction n)
  case 0
  then show ?case by simp
next
  case (Suc n)
  have "rnd (Suc n) mod Suc n < Suc n" by simp
  then have "b + rnd (Suc n) mod Suc n \<in> {b..<b + Suc n}" by simp
  then have "count (mset [b..<b + Suc n]) (b + rnd (Suc n) mod Suc n) = 1"
    by (simp only: distinct_count_atmost_1[THEN iffD1, OF distinct_upt] set_upt if_True)
  then show ?case by (simp only: random_view.simps mset_tree_nodes_graft Suc.IH) (simp del: upt_Suc add: upt_Suc_append)
qed

lemma set_random_view: "set (tree_nodes (random_view rnd b n)) = {b..<b + Suc n}"
  using mset_eq_setD[OF mset_random_view] by (simp del: upt_Suc)

lemma length_random_view: "length (tree_nodes (random_view rnd b n)) = Suc n"
  using mset_eq_length[OF mset_random_view] by (simp del: upt_Suc)

lemma layout_nodes_are:
  "map (\<lambda>(r, c, a). a) (layout row col t) = tree_nodes t"
  "map (\<lambda>(r, c, a). a) (layouts row col ts) = concat (map tree_nodes ts)"
  by (induction row col t and row col ts rule: layout_layouts.induct) auto

lemma length_layout: "length (layout row col t) = length (tree_nodes t)"
  using arg_cong[OF layout_nodes_are(1), of length] by simp

lemma leaves_le_nodes: "leaves t \<le> int (length (tree_nodes t))"
proof (induction t rule: leaves.induct)
  case (1 a ts)
  have "sum_list (map leaves ts) \<le> int (length (concat (map tree_nodes ts)))"
    using 1 by (induction ts) (force split: if_splits)+
  then show ?case by simp
qed

lemma height_le_nodes: "height t \<le> length (tree_nodes t)"
proof (induction t rule: height.induct)
  case (1 a ts)
  have "height u \<le> length (concat (map tree_nodes ts))" if "u \<in> set ts" for u
    using 1[OF that] member_le_sum_list[of "length (tree_nodes u)" "map (length \<circ> tree_nodes) ts"] that
    by (auto simp: length_concat)
  then show ?case by (simp add: fold_max_le)
qed


section \<open>Growing the scene\<close>

text \<open>The storage of \<open>n\<close> objects that were created one after the other from address \<open>b\<close> on.\<close>

definition numbered :: "addr \<Rightarrow> nat \<Rightarrow> storage" where
  "numbered b n = \<lparr>objects = map (\<lambda>j. (int j, b + j)) [0..<n], counter = int n\<rparr>"

lemma numbered_find: "map_getById (objects (numbered b n)) i = Some a \<longleftrightarrow> (\<exists>j < n. i = int j \<and> a = b + j)"
proof -
  have "distinct (map fst (map (\<lambda>j. (int j, b + j)) [0..<n]))" by (simp add: comp_def distinct_map inj_on_def)
  then show ?thesis by (auto simp: map_getById_def smap_find_map_of numbered_def)
qed

lemma numbered_grows: "map_addOnId (int n) (b + n) (objects (numbered b n)) = objects (numbered b (Suc n))"
  unfolding map_addOnId_def by (subst smap_insert_back) (auto simp: numbered_def)

lemma tree_at_cong: "tree_at I st t \<Longrightarrow> \<forall>a \<in> set (tree_nodes t). I' a = I a \<Longrightarrow> tree_at I' st t"
  by (induction I st t rule: tree_at.induct) (auto split: option.splits)

text \<open>A new object at the end of the children of \<open>p\<close>.\<close>

lemma tree_at_graft:
  assumes "tree_at I st t"
    and old: "\<And>b g. b \<in> set (tree_nodes t) \<Longrightarrow> I b = Some g \<Longrightarrow>
      I' b = Some (g\<lparr>childrenIds := childrenIds g @ (if b = p then [k] else [])\<rparr>)"
    and find: "\<And>i x. map_getById (objects st) i = Some x \<Longrightarrow> map_getById (objects st') i = Some x"
    and new: "map_getById (objects st') k = Some a" "I' a = Some ga" "childrenIds ga = []" "int_ok (go_ID ga + 48)"
  shows "tree_at I' st' (graft p a t)"
  using assms(1) old find
proof (induction I st t rule: tree_at.induct)
  case (1 I ist b ts)
  obtain g where g: "I b = Some g" "int_ok (go_ID g + 48)"
      "map (map_getById (objects ist)) (childrenIds g) = map (\<lambda>t. Some (root t)) ts" "\<forall>t \<in> set ts. tree_at I ist t"
    using "1.prems"(1) by (auto split: option.splits)
  have "tree_at I' st' (graft p a u)" if "u \<in> set ts" for u
    using "1.IH"[OF g(1) that] g(4) that "1.prems"(2,3) by auto
  moreover have "map (map_getById (objects st')) (childrenIds g) = map (\<lambda>t. Some (root t)) ts"
    using g(3) "1.prems"(3) by (auto simp: list_eq_iff_nth_eq)
  moreover have "I' b = Some (g\<lparr>childrenIds := childrenIds g @ (if b = p then [k] else [])\<rparr>)"
    using "1.prems"(2) g(1) by simp
  ultimately show ?case using g(2) new by (auto simp: comp_def)
qed

text \<open>The heap after \<open>n\<close> objects have been made from address \<open>b\<close> on, in the shape of the tree \<open>t\<close>.\<close>

definition grown :: "'m eheap \<Rightarrow> addr \<Rightarrow> nat \<Rightarrow> view_tree \<Rightarrow> 'm eheap \<Rightarrow> bool" where
  "grown h0 b n t h \<longleftrightarrow> next_addr h = b + n \<and> (\<forall>a \<ge> b + n. cells h a = None) \<and>
     (\<forall>a < b. cells h a = cells h0 a) \<and> tree_at (cells h) (numbered b n) t \<and> set (tree_nodes t) = {b..<b + n} \<and>
     (\<forall>j < n. \<exists>g. cells h (b + j) = Some g \<and> go_ID g = int j \<and> (parrentID g = EMPTY_ID \<longleftrightarrow> j = 0))"

lemma create_numbered:
  assumes "next_addr h = b + n" and "int_ok (int n + 1)"
  shows "createGameObject h (numbered b n) = Inr (b + n, h\<lparr>cells := (cells h)(b + n \<mapsto>
    new_game_object\<lparr>go_ID := int n\<rparr>), next_addr := b + n + 1\<rparr>, numbered b (Suc n))"
proof -
  have c: "counter (numbered b n) = int n" by (simp add: numbered_def)
  have "counter (numbered b (Suc n)) = int n + 1" by (simp add: numbered_def)
  then show ?thesis using assms numbered_grows[of n b]
    by (simp add: createGameObject_def alloc_def c checked_int_def)
qed

lemma grown_first:
  assumes "\<forall>a \<ge> next_addr h. cells h a = None"
  shows "\<exists>h'. createGameObject h new_storage = Inr (next_addr h, h', numbered (next_addr h) 1) \<and>
    grown h (next_addr h) 1 (Node (next_addr h) []) h'"
proof -
  have st: "new_storage = numbered (next_addr h) 0" by (simp add: new_storage_def numbered_def)
  show ?thesis unfolding st using create_numbered[of h "next_addr h" 0] assms
    by (auto simp: grown_def int_ok_def new_game_object_def)
qed

lemma grown_next:
  assumes G: "grown h0 b n t h" and j: "j < n" and n: "int n + 49 < 2147483648"
  shows "\<exists>h1 h'. createGameObject h (numbered b n) = Inr (b + n, h1, numbered b (Suc n)) \<and>
    setParrent sg (b + n) (b + j) h1 = Inr h' \<and> grown h0 b (Suc n) (graft (b + j) (b + n) t) h'"
proof -
  let ?a = "b + n" and ?p = "b + j"
  let ?h1 = "h\<lparr>cells := (cells h)(?a \<mapsto> new_game_object\<lparr>go_ID := int n\<rparr>), next_addr := ?a + 1\<rparr>"
  obtain g where g: "cells h ?p = Some g" "go_ID g = int j" using G j by (auto simp: grown_def)
  have c: "createGameObject h (numbered b n) = Inr (?a, ?h1, numbered b (Suc n))"
    by (rule create_numbered[THEN trans]) (use G n in \<open>auto simp: grown_def int_ok_def\<close>)
  let ?new = "new_game_object\<lparr>go_ID := int n, parrentID := int j\<rparr> :: 'a engine_component game_object"
  let ?g = "g\<lparr>childrenIds := childrenIds g @ [int n]\<rparr>"
  let ?h' = "?h1\<lparr>cells := (cells h)(?p \<mapsto> ?g, ?a \<mapsto> ?new)\<rparr>"
  have s: "setParrent sg ?a ?p ?h1 = Inr ?h'"
    using g j by (simp add: setParrent_def new_game_object_def addChild_def fun_upd_twist)
  have "tree_at (cells ?h') (numbered b (Suc n)) (graft ?p ?a t)"
  proof (rule tree_at_graft[of "cells h" "numbered b n"])
    show "tree_at (cells h) (numbered b n) t" using G by (simp add: grown_def)
    fix c d assume "c \<in> set (tree_nodes t)" and d: "cells h c = Some d"
    then have "c < ?a" using G by (simp add: grown_def)
    then show "cells ?h' c = Some (d\<lparr>childrenIds := childrenIds d @ (if c = ?p then [int n] else [])\<rparr>)"
      using d g by auto
  next
    show "map_getById (objects (numbered b (Suc n))) i = Some x" if "map_getById (objects (numbered b n)) i = Some x" for i x
      using that by (auto simp: numbered_find intro: less_SucI)
    show "map_getById (objects (numbered b (Suc n))) (int n) = Some ?a" by (simp add: numbered_find)
    show "cells ?h' ?a = Some ?new" by simp
    show "childrenIds ?new = []" "int_ok (go_ID ?new + 48)" using n by (simp_all add: new_game_object_def int_ok_def)
  qed
  moreover have "set (tree_nodes (graft ?p ?a t)) = {b..<b + Suc n}"
  proof -
    have "?p \<in> set (tree_nodes t)" using G j by (simp add: grown_def)
    then have "set (tree_nodes (graft ?p ?a t)) = insert ?a (set (tree_nodes t))"
      using mset_tree_nodes_graft[of ?p ?a t, THEN arg_cong, of set_mset] by (simp add: count_list_0_iff flip: count_mset)
    then show ?thesis using G by (auto simp: grown_def)
  qed
  moreover have "\<exists>d. cells ?h' (b + i) = Some d \<and> go_ID d = int i \<and> (parrentID d = EMPTY_ID \<longleftrightarrow> i = 0)" if "i < Suc n" for i
  proof -
    consider "i = n" | "i = j" "i \<noteq> n" | "i < n" "i \<noteq> j" using \<open>i < Suc n\<close> by linarith
    then show ?thesis
    proof cases
      case 2
      then have "parrentID g = EMPTY_ID \<longleftrightarrow> j = 0" using G j g by (auto simp: grown_def)
      then show ?thesis using 2 g by simp
    next
      case 3
      then have "\<exists>d. cells h (b + i) = Some d \<and> go_ID d = int i \<and> (parrentID d = EMPTY_ID \<longleftrightarrow> i = 0)"
        using G unfolding grown_def by blast
      then show ?thesis using 3 by simp
    qed (use j in simp)
  qed
  ultimately have "grown h0 b (Suc n) (graft ?p ?a t) ?h'" using G j by (simp add: grown_def)
  then show ?thesis using c s by blast
qed

lemma random_tree_goes_on:
  assumes "grown h0 b (Suc k) (random_view rnd b k) h" and "int (k + m) + 49 < 2147483648"
  shows "\<exists>h'. random_tree rnd sg m [b..<b + Suc k] (h, numbered b (Suc k)) = Inr (h', numbered b (Suc (k + m))) \<and>
    grown h0 b (Suc (k + m)) (random_view rnd b (k + m)) h'"
  using assms
proof (induction m arbitrary: k h)
  case 0
  then show ?case by simp
next
  case (Suc m)
  let ?j = "rnd (Suc k) mod Suc k"
  have j: "?j < Suc k" by simp
  obtain h1 h' where 1: "createGameObject h (numbered b (Suc k)) = Inr (b + Suc k, h1, numbered b (Suc (Suc k)))"
      "setParrent sg (b + Suc k) (b + ?j) h1 = Inr h'"
      "grown h0 b (Suc (Suc k)) (graft (b + ?j) (b + Suc k) (random_view rnd b k)) h'"
    using grown_next[OF Suc.prems(1) j, of sg] Suc.prems(2) by auto
  have "grown h0 b (Suc (Suc k)) (random_view rnd b (Suc k)) h'" using 1(3) by simp
  then obtain h2 where 2: "random_tree rnd sg m [b..<b + Suc (Suc k)] (h', numbered b (Suc (Suc k))) =
      Inr (h2, numbered b (Suc (Suc k + m)))" "grown h0 b (Suc (Suc k + m)) (random_view rnd b (Suc k + m)) h2"
    using Suc.IH[of "Suc k" h'] Suc.prems(2) by auto
  have l: "length [b..<b + Suc k] = Suc k" and v: "vec_at [b..<b + Suc k] ?j = Inr (b + ?j)"
    and n: "[b..<b + Suc k] @ [b + Suc k] = [b..<b + Suc (Suc k)]"
    using j by (simp_all add: vec_at_def del: upt_Suc) (simp add: upt_Suc_append)
  have "random_tree rnd sg (Suc m) [b..<b + Suc k] (h, numbered b (Suc k)) = Inr (h2, numbered b (Suc (Suc k + m)))"
    by (simp only: random_tree.simps 1 2 l v n Let_def bindR_Inr prod.case nat.distinct(2)[THEN eqTrueI, unfolded not_not] if_False
        Suc_not_Zero)
  then show ?case using 2(2) by auto
qed

text \<open>The program makes the random tree, whatever the answers of \<open>rand\<close> are.\<close>

lemma random_tree_grows:
  assumes "\<forall>a \<ge> next_addr h. cells h a = None" and "int n + 49 < 2147483648"
  shows "\<exists>h'. random_tree rnd sg (Suc n) [] (h, new_storage) = Inr (h', numbered (next_addr h) (Suc n)) \<and>
    grown h (next_addr h) (Suc n) (random_view rnd (next_addr h) n) h'"
proof -
  obtain h1 where h1: "createGameObject h new_storage = Inr (next_addr h, h1, numbered (next_addr h) 1)"
      "grown h (next_addr h) 1 (Node (next_addr h) []) h1" using grown_first[OF assms(1)] by blast
  show ?thesis using random_tree_goes_on[of h "next_addr h" 0 rnd h1 n sg] h1 assms(2) by simp
qed


section \<open>Showing the roots\<close>

lemma foldR_idle: "\<forall>x \<in> set xs. f x s = Inr s \<Longrightarrow> foldR f xs s = Inr s"
  by (induction xs) auto

text \<open>The objects from address \<open>b\<close> on.\<close>

definition objects_from :: "addr \<Rightarrow> 'm eheap \<Rightarrow> addr \<Rightarrow> 'm engine_component game_object option" where
  "objects_from b h = cells h |` {b..}"

lemma grown_stage:
  assumes G: "grown h (next_addr h) n t h'" and S: "stage (\<lambda>_. None) ir br m (h, st)"
  shows "stage (objects_from (next_addr h) h') ir br m (h', st)"
    and "fst ir < next_addr h" and "fst br < next_addr h"
proof -
  show b: "fst ir < next_addr h" "fst br < next_addr h" using stage_below[OF S] .
  have "comp_at h' ir = comp_at h ir" "comp_at h' br = comp_at h br"
    using G b by (auto simp: grown_def intro: comp_at_cong)
  then show "stage (objects_from (next_addr h) h') ir br m (h', st)"
    using S G b by (force simp: stage_def grown_def objects_from_def restrict_map_def split: if_splits)
qed

lemma grown_tree_at:
  assumes "grown h0 b n t h"
  shows "tree_at (objects_from b h) (numbered b n) t"
  by (rule tree_at_cong[of "cells h"]) (use assms in \<open>auto simp: grown_def objects_from_def\<close>)

lemma show_roots_shows_tree:
  assumes G: "grown h (next_addr h) (Suc n) t h'" and t: "root t = next_addr h" "leaves t \<le> 20000000"
      "int (height t) \<le> 20000000" "height t \<le> fuel"
    and S: "stage (\<lambda>_. None) ir br (length (layout 0 0 t)) (h, st)"
    and c: "3 < length rects" "0 \<le> sh" "sh \<le> 65535"
  shows "\<exists>s'. show_roots fuel (numbered (next_addr h) (Suc n)) sh rects ir br (h', st) = Inr (leaves t, s') \<and>
    displayed (objects_from (next_addr h) h') sh rects ir br (layout 0 0 t) (h', st) s'"
proof -
  let ?b = "next_addr h" and ?I = "objects_from (next_addr h) h'"
  let ?f = "\<lambda>(i, it) (cnt, s). bindR (get_obj (fst s) it) (\<lambda>g.
        if parrentID g = EMPTY_ID
        then bindR (addGameobjectDisplayer fuel (numbered ?b (Suc n)) sh rects ir br cnt 0 it s) (\<lambda>(n, s).
             bindR (checked_int (cnt + n)) (\<lambda>c. bindR (checked_int (c + 1)) (\<lambda>c. Inr (c, s))))
        else Inr (cnt, s))"
  obtain s' where s': "addGameobjectDisplayer fuel (numbered ?b (Suc n)) sh rects ir br 0 0 ?b (h', st) = Inr (leaves t - 1, s')"
      "displayed ?I sh rects ir br (layout 0 0 t) (h', st) s'"
    using displayer_shows[OF grown_tree_at[OF G] grown_stage(1)[OF G S] c, of fuel] t by auto
  have part: "\<exists>g. cells h' (?b + j) = Some g \<and> (parrentID g = EMPTY_ID \<longleftrightarrow> j = 0)" if "j < Suc n" for j
    using G that unfolding grown_def by blast
  have kept: "cells (fst s') (?b + j) = cells h' (?b + j)" if "j < Suc n" for j
    using s'(2) that grown_stage(2,3)[OF G S] G by (cases s') (simp add: displayed_def Let_def grown_def)
  have l: "1 \<le> leaves t" by (rule leaves_pos)
  obtain g where g: "cells h' ?b = Some g" "parrentID g = EMPTY_ID" using part[of 0] by auto
  have first: "?f (0, ?b) (0, h', st) = Inr (leaves t, s')"
    using g s'(1) l t(2) by (simp add: checked_int_def int_ok_def)
  have rest: "?f (int j, ?b + j) (leaves t, s') = Inr (leaves t, s')" if "1 \<le> j" "j < Suc n" for j
    using part[OF that(2)] kept[OF that(2)] that(1) by auto
  have objs: "objects (numbered ?b (Suc n)) = (0, ?b) # map (\<lambda>j. (int j, ?b + j)) [1..<Suc n]"
    by (simp add: numbered_def upt_conv_Cons del: upt_Suc)
  have "foldR ?f (map (\<lambda>j. (int j, ?b + j)) [1..<Suc n]) (leaves t, s') = Inr (leaves t, s')"
  proof (intro foldR_idle ballI)
    fix x assume "x \<in> set (map (\<lambda>j. (int j, ?b + j)) [1..<Suc n])"
    then obtain j where "1 \<le> j" "j < Suc n" and x: "x = (int j, ?b + j)" by (auto simp del: upt_Suc)
    then show "?f x (leaves t, s') = Inr (leaves t, s')" unfolding x by (intro rest)
  qed
  then have "show_roots fuel (numbered ?b (Suc n)) sh rects ir br (h', st) = Inr (leaves t, s')"
    unfolding show_roots_def objs foldR.simps first by simp
  then show ?thesis using s'(2) by blast
qed

lemma viewer_shows:
  assumes "stage (\<lambda>_. None) ir br (Suc n) (h, st)" and "3 < length rects" and "0 \<le> sh" and "sh \<le> 65535"
    and "int n < 20000000" and "Suc n \<le> fuel"
  shows "\<exists>h' s'. random_tree rnd st (Suc n) [] (h, new_storage) = Inr (h', numbered (next_addr h) (Suc n)) \<and>
    show_roots fuel (numbered (next_addr h) (Suc n)) sh rects ir br (h', st) =
      Inr (leaves (random_view rnd (next_addr h) n), s') \<and>
    displayed (objects_from (next_addr h) h') sh rects ir br (layout 0 0 (random_view rnd (next_addr h) n)) (h', st) s' \<and>
    mset (map (\<lambda>(r, c, a). a) (layout 0 0 (random_view rnd (next_addr h) n))) = mset [next_addr h..<next_addr h + Suc n]"
proof -
  let ?t = "random_view rnd (next_addr h) n"
  obtain h' where h': "random_tree rnd st (Suc n) [] (h, new_storage) = Inr (h', numbered (next_addr h) (Suc n))"
      "grown h (next_addr h) (Suc n) ?t h'"
    using random_tree_grows[of h n rnd st] assms(1,5) by (auto simp: stage_def)
  have len: "length (tree_nodes ?t) = Suc n" by (rule length_random_view)
  have b: "leaves ?t \<le> 20000000" "int (height ?t) \<le> 20000000" "height ?t \<le> fuel"
    using leaves_le_nodes[of ?t] height_le_nodes[of ?t] len assms(5,6) by linarith+
  have S: "stage (\<lambda>_. None) ir br (length (layout 0 0 ?t)) (h, st)" using assms(1) by (simp add: length_layout len)
  obtain s' where "show_roots fuel (numbered (next_addr h) (Suc n)) sh rects ir br (h', st) = Inr (leaves ?t, s')"
      "displayed (objects_from (next_addr h) h') sh rects ir br (layout 0 0 ?t) (h', st) s'"
    using show_roots_shows_tree[OF h'(2) root_random_view b S assms(2-4)] by blast
  then show ?thesis using h'(1) mset_random_view[of rnd "next_addr h" n] unfolding layout_nodes_are by blast
qed

text \<open>
  C9. Whatever the answers of \<open>rand\<close> are, the viewer makes a scene whose \<open>n + 1\<close> objects form one tree
  with the first object as root, and the loop over the roots shows every one of them exactly once, at
  the cell of the layout of that tree: the first root shows the whole tree and no other object is a root.
  The result is the number of rows, one for every leaf.
\<close>

theorem viewer_shows_every_object:
  assumes "stage (\<lambda>_. None) ir br (Suc n) (h, st)" and "3 < length rects" and "0 \<le> sh" and "sh \<le> 65535"
    and "int n < 20000000" and "Suc n \<le> fuel"
  shows "\<exists>h' s'. random_tree rnd st (Suc n) [] (h, new_storage) = Inr (h', numbered (next_addr h) (Suc n)) \<and>
    show_roots fuel (numbered (next_addr h) (Suc n)) sh rects ir br (h', st) =
      Inr (leaves (random_view rnd (next_addr h) n), s') \<and>
    displayed (objects_from (next_addr h) h') sh rects ir br (layout 0 0 (random_view rnd (next_addr h) n)) (h', st) s' \<and>
    mset (map (\<lambda>(r, c, a). a) (layout 0 0 (random_view rnd (next_addr h) n))) = mset [next_addr h..<next_addr h + Suc n]"
  by (rule viewer_shows[OF assms])

text \<open>The scene of the program before the inspected one is made: its renderer and the instanced sprite.\<close>

definition renderer_heap :: "unit eheap" where
  "renderer_heap = \<lparr>cells = [0 \<mapsto> holder 0 0 [CRenderer new_renderer,
     CInstancedTeilSprite new_instanced_teil_sprite]], next_addr = 1\<rparr>"

theorem viewer_shows_every_object_witness:
  "\<exists>h' s'. random_tree (\<lambda>i. i * i + 7) \<lparr>objects = [(0, 0)], counter = 1\<rparr> 500 [] (renderer_heap, new_storage) =
      Inr (h', numbered 1 500) \<and>
    show_roots 500 (numbered 1 500) 600 (replicate 4 button_picture) (0, 1) (0, 0)
      (h', \<lparr>objects = [(0, 0)], counter = 1\<rparr>) = Inr (leaves (random_view (\<lambda>i. i * i + 7) 1 499), s')"
proof -
  let ?st = "\<lparr>objects = [(0, 0)], counter = 1\<rparr> :: storage"
  have n: "next_addr renderer_heap = 1" by (simp add: renderer_heap_def)
  have at: "comp_at renderer_heap (0, 0) = Inr (CRenderer new_renderer)"
      "comp_at renderer_heap (0, 1) = Inr (CInstancedTeilSprite new_instanced_teil_sprite)"
    by (simp_all add: renderer_heap_def comp_at_def holder_def new_game_object_def get_obj_def vec_at_def)
  have "stage (\<lambda>_. None) (0, 1) (0, 0) (Suc 499) (renderer_heap, ?st)"
    using at by (auto simp: stage_def renderer_heap_def new_renderer_def)
  from viewer_shows_every_object[OF this, of "replicate 4 button_picture" 600 500 "\<lambda>i. i * i + 7"]
  show ?thesis by (simp add: n) blast
qed

end
