(* ===== verification/Viewer_Run.thy ===== *)
theory Viewer_Run
  imports Viewer_Scene
begin

text \<open>
  The viewer once its scene is built: which components exist and how they are wired, what the mouse wheel
  does on its way from the window procedure through the event system to the camera, and which members no
  part of the program has set when the first frame is drawn.
\<close>

section \<open>The glyph table\<close>

lemma set_glyphs:
  assumes "n \<le> length rects0" and "n \<le> length a"
  shows "foldR (\<lambda>i a. bindR (vec_at rects0 i) (\<lambda>r. Inr (a[i := Some r]))) [0..<n] a =
    Inr (map Some (take n rects0) @ drop n a)"
  using assms
proof (induction n)
  case 0
  then show ?case by simp
next
  case (Suc n)
  have "(map Some (take n rects0) @ drop n a)[n := Some (rects0 ! n)] = map Some (take (Suc n) rects0) @ drop (Suc n) a"
    using Suc.prems by (simp add: list_update_append take_Suc_conv_app_nth Cons_nth_drop_Suc[symmetric])
  then show ?case using Suc by (simp add: foldR_append vec_at_def)
qed

lemma zero_glyphs:
  "n \<le> length a \<Longrightarrow> m \<le> n \<Longrightarrow> fold (\<lambda>i a. a[i := Some z]) [m..<n] a = take m a @ replicate (n - m) (Some z) @ drop n a"
proof (induction n arbitrary: a)
  case 0
  then show ?case by simp
next
  case (Suc n)
  show ?case
  proof (cases "m = Suc n")
    case False
    then have "fold (\<lambda>i a. a[i := Some z]) [m..<n] a = take m a @ replicate (n - m) (Some z) @ drop n a"
      using Suc by simp
    moreover have "(take m a @ replicate (n - m) (Some z) @ drop n a)[n := Some z] =
        take m a @ replicate (Suc n - m) (Some z) @ drop (Suc n) a"
      using Suc.prems False
      by (simp add: list_update_append Cons_nth_drop_Suc[symmetric] Suc_diff_le replicate_append_same[symmetric] min_def)
    ultimately show ?thesis using Suc.prems False by (simp add: upt_Suc_append)
  qed simp
qed

lemma take_one_more: "length xs = n \<Longrightarrow> n < length a \<Longrightarrow> take (Suc n) (xs @ drop n a) = xs @ [a ! n]"
  by (simp add: take_Suc_conv_app_nth hd_drop_conv_nth[symmetric] take_Suc)

lemma viewer_glyphs_are:
  assumes "127 \<le> length rects0" and "length a = 256"
  shows "viewer_glyphs rects0 a = Inr (map Some (take 127 rects0) @ [a ! 127] @ replicate 128 (Some float6_zero))"
proof -
  let ?b = "map Some (take 127 rects0) @ drop 127 a"
  have len: "length ?b = 256" using assms by simp
  have "take (Suc 127) ?b = map Some (take 127 rects0) @ [a ! 127]"
    by (rule take_one_more) (use assms in simp_all)
  then have t: "take 128 ?b = map Some (take 127 rects0) @ [a ! 127]" by simp
  have 1: "foldR (\<lambda>i a. bindR (vec_at rects0 i) (\<lambda>r. Inr (a[i := Some r]))) [0..<127] a = Inr ?b"
    by (rule set_glyphs) (use assms in simp_all)
  have "fold (\<lambda>i a. a[i := Some float6_zero]) [128..<256] ?b = take 128 ?b @ replicate (256 - 128) (Some float6_zero) @ drop 256 ?b"
    by (rule zero_glyphs) (use len in simp_all)
  then have 2: "fold (\<lambda>i a. a[i := Some float6_zero]) [128..<256] ?b =
      map Some (take 127 rects0) @ [a ! 127] @ replicate 128 (Some float6_zero)"
    unfolding t using len by simp
  show ?thesis unfolding viewer_glyphs_def 1 bindR_Inr 2 ..
qed


section \<open>The scene that is built\<close>

text \<open>The rendering object and the camera object.\<close>

definition built_strings :: "float6 list \<Rightarrow> string_renderer" where
  "built_strings rects0 = new_string_renderer\<lparr>sr_shaderPath := shader_path,
     sr_texturePath := ''Assets'' @ bslash @ ''Ascii.png'', m_tabSize := f32_of_int 10, m_endLineSize := f32_of_int 20,
     m_charSizeMultiplier := f32_one,
     m_alphabetRects := map Some (take 127 rects0) @ [None] @ replicate 128 (Some float6_zero)\<rparr>"

text \<open>The program with another scene; its other parts stay.\<close>

definition put_scene :: "'m eheap \<Rightarrow> 'm program \<Rightarrow> 'm program" where
  "put_scene h s = set_engine ((v_engine (world s))\<lparr>sheap := h\<rparr>) s"

lemma put_scene_simps [simp]:
  "v_heap (put_scene h s) = h" "put_scene h (put_scene h' s) = put_scene h s"
  "listener (put_scene h s) = listener s" "listenerIDs (put_scene h s) = listenerIDs s"
  "events (put_scene h s) = events s" "onNextUpdate (put_scene h s) = onNextUpdate s"
  "v_width (world (put_scene h s)) = v_width (world s)" "v_height (world (put_scene h s)) = v_height (world s)"
  "hist (v_engine (world (put_scene h s))) = hist (v_engine (world s))"
  "v_payload (world (put_scene h s)) = v_payload (world s)" "v_next (world (put_scene h s)) = v_next (world s)"
  by (simp_all add: put_scene_def set_engine_def)

lemma on_scene_put: "on_scene f s = bindR (f (v_heap s)) (\<lambda>(x, h). Inr (x, put_scene h s))"
  by (cases "f (v_heap s)") (auto simp: on_scene_def run_engine_def heapA_def put_scene_def)

lemma edit_scene_put: "edit_scene f s = bindR (f (v_heap s)) (\<lambda>h. Inr (put_scene h s))"
  by (simp add: edit_scene_def put_scene_def)

lemma named_object_put:
  assumes "v_heap s = h" and "st = numbered b n" and "next_addr h = b + n" and "int_ok (int n + 1)"
  shows "named_object name (s, st) = Inr (b + n, put_scene (h\<lparr>cells := (cells h)(b + n \<mapsto>
    (holder (b + n) (int n) [])\<lparr>go_name := name\<rparr>), next_addr := b + n + 1\<rparr>) s, numbered b (Suc n))"
  using create_numbered[OF assms(3,4)] assms
  by (simp add: named_object_def edit_scene_put holder_def new_game_object_def)

lemmas build_run = holder_def new_game_object_def edit_def cast_at_def comp_at_def upd_comp_def vec_at_def
    addComponent_def engine_created engine_registrations_def decl_of_def findComponents_def findComponentsNamed_def

definition renderer_object :: "'m engine_component list \<Rightarrow> 'm eheap" where
  "renderer_object cs = \<lparr>cells = [0 \<mapsto> (holder 0 0 cs)\<lparr>go_name := ''rendererObject''\<rparr>], next_addr = 1\<rparr>"

lemma add_to_renderer_object:
  fixes s :: "'m program"
  assumes "v_heap s = renderer_object cs"
  shows "cs = [] \<Longrightarrow> add_to 0 renderer_decl s = Inr ((0, 0), put_scene (renderer_object [CRenderer new_renderer]) s)"
    and "cs = [CRenderer r] \<Longrightarrow> add_to 0 instancedTeilSprite_decl s =
      Inr ((0, 1), put_scene (renderer_object [CRenderer r, CInstancedTeilSprite new_instanced_teil_sprite]) s)"
    and "cs = [CRenderer r, CInstancedTeilSprite i] \<Longrightarrow> add_to 0 stringRenderer_decl s =
      Inr ((0, 2), put_scene (renderer_object [CRenderer r, CInstancedTeilSprite i, CStringRenderer new_string_renderer]) s)"
    and "cs = [CRenderer r, CInstancedTeilSprite i, CStringRenderer t] \<Longrightarrow> add_to 0 buttonChecker_decl s =
      Inr ((0, 3), put_scene (renderer_object [CRenderer r, CInstancedTeilSprite i, CStringRenderer t,
        CButtonChecker \<lparr>bc_button = Ptr (0, 0)\<rparr>]) s)"
  using assms
  by (simp_all add: on_scene_put build_run renderer_object_def renderer_decl_def instancedTeilSprite_decl_def
      stringRenderer_decl_def buttonChecker_decl_def buttonChecker_setRequirements_def new_button_checker_def eval_nat_numeral)

lemma edit_renderer_object:
  fixes s :: "'m program"
  assumes "v_heap s = renderer_object cs"
  shows "cs = [CRenderer r, CInstancedTeilSprite i] \<Longrightarrow>
      edit_scene (edit as_instanced_teil_sprite CInstancedTeilSprite (0, 1) (\<lambda>i. Inr (fi i))) s =
      Inr (put_scene (renderer_object [CRenderer r, CInstancedTeilSprite (fi i)]) s)"
    and "cs = [CRenderer r, CInstancedTeilSprite i, CStringRenderer t] \<Longrightarrow> ft t = Inr t' \<Longrightarrow>
      edit_scene (edit as_string_renderer CStringRenderer (0, 2) ft) s =
      Inr (put_scene (renderer_object [CRenderer r, CInstancedTeilSprite i, CStringRenderer t']) s)"
  using assms by (simp_all add: edit_scene_put build_run renderer_object_def eval_nat_numeral)

lemma checker_listens:
  fixes s :: "'m program"
  assumes "v_heap s = renderer_object [CRenderer r, CInstancedTeilSprite i, CStringRenderer t, CButtonChecker b]"
  shows "setRequirements_listens (0, 3) s =
    Inr (s\<lparr>listener := listener s @ [(0, 3)], listenerIDs := listenerIDs s @ [(0, 0)]\<rparr>)"
  using assms
  by (simp add: setRequirements_listens_def addEventListener_def renderer_object_def build_run eval_nat_numeral)

text \<open>The components of the rendering object, with the renderer \<open>r\<close>.\<close>

definition built_renderer :: "float6 list \<Rightarrow> drawable_renderer \<Rightarrow> 'm engine_component list" where
  "built_renderer rects0 r = [CRenderer r,
     CInstancedTeilSprite (new_instanced_teil_sprite\<lparr>its_shaderPath := shader_path,
       its_texturePath := ''Assets'' @ bslash @ ''ColoredRects.png''\<rparr>),
     CStringRenderer (built_strings rects0), CButtonChecker \<lparr>bc_button = Ptr (0, 0)\<rparr>]"

lemma renderer_is_built:
  fixes s :: "'m program"
  assumes h: "v_heap s = empty_heap" and l: "listener s = []" "listenerIDs s = []"
    and f: "charVectorBuilder file (''Assets'' @ bslash @ ''charStellen.txt'') = Inr rects0" "127 \<le> length rects0"
  shows "build_renderer file (s, new_storage) = Inr (((0, 0), (0, 1), (0, 2)),
    (put_scene (renderer_object (built_renderer rects0 new_renderer)) s)\<lparr>listener := [(0, 3)], listenerIDs := [(0, 0)]\<rparr>,
    numbered 0 1)"
proof -
  let ?its = "new_instanced_teil_sprite\<lparr>its_shaderPath := shader_path, its_texturePath := ''Assets'' @ bslash @ ''ColoredRects.png''\<rparr>"
  let ?put = "\<lambda>cs. put_scene (renderer_object cs) s"
  have 1: "named_object ''rendererObject'' (s, new_storage) = Inr (0, ?put [], numbered 0 1)"
    using named_object_put[OF h, where n = 0 and b = 0 and st = new_storage and name = "''rendererObject''"]
    by (simp add: new_storage_def numbered_def empty_heap_def renderer_object_def int_ok_def)
  have 2: "add_to 0 renderer_decl (?put []) = Inr ((0, 0), ?put [CRenderer new_renderer])"
    using add_to_renderer_object(1)[of "?put []"] by simp
  have 3: "add_to 0 instancedTeilSprite_decl (?put [CRenderer new_renderer]) =
      Inr ((0, 1), ?put [CRenderer new_renderer, CInstancedTeilSprite new_instanced_teil_sprite])"
    using add_to_renderer_object(2)[of "?put [CRenderer new_renderer]"] by simp
  have 4: "edit_scene (edit as_instanced_teil_sprite CInstancedTeilSprite (0, 1) (\<lambda>i.
        Inr (i\<lparr>its_shaderPath := shader_path, its_texturePath := ''Assets'' @ bslash @ ''ColoredRects.png''\<rparr>)))
        (?put [CRenderer new_renderer, CInstancedTeilSprite new_instanced_teil_sprite]) =
      Inr (?put [CRenderer new_renderer, CInstancedTeilSprite ?its])"
    using edit_renderer_object(1)[of "?put [CRenderer new_renderer, CInstancedTeilSprite new_instanced_teil_sprite]"] by simp
  have 5: "add_to 0 stringRenderer_decl (?put [CRenderer new_renderer, CInstancedTeilSprite ?its]) =
      Inr ((0, 2), ?put [CRenderer new_renderer, CInstancedTeilSprite ?its, CStringRenderer new_string_renderer])"
    using add_to_renderer_object(3)[of "?put [CRenderer new_renderer, CInstancedTeilSprite ?its]"] by simp
  have "viewer_glyphs rects0 (m_alphabetRects new_string_renderer) =
      Inr (map Some (take 127 rects0) @ [None] @ replicate 128 (Some float6_zero))"
    using viewer_glyphs_are[of rects0 "replicate 256 None"] f(2) by (simp add: new_string_renderer_def)
  then have "(\<lambda>r. bindR (viewer_glyphs rects0 (m_alphabetRects r)) (\<lambda>a.
        Inr (r\<lparr>sr_shaderPath := shader_path, sr_texturePath := ''Assets'' @ bslash @ ''Ascii.png'',
          m_tabSize := f32_of_int 10, m_endLineSize := f32_of_int 20, m_charSizeMultiplier := f32_one,
          m_alphabetRects := a\<rparr>))) new_string_renderer = Inr (built_strings rects0)"
    by (simp only: bindR_Inr built_strings_def)
  then have 6: "edit_scene (edit as_string_renderer CStringRenderer (0, 2) (\<lambda>r.
        bindR (viewer_glyphs rects0 (m_alphabetRects r)) (\<lambda>a.
        Inr (r\<lparr>sr_shaderPath := shader_path, sr_texturePath := ''Assets'' @ bslash @ ''Ascii.png'',
          m_tabSize := f32_of_int 10, m_endLineSize := f32_of_int 20, m_charSizeMultiplier := f32_one,
          m_alphabetRects := a\<rparr>))))
        (?put [CRenderer new_renderer, CInstancedTeilSprite ?its, CStringRenderer new_string_renderer]) =
      Inr (?put [CRenderer new_renderer, CInstancedTeilSprite ?its, CStringRenderer (built_strings rects0)])"
    by (intro edit_renderer_object(2)[THEN trans, OF put_scene_simps(1) refl]) (simp_all only: put_scene_simps)
  have 7: "add_to 0 buttonChecker_decl (?put [CRenderer new_renderer, CInstancedTeilSprite ?its, CStringRenderer (built_strings rects0)]) =
      Inr ((0, 3), ?put (built_renderer rects0 new_renderer))"
    using add_to_renderer_object(4)[of "?put [CRenderer new_renderer, CInstancedTeilSprite ?its, CStringRenderer (built_strings rects0)]"]
    by (simp add: built_renderer_def)
  have 8: "setRequirements_listens (0, 3) (?put (built_renderer rects0 new_renderer)) =
      Inr ((?put (built_renderer rects0 new_renderer))\<lparr>listener := [(0, 3)], listenerIDs := [(0, 0)]\<rparr>)"
    using checker_listens[of "?put (built_renderer rects0 new_renderer)"] l by (simp add: built_renderer_def)
  show ?thesis by (simp only: build_renderer_def 1 2 3 4 5 f(1) 6 7 8 bindR_Inr prod.case)
qed

text \<open>The camera, and the scene with both objects.\<close>

definition built_kamera :: "int \<Rightarrow> int \<Rightarrow> 'm kamera" where
  "built_kamera w h = new_kamera\<lparr>k_transform := Ptr (1, 0), m_projectionDirty := Some True,
     m_screenWidth := Some (f32_of_int w), m_screenHeigth := Some (f32_of_int h),
     m_maxViewDist := Some (f32_of_int 100), m_minViewDist := Some f32_tenth, m_orthogonal := Some False\<rparr>"

definition two_objects :: "'m engine_component list \<Rightarrow> 'm engine_component list \<Rightarrow> 'm eheap" where
  "two_objects rs cs = \<lparr>cells = [0 \<mapsto> (holder 0 0 rs)\<lparr>go_name := ''rendererObject''\<rparr>,
     1 \<mapsto> (holder 1 1 cs)\<lparr>go_name := ''kameraObject''\<rparr>], next_addr = 2\<rparr>"

definition built_scene :: "float6 list \<Rightarrow> int \<Rightarrow> int \<Rightarrow> 'm eheap" where
  "built_scene rects0 w h = two_objects
     (built_renderer rects0 (new_renderer\<lparr>m_currentCamera := Ptr (1, 1), m_currentCameraID := Some 1\<rparr>))
     [CTransform new_transform, CKamera (built_kamera w h), CDragMover \<lparr>d_transform = Ptr (1, 0)\<rparr>]"

lemma add_to_camera_object:
  fixes s :: "'m program"
  assumes "v_heap s = two_objects rs cs"
  shows "cs = [] \<Longrightarrow> add_to 1 transform_decl s = Inr ((1, 0), put_scene (two_objects rs [CTransform new_transform]) s)"
    and "cs = [CTransform t] \<Longrightarrow> add_to 1 kamera_decl s =
      Inr ((1, 1), put_scene (two_objects rs [CTransform t, CKamera (new_kamera\<lparr>k_transform := Ptr (1, 0)\<rparr>)]) s)"
    and "cs = [CTransform t, CKamera k] \<Longrightarrow> add_to 1 dragMover_decl s =
      Inr ((1, 2), put_scene (two_objects rs [CTransform t, CKamera k, CDragMover \<lparr>d_transform = Ptr (1, 0)\<rparr>]) s)"
  using assms
  by (simp_all add: on_scene_put build_run two_objects_def transform_decl_def kamera_decl_def dragMover_decl_def
      dragMover_setRequirements_def new_drag_mover_def kamera_setRequirements_def eval_nat_numeral)

lemma edit_camera_object:
  fixes s :: "'m program"
  assumes "v_heap s = two_objects rs [CTransform t, CKamera k]"
  shows "edit_scene (edit as_kamera CKamera (1, 1) (\<lambda>k. Inr (fk k))) s =
      Inr (put_scene (two_objects rs [CTransform t, CKamera (fk k)]) s)"
  using assms by (simp add: edit_scene_put build_run two_objects_def)

lemma camera_is_set:
  fixes s :: "'m program"
  assumes "v_heap s = two_objects (CRenderer r # rs) [CTransform t, CKamera k]"
  shows "edit_scene (\<lambda>h. edit as_renderer CRenderer (0, 0) (setKamera h (1, 1)) h) s = Inr (put_scene (two_objects
    (CRenderer (r\<lparr>m_currentCamera := Ptr (1, 1), m_currentCameraID := Some 1\<rparr>) # rs) [CTransform t, CKamera k]) s)"
proof -
  let ?h = "two_objects (CRenderer r # rs) [CTransform t, CKamera k] :: 'm eheap"
  have "owner_id ?h (1, 1) = Inr 1" by (simp add: owner_id_def build_run two_objects_def)
  then have "edit as_renderer CRenderer (0, 0) (setKamera ?h (1, 1)) ?h =
      Inr (two_objects (CRenderer (r\<lparr>m_currentCamera := Ptr (1, 1), m_currentCameraID := Some 1\<rparr>) # rs) [CTransform t, CKamera k])"
    by (simp add: edit_def cast_at_def comp_at_def vec_at_def upd_comp_def setKamera_def two_objects_def holder_def
        new_game_object_def fun_upd_twist[of 0 "Suc 0"])
  then show ?thesis using assms by (simp add: edit_scene_put)
qed

lemma mover_listens:
  fixes s :: "'m program"
  assumes "v_heap s = two_objects rs [CTransform t, CKamera k, CDragMover d]"
  shows "setRequirements_listens (1, 2) s =
    Inr (s\<lparr>listener := listener s @ [(1, 2)], listenerIDs := listenerIDs s @ [(1, 0)]\<rparr>)"
proof -
  let ?h = "two_objects rs [CTransform t, CKamera k, CDragMover d] :: 'm eheap"
  let ?g = "(holder 1 1 [CTransform t, CKamera k, CDragMover d])\<lparr>go_name := ''kameraObject''\<rparr> :: 'm engine_component game_object"
  have g: "get_obj ?h 1 = Inr ?g" by (simp add: two_objects_def)
  have c: "vec_at (componenten ?g) 2 = Inr \<lparr>isActiv = None, gameobject = Some 1, obj = CDragMover d\<rparr>"
    by (simp add: vec_at_def holder_def new_game_object_def)
  have f: "findComponents is_listener 1 ?g = [(1, 2)]"
    by (simp add: findComponents_def holder_def new_game_object_def eval_nat_numeral)
  have i: "go_ID ?g = 1" by simp
  show ?thesis unfolding setRequirements_listens_def addEventListener_def assms
    by (simp only: fst_conv snd_conv g c f i bindR_Inr deref_simps component.simps) simp
qed

lemma kamera_settings:
  "setOrthogonal False (setProjection (f32_of_int w) (f32_of_int h) (f32_of_int 100) f32_tenth
     ((new_kamera\<lparr>k_transform := Ptr (1, 0)\<rparr>)\<lparr>k_transform := Ptr (1, 0)\<rparr>)) = built_kamera w h"
  by (simp add: setOrthogonal_def setProjection_def built_kamera_def new_kamera_def)

lemma camera_is_built:
  fixes s :: "'m program"
  assumes h: "v_heap s = renderer_object (built_renderer rects0 new_renderer)"
  shows "build_camera (0, 0) (s, numbered 0 1) = Inr
    ((put_scene (built_scene rects0 (v_width (world s)) (v_height (world s))) s)\<lparr>
       listener := listener s @ [(1, 2)], listenerIDs := listenerIDs s @ [(1, 0)]\<rparr>, numbered 0 2)"
proof -
  let ?r = "new_renderer\<lparr>m_currentCamera := Ptr (1, 1), m_currentCameraID := Some 1\<rparr>"
  let ?k = "built_kamera (v_width (world s)) (v_height (world s)) :: 'm kamera"
  let ?put = "\<lambda>r cs. put_scene (two_objects (built_renderer rects0 r) cs) s"
  have 1: "named_object ''kameraObject'' (s, numbered 0 1) = Inr (1, ?put new_renderer [], numbered 0 2)"
  proof -
    have n: "next_addr (renderer_object (built_renderer rects0 new_renderer) :: 'm eheap) = 0 + 1"
      by (simp add: renderer_object_def)
    have "int_ok (int 1 + 1)" by (simp add: int_ok_def)
    from named_object_put[OF h refl n this, of "''kameraObject''"] show ?thesis
      by (simp add: renderer_object_def two_objects_def numeral_2_eq_2)
  qed
  have 2: "add_to 1 transform_decl (?put new_renderer []) = Inr ((1, 0), ?put new_renderer [CTransform new_transform])"
    using add_to_camera_object(1)[of "?put new_renderer []"] by simp
  have 3: "add_to 1 kamera_decl (?put new_renderer [CTransform new_transform]) =
      Inr ((1, 1), ?put new_renderer [CTransform new_transform, CKamera (new_kamera\<lparr>k_transform := Ptr (1, 0)\<rparr>)])"
    using add_to_camera_object(2)[of "?put new_renderer [CTransform new_transform]"] by simp
  have 4: "edit_scene (edit as_kamera CKamera (1, 1) (\<lambda>k. Inr (setOrthogonal False
              (setProjection (f32_of_int (v_width (world (?put new_renderer [CTransform new_transform, CKamera (new_kamera\<lparr>k_transform := Ptr (1, 0)\<rparr>)])))) (f32_of_int (v_height (world (?put new_renderer [CTransform new_transform, CKamera (new_kamera\<lparr>k_transform := Ptr (1, 0)\<rparr>)]))))
                 (f32_of_int 100) f32_tenth (k\<lparr>k_transform := Ptr (1, 0)\<rparr>)))))
        (?put new_renderer [CTransform new_transform, CKamera (new_kamera\<lparr>k_transform := Ptr (1, 0)\<rparr>)]) =
      Inr (?put new_renderer [CTransform new_transform, CKamera ?k])"
    by (simp only: edit_camera_object[OF put_scene_simps(1)] put_scene_simps kamera_settings)
  have 5: "edit_scene (\<lambda>h. edit as_renderer CRenderer (0, 0) (setKamera h (1, 1)) h)
        (?put new_renderer [CTransform new_transform, CKamera ?k]) =
      Inr (?put ?r [CTransform new_transform, CKamera ?k])"
    by (subst camera_is_set) (simp_all add: built_renderer_def)
  have 6: "add_to 1 dragMover_decl (?put ?r [CTransform new_transform, CKamera ?k]) =
      Inr ((1, 2), put_scene (built_scene rects0 (v_width (world s)) (v_height (world s))) s)"
    using add_to_camera_object(3)[of "?put ?r [CTransform new_transform, CKamera ?k]"] by (simp add: built_scene_def)
  have 7: "setRequirements_listens (1, 2) (put_scene (built_scene rects0 (v_width (world s)) (v_height (world s))) s) =
      Inr ((put_scene (built_scene rects0 (v_width (world s)) (v_height (world s))) s)\<lparr>
       listener := listener s @ [(1, 2)], listenerIDs := listenerIDs s @ [(1, 0)]\<rparr>)"
    by (subst mover_listens) (simp_all add: built_scene_def)
  show ?thesis by (simp only: build_camera_def 1 2 3 4 5 6 7 bindR_Inr prod.case)
qed



section \<open>The mouse wheel\<close>

text \<open>The notches that the wheel was turned by.\<close>

definition notches :: "int \<Rightarrow> int" where
  "notches delta = sgn delta * (\<bar>delta\<bar> div 120)"

lemma wheel_dir_notches:
  assumes "\<bar>delta\<bar> \<le> 32768"
  shows "uint (wheel_dir delta) - 1 = notches delta \<longleftrightarrow> - 240 < delta \<and> delta < 30600"
proof -
  have "uint (wheel_dir delta) = (notches delta + 1) mod 256"
    unfolding wheel_dir_def notches_def uint_word_of_int by simp
  moreover have "(notches delta + 1) mod 256 = notches delta + 1 \<longleftrightarrow> - 1 \<le> notches delta \<and> notches delta < 255"
  proof -
    have "x mod 256 = x \<longleftrightarrow> 0 \<le> x \<and> x < 256" for x :: int
      using pos_mod_sign[of 256 x] pos_mod_bound[of 256 x] by (auto simp: mod_pos_pos_trivial)
    from this[of "notches delta + 1"] show ?thesis by auto
  qed
  moreover have "- 1 \<le> notches delta \<and> notches delta < 255 \<longleftrightarrow> - 240 < delta \<and> delta < 30600"
    unfolding notches_def by (cases "delta < 0"; cases "delta = 0") (simp_all add: sgn_if, linarith+)
  ultimately show ?thesis by linarith
qed

text \<open>The two listeners of the viewer and a wheel event.\<close>

lemma checker_ignores_wheel:
  assumes "events s e = Some ev" and "v_payload (world s) e = Some (MouseScroll dir)"
    and "comp_at (v_heap s) bc = Inr (CButtonChecker b)"
  shows "viewer_onEvent fuel env bc e s = Inr (False, s)"
  using assms by (simp add: viewer_onEvent_def run_engine_def buttonChecker_onEvent_def act_defs cast_at_def set_engine_def)

lemma mover_zooms:
  assumes "events s e = Some ev" and "v_payload (world s) e = Some (MouseScroll dir)"
    and "comp_at (v_heap s) dm = Inr (CDragMover \<lparr>d_transform = Ptr r\<rparr>)" and "comp_at (v_heap s) r = Inr (CTransform t)"
  shows "\<exists>h'. viewer_onEvent fuel env dm e s = Inr (False, put_scene h' s) \<and>
    comp_at h' = (comp_at (v_heap s))(r := Inr (CTransform (zoom_step dir t)))"
proof -
  obtain h' where h': "upd_comp r (CTransform (zoom_step dir t)) (v_heap s) = Inr h'" using upd_comp_total[OF assms(4)] by blast
  have "comp_at h' = (comp_at (v_heap s))(r := Inr (CTransform (zoom_step dir t)))" by (rule ext) (simp add: comp_at_upd[OF h'])
  moreover have "viewer_onEvent fuel env dm e s = Inr (False, put_scene h' s)"
    using assms h' by (simp add: viewer_onEvent_def on_scene_put dragMover_onEvent_def cast_at_def)
  ultimately show ?thesis by blast
qed

lemma listener_passes:
  assumes "j < length (listener s)" and "onNextUpdate s = [e]" and "onEvent (listener s ! j) e s = Inr (False, s')"
  shows "update_listeners (Suc n) onEvent 0 j s = update_listeners n onEvent 0 (Suc j) s'"
proof -
  have "vec_at (onNextUpdate s) 0 = Inr e" using assms(2) by (simp add: vec_at_def)
  then show ?thesis using assms(1,3) by (simp only: update_listeners.simps if_True bindR_Inr prod.case if_False)
qed

lemma one_event_two_listeners:
  assumes l: "listener s = [a, b]" "onNextUpdate s = [e]"
    and on: "onEvent a e s = Inr (False, s)" "onEvent b e s = Inr (False, s')"
    and s': "listener s' = [a, b]" "onNextUpdate s' = [e]" "read_flag destroy e s' = Inr True"
    and f: "3 \<le> fuel"
  shows "es_update fuel fuel onEvent s = Inr ((delete_event e s')\<lparr>onNextUpdate := []\<rparr>)"
proof -
  obtain k where k: "fuel = Suc (Suc (Suc k))" using f le_Suc_ex[of 3 fuel] by (auto simp: eval_nat_numeral)
  have "update_listeners fuel onEvent 0 0 s = update_listeners (Suc (Suc k)) onEvent 0 (Suc 0) s"
    unfolding k by (rule listener_passes[of 0 s e onEvent s]) (simp_all add: l on(1))
  also have "\<dots> = update_listeners (Suc k) onEvent 0 (Suc (Suc 0)) s'"
    by (rule listener_passes[of "Suc 0" s e onEvent s']) (simp_all add: l on(2))
  also have "\<dots> = Inr s'" using s' by simp
  finally have u: "update_listeners fuel onEvent 0 0 s = Inr s'" .
  have rest: "update_events (Suc n) inner onEvent (Suc 0) (delete_event e s') = Inr (delete_event e s')" for n inner
    using s' by (simp add: delete_event_def)
  have e: "vec_at (onNextUpdate s') 0 = Inr e" using s' by (simp add: vec_at_def)
  have "update_events (Suc (Suc n)) fuel onEvent 0 s = Inr (delete_event e s')" for n
    unfolding update_events.simps(2)[of "Suc n"] u bindR_Inr e s'(3) rest using l s' by (simp add: delete_event_def)
  from this[of "Suc k"] show ?thesis unfolding es_update_def by (simp only: k[symmetric] bindR_Inr)
qed

lemma wheel_turn:
  assumes s: "listener s = [bc, dm]" "onNextUpdate s = []"
    and c: "comp_at (v_heap s) bc = Inr (CButtonChecker b)" "comp_at (v_heap s) dm = Inr (CDragMover \<lparr>d_transform = Ptr r\<rparr>)"
      "comp_at (v_heap s) r = Inr (CTransform t)"
    and f: "3 \<le> fuel"
  shows "\<exists>s'. bindR (WndProc env (MouseWheel delta) s) (es_update fuel fuel (viewer_onEvent fuel env)) = Inr s' \<and>
    comp_at (v_heap s') = (comp_at (v_heap s))(r := Inr (CTransform (zoom_step (wheel_dir delta) t))) \<and>
    events s' = (events s)(v_next (world s) := None) \<and> onNextUpdate s' = [] \<and> listener s' = listener s"
proof -
  let ?e = "v_next (world s)"
  define s1 where s1: "s1 = s\<lparr>events := (events s)(?e \<mapsto> \<lparr>usable = Some False, destroy = Some True\<rparr>),
      world := (world s)\<lparr>v_payload := (v_payload (world s))(?e \<mapsto> MouseScroll (wheel_dir delta)), v_next := Suc ?e\<rparr>\<rparr>"
  have new: "new_event False True (MouseScroll (wheel_dir delta)) s = (?e, s1)"
    by (simp add: new_event_def s1 Let_def)
  let ?s2 = "addUpdateTrigger ?e s1"
  have w: "WndProc env (MouseWheel delta) s = Inr ?s2" using new by (simp add: WndProc_def)
  have p: "events ?s2 ?e = Some \<lparr>usable = Some False, destroy = Some True\<rparr>"
      "v_payload (world ?s2) ?e = Some (MouseScroll (wheel_dir delta))" "v_heap ?s2 = v_heap s"
      "listener ?s2 = [bc, dm]" "onNextUpdate ?s2 = [?e]"
    using s by (simp_all add: s1 addUpdateTrigger_def)
  have 1: "viewer_onEvent fuel env bc ?e ?s2 = Inr (False, ?s2)"
    by (rule checker_ignores_wheel[OF p(1,2)]) (use c(1) p(3) in simp)
  obtain h' where 2: "viewer_onEvent fuel env dm ?e ?s2 = Inr (False, put_scene h' ?s2)"
      "comp_at h' = (comp_at (v_heap s))(r := Inr (CTransform (zoom_step (wheel_dir delta) t)))"
    using mover_zooms[OF p(1,2), of dm r t fuel env] c(2,3) p(3) by auto
  have "es_update fuel fuel (viewer_onEvent fuel env) ?s2 = Inr ((delete_event ?e (put_scene h' ?s2))\<lparr>onNextUpdate := []\<rparr>)"
    using one_event_two_listeners[where onEvent = "viewer_onEvent fuel env", OF p(4,5) 1 2(1) _ _ _ f] by (simp add: p read_flag_def)
  then show ?thesis using w 2(2) p s by (simp add: delete_event_def) (simp add: s1 addUpdateTrigger_def put_scene_def set_engine_def)
qed


lemma viewer_build:
  fixes s :: "'m program"
  assumes "v_heap s = empty_heap" and "listener s = []" and "listenerIDs s = []"
    and "file (''Assets'' @ bslash @ ''charStellen.txt'') = Some (char_table_text (w, h, cw, ch) rows)"
    and "entries_ok (w, h, cw, ch)" and "list_all entries_ok rows" and "127 \<le> length rows"
  shows "\<exists>s'. bindR (build_renderer file (s, new_storage)) (\<lambda>((mainRenderer, _), s). build_camera mainRenderer s) =
      Inr (s', numbered 0 2) \<and>
    v_heap s' = built_scene (map (glyph_of w h) rows) (v_width (world s)) (v_height (world s)) \<and>
    listener s' = [(0, 3), (1, 2)] \<and> listenerIDs s' = [(0, 0), (1, 0)] \<and>
    events s' = events s \<and> onNextUpdate s' = onNextUpdate s"
proof -
  let ?s = "(put_scene (renderer_object (built_renderer (map (glyph_of w h) rows) new_renderer)) s)
    \<lparr>listener := [(0, 3)], listenerIDs := [(0, 0)]\<rparr>"
  have "charVectorBuilder file (''Assets'' @ bslash @ ''charStellen.txt'') = Inr (map (glyph_of w h) rows)"
    by (rule charVectorBuilder_text) (use assms in simp_all)
  then have "build_renderer file (s, new_storage) = Inr (((0, 0), (0, 1), (0, 2)), ?s, numbered 0 1)"
    using renderer_is_built[OF assms(1-3)] assms(7) by simp
  moreover have "v_heap ?s = renderer_object (built_renderer (map (glyph_of w h) rows) new_renderer)"
    by (simp add: put_scene_def set_engine_def)
  ultimately show ?thesis using camera_is_built[of ?s] by (simp add: put_scene_def set_engine_def)
qed

text \<open>What the built scene has never set, and what it has.\<close>

lemma built_glyph:
  assumes "127 \<le> length rects0" and "(of_char c :: nat) < 127"
  shows "glyph (built_strings rects0) c = Inr (rects0 ! of_char c)"
proof -
  have "vec_at (m_alphabetRects (built_strings rects0)) (of_char c) = Inr (Some (rects0 ! of_char c))"
    using assms by (simp add: built_strings_def vec_at_def nth_append)
  then show ?thesis using assms(2) by (simp add: glyph_def)
qed

lemma built_glyph_127:
  assumes "127 \<le> length rects0"
  shows "glyph (built_strings rects0) (CHR 0x7F) = Inl (Undefined Uninit)"
proof -
  let ?glyphs = "map Some (take 127 rects0) @ [None] @ replicate 128 (Some float6_zero)"
  have "vec_at ?glyphs (length (take 127 rects0)) = Inr None"
    by (simp only: vec_at_def nth_append length_append length_map) simp
  then have "vec_at ?glyphs 127 = Inr None" using assms by (simp only: length_take min_absorb2)
  moreover have "(of_char (CHR 0x7F) :: nat) = 127" by simp
  ultimately show ?thesis by (simp add: glyph_def built_strings_def del: append.simps append_Cons)
qed

lemma built_scene_unset:
  assumes "v_heap s = built_scene rects0 w h"
  shows "run_engine (instancedTeilSprite_render fuel env (0, 0) (0, 1) proj) s = Inl (Undefined Uninit)"
    and "cast_at as_string_renderer (v_heap s) (0, 2) = Inr (built_strings rects0)"
proof -
  have "activ_at (v_heap s) (0, 1) = Inl (Undefined Uninit)"
    by (simp add: assms(1) activ_at_def built_scene_def two_objects_def built_renderer_def holder_def
        new_game_object_def vec_at_def)
  then show "run_engine (instancedTeilSprite_render fuel env (0, 0) (0, 1) proj) s = Inl (Undefined Uninit)"
    by (simp add: run_engine_def instancedTeilSprite_render_def act_defs)
  show "cast_at as_string_renderer (v_heap s) (0, 2) = Inr (built_strings rects0)"
    by (simp add: assms(1) built_scene_def two_objects_def built_renderer_def holder_def
        new_game_object_def vec_at_def cast_at_def comp_at_def)
qed


section \<open>Properties\<close>

text \<open>
  C15. From a table of at least 127 glyphs the viewer builds exactly its scene: the renderer with the two
  drawables, the camera with its transform, every reference between them set, the projection of the size of
  the window, and the two listeners registered in the order button checker, drag mover. The events that
  wait are not touched.
  The table writes its numbers without leading zeros (\<open>char_table_text\<close>); the shipped file pads them.
\<close>

theorem viewer_is_built:
  fixes s :: "'m program"
  assumes "v_heap s = empty_heap" and "listener s = []" and "listenerIDs s = []"
    and "file (''Assets'' @ bslash @ ''charStellen.txt'') = Some (char_table_text (w, h, cw, ch) rows)"
    and "entries_ok (w, h, cw, ch)" and "list_all entries_ok rows" and "127 \<le> length rows"
  shows "\<exists>s'. bindR (build_renderer file (s, new_storage)) (\<lambda>((mainRenderer, _), s). build_camera mainRenderer s) =
      Inr (s', numbered 0 2) \<and>
    v_heap s' = built_scene (map (glyph_of w h) rows) (v_width (world s)) (v_height (world s)) \<and>
    listener s' = [(0, 3), (1, 2)] \<and> listenerIDs s' = [(0, 0), (1, 0)] \<and>
    events s' = events s \<and> onNextUpdate s' = onNextUpdate s"
  by (rule viewer_build[of s "file" w h cw ch rows, OF assms])

text \<open>A table of 127 equal glyphs, a program before its start and an environment that answers nothing.\<close>

definition viewer_assets :: "string \<Rightarrow> string option" where
  "viewer_assets = (\<lambda>_. Some (char_table_text (64, 64, 0, 0) (replicate 127 (0, 0, 32, 32))))"

definition fresh_program :: "unit program" where
  "fresh_program = new_event_system (\<lambda>_. None) \<lparr>v_engine = \<lparr>sheap = empty_heap, hist = []\<rparr>,
     v_payload = (\<lambda>_. None), v_next = 0, v_width = 800, v_height = 600\<rparr>"

definition built_program :: "unit program" where
  "built_program = (put_scene (built_scene (replicate 127 float6_zero) 800 600) fresh_program)
     \<lparr>listener := [(0, 3), (1, 2)], listenerIDs := [(0, 0), (1, 0)]\<rparr>"

definition silent_env :: "unit env" where
  "silent_env = \<lparr>env_xna = unit_xna, env_ask = (\<lambda>_ _. undefined)\<rparr>"

theorem viewer_is_built_witness:
  "\<exists>s'. bindR (build_renderer viewer_assets (fresh_program, new_storage))
      (\<lambda>((mainRenderer, _), s). build_camera mainRenderer s) = Inr (s', numbered 0 2) \<and>
    v_heap s' = built_scene (replicate 127 (glyph_of 64 64 (0, 0, 32, 32))) 800 600 \<and>
    listener s' = [(0, 3), (1, 2)]"
proof -
  have "v_heap fresh_program = empty_heap" "listener fresh_program = []" "listenerIDs fresh_program = []"
      "v_width (world fresh_program) = 800" "v_height (world fresh_program) = 600"
    by (simp_all add: fresh_program_def new_event_system_def)
  moreover have "viewer_assets (''Assets'' @ bslash @ ''charStellen.txt'') =
      Some (char_table_text (64, 64, 0, 0) (replicate 127 (0, 0, 32, 32)))" by (simp add: viewer_assets_def)
  moreover have "entries_ok (64, 64, 0, 0)" "list_all entries_ok (replicate 127 (0, 0, 32, 32))"
    by (simp_all add: entries_ok_def list_all_iff)
  moreover have "127 \<le> length (replicate 127 (0 :: nat, 0 :: nat, 32 :: nat, 32 :: nat))" by (simp only: length_replicate)
  ultimately show ?thesis
    using viewer_is_built[of fresh_program viewer_assets 64 64 0 0 "replicate 127 (0, 0, 32, 32)"]
    unfolding map_replicate by auto
qed

text \<open>
  C16. A turn of the mouse wheel in front of the viewer's two listeners: the window procedure makes an event,
  one update delivers it past the button checker to the drag mover, the camera moves along z and stops at the
  plane, nothing else of the scene changes, and the event is deleted. The step is the number of notches for at
  most one notch back and 254 forward; beyond that the byte of the event wraps, and the camera moves the
  other way.
\<close>

theorem wheel_moves_camera:
  assumes "listener s = [bc, dm]" and "onNextUpdate s = []" and "comp_at (v_heap s) bc = Inr (CButtonChecker b)"
    and "comp_at (v_heap s) dm = Inr (CDragMover \<lparr>d_transform = Ptr r\<rparr>)" and "comp_at (v_heap s) r = Inr (CTransform t)"
    and "f3z (m_position t) = f32_of_int n" and "0 \<le> n" and "n < 16777216 - 256" and "\<bar>delta\<bar> \<le> 32768" and "3 \<le> fuel"
  shows "\<exists>s' t'. bindR (WndProc env (MouseWheel delta) s) (es_update fuel fuel (viewer_onEvent fuel env)) = Inr s' \<and>
    comp_at (v_heap s') = (comp_at (v_heap s))(r := Inr (CTransform t')) \<and>
    f3z (m_position t') = f32_of_int (max 0 (n + uint (wheel_dir delta) - 1)) \<and>
    events s' = (events s)(v_next (world s) := None) \<and> onNextUpdate s' = [] \<and> listener s' = listener s \<and>
    (uint (wheel_dir delta) - 1 = notches delta \<longleftrightarrow> - 240 < delta \<and> delta < 30600)"
proof -
  have "0 \<le> uint (wheel_dir delta)" "uint (wheel_dir delta) < 256" using uint_bounded[of "wheel_dir delta"] by simp_all
  then have "int24 n" "int24 (n + uint (wheel_dir delta) - 1)" unfolding int24_def using assms(7,8) by linarith+
  then have "f3z (m_position (zoom_step (wheel_dir delta) t)) = f32_of_int (max 0 (n + uint (wheel_dir delta) - 1))"
    using zoom_of_int[OF assms(6)] by blast
  then show ?thesis using wheel_turn[OF assms(1-5,10), of env delta] wheel_dir_notches[OF assms(9)] by blast
qed

lemma built_program_at:
  "comp_at (v_heap built_program) (0, 3) = Inr (CButtonChecker \<lparr>bc_button = Ptr (0, 0)\<rparr>)"
  "comp_at (v_heap built_program) (1, 2) = Inr (CDragMover \<lparr>d_transform = Ptr (1, 0)\<rparr>)"
  "comp_at (v_heap built_program) (1, 0) = Inr (CTransform new_transform)"
  "listener built_program = [(0, 3), (1, 2)]" "onNextUpdate built_program = []" "events built_program = (\<lambda>_. None)"
  by (simp_all add: built_program_def built_scene_def two_objects_def built_renderer_def fresh_program_def
      new_event_system_def comp_at_def vec_at_def holder_def new_game_object_def put_scene_def set_engine_def)

theorem wheel_moves_camera_witness:
  "\<exists>s' t'. bindR (WndProc silent_env (MouseWheel (- 240)) built_program) (es_update 3 3 (viewer_onEvent 3 silent_env)) = Inr s' \<and>
    comp_at (v_heap s') (1, 0) = Inr (CTransform t') \<and> f3z (m_position t') = f32_of_int 254"
proof -
  have z: "f3z (m_position (new_transform :: unit transform)) = f32_of_int 0"
    by (simp add: new_transform_def vec3_def f32_constants)
  have "wheel_dir (- 240) = 255" by (simp add: wheel_dir_def)
  then show ?thesis
    using wheel_moves_camera[OF built_program_at(4,5,1,2,3) z, of "- 240" 3 silent_env] by fastforce
qed

text \<open>
  C38. After the viewer has built its scene from a table of at least 127 glyphs, nothing has set the member
  \<open>isActiv\<close> of the renderer of pictures nor the glyph of the code 127, while the glyphs below it are those of the
  table: to render the pictures reads the one, to render a character with that code the other.
\<close>

theorem viewer_members_unset:
  fixes s :: "'m program"
  assumes "v_heap s = empty_heap" and "listener s = []" and "listenerIDs s = []"
    and "file (''Assets'' @ bslash @ ''charStellen.txt'') = Some (char_table_text (w, h, cw, ch) rows)"
    and "entries_ok (w, h, cw, ch)" and "list_all entries_ok rows" and "127 \<le> length rows"
  shows "\<exists>s' r. bindR (build_renderer file (s, new_storage)) (\<lambda>((mainRenderer, _), s). build_camera mainRenderer s) =
      Inr (s', numbered 0 2) \<and>
    run_engine (instancedTeilSprite_render fuel env (0, 0) (0, 1) proj) s' = Inl (Undefined Uninit) \<and>
    cast_at as_string_renderer (v_heap s') (0, 2) = Inr r \<and>
    render_char fuel env ctx r proj (CHR 0x7F) t eng = Inl (Undefined Uninit) \<and>
    (\<forall>c. (of_char c :: nat) < 127 \<longrightarrow> glyph r c = Inr (glyph_of w h (rows ! of_char c)))"
proof -
  let ?rects = "map (glyph_of w h) rows"
  obtain s' where s': "bindR (build_renderer file (s, new_storage)) (\<lambda>((mainRenderer, _), s). build_camera mainRenderer s) =
      Inr (s', numbered 0 2)" "v_heap s' = built_scene ?rects (v_width (world s)) (v_height (world s))"
    using viewer_build[of s "file" w h cw ch rows, OF assms] by blast
  have len: "127 \<le> length ?rects" using assms(7) by simp
  have "render_char fuel env ctx (built_strings ?rects) proj (CHR 0x7F) t eng = Inl (Undefined Uninit)"
    by (simp add: render_char_def built_glyph_127[OF len] act_defs)
  moreover have "\<forall>c. (of_char c :: nat) < 127 \<longrightarrow> glyph (built_strings ?rects) c = Inr (glyph_of w h (rows ! of_char c))"
    using built_glyph[OF len] assms(7) by simp
  ultimately show ?thesis using s'(1) built_scene_unset[OF s'(2)]
    by (intro exI[of _ s'] exI[of _ "built_strings ?rects"] conjI)
qed

theorem viewer_members_unset_witness:
  "\<exists>s' r. bindR (build_renderer viewer_assets (fresh_program, new_storage))
      (\<lambda>((mainRenderer, _), s). build_camera mainRenderer s) = Inr (s', numbered 0 2) \<and>
    run_engine (instancedTeilSprite_render 1 silent_env (0, 0) (0, 1) ()) s' = Inl (Undefined Uninit) \<and>
    render_char 1 silent_env 0 r () (CHR 0x7F) new_transform \<lparr>sheap = empty_heap, hist = []\<rparr> = Inl (Undefined Uninit)"
proof -
  have "v_heap fresh_program = empty_heap" "listener fresh_program = []" "listenerIDs fresh_program = []"
    by (simp_all add: fresh_program_def new_event_system_def)
  moreover have "viewer_assets (''Assets'' @ bslash @ ''charStellen.txt'') =
      Some (char_table_text (64, 64, 0, 0) (replicate 127 (0, 0, 32, 32)))" by (simp add: viewer_assets_def)
  moreover have "entries_ok (64, 64, 0, 0)" "list_all entries_ok (replicate 127 (0, 0, 32, 32))"
    by (simp_all add: entries_ok_def list_all_iff)
  moreover have "127 \<le> length (replicate 127 (0 :: nat, 0 :: nat, 32 :: nat, 32 :: nat))" by (simp only: length_replicate)
  ultimately show ?thesis
    using viewer_members_unset[of fresh_program viewer_assets 64 64 0 0 "replicate 127 (0, 0, 32, 32)" 1 silent_env "()" 0
      new_transform "\<lparr>sheap = empty_heap, hist = []\<rparr>"] by blast
qed

text \<open>A shown button passes a click to its klicker, whose state nothing has set.\<close>

lemma shown_button_click:
  assumes "cells h (n + 1) = Some (shown_button n k rects)"
  shows "fire (Suc fuel) viewer_actor Klicked (n + 1, 2) 0 h = Inl (Undefined Uninit)"
proof -
  have b: "button_at h (n + 1, 2) = Inr (new_button\<lparr>b_transform := Ptr (n + 1, 0), payload := [(n + 1, 3)], payloadIDs := [(k + 1, 0)]\<rparr>)"
    using assms by (simp add: cast_at_def comp_at_def shown_button_def holder_def new_game_object_def vec_at_def numeral_2_eq_2)
  have "cast_at as_object_klicker h (n + 1, 3) = Inr \<lparr>klick = None, onklick = [Some (rects ! 2), Some (rects ! 3)], ok_inst = Ptr (n + 1, 1)\<rparr>"
    using assms by (simp add: cast_at_def comp_at_def shown_button_def holder_def new_game_object_def vec_at_def numeral_3_eq_3)
  then have "viewer_actor Klicked (n + 1, 3) h = Inl (Undefined Uninit)"
    by (simp add: viewer_actor_def objectKlicker_klicked_def)
  then show ?thesis using b by simp
qed

text \<open>
  C39. The buttons that the viewer shows cannot be clicked. Whatever tree \<open>rand\<close> makes, the display gives every
  object of it a button and registers that button with the renderer, and the first click that one of these buttons
  passes on reads the state of its klicker, which neither its constructor nor the program has set.
\<close>

theorem first_click_undefined:
  fixes h :: "'m eheap"
  assumes "stage (\<lambda>_. None) ir br (Suc n) (h, st)" and "3 < length rects" and "0 \<le> sh" and "sh \<le> 65535"
    and "int n < 20000000" and "Suc n \<le> fuel"
  shows "\<exists>h' d h2 st2 r r' bs. random_tree rnd st (Suc n) [] (h, new_storage) = Inr (h', numbered (next_addr h) (Suc n)) \<and>
    show_roots fuel (numbered (next_addr h) (Suc n)) sh rects ir br (h', st) = Inr (d, h2, st2) \<and>
    comp_at h' br = Inr (CRenderer r) \<and> comp_at h2 br = Inr (CRenderer r') \<and> m_buttons r' = m_buttons r @ bs \<and>
    length bs = Suc n \<and> (\<forall>b \<in> set bs. fire (Suc m) viewer_actor Klicked b 0 h2 = Inl (Undefined Uninit))"
proof -
  let ?t = "random_view rnd (next_addr h) n"
  obtain h' s' where h': "random_tree rnd st (Suc n) [] (h, new_storage) = Inr (h', numbered (next_addr h) (Suc n))"
      "show_roots fuel (numbered (next_addr h) (Suc n)) sh rects ir br (h', st) = Inr (leaves ?t, s')"
      "displayed (objects_from (next_addr h) h') sh rects ir br (layout 0 0 ?t) (h', st) s'"
    using viewer_shows[OF assms] by blast
  obtain h2 st2 where s': "s' = (h2, st2)" by (cases s')
  have len: "length (layout 0 0 ?t) = Suc n" by (simp add: length_layout length_random_view)
  have buttons: "cells h2 (next_addr h' + 3 * j + 1) = Some (shown_button (next_addr h' + 3 * j) (counter st + 3 * int j) rects)"
    if "j < Suc n" for j
    using h'(3)[unfolded s' displayed_def Let_def prod.case, THEN conjunct1, rule_format, of j] that
    unfolding len by (cases "layout 0 0 ?t ! j") simp
  let ?bs = "map (\<lambda>j. (next_addr h' + 3 * j + 1, 2)) [0..<Suc n]"
  obtain r r' where r: "comp_at h' br = Inr (CRenderer r)" "comp_at h2 br = Inr (CRenderer r')" "m_buttons r' = m_buttons r @ ?bs"
    using h'(3)[unfolded s' displayed_def Let_def prod.case len, THEN conjunct2, THEN conjunct2, THEN conjunct1] by fastforce
  have "\<forall>b \<in> set ?bs. fire (Suc m) viewer_actor Klicked b 0 h2 = Inl (Undefined Uninit)"
    using shown_button_click[OF buttons] by (auto simp del: fire.simps upt_Suc)
  then show ?thesis using h'(1,2) r unfolding s'
    by (intro exI[of _ h'] exI[of _ "leaves ?t"] exI[of _ h2] exI[of _ st2] exI[of _ r] exI[of _ r'] exI[of _ ?bs])
       (simp del: upt_Suc fire.simps)
qed

theorem first_click_undefined_witness:
  "\<exists>h' d h2 st2. random_tree (\<lambda>i. i + 2) \<lparr>objects = [(0, 0)], counter = 1\<rparr> 3 [] (renderer_heap, new_storage) =
      Inr (h', numbered 1 3) \<and>
    show_roots 3 (numbered 1 3) 600 (replicate 4 button_picture) (0, 1) (0, 0)
      (h', \<lparr>objects = [(0, 0)], counter = 1\<rparr>) = Inr (d, h2, st2) \<and>
    (\<exists>b. fire 5 viewer_actor Klicked b 0 h2 = Inl (Undefined Uninit))"
proof -
  let ?st = "\<lparr>objects = [(0, 0)], counter = 1\<rparr> :: storage"
  have n: "next_addr renderer_heap = 1" by (simp add: renderer_heap_def)
  have at: "comp_at renderer_heap (0, 0) = Inr (CRenderer new_renderer)"
      "comp_at renderer_heap (0, 1) = Inr (CInstancedTeilSprite new_instanced_teil_sprite)"
    by (simp_all add: renderer_heap_def comp_at_def holder_def new_game_object_def get_obj_def vec_at_def)
  have st: "stage (\<lambda>_. None) (0, 1) (0, 0) (Suc 2) (renderer_heap, ?st)"
    using at by (auto simp: stage_def renderer_heap_def new_renderer_def)
  obtain h' d h2 st2 bs where s: "random_tree (\<lambda>i. i + 2) ?st (Suc 2) [] (renderer_heap, new_storage) = Inr (h', numbered 1 (Suc 2))"
      "show_roots 3 (numbered 1 (Suc 2)) 600 (replicate 4 button_picture) (0, 1) (0, 0) (h', ?st) = Inr (d, h2, st2)"
      "length bs = Suc 2" "\<forall>b \<in> set bs. fire (Suc 4) viewer_actor Klicked b 0 h2 = Inl (Undefined Uninit)"
    using first_click_undefined[OF st, of "replicate 4 button_picture" 600 3 "\<lambda>i. i + 2" 4] unfolding n by auto
  have "Suc 2 = 3" "Suc 4 = (5 :: nat)" by simp_all
  moreover have "hd bs \<in> set bs" using s(3) by (cases bs) auto
  ultimately show ?thesis using s(1,2,4) by (metis (no_types, lifting))
qed

end
