(* ===== verification/Device_Life.thy ===== *)
theory Device_Life
  imports Resources
begin

text \<open>
  The life of a renderer: \<open>Initialize\<close>, any number of frames, \<open>Terminate\<close>. The device, its context, the swap
  chain and the view join the handles of the content; a frame acquires and releases nothing and leaves
  everything alone that owns a handle.
\<close>

section \<open>Frames own nothing\<close>

definition owner :: "'m engine_component \<Rightarrow> bool" where
  "owner c \<longleftrightarrow> gpu_of c \<noteq> None \<or> (\<exists>r. c = CRenderer r)"

text \<open>\<open>quiet m\<close>: if \<open>m\<close> returns, no handle has changed hands and no owner of handles has changed.\<close>

definition quiet :: "('m, 'a) act \<Rightarrow> bool" where
  "quiet m \<longleftrightarrow> (\<forall>s x s'. m s = Inr (x, s') \<longrightarrow>
     acquired (hist s') = acquired (hist s) \<and> released (hist s') = released (hist s) \<and>
     (\<forall>q c. comp_at (sheap s) q = Inr c \<longrightarrow> owner c \<longrightarrow> comp_at (sheap s') q = Inr c))"

named_theorems quiet_intros

lemma quietI:
  assumes "\<And>s x s'. m s = Inr (x, s') \<Longrightarrow> acquired (hist s') = acquired (hist s) \<and> released (hist s') = released (hist s)"
    and "\<And>s x s' q c. m s = Inr (x, s') \<Longrightarrow> comp_at (sheap s) q = Inr c \<Longrightarrow> owner c \<Longrightarrow> comp_at (sheap s') q = Inr c"
  shows "quiet m"
  unfolding quiet_def using assms by blast

lemma quiet_plain [quiet_intros]:
  "quiet (retA x)" "quiet (liftA v)" "quiet (readA f)" "quiet bad_cast"
  by (auto simp: quiet_def act_defs bad_cast_def)

lemma quiet_bind [quiet_intros]: "quiet m \<Longrightarrow> (\<And>x. quiet (f x)) \<Longrightarrow> quiet (bindA m f)"
proof (rule quietI)
  assume m: "quiet m" and f: "\<And>x. quiet (f x)"
  fix s y s'
  assume "bindA m f s = Inr (y, s')"
  then obtain x s1 where 1: "m s = Inr (x, s1)" "f x s1 = Inr (y, s')" by (auto simp: bindA_def)
  show "acquired (hist s') = acquired (hist s) \<and> released (hist s') = released (hist s)"
    using m f[of x] 1 unfolding quiet_def by metis
  show "comp_at (sheap s') q = Inr c" if "comp_at (sheap s) q = Inr c" "owner c" for q c
    using m f[of x] 1 that unfolding quiet_def by blast
qed

lemma quiet_if [quiet_intros]: "quiet m \<Longrightarrow> quiet n \<Longrightarrow> quiet (if b then m else n)"
  by simp

lemma quiet_case_prod [quiet_intros]: "(\<And>a b. quiet (f a b)) \<Longrightarrow> quiet (case p of (a, b) \<Rightarrow> f a b)"
  by (simp split: prod.split)

lemma quiet_let [quiet_intros]: "(\<And>x. quiet (f x)) \<Longrightarrow> quiet (Let v f)"
  by (simp add: Let_def)

lemma quiet_option [quiet_intros]:
  "quiet m \<Longrightarrow> (\<And>x. quiet (f x)) \<Longrightarrow> quiet (case v of None \<Rightarrow> m | Some x \<Rightarrow> f x)"
  by (simp split: option.split)

lemma quiet_each [quiet_intros]: "(\<And>x. quiet (f x)) \<Longrightarrow> quiet (eachA f xs)"
  by (induction xs) (auto intro: quiet_intros)

lemma quiet_component [quiet_intros]:
  assumes "\<And>s. quiet (f1 s)" "\<And>s. quiet (f2 s)" "\<And>s. quiet (f3 s)" "\<And>s. quiet (f4 s)" "\<And>s. quiet (f5 s)"
  shows "quiet (case c of CSprite s \<Rightarrow> f1 s | CTeilSprite s \<Rightarrow> f2 s | CInstancedSprite s \<Rightarrow> f3 s
     | CInstancedTeilSprite s \<Rightarrow> f4 s | CStringRenderer s \<Rightarrow> f5 s | _ \<Rightarrow> bad_cast)"
  using assms by (cases c) (simp_all add: quiet_plain)

text \<open>A call without out-parameters of a device that answers as documented.\<close>

lemma quiet_call: "honest env \<Longrightarrow> outs c = 0 \<Longrightarrow> call_released c = {#} \<Longrightarrow> quiet (callA env c)"
proof (rule quietI)
  assume c: "honest env" "outs c = 0" "call_released c = {#}"
  fix s x s'
  assume r: "callA env c s = Inr (x, s')"
  have "out_handles (env_ask env (hist s) c) = {#}" by (rule honest_none[OF honestD[OF c(1)] c(2)])
  then show "acquired (hist s') = acquired (hist s) \<and> released (hist s') = released (hist s)"
    using r c(3) by (auto simp: callA_def Let_def)
  show "comp_at (sheap s') q = Inr d" if "comp_at (sheap s) q = Inr d" "owner d" for q d
    using r that by (auto simp: callA_def Let_def)
qed

lemma quiet_heap:
  assumes "\<And>h x h' q c. f h = Inr (x, h') \<Longrightarrow> comp_at h q = Inr c \<Longrightarrow> owner c \<Longrightarrow> comp_at h' q = Inr c"
  shows "quiet (heapA f)"
  by (rule quietI) (use assms in \<open>auto simp: heapA_def\<close>)

lemma owner_simps [simp]: "\<not> owner (CTransform t)" "\<not> owner (CKamera k)"
  by (simp_all add: owner_def)

lemma GetWorldMatrix_owner:
  "GetWorldMatrix n xm r h = Inr (m, h') \<Longrightarrow> comp_at h q = Inr c \<Longrightarrow> owner c \<Longrightarrow> comp_at h' q = Inr c"
  using GetWorldMatrix_changes[of n xm r h m h' q] by auto

lemma getProjectionMatrix_owner:
  assumes "getProjectionMatrix n xm r h = Inr (m, h')" and "comp_at h q = Inr c" and "owner c"
  shows "comp_at h' q = Inr c"
proof -
  obtain k where k: "comp_at h r = Inr (CKamera k)"
    using assms(1) by (cases "kamera_at h r") (auto simp: getProjectionMatrix_def)
  then have ka: "kamera_at h r = Inr k" by simp
  obtain k' h1 t w where h1: "upd_comp r (CKamera k') h = Inr h1" and w: "GetWorldMatrix n xm t h1 = Inr (w, h')"
    using assms(1) by (auto simp: getProjectionMatrix_def ka)
  have "q \<noteq> r" using assms(2,3) k by auto
  then have "comp_at h1 q = Inr c" using assms(2) comp_at_upd[OF h1, of q] by simp
  then show ?thesis using GetWorldMatrix_owner[OF w] assms(3) by blast
qed

lemma GetWorldMatrix_local_owner:
  assumes "GetWorldMatrix_local n xm t h = Inr (m, u, h')" and "comp_at h q = Inr c" and "owner c"
  shows "comp_at h' q = Inr c"
proof (cases "m_parrent (refresh xm t)")
  case (Ptr p)
  then obtain mp where "GetWorldMatrix n xm p h = Inr (mp, h')"
    using assms(1) by (auto simp: GetWorldMatrix_local_def Let_def)
  then show ?thesis by (auto intro: GetWorldMatrix_owner[OF _ assms(2,3)])
qed (use assms in \<open>auto simp: GetWorldMatrix_local_def Let_def\<close>)

lemma quiet_matrices [quiet_intros]:
  "quiet (heapA (GetWorldMatrix n xm r))" "quiet (heapA (getProjectionMatrix n xm r))"
  "quiet (heapA (\<lambda>h. bindR (GetWorldMatrix_local n xm t h) (\<lambda>(m, t, h). Inr ((m, t), h))))"
  by (rule quiet_heap, erule (2) GetWorldMatrix_owner) (rule quiet_heap, erule (2) getProjectionMatrix_owner,
      rule quiet_heap, auto dest: GetWorldMatrix_local_owner)

lemma quiet_drawing:
  assumes "honest env"
  shows "quiet (begin_draw env ctx r g)" "quiet (draw_matrix env ctx g m p)" "quiet (draw_instance env ctx g q m p)"
    "quiet (renderer_ctx rend)"
  unfolding begin_draw_def draw_matrix_def draw_instance_def renderer_ctx_def Let_def
  by (rule quiet_intros quiet_call[OF assms] | simp)+

lemma quiet_chars: "honest env \<Longrightarrow> quiet (render_chars fuel env ctx s proj cs t)"
  by (induction cs arbitrary: t)
    (auto intro!: quiet_intros quiet_drawing simp: render_char_def Let_def)

lemma quiet_drawable_render: "honest env \<Longrightarrow> quiet (drawable_render fuel env rend d proj)"
  unfolding drawable_render_def sprite_render_def teilSprite_render_def instancedSprite_render_def
    instancedTeilSprite_render_def stringRenderer_render_def
  by (rule quiet_intros quiet_drawing quiet_chars | assumption)+

lemma quiet_Render: "honest env \<Longrightarrow> quiet (Render fuel env this)"
  unfolding Render_def
  by (rule quiet_intros quiet_drawable_render quiet_call | assumption | simp)+


section \<open>Steps of the device\<close>

text \<open>The renderer is \<open>r\<close>, its drawables \<open>ds\<close> hold nothing, and \<open>Y\<close> is what is held.\<close>

definition idle :: "'m env \<Rightarrow> cref \<Rightarrow> drawable_renderer \<Rightarrow> cref list \<Rightarrow> handle multiset \<Rightarrow> 'm engine \<Rightarrow> bool" where
  "idle env this r ds Y s \<longleftrightarrow> comp_at (sheap s) this = Inr (CRenderer r) \<and> drawables_are gpu_empty (sheap s) ds \<and> holds env Y s"

lemma idle_call: "idle env this r ds Y s \<Longrightarrow> sheap s' = sheap s \<Longrightarrow> holds env Z s' \<Longrightarrow> idle env this r ds Z s'"
  by (simp add: idle_def)

lemma idle_holds: "idle env this r ds Y s \<Longrightarrow> holds env Y s"
  by (simp add: idle_def)

lemma runs_idle_read:
  "idle env this r ds Y s \<Longrightarrow> Q r s \<Longrightarrow> runs (readA (\<lambda>h. renderer_at h this)) s Q"
  by (auto simp: idle_def runs_read)

lemma runs_idle_mod:
  assumes "idle env this r ds Y s" and "\<And>s'. idle env this (f r) ds Y s' \<Longrightarrow> Q () s'"
  shows "runs (modA this f) s Q"
proof (rule runs_modA)
  show r: "comp_at (sheap s) this = Inr (CRenderer r)" using assms(1) by (simp add: idle_def)
  fix s' :: "'a engine"
  assume w: "hist s' = hist s" "comp_at (sheap s') this = Inr (CRenderer (f r))"
    "\<And>q. q \<noteq> this \<Longrightarrow> comp_at (sheap s') q = comp_at (sheap s) q"
  have "this \<notin> set ds" using assms(1) r by (auto simp: idle_def drawables_are_def)
  then have "drawables_are gpu_empty (sheap s') ds = drawables_are gpu_empty (sheap s) ds"
    by (intro drawables_same(1) w(3)) auto
  then show "Q () s'" using assms w(1,2) by (auto simp: idle_def intro: holds_hist)
qed

lemma runs_idle_call:
  assumes "honest env" and "idle env this r ds Y s" and "outs c = 0" and "call_released c = {#}"
    and "\<And>x s'. idle env this r ds Y s' \<Longrightarrow> Q x s'"
  shows "runs (callA env c) s Q"
  by (rule runs_plain_call[OF assms(1,3,4) idle_holds[OF assms(2)]]) (rule assms(5), rule idle_call[OF assms(2)])

text \<open>The calls that create the device, and an environment where they do not fail.\<close>

fun device_call :: "'m d3d_call \<Rightarrow> bool" where
  "device_call (CreateDeviceAndSwapChain a b c d e f g) = True"
| "device_call (GetBuffer a) = True"
| "device_call (CreateRenderTargetView a b) = True"
| "device_call _ = False"

definition device_works :: "'m env \<Rightarrow> bool" where
  "device_works env \<longleftrightarrow> (\<forall>cs c. device_call c \<longrightarrow> \<not> r_failed (env_ask env cs c))"

lemma runs_both: "runs m s P \<Longrightarrow> runs m s Q \<Longrightarrow> runs m s (\<lambda>x s'. P x s' \<and> Q x s')"
  by (auto simp: runs_def)

lemma device_call_works: "runs (callA env c) s (\<lambda>x s'. r_failed x \<longrightarrow> \<not> (device_call c \<and> device_works env))"
  by (auto simp: runs_call Let_def device_works_def)

lemma runs_idle_create:
  assumes "honest env" and "idle env this r ds Y s" and "outs c = 1" and "call_released c = {#}"
    and "\<And>x s'. r_failed x \<Longrightarrow> \<not> (device_call c \<and> device_works env) \<Longrightarrow> idle env this r ds (Y + ptr_handles (out_ptr 0 x Null)) s' \<Longrightarrow> out_ptr 0 x Null \<noteq> Wild \<Longrightarrow> Q x s'"
    and "\<And>x s' h. \<not> r_failed x \<Longrightarrow> (\<And>old. out_ptr 0 x old = Ptr h) \<Longrightarrow> idle env this r ds (Y + {#h#}) s' \<Longrightarrow> Q x s'"
  shows "runs (callA env c) s Q"
proof -
  have "runs (callA env c) s (\<lambda>x s'. (r_failed x \<longrightarrow> \<not> (device_call c \<and> device_works env)) \<longrightarrow> Q x s')"
    (is "runs _ _ ?Q")
  proof (rule runs_create[OF assms(1,3,4) idle_holds[OF assms(2)]])
    fix x s'
    assume a: "sheap s' = sheap s" "out_ptr 0 x Null \<noteq> Wild"
      "\<not> r_failed x \<Longrightarrow> \<exists>h. out_ptr 0 x Null = Ptr h \<and> (\<forall>old. out_ptr 0 x old = Ptr h)"
      "holds env (Y + ptr_handles (out_ptr 0 x Null)) s'"
    have i: "idle env this r ds (Y + ptr_handles (out_ptr 0 x Null)) s'" by (rule idle_call[OF assms(2) a(1,4)])
    show "?Q x s'"
    proof (cases "r_failed x")
      case True
      then show ?thesis using assms(5) a(2) i by blast
    next
      case False
      then obtain h where "out_ptr 0 x Null = Ptr h" "\<And>old. out_ptr 0 x old = Ptr h" using a(3) by blast
      then show ?thesis using assms(6)[OF False, of h s'] i by simp
    qed
  qed
  from runs_both[OF device_call_works this] show ?thesis by (rule runs_conseq) blast
qed

lemma runs_idle_device:
  fixes env :: "'m env"
  assumes "honest env" and "idle env this r ds Y s" and "outs c = 3" and "call_released c = {#}"
    and "\<And>x s'. r_failed x \<Longrightarrow> \<not> (device_call c \<and> device_works env) \<Longrightarrow> idle env this r ds Y s' \<Longrightarrow> Q x s'"
    and "\<And>x s' a b d. \<not> r_failed x \<Longrightarrow> (\<And>old. out_ptr 0 x old = Ptr a) \<Longrightarrow> (\<And>old. out_ptr 1 x old = Ptr b) \<Longrightarrow>
      (\<And>old. out_ptr 2 x old = Ptr d) \<Longrightarrow> idle env this r ds (Y + {#a, b, d#}) s' \<Longrightarrow> Q x s'"
  shows "runs (callA env c) s Q"
proof -
  let ?x = "env_ask env (hist s) c" and ?s = "s\<lparr>hist := hist s @ [(c, env_ask env (hist s) c)]\<rparr>"
  have x: "honest_reply c ?x" by (rule honestD[OF assms(1)])
  then obtain p q t where o: "r_out ?x = [p, q, t]"
    using assms(3) by (auto simp: honest_reply_def numeral_3_eq_3 length_Suc_conv)
  have i: "idle env this r ds Z ?s" if "holds env Z ?s" for Z
    by (rule idle_call[OF assms(2)]) (use that in simp_all)
  have "Q ?x ?s"
  proof (cases "r_failed ?x")
    case True
    then have "p \<in> {None, Some Null}" "q \<in> {None, Some Null}" "t \<in> {None, Some Null}"
      using x assms(3) o by (auto simp: honest_reply_def numeral_3_eq_3 less_Suc_eq all_conj_distrib)
    then have "out_handles ?x = {#}" by (auto simp: out_handles_def o)
    then have "holds env Y ?s" using idle_holds[OF assms(2)] assms(4) by (simp add: holds_def)
    moreover have "\<not> (device_call c \<and> device_works env)" using True by (auto simp: device_works_def)
    ultimately show ?thesis using assms(5)[OF True] i by blast
  next
    case False
    have "\<exists>h. r_out ?x ! n = Some (Ptr h)" if "n < 3" for n
      using x assms(3) False that by (simp add: honest_reply_def)
    from this[of 0] this[of 1] this[of 2] obtain a b d where p: "p = Some (Ptr a)" "q = Some (Ptr b)" "t = Some (Ptr d)"
      by (auto simp: o)
    have "holds env (Y + {#a, b, d#}) ?s"
      using idle_holds[OF assms(2)] assms(4) by (auto simp: holds_def out_handles_def o p ac_simps)
    then show ?thesis by (intro assms(6)[OF False, of a b d] i) (simp_all add: out_ptr_def o p)
  qed
  then show ?thesis by (simp add: runs_def callA_def Let_def)
qed

lemma runs_idle_release:
  assumes "honest env" and "idle env this r ds (Y + ptr_handles p) s" and "p \<noteq> Wild"
    and "\<And>s'. idle env this r ds Y s' \<Longrightarrow> Q () s'"
  shows "runs (release_ptr env p) s Q"
  by (rule runs_release_ptr[OF assms(1,3) idle_holds[OF assms(2)]]) (rule assms(4), rule idle_call[OF assms(2)])

lemma runs_idle_release_one:
  assumes "honest env" and "idle env this r ds Y s" and "h \<in># Y" and "\<And>s'. idle env this r ds (Y - {#h#}) s' \<Longrightarrow> Q () s'"
  shows "runs (release_ptr env (Ptr h)) s Q"
  by (rule runs_idle_release[where Y = "Y - {#h#}", OF assms(1)]) (use assms in simp_all)


section \<open>Initialize and Terminate\<close>

definition device_ptrs :: "drawable_renderer \<Rightarrow> handle ptr list" where
  "device_ptrs r = [m_pD3DRenderTargetView r, m_pSwapChain r, m_pD3DContext r, m_pD3DDevice r]"

definition device_handles :: "drawable_renderer \<Rightarrow> handle multiset" where
  "device_handles r = sum_list (map ptr_handles (device_ptrs r))"

definition running :: "'m env \<Rightarrow> cref \<Rightarrow> cref list \<Rightarrow> handle multiset \<Rightarrow> 'm engine \<Rightarrow> bool" where
  "running env this ds X s \<longleftrightarrow> (\<exists>r. m_allDrawable r = ds \<and> (\<forall>p \<in> set (device_ptrs r). \<exists>h. p = Ptr h) \<and>
     loaded env this r (X + device_handles r) s)"

lemma runningI:
  "loaded env this r Y s \<Longrightarrow> m_allDrawable r = ds \<Longrightarrow> Y = X + device_handles r \<Longrightarrow>
    \<forall>p \<in> set (device_ptrs r). \<exists>h. p = Ptr h \<Longrightarrow> running env this ds X s"
  unfolding running_def by blast

lemma Initialize_runs:
  assumes hon: "honest env" and i: "idle env this r (m_allDrawable r) X s" and new: "m_allShaders r = []" "distinct (m_allDrawable r)"
  shows "runs (renderer_Initialize env this hWnd hInst) s (\<lambda>ok s'. ok \<or> device_works env \<longrightarrow> running env this (m_allDrawable r) X s')"
  unfolding renderer_Initialize_def Initialize_def Let_def runs_simps
  apply (rule runs_idle_mod[OF i])
  apply (rule runs_idle_call[OF hon], assumption, simp, simp)
  apply (rule runs_idle_read, assumption)
  apply (rule runs_idle_device[OF hon], assumption, simp, simp)
   apply (rule runs_idle_mod, assumption)
   apply (simp, rule runs_idle_call[OF hon], assumption, simp, simp)
   apply simp
  apply (rule runs_idle_mod, assumption)
  apply simp
  apply (rule runs_idle_read, assumption)
  apply simp
  apply (rule runs_idle_create[OF hon], assumption, simp, simp)
   apply (simp, rule runs_idle_call[OF hon], assumption, simp, simp)
   apply simp
  apply simp
  apply (rule runs_idle_create[OF hon], assumption, simp, simp)
   apply (rule runs_idle_mod, assumption)
   apply simp
   apply (rule runs_idle_release_one[OF hon], assumption, simp)
   apply (simp, rule runs_idle_call[OF hon], assumption, simp, simp)
   apply simp
  apply (rule runs_idle_mod, assumption)
  apply simp
  apply (rule runs_idle_release_one[OF hon], assumption, simp)
  apply simp
  apply (rule runs_idle_read, assumption)
  apply simp
  apply (rule runs_idle_call[OF hon], assumption, simp, simp)
  apply (rule runs_idle_call[OF hon], assumption, simp, simp)
  apply (rule runs_conseq[OF LoadContent_runs[OF hon]])
    apply (fastforce simp: ready_def idle_def new)
   apply (erule idle_holds)
  apply (intro conjI impI)
   apply (erule runningI; simp add: device_handles_def device_ptrs_def)+
  done

lemma Terminate_runs:
  assumes hon: "honest env" and run: "running env this ds X s" and ds: "distinct ds"
  shows "runs (renderer_Terminate env this) s (\<lambda>_ s'. \<exists>r. comp_at (sheap s') this = Inr (CRenderer r) \<and>
    set (device_ptrs r) = {Null} \<and> m_allDrawable r = [] \<and> m_allShaders r = [] \<and> drawables_are gpu_empty (sheap s') ds \<and> holds env X s')"
proof -
  obtain r a b c d where r: "m_allDrawable r = ds" "m_pD3DRenderTargetView r = Ptr a" "m_pSwapChain r = Ptr b"
    "m_pD3DContext r = Ptr c" "m_pD3DDevice r = Ptr d" "loaded env this r (X + device_handles r) s"
    using run by (auto simp: running_def device_ptrs_def)
  have y: "X + device_handles r = add_mset a (add_mset b (add_mset c (add_mset d X)))"
    by (simp add: device_handles_def device_ptrs_def r)
  let ?r = "r\<lparr>m_allDrawable := [], m_allShaders := []\<rparr>"
  show ?thesis
    unfolding renderer_Terminate_def Terminate_def runs_simps
    apply (rule runs_conseq[OF UnloadContent_runs[OF hon r(6)]])
     apply (simp add: r ds)
    apply (subgoal_tac "idle env this ?r ds (add_mset a (add_mset b (add_mset c (add_mset d X)))) s'")
     prefer 2
     apply (simp add: idle_def r y)
    apply (rule runs_idle_read, assumption)
    apply (simp add: r)
    apply (rule runs_idle_release_one[OF hon], assumption, simp)
    apply (rule runs_idle_mod, assumption)
    apply (rule runs_idle_release_one[OF hon], assumption, simp)
    apply (rule runs_idle_mod, assumption)
    apply (rule runs_idle_release_one[OF hon], assumption, simp)
    apply (rule runs_idle_mod, assumption)
    apply (rule runs_idle_release_one[OF hon], assumption, simp)
    apply (rule runs_idle_mod, assumption)
    apply (simp add: idle_def device_ptrs_def)
    done
qed


section \<open>The life of a renderer\<close>

inductive frames :: "nat \<Rightarrow> 'm env \<Rightarrow> cref \<Rightarrow> 'm engine \<Rightarrow> 'm engine \<Rightarrow> bool" for fuel env this where
  none: "frames fuel env this s s"
| frame: "frames fuel env this s s1 \<Longrightarrow> Render fuel env this s1 = Inr ((), s2) \<Longrightarrow> frames fuel env this s s2"

lemma quiet_running:
  assumes m: "quiet m" "m s = Inr (x, s')" and run: "running env this ds X s"
  shows "running env this ds X s'"
proof -
  have same: "acquired (hist s') = acquired (hist s)" "released (hist s') = released (hist s)"
    and own: "\<And>q c. comp_at (sheap s) q = Inr c \<Longrightarrow> owner c \<Longrightarrow> comp_at (sheap s') q = Inr c"
    using m unfolding quiet_def by blast+
  obtain r n where r: "m_allDrawable r = ds" "\<forall>p \<in> set (device_ptrs r). \<exists>h. p = Ptr h"
    "comp_at (sheap s) this = Inr (CRenderer (r\<lparr>m_allShaders := n\<rparr>))" "cache_safe n" "drawables_are gpu_safe (sheap s) ds"
    "holds env (X + device_handles r + owned (sheap s) ds + cache_handles n) s"
    using run unfolding running_def loaded_def by blast
  have ds: "comp_at (sheap s') q = comp_at (sheap s) q" if "q \<in> set ds" for q
  proof -
    obtain c g where "comp_at (sheap s) q = Inr c" "gpu_of c = Some g" using r(5) \<open>q \<in> set ds\<close> by (auto simp: drawables_are_def)
    then show ?thesis using own[of q c] by (simp add: owner_def)
  qed
  have "comp_at (sheap s') this = Inr (CRenderer (r\<lparr>m_allShaders := n\<rparr>))" by (rule own[OF r(3)]) (simp add: owner_def)
  moreover have "drawables_are gpu_safe (sheap s') ds" using r(5) drawables_same(1)[OF ds] by simp
  moreover have "holds env (X + device_handles r + owned (sheap s') ds + cache_handles n) s'"
    using r(6) drawables_same(2)[OF ds] same by (simp add: holds_def)
  ultimately show ?thesis unfolding running_def using r(1,2,4) by (blast intro: loadedI)
qed

lemma frames_running: "frames fuel env this s s' \<Longrightarrow> honest env \<Longrightarrow> running env this ds X s \<Longrightarrow> running env this ds X s'"
  by (induction rule: frames.induct) (auto intro: quiet_running[OF quiet_Render])

text \<open>
  C12. The life of a renderer, over a device that answers as documented. \<open>Initialize\<close> returns, whichever
  calls fail. When it returns \<open>true\<close>, or the three calls that create the device work and it fails while it
  loads the content, then after any number of frames \<open>Terminate\<close> returns too, with the drawables empty, no
  drawable and no shader registered, the four pointers to the device null, and every handle that was acquired
  on the way released once; only a shader call that fails can lose handles.
\<close>

theorem device_life_is_balanced:
  assumes "honest env" and "comp_at (sheap s) this = Inr (CRenderer r)" and "m_allShaders r = []"
    and "distinct (m_allDrawable r)" and "drawables_are gpu_empty (sheap s) (m_allDrawable r)"
    and "acquired (hist s) = released (hist s) + X"
  shows "\<exists>ok s1. renderer_Initialize env this hWnd hInst s = Inr (ok, s1) \<and>
    (ok \<or> device_works env \<longrightarrow> (\<forall>s2. frames fuel env this s1 s2 \<longrightarrow>
      (\<exists>s3 r3 lost. renderer_Terminate env this s2 = Inr ((), s3) \<and> comp_at (sheap s3) this = Inr (CRenderer r3) \<and>
        set (device_ptrs r3) = {Null} \<and> m_allDrawable r3 = [] \<and> m_allShaders r3 = [] \<and>
        drawables_are gpu_empty (sheap s3) (m_allDrawable r) \<and>
        acquired (hist s3) = released (hist s3) + X + lost \<and> (compiles env \<longrightarrow> lost = {#}))))"
proof -
  have "idle env this r (m_allDrawable r) X s" using assms(2,5,6) by (simp add: idle_def holds_def)
  from Initialize_runs[OF assms(1) this assms(3,4)] obtain ok s1 where
    1: "renderer_Initialize env this hWnd hInst s = Inr (ok, s1)" "ok \<or> device_works env \<longrightarrow> running env this (m_allDrawable r) X s1"
    unfolding runs_def by blast
  have "\<exists>s3 r3 lost. renderer_Terminate env this s2 = Inr ((), s3) \<and> comp_at (sheap s3) this = Inr (CRenderer r3) \<and>
        set (device_ptrs r3) = {Null} \<and> m_allDrawable r3 = [] \<and> m_allShaders r3 = [] \<and>
        drawables_are gpu_empty (sheap s3) (m_allDrawable r) \<and>
        acquired (hist s3) = released (hist s3) + X + lost \<and> (compiles env \<longrightarrow> lost = {#})"
    if "ok \<or> device_works env" "frames fuel env this s1 s2" for s2
    using Terminate_runs[OF assms(1) frames_running[OF that(2) assms(1)] assms(4)] 1(2) that(1)
    unfolding runs_def holds_def by fastforce
  then show ?thesis using 1(1) by blast
qed

text \<open>A renderer with one sprite, before its device is created; one frame is drawn.\<close>

definition fresh_renderer :: drawable_renderer where
  "fresh_renderer = new_renderer\<lparr>m_allDrawable := [(1, 1)], m_allDrawableIDs := [(1, 0)],
     m_currentCamera := Ptr (2, 1), m_currentCameraID := Some 2\<rparr>"

lemma working_env_ask: "env_ask working_env cs c = \<lparr>r_failed = False,
     r_out = map (\<lambda>i. Some (if i = 1 \<and> outs c = 2 then Null else Ptr (3 * length cs + i))) [0..<outs c],
     r_int0 = 64, r_int1 = 64,
     r_viewport = \<lparr>TopLeftX = f32_zero, TopLeftY = f32_zero, vpWidth = f32_of_int 64, vpHeight = f32_of_int 64\<rparr>\<rparr>"
  by (simp add: working_env_def)

lemma fresh_renderer_draws:
  "\<exists>s1 s2. renderer_Initialize working_env (0, 0) Null Null \<lparr>sheap = sprite_heap fresh_renderer, hist = []\<rparr> = Inr (True, s1) \<and>
    Render 9 working_env (0, 0) s1 = Inr ((), s2)"
  by (simp add: renderer_Initialize_def Initialize_def LoadContent_def act_defs modA_def Let_def working_env_ask out_ptr_def
      sprite_heap_def comp_at_def upd_comp_def holder_def new_game_object_def fresh_renderer_def new_renderer_def vec_at_def
      drawable_registerShader_def sprite_registerShader_def addShaderByPath_def CompileShader_def release_ptr_def
      drawable_load_def sprite_load_def create_gpu_def new_sprite_def new_gpu_def numeral_3_eq_3 numeral_2_eq_2 upt_rec)
    (simp add: Render_def act_defs comp_at_def vec_at_def drawable_render_def sprite_render_def begin_draw_def draw_matrix_def
      renderer_ctx_def shader_at_def working_env_ask Let_def upt_rec getProjectionMatrix_def projection_matrix_def
      setOrthogonal_def setProjection_def new_kamera_def upd_comp_def eval_nat_numeral refresh_def new_transform_def)

theorem device_life_is_balanced_witness:
  "\<exists>s1 s2 s3. renderer_Initialize working_env (0, 0) Null Null \<lparr>sheap = sprite_heap fresh_renderer, hist = []\<rparr> = Inr (True, s1) \<and>
    Render 9 working_env (0, 0) s1 = Inr ((), s2) \<and> renderer_Terminate working_env (0, 0) s2 = Inr ((), s3) \<and>
    acquired (hist s3) = released (hist s3)"
proof -
  let ?s = "\<lparr>sheap = sprite_heap fresh_renderer, hist = []\<rparr> :: matrix engine"
  have r: "comp_at (sheap ?s) (0, 0) = Inr (CRenderer fresh_renderer)" "m_allShaders fresh_renderer = []"
    "distinct (m_allDrawable fresh_renderer)" "drawables_are gpu_empty (sheap ?s) (m_allDrawable fresh_renderer)"
    "acquired (hist ?s) = released (hist ?s) + {#}"
    by (simp_all add: fresh_renderer_def sprite_heap_def comp_at_def holder_def new_game_object_def new_renderer_def
        drawables_are_def gpu_empty_def new_sprite_def new_gpu_def)
  obtain s1 s2 where 1: "renderer_Initialize working_env (0, 0) Null Null ?s = Inr (True, s1)"
    "Render 9 working_env (0, 0) s1 = Inr ((), s2)" using fresh_renderer_draws by blast
  then have "frames 9 working_env (0, 0) s1 s2" by (blast intro: frames.intros)
  then show ?thesis
    using device_life_is_balanced[OF working_env_honest r, of Null Null 9] 1 working_env_compiles by auto
qed

end
