(* ===== verification/Demo_Program.thy ===== *)
theory Demo_Program
  imports Viewer_Main
begin

text \<open>
  The two demo programs \<open>Application/Siedler/Main.cpp\<close> and \<open>Application/StandaretAnwendung/Main.cpp\<close>, which
  are the same file. They have the component classes of the viewer with an empty \<open>klicked\<close>, create a window
  and dispatch its messages; the event system is never updated and no scene is built. The state is that of
  the viewer. \<open>PeekMessage\<close> first hands the sent messages to the window procedure and then
  returns at most one posted message.
\<close>

section \<open>The actors of a button\<close>

definition demo_klicked :: "cref \<Rightarrow> 'm eheap \<Rightarrow> 'm eheap result" where
  "demo_klicked this h = bindR (cast_at as_object_klicker h this) (\<lambda>k. Inr h)"

definition demo_actor :: "'m actor" where
  "demo_actor c r h =
     bindR (comp_at h r) (\<lambda>a. case a of
       CObjectKlicker k \<Rightarrow> (case c of Klicked \<Rightarrow> demo_klicked r h | _ \<Rightarrow> Inr h)
     | _ \<Rightarrow> Inl (Undefined BadCast))"

definition demo_buttonChecker_onEvent :: "nat \<Rightarrow> 'm env \<Rightarrow> cref \<Rightarrow> viewer_event \<Rightarrow> ('m, bool) act" where
  "demo_buttonChecker_onEvent fuel env this e =
     bindA (readA (\<lambda>h. cast_at as_button_checker h this)) (\<lambda>b.
     case e of
       MouseButton m \<Rightarrow>
         bindA (liftA (follow (bc_button b))) (\<lambda>r.
         bindA (if LButton m \<and> \<not> LButtonAlt m then checkButtons fuel env demo_actor r True False
                else if \<not> LButton m \<and> LButtonAlt m then checkButtons fuel env demo_actor r False True
                else checkButtons fuel env demo_actor r False False) (\<lambda>_.
         retA False))
     | MouseScroll dir \<Rightarrow> retA False)"


section \<open>The window\<close>

definition demo_WndProc :: "'m env \<Rightarrow> window_message \<Rightarrow> 'm program \<Rightarrow> 'm program result" where
  "demo_WndProc env message s =
     (case message of
        WindowSize w h \<Rightarrow>
          Inr (s\<lparr>world := (world s)\<lparr>v_width := w mod 65536, v_height := h mod 65536\<rparr>\<rparr>)
      | DestroyWindow \<Rightarrow> bindR (run_engine (callA env (PostQuitMessage 0)) s) (\<lambda>(_, s). Inr s)
      | _ \<Rightarrow> Inr s)"

definition demo_dispatch :: "'m env \<Rightarrow> window_message list \<Rightarrow> 'm program \<Rightarrow> 'm program result" where
  "demo_dispatch env ms s = foldR (demo_WndProc env) ms s"

text \<open>
  \<open>created\<close> is the answer of \<open>CreateWindow\<close>, \<open>sent\<close> what it sends to the window procedure (also when it
  fails in the end), \<open>late\<close> what \<open>ShowWindow\<close> and \<open>UpdateWindow\<close> send.
\<close>

definition CreateMainWnd ::
    "'m env \<Rightarrow> handle ptr \<Rightarrow> window_message list \<Rightarrow> window_message list \<Rightarrow> 'm program \<Rightarrow> (bool \<times> 'm program) result" where
  "CreateMainWnd env created sent late s =
     bindR (demo_dispatch env sent s) (\<lambda>s.
     bindR (non_null created) (\<lambda>there.
     if \<not> there then Inr (False, s)
     else bindR (demo_dispatch env late s) (\<lambda>s. Inr (True, s))))"

record pump_turn =
  pt_sent :: "window_message list"
  pt_posted :: "window_message option"

text \<open>The turns that are given are used up; without a \<open>WM_QUIT\<close> among them the program is still running.\<close>

fun demo_loop :: "'m env \<Rightarrow> pump_turn list \<Rightarrow> 'm program \<Rightarrow> (int option \<times> 'm program) result" where
  "demo_loop env [] s = Inr (None, s)"
| "demo_loop env (t # ts) s =
     bindR (demo_dispatch env (pt_sent t) s) (\<lambda>s.
     case pt_posted t of
       None \<Rightarrow> demo_loop env ts s
     | Some m \<Rightarrow>
         bindR (demo_WndProc env m s) (\<lambda>s.
         case m of QuitMessage code \<Rightarrow> Inr (Some code, s) | _ \<Rightarrow> demo_loop env ts s))"

definition demo_wWinMain ::
    "'m env \<Rightarrow> handle ptr \<Rightarrow> window_message list \<Rightarrow> window_message list \<Rightarrow> pump_turn list \<Rightarrow> 'm program \<Rightarrow>
     (int option \<times> 'm program) result" where
  "demo_wWinMain env created sent late ts s =
     bindR (CreateMainWnd env created sent late s) (\<lambda>(ok, s).
     if \<not> ok then Inr (Some (- 1), s) else demo_loop env ts s)"


section \<open>A click changes nothing\<close>

text \<open>What a client can see besides the flags of button \<open>b\<close>: all other components.\<close>

definition beside :: "cref \<Rightarrow> 'm eheap \<Rightarrow> cref \<Rightarrow> 'm engine_component option" where
  "beside b h q = (if q = b then None else case comp_at h q of Inl e \<Rightarrow> None | Inr c \<Rightarrow> Some c)"

definition demo_actors :: "cref \<Rightarrow> cref list \<Rightarrow> 'm eheap \<Rightarrow> bool" where
  "demo_actors b rs h \<longleftrightarrow> (\<exists>x. comp_at h b = Inr (CButton x)) \<and> (\<forall>r \<in> set rs. \<exists>k. comp_at h r = Inr (CObjectKlicker k))"

lemma demo_actor_keeps: "comp_at h r = Inr (CObjectKlicker k) \<Longrightarrow> demo_actor c r h = Inr h"
  by (simp add: demo_actor_def demo_klicked_def split: actor_call.split)

lemma beside_button:
  "upd_comp b c h = Inr h' \<Longrightarrow> beside b h' = beside b h"
  by (rule ext) (simp add: beside_def comp_at_upd)

lemma demo_actors_button:
  assumes "demo_actors b rs h" and "comp_at h b = Inr (CButton x)" and u: "upd_comp b (CButton y) h = Inr h'"
  shows "demo_actors b rs h'"
proof -
  have "\<exists>k. comp_at h' r = Inr (CObjectKlicker k)" if "r \<in> set rs" for r
  proof -
    obtain k where k: "comp_at h r = Inr (CObjectKlicker k)" using assms(1) \<open>r \<in> set rs\<close> by (auto simp: demo_actors_def)
    then have "r \<noteq> b" using assms(2) by auto
    then show ?thesis using k comp_at_upd[OF u] by simp
  qed
  then show ?thesis using comp_at_upd[OF u] by (auto simp: demo_actors_def)
qed

interpretation demo: actor_contract demo_actor "demo_actors b rs" b rs "beside b" "\<lambda>r o'. o'" for b rs
proof
  fix h r c
  assume "demo_actors b rs h" "r \<in> set rs"
  then show "\<exists>h'. demo_actor c r h = Inr h' \<and> demo_actors b rs h' \<and> comp_at h' b = comp_at h b \<and>
      beside b h' = (if c = Klicked then beside b h else beside b h)"
    by (auto simp: demo_actors_def dest: demo_actor_keeps)
next
  fix h x u d h'
  assume "demo_actors b rs h" "comp_at h b = Inr (CButton x)" "upd_comp b (CButton (x\<lparr>b_up := u, b_down := d\<rparr>)) h = Inr h'"
  then show "demo_actors b rs h' \<and> beside b h' = beside b h" by (blast intro: demo_actors_button beside_button)
qed

lemma fold_same: "fold (\<lambda>r o'. o') rs x = x"
  by (induction rs) simp_all

lemma demo_click_changes_nothing:
  assumes "button_at h0 b = Inr x" and "b_transform x = Ptr t" and "payload x = rs" and "in_state s x"
    and "demo_actors b rs h" and "comp_at h b = Inr (CButton x)" and "length rs < fuel"
    and "screenPos fuel xm t vm vp h0 = Inr (r, h)"
    and "btn_step s (input_of (inside (px mod 65536) (py mod 65536) r) isDown isUp) = (s', click)"
  shows "\<exists>h' y. checkKlicked fuel xm demo_actor b px py vm vp isDown isUp h0 = Inr h' \<and>
    comp_at h' b = Inr (CButton y) \<and> in_state s' y \<and> payload y = rs \<and> beside b h' = beside b h"
proof -
  obtain h' y where "checkKlicked fuel xm demo_actor b px py vm vp isDown isUp h0 = Inr h'"
      "comp_at h' b = Inr (CButton y)" "in_state s' y" "payload y = rs"
      "beside b h' = (if click then fold (\<lambda>r o'. o') rs (beside b h) else beside b h)"
    using demo.check_follows[OF assms(1,2,8,5,6,3,7,4,9)] by blast
  then show ?thesis by (auto simp: fold_same)
qed


section \<open>The program only dispatches\<close>

text \<open>The messages the window procedure gets, and the code the program ends with.\<close>

fun dispatched :: "pump_turn list \<Rightarrow> window_message list" where
  "dispatched [] = []"
| "dispatched (t # ts) = pt_sent t @
     (case pt_posted t of None \<Rightarrow> dispatched ts | Some (QuitMessage code) \<Rightarrow> [] | Some m \<Rightarrow> m # dispatched ts)"

fun exit_code :: "pump_turn list \<Rightarrow> int option" where
  "exit_code [] = None"
| "exit_code (t # ts) = (case pt_posted t of Some (QuitMessage code) \<Rightarrow> Some code | _ \<Rightarrow> exit_code ts)"

fun last_size :: "window_message list \<Rightarrow> int \<times> int \<Rightarrow> int \<times> int" where
  "last_size [] p = p"
| "last_size (WindowSize w h # ms) p = last_size ms (w mod 65536, h mod 65536)"
| "last_size (m # ms) p = last_size ms p"

definition only_window :: "window_message list \<Rightarrow> 'm program \<Rightarrow> 'm program \<Rightarrow> bool" where
  "only_window ms s s' \<longleftrightarrow> (\<exists>rs. length rs = length (filter (\<lambda>m. m = DestroyWindow) ms) \<and>
     s' = s\<lparr>world := (world s)\<lparr>v_engine := (v_engine (world s))\<lparr>hist := hist (v_engine (world s)) @
         map (\<lambda>r. (PostQuitMessage 0, r)) rs\<rparr>,
       v_width := fst (last_size ms (v_width (world s), v_height (world s))),
       v_height := snd (last_size ms (v_width (world s), v_height (world s)))\<rparr>\<rparr>)"

lemma only_window_refl: "only_window [] s s"
  by (simp add: only_window_def)

lemma last_size_append: "last_size (ms @ ns) p = last_size ns (last_size ms p)"
  by (induction ms p rule: last_size.induct) simp_all

lemma only_window_trans:
  assumes "only_window ms s t" and "only_window ns t u"
  shows "only_window (ms @ ns) s u"
proof -
  let ?w = "\<lambda>s. world s"
  obtain rs qs where "length rs = length (filter (\<lambda>m. m = DestroyWindow) ms)" "length qs = length (filter (\<lambda>m. m = DestroyWindow) ns)"
    and t: "t = s\<lparr>world := (world s)\<lparr>v_engine := (v_engine (world s))\<lparr>hist := hist (v_engine (world s)) @ map (\<lambda>r. (PostQuitMessage 0, r)) rs\<rparr>,
       v_width := fst (last_size ms (v_width (world s), v_height (world s))),
       v_height := snd (last_size ms (v_width (world s), v_height (world s)))\<rparr>\<rparr>"
    and u: "u = t\<lparr>world := (world t)\<lparr>v_engine := (v_engine (world t))\<lparr>hist := hist (v_engine (world t)) @ map (\<lambda>r. (PostQuitMessage 0, r)) qs\<rparr>,
       v_width := fst (last_size ns (v_width (world t), v_height (world t))),
       v_height := snd (last_size ns (v_width (world t), v_height (world t)))\<rparr>\<rparr>"
    using assms unfolding only_window_def by blast
  then show ?thesis unfolding only_window_def by (intro exI[of _ "rs @ qs"]) (simp add: last_size_append)
qed

lemma WndProc_only_window: "\<exists>s'. demo_WndProc env m s = Inr s' \<and> only_window [m] s s'"
proof (cases m)
  case DestroyWindow
  then show ?thesis
    by (auto simp: demo_WndProc_def run_engine_def callA_def set_engine_def Let_def only_window_def
        intro!: exI[of _ "[env_ask env (hist (v_engine (world s))) (PostQuitMessage 0)]"])
qed (simp_all add: demo_WndProc_def only_window_def)

lemma dispatch_only_window: "\<exists>s'. demo_dispatch env ms s = Inr s' \<and> only_window ms s s'"
proof (induction ms arbitrary: s)
  case Nil
  then show ?case by (simp add: demo_dispatch_def only_window_refl)
next
  case (Cons m ms)
  obtain t where t: "demo_WndProc env m s = Inr t" "only_window [m] s t" using WndProc_only_window by blast
  obtain u where "demo_dispatch env ms t = Inr u" "only_window ms t u" using Cons.IH by blast
  then show ?case using t only_window_trans[OF t(2)] by (force simp: demo_dispatch_def)
qed

lemma loop_only_window: "\<exists>s'. demo_loop env ts s = Inr (exit_code ts, s') \<and> only_window (dispatched ts) s s'"
proof (induction ts arbitrary: s)
  case Nil
  then show ?case by (simp add: only_window_refl)
next
  case (Cons t ts)
  obtain s1 where s1: "demo_dispatch env (pt_sent t) s = Inr s1" "only_window (pt_sent t) s s1"
    using dispatch_only_window by blast
  show ?case
  proof (cases "pt_posted t")
    case None
    obtain s2 where "demo_loop env ts s1 = Inr (exit_code ts, s2)" "only_window (dispatched ts) s1 s2" using Cons.IH by blast
    then show ?thesis using None s1 only_window_trans[OF s1(2)] by auto
  next
    case (Some m)
    obtain s2 where s2: "demo_WndProc env m s1 = Inr s2" "only_window [m] s1 s2" using WndProc_only_window by blast
    obtain s3 where s3: "demo_loop env ts s2 = Inr (exit_code ts, s3)" "only_window (dispatched ts) s2 s3" using Cons.IH by blast
    have "only_window (pt_sent t @ m # dispatched ts) s s3"
      using only_window_trans[OF s1(2) only_window_trans[OF s2(2) s3(2)]] by simp
    moreover have "s2 = s1" if "m = QuitMessage c" for c using s2(1) that by (simp add: demo_WndProc_def)
    ultimately show ?thesis using Some s1 s2(1) s3(1) by (cases m) auto
  qed
qed

text \<open>
  C40. Whatever Windows delivers, a demo program returns and does nothing but dispatch: it ends with -1 when
  the window is not created and with the code of the first \<open>WM_QUIT\<close> otherwise; the size is that of the last
  \<open>WM_SIZE\<close> before it, \<open>PostQuitMessage(0)\<close> is called once for each \<open>WM_DESTROY\<close>, and objects, events and
  listeners are what they were.
\<close>

theorem demo_only_dispatches:
  assumes "created \<noteq> Wild"
  shows "\<exists>s'. demo_wWinMain env created sent late ts s = Inr (if created = Null then Some (- 1) else exit_code ts, s') \<and>
    only_window (if created = Null then sent else sent @ late @ dispatched ts) s s'"
proof -
  obtain s1 where s1: "demo_dispatch env sent s = Inr s1" "only_window sent s s1" using dispatch_only_window by blast
  obtain s2 where s2: "demo_dispatch env late s1 = Inr s2" "only_window late s1 s2" using dispatch_only_window by blast
  obtain s3 where s3: "demo_loop env ts s2 = Inr (exit_code ts, s3)" "only_window (dispatched ts) s2 s3"
    using loop_only_window by blast
  note o = only_window_trans[OF s1(2) only_window_trans[OF s2(2) s3(2)]]
  show ?thesis using assms s1 s2(1) s3(1) o
    by (cases created) (simp_all add: demo_wWinMain_def CreateMainWnd_def)
qed

text \<open>A window that is resized, destroyed, and told to quit; the wheel in between is ignored.\<close>

definition demo_start :: "unit program" where
  "demo_start = new_event_system (\<lambda>_. None) \<lparr>v_engine = \<lparr>sheap = empty_heap, hist = []\<rparr>, v_payload = (\<lambda>_. None),
     v_next = 0, v_width = 800, v_height = 600\<rparr>"

definition demo_env :: "unit env" where
  "demo_env = \<lparr>env_xna = unit_xna, env_ask = (\<lambda>_ _. \<lparr>r_failed = False, r_out = [], r_int0 = 0, r_int1 = 0, r_viewport = small_viewport\<rparr>)\<rparr>"

definition demo_turns :: "pump_turn list" where
  "demo_turns = [\<lparr>pt_sent = [WindowSize 640 480], pt_posted = Some (MouseWheel 120)\<rparr>,
     \<lparr>pt_sent = [DestroyWindow], pt_posted = None\<rparr>, \<lparr>pt_sent = [], pt_posted = Some (QuitMessage 0)\<rparr>,
     \<lparr>pt_sent = [WindowSize 1 1], pt_posted = None\<rparr>]"

theorem demo_only_dispatches_witness:
  "\<exists>s'. demo_wWinMain demo_env (Ptr 7) [WindowSize 800 600] [PaintWindow] demo_turns demo_start = Inr (Some 0, s') \<and>
    v_width (world s') = 640 \<and> v_height (world s') = 480 \<and> length (hist (v_engine (world s'))) = 1 \<and> events s' = events demo_start"
proof -
  have "exit_code demo_turns = Some 0" "dispatched demo_turns = [WindowSize 640 480, MouseWheel 120, DestroyWindow]"
    by (simp_all add: demo_turns_def)
  then show ?thesis
    using demo_only_dispatches[of "Ptr 7" demo_env "[WindowSize 800 600]" "[PaintWindow]" demo_turns demo_start]
    by (auto simp: only_window_def demo_start_def new_event_system_def)
qed

end
