(* ===== verification/Serializer_Tests.thy ===== *)
theory Serializer_Tests
  imports File_Component Object_Queries
begin

text \<open>
  \<open>Serializer/tests.cpp\<close>: its \<open>main\<close>, which prints a scene, saves it to a file, clears the storage, loads
  the file and prints again, and the file \<open>Serializer/test.bin\<close> that this \<open>main\<close> wrote in the repository,
  byte for byte.
\<close>

definition file_class :: "(file_component, file_system) component_class" where
  "file_class = \<lparr>typeName = (\<lambda>_. ''class FileComponent''), serializeC = fileComponent_serialize,
     setC = fileComponent_set, setRequirementsC = (\<lambda>c toSet. Inr c),
     registry = registerAll [(''class FileComponent'', \<lambda>_. new_file_component)] None\<rparr>"

definition tests_scene :: "(addr \<times> file_component heap \<times> storage) result" where
  "tests_scene =
     bindR (createGameObject empty_heap new_storage) (\<lambda>(entry, h, st).
     bindR (createGameObject h st) (\<lambda>(p0, h, st).
     bindR (createGameObject h st) (\<lambda>(p00, h, st).
     bindR (createGameObject h st) (\<lambda>(p01, h, st).
     bindR (createGameObject h st) (\<lambda>(p010, h, st).
     bindR (createGameObject h st) (\<lambda>(p1, h, st).
     bindR (createGameObject h st) (\<lambda>(p2, h, st).
     bindR (setParrent st p0 entry h) (\<lambda>h.
     bindR (setParrent st p1 entry h) (\<lambda>h.
     bindR (setParrent st p2 entry h) (\<lambda>h.
     bindR (setParrent st p00 p0 h) (\<lambda>h.
     bindR (setParrent st p01 p0 h) (\<lambda>h.
     bindR (setParrent st p010 p01 h) (\<lambda>h.
     Inr (entry, h, st))))))))))))))"

text \<open>What \<open>main\<close> prints, and the disk it leaves.\<close>

definition tests_main :: "nat \<Rightarrow> file_system \<Rightarrow> (string \<times> file_system) result" where
  "tests_main fuel fs =
     bindR tests_scene (\<lambda>(entry, h, st).
     bindR (toString fuel h st entry 0) (\<lambda>out0.
     bindR (storage_serialize file_class h st []) (\<lambda>so.
     let fs = writeToFile so ''test.bin'' fs in
     bindR (clear_storage h st) (\<lambda>(h, st).
     let so = readSerializedObjectFromFile ''test.bin'' fs in
     bindR (pop_string (so, fs)) (\<lambda>(name, s).
     bindR (storage_set file_class (h, st) s) (\<lambda>((h, st), (so, fs)).
     bindR (deref (map_getById (objects st) 0)) (\<lambda>a.
     bindR (toString fuel h st a 0) (\<lambda>out1.
     Inr (out0 @ out1, fs)))))))))"

definition test_bin :: "byte list" where
  "test_bin =
    [0, 0, 0, 0, 6, 0, 0, 0, 5, 0, 0, 0, 1, 0, 0, 0, 3, 0, 0, 0, 255, 255, 255, 255,
     0, 0, 0, 0, 0, 0, 0, 0, 99, 108, 97, 115, 115, 32, 71, 97, 109, 101, 79, 98, 106, 101, 99, 116,
     16, 0, 0, 0, 0, 0, 0, 0, 3, 0, 0, 0, 2, 0, 0, 0, 2, 0, 0, 0, 0, 0, 0, 0,
     0, 0, 0, 0, 1, 0, 0, 0, 99, 108, 97, 115, 115, 32, 71, 97, 109, 101, 79, 98, 106, 101, 99, 116,
     16, 0, 0, 0, 0, 0, 0, 0, 0, 0, 0, 0, 1, 0, 0, 0, 0, 0, 0, 0, 2, 0, 0, 0,
     99, 108, 97, 115, 115, 32, 71, 97, 109, 101, 79, 98, 106, 101, 99, 116, 16, 0, 0, 0, 0, 0, 0, 0,
     4, 0, 0, 0, 1, 0, 0, 0, 1, 0, 0, 0, 0, 0, 0, 0, 3, 0, 0, 0, 99, 108, 97, 115,
     115, 32, 71, 97, 109, 101, 79, 98, 106, 101, 99, 116, 16, 0, 0, 0, 0, 0, 0, 0, 0, 0, 0, 0,
     3, 0, 0, 0, 0, 0, 0, 0, 4, 0, 0, 0, 99, 108, 97, 115, 115, 32, 71, 97, 109, 101, 79, 98,
     106, 101, 99, 116, 16, 0, 0, 0, 0, 0, 0, 0, 0, 0, 0, 0, 0, 0, 0, 0, 0, 0, 0, 0,
     5, 0, 0, 0, 99, 108, 97, 115, 115, 32, 71, 97, 109, 101, 79, 98, 106, 101, 99, 116, 16, 0, 0, 0,
     0, 0, 0, 0, 0, 0, 0, 0, 0, 0, 0, 0, 0, 0, 0, 0, 6, 0, 0, 0, 99, 108, 97, 115,
     115, 32, 71, 97, 109, 101, 79, 98, 106, 101, 99, 116, 16, 0, 0, 0, 7, 0, 0, 0, 0, 0, 0, 0,
     99, 108, 97, 115, 115, 32, 79, 98, 106, 101, 99, 116, 83, 116, 111, 114, 114, 97, 103, 101, 20, 0, 0, 0]"

interpretation file_class: component_codec file_class fileComponent_enc "\<lambda>c. c"
    "\<lambda>c. createFileWith (filePath c) (toPutInFile c)" "\<lambda>c. length (toPutInFile c) < 2147483648"
proof
  fix c :: file_component
  assume l: "length (toPutInFile c) < 2147483648"
  show "appends (serializeC file_class c) (fileComponent_enc c @ enc_string (typeName file_class c))"
    using file_component.ser_appends[OF l] by (simp add: file_class_def)
  show "\<exists>d. fst (createInstance (typeName file_class c) (registry file_class)) = Some d \<and>
      reads (setC file_class d) (fileComponent_enc c) c (createFileWith (filePath c) (toPutInFile c))"
    using file_component.set_reads[OF l]
    by (simp add: file_class_def createInstance_registerAll)
qed

definition test_object :: "int \<Rightarrow> int \<Rightarrow> int list \<Rightarrow> file_component game_object" where
  "test_object i p cs = new_game_object\<lparr>go_ID := i, parrentID := p, childrenIds := cs\<rparr>"

definition test_objects :: "file_component game_object list" where
  "test_objects = [test_object 0 (-1) [1, 5, 6], test_object 1 0 [2, 3], test_object 2 1 [],
     test_object 3 1 [4], test_object 4 3 [], test_object 5 0 [], test_object 6 0 []]"

lemma tests_scene_built:
  "\<exists>h st. tests_scene = Inr (0, h, st) \<and> storage_wf h st \<and> stored h st = test_objects \<and>
     objects st = map (\<lambda>k. (int k, k)) [0..<7]"
  by (simp add: tests_scene_def createGameObject_def alloc_def empty_heap_def new_storage_def
      new_game_object_def map_addOnId_def checked_int_def int_ok_def setParrent_def addChild_def
      storage_wf_def stored_def smap_inv_def test_objects_def test_object_def upt_rec)

lemma le_nat_4: "le_nat 4 v = [word_of_nat (v mod 256), word_of_nat (v div 256 mod 256),
    word_of_nat (v div 65536 mod 256), word_of_nat (v div 16777216 mod 256)]"
proof -
  have "le_nat (Suc (Suc (Suc (Suc 0)))) v = [word_of_nat (v mod 256), word_of_nat (v div 256 mod 256),
    word_of_nat (v div 65536 mod 256), word_of_nat (v div 16777216 mod 256)]"
    by (simp add: div_mult2_eq[symmetric])
  moreover have "(4 :: nat) = Suc (Suc (Suc (Suc 0)))" by simp
  ultimately show ?thesis by (simp only:)
qed

lemma int_bytes_run: "int_bytes i = map word_of_nat [nat (i mod 4294967296) mod 256,
    nat (i mod 4294967296) div 256 mod 256, nat (i mod 4294967296) div 65536 mod 256,
    nat (i mod 4294967296) div 16777216 mod 256]"
  by (simp add: int_bytes_def le_nat_4)

lemma size_bytes_7: "size_bytes 7 = [7, 0, 0, 0, 0, 0, 0, 0]"
  unfolding size_bytes_def by code_simp

lemma class_name_bytes:
  "enc_string ''class GameObject'' = [99, 108, 97, 115, 115, 32, 71, 97, 109, 101, 79, 98, 106, 101, 99, 116, 16, 0, 0, 0]"
  "enc_string ''class ObjectStorrage'' =
     [99, 108, 97, 115, 115, 32, 79, 98, 106, 101, 99, 116, 83, 116, 111, 114, 114, 97, 103, 101, 20, 0, 0, 0]"
  "enc_string '''' = [0, 0, 0, 0]"
  by (simp_all add: enc_string_def string_bytes_def int_bytes_run)

lemma test_objects_bytes: "storage_enc file_class fileComponent_enc test_objects = test_bin"
proof -
  have "length test_objects = 7" by (simp add: test_objects_def)
  then have sz: "size_bytes (length test_objects) = [7, 0, 0, 0, 0, 0, 0, 0]"
    by (simp only: size_bytes_7)
  show ?thesis
    unfolding storage_enc_def sz
    by (simp add: test_objects_def test_object_def go_enc_def new_game_object_def enc_vec_def
        class_name_bytes int_bytes_run test_bin_def)
qed

lemma test_objects_ok: "list_all (go_ok (\<lambda>c. length (toPutInFile c) < 2147483648)) test_objects"
  by (simp add: test_objects_def test_object_def go_ok_def new_game_object_def ok_vec_def int_ok_def)

lemma length_test_bin: "length test_bin = 336"
  by (simp add: test_bin_def)

text \<open>The file system after the loads of all objects, last object first.\<close>

definition files_restored :: "file_component game_object list \<Rightarrow> file_system \<Rightarrow> file_system" where
  "files_restored gs fs = fold (go_eff (\<lambda>c. createFileWith (filePath c) (toPutInFile c))) (rev gs) fs"

text \<open>
  C1. A scene of file components, built by the operations of \<open>built_by\<close> with any contents and paths written to its
  components, is saved to a file and that file is loaded into an empty storage: every object comes back with its
  identifier, name, parent, children and components, each component with its bytes and its path, in the same order
  and owned by the new objects; only the activity flags are lost. Loading writes the file of every component to disk,
  and what is loaded into a cleared scene is again a scene. The lengths must fit into the \<open>int\<close>s of the format.
\<close>

theorem scene_survives_file:
  assumes "scene file_class h st" and "list_all (go_ok (\<lambda>c. length (toPutInFile c) < 2147483648)) (stored h st)"
    and "length (storage_enc file_class fileComponent_enc (stored h st)) < 2147483648" and "writable fs path"
  shows "\<exists>so h' st'. storage_serialize file_class h st [] = Inr so \<and>
    bindP pop_string (\<lambda>_. storage_set file_class (h0, new_storage))
        (readSerializedObjectFromFile path (writeToFile so path fs), writeToFile so path fs)
      = Inr ((h', st'), ([], files_restored (stored h st) (writeToFile so path fs))) \<and>
    map fst (objects st') = map fst (objects st) \<and>
    stored h' st' = map2 (go_img (\<lambda>c. c)) (map snd (objects st')) (stored h st) \<and>
    storage_wf h' st' \<and> (scene file_class h0 new_storage \<longrightarrow> scene file_class h' st')"
proof -
  have wf: "storage_wf h st" using scene_ok[OF assms(1)] by (simp add: created_ok_def)
  have rd: "readSerializedObjectFromFile path (writeToFile so path fs) = so" for so
    using assms(4) by (simp add: readSerializedObjectFromFile_eq writeToFile_createFileWith createFileWith_eq)
  obtain so where so: "storage_serialize file_class h st [] = Inr so"
    using file_class.storage_roundtrip[OF wf assms(2,3)] by blast
  then obtain h' st' where ld: "bindP pop_string (\<lambda>_. storage_set file_class (h0, new_storage)) (so, writeToFile so path fs)
      = Inr ((h', st'), ([], files_restored (stored h st) (writeToFile so path fs)))"
    "map fst (objects st') = map fst (objects st)"
    "stored h' st' = map2 (go_img (\<lambda>c. c)) (map snd (objects st')) (stored h st)" "storage_wf h' st'"
    using file_class.storage_roundtrip[OF wf assms(2,3), of h0 "writeToFile so path fs"]
    by (auto simp: files_restored_def)
  have same: "list_all2 (same_object file_class) (stored h st) (stored h' st')"
    by (rule img_same_stored[OF _ ld(2,3)]) simp
  have "scene file_class h0 new_storage \<Longrightarrow> scene file_class h' st'"
    by (rule scene_load[OF assms(1) so _ ld(1) same])
  then show ?thesis using so rd ld by (intro exI[of _ so] exI[of _ h'] exI[of _ st']) simp
qed

text \<open>Two objects, the second below the first and holding a file.\<close>

definition file_decl :: "file_component component_decl" where
  "file_decl = \<lparr>declName = ''class FileComponent'', isLonly = False, requirements = [], isInstance = (\<lambda>_. True)\<rparr>"

definition packed_file :: file_component where
  "packed_file = \<lparr>toPutInFile = [1, 2, 255], filePath = ''a.txt''\<rparr>"

definition holding :: "file_component \<Rightarrow> file_component heap" where
  "holding c = family_heap\<lparr>cells := (cells family_heap)(1 \<mapsto> new_game_object\<lparr>go_ID := 1, parrentID := 0,
     componenten := [\<lparr>isActiv = None, gameobject = Some 1, obj = c\<rparr>]\<rparr>)\<rparr>"

lemma holding_scene: "scene file_class (holding packed_file) two_storage"
proof -
  have m: "map_getById (objects two_storage) 1 = Some 1" by (simp add: two_storage_def map_getById_def)
  have "addComponent file_class file_decl 1 family_heap = Inr ((1, 0), holding new_file_component)"
    by (simp add: addComponent_def file_class_def file_decl_def family_heap_def new_game_object_def holding_def
        createInstance_registerAll)
  from scene_component[OF family_scene m this] have s: "scene file_class (holding new_file_component) two_storage" by simp
  let ?g = "new_game_object\<lparr>go_ID := 1, parrentID := 0,
     componenten := [\<lparr>isActiv = None, gameobject = Some 1, obj = new_file_component\<rparr>]\<rparr>"
  have g: "cells (holding new_file_component) 1 = Some ?g" by (simp add: holding_def)
  show ?thesis
    by (rule scene_write[OF s m g, where k = 0 and c = "\<lparr>isActiv = None, gameobject = Some 1, obj = packed_file\<rparr>"])
       (simp_all add: holding_def file_class_def)
qed

lemma holding_stored: "stored (holding packed_file) two_storage = [test_object 0 (-1) [1],
    (test_object 1 0 [])\<lparr>componenten := [\<lparr>isActiv = None, gameobject = Some 1, obj = packed_file\<rparr>]\<rparr>]"
  by (simp add: stored_def holding_def family_heap_def two_storage_def test_object_def new_game_object_def)

theorem scene_survives_file_witness:
  "\<exists>so h' st' fs' g'. storage_serialize file_class (holding packed_file) two_storage [] = Inr so \<and>
    bindP pop_string (\<lambda>_. storage_set file_class (empty_heap, new_storage))
      (readSerializedObjectFromFile ''s.bin'' (writeToFile so ''s.bin'' \<lparr>files = Map.empty, writable = (\<lambda>_. True)\<rparr>),
       writeToFile so ''s.bin'' \<lparr>files = Map.empty, writable = (\<lambda>_. True)\<rparr>) = Inr ((h', st'), ([], fs')) \<and>
    files fs' ''a.txt'' = Some [1, 2, 255] \<and> map fst (objects st') = [0, 1] \<and>
    stored h' st' ! 1 = g' \<and> parrentID g' = 0 \<and> map obj (componenten g') = [packed_file] \<and> scene file_class h' st'"
proof -
  let ?fs = "\<lparr>files = Map.empty, writable = (\<lambda>_. True)\<rparr>"
  have ok: "list_all (go_ok (\<lambda>c. length (toPutInFile c) < 2147483648)) (stored (holding packed_file) two_storage)"
    unfolding holding_stored by (simp add: test_object_def go_ok_def new_game_object_def ok_vec_def int_ok_def packed_file_def)
  have ln: "length (storage_enc file_class fileComponent_enc (stored (holding packed_file) two_storage)) < 2147483648"
    unfolding holding_stored by (simp add: test_object_def storage_enc_def go_enc_def new_game_object_def enc_vec_def comp_enc_def
        fileComponent_enc_def packed_file_def file_class_def)
  have w: "writable ?fs ''s.bin''" by simp
  obtain so h' st' where s: "storage_serialize file_class (holding packed_file) two_storage [] = Inr so"
      "bindP pop_string (\<lambda>_. storage_set file_class (empty_heap, new_storage))
        (readSerializedObjectFromFile ''s.bin'' (writeToFile so ''s.bin'' ?fs), writeToFile so ''s.bin'' ?fs)
      = Inr ((h', st'), ([], files_restored (stored (holding packed_file) two_storage) (writeToFile so ''s.bin'' ?fs)))"
      "map fst (objects st') = map fst (objects two_storage)"
      "stored h' st' = map2 (go_img (\<lambda>c. c)) (map snd (objects st')) (stored (holding packed_file) two_storage)"
      "scene file_class h' st'"
    using scene_survives_file[OF holding_scene ok ln w, of empty_heap] scene_init by blast
  have ids: "map fst (objects st') = [0, 1]" using s(3) by (simp add: two_storage_def)
  then obtain a b where st': "objects st' = [(0, a), (1, b)]" by (auto simp: map_eq_Cons_conv)
  have f: "files (files_restored (stored (holding packed_file) two_storage) (writeToFile so ''s.bin'' ?fs)) ''a.txt''
      = Some [1, 2, 255]"
    unfolding files_restored_def holding_stored by (simp add: go_eff_def eff_vec_def test_object_def new_game_object_def
        packed_file_def createFileWith_eq writeToFile_createFileWith)
  have g: "parrentID (stored h' st' ! 1) = 0" "map obj (componenten (stored h' st' ! 1)) = [packed_file]"
    unfolding s(4) st' holding_stored by (simp_all add: go_img_def comp_img_def test_object_def)
  show ?thesis by (intro exI conjI) (rule refl | fact s(1,2,5) ids f g)+
qed


section \<open>An identifier gap\<close>

text \<open>
  A program gives the second of two objects the identifier 5 and saves: the file is read back as a storage of two
  objects without the identifier 1.
\<close>

lemma gap_saved:
  "upd_obj 1 (setID 5) two_heap = Inr h \<Longrightarrow>
   \<exists>so h' st' w. storage_serialize file_class h two_storage [] = Inr so \<and>
    bindP pop_string (\<lambda>_. storage_set file_class (h0, new_storage)) (so, fs) = Inr ((h', st'), w) \<and>
    storage_wf h' st' \<and> map fst (objects st') = [0, 5]"
proof -
  assume "upd_obj 1 (setID 5) two_heap = Inr h"
  then have h: "h = two_heap\<lparr>cells := (cells two_heap)(1 \<mapsto> test_object 5 (-1) [])\<rparr>"
    by (simp add: two_heap_def test_object_def new_game_object_def)
  let ?gs = "[test_object 0 (-1) [], test_object 5 (-1) []]" and ?ok = "\<lambda>c :: file_component. length (toPutInFile c) < 2147483648"
  have cells: "cells h 0 = Some (test_object 0 (-1) [])" "cells h 1 = Some (test_object 5 (-1) [])"
    by (simp_all add: h two_heap_def test_object_def new_game_object_def)
  have ok: "go_ok ?ok (test_object i (-1) [])" if "i = 0 \<or> i = 5" for i
    using that by (auto simp: go_ok_def test_object_def new_game_object_def ok_vec_def int_ok_def)
  have len: "length (storage_enc file_class fileComponent_enc ?gs) < 2147483648"
    by (simp add: test_object_def storage_enc_def go_enc_def new_game_object_def enc_vec_def)
  have "appends (foldR (\<lambda>(i, a) msg. bindR (get_obj h a) (\<lambda>g. go_serialize file_class g msg)) (objects two_storage))
     (concat (map (\<lambda>(i, a). go_enc file_class fileComponent_enc (the (cells h a))) (objects two_storage)))"
    by (rule file_class.objects_append) (use cells ok in \<open>auto simp: two_storage_def\<close>)
  moreover have "appends (push_cstr ''class ObjectStorrage'') (enc_string ''class ObjectStorrage'')"
    unfolding enc_string_def by (rule appends_cstr) simp
  ultimately have "appends (storage_serialize file_class h two_storage)
     (concat (map (\<lambda>(i, a). go_enc file_class fileComponent_enc (the (cells h a))) (objects two_storage)) @
      size_bytes (length (objects two_storage)) @ enc_string ''class ObjectStorrage'' @ [])"
    unfolding storage_serialize_def by (intro appends_Cons appends_Nil appends_pod)
  then have "appends (storage_serialize file_class h two_storage) (storage_enc file_class fileComponent_enc ?gs)"
    by (simp add: two_storage_def cells storage_enc_def del: One_nat_def)
  then have so: "storage_serialize file_class h two_storage [] = Inr (storage_enc file_class fileComponent_enc ?gs)"
    using appendsD[of "storage_serialize file_class h two_storage" _ "[]"] len by simp
  obtain h' st' where pl: "place (\<lambda>c. c) (rev ?gs) (h0, new_storage) = (h', st')" by fastforce
  have oks: "list_all (go_ok ?ok) ?gs" and sorted: "sorted_wrt (<) (map go_ID ?gs)"
    using ok by (simp_all add: test_object_def)
  have "storage_wf h' st'" "map fst (objects st') = [0, 5]"
    using place_wf[OF pl sorted] place_stored(1)[OF pl] by (simp_all add: test_object_def)
  then show ?thesis using so file_class.load_reads[OF oks sorted len, of h0 fs] pl
    by (intro exI[of _ "storage_enc file_class fileComponent_enc ?gs"] exI[of _ h'] exI[of _ st'] exI) simp
qed

theorem findByName_gap_undefined_witness:
  "\<exists>h so h' st' w. upd_obj 1 (setID 5) (two_heap :: file_component heap) = Inr h \<and>
    storage_serialize file_class h two_storage [] = Inr so \<and>
    bindP pop_string (\<lambda>_. storage_set file_class (empty_heap, new_storage)) (so, \<lparr>files = Map.empty, writable = (\<lambda>_. True)\<rparr>) = Inr ((h', st'), w) \<and>
    findByName ''x'' h' st' = Inl (Undefined NullDeref) \<and>
    storage_afterSet (\<lambda>h r c. Inr c) st' h' = Inl (Undefined NullDeref)"
proof -
  let ?fs = "\<lparr>files = Map.empty, writable = (\<lambda>_. True)\<rparr>"
  obtain h where h: "upd_obj 1 (setID 5) (two_heap :: file_component heap) = Inr h" by (simp add: two_heap_def)
  show ?thesis
    using gap_saved[OF h, of empty_heap ?fs]
  proof (elim exE conjE)
    fix so h' st' w
    assume s: "storage_serialize file_class h two_storage [] = Inr so"
      "bindP pop_string (\<lambda>_. storage_set file_class (empty_heap, new_storage)) (so, ?fs) = Inr ((h', st'), w)"
      "storage_wf h' st'" "map fst (objects st') = [0, 5]"
    have "1 < length (objects st')" "map_getById (objects st') (int 1) = None"
      using arg_cong[OF s(4), of length] smap_find_None_iff[of "objects st'" "1"] arg_cong[OF s(4), of set]
      by (simp_all add: map_getById_def)
    from findByName_gap_undefined[OF s(3) this, of "\<lambda>h r c. Inr c" "''x''"] show ?thesis
      using h s(1,2) by blast
  qed
qed


section \<open>The string of a scene depends on its objects only\<close>

definition same_shape :: "'c heap \<times> storage \<Rightarrow> 'c heap \<times> storage \<Rightarrow> addr \<Rightarrow> addr \<Rightarrow> bool" where
  "same_shape s s' a a' \<longleftrightarrow> (\<exists>g g'. cells (fst s) a = Some g \<and> cells (fst s') a' = Some g' \<and>
     go_ID g = go_ID g' \<and> childrenIds g = childrenIds g')"

lemma foldR_cong: "(\<And>x s. x \<in> set xs \<Longrightarrow> f x s = f' x s) \<Longrightarrow> foldR f xs s = foldR f' xs s"
  by (induction xs arbitrary: s) (auto intro: bindR_cong)

lemma toString_same:
  assumes find: "\<And>i. rel_option (same_shape (h, st) (h', st')) (map_getById (objects st) i) (map_getById (objects st') i)"
    and "same_shape (h, st) (h', st') a a'"
  shows "toString fuel h st a layer = toString fuel h' st' a' layer"
  using assms(2)
proof (induction fuel arbitrary: a a' layer)
  case 0
  then show ?case by simp
next
  case (Suc fuel)
  obtain g g' where g: "cells h a = Some g" "cells h' a' = Some g'" "go_ID g = go_ID g'" "childrenIds g = childrenIds g'"
    using Suc.prems by (auto simp: same_shape_def)
  have child: "bindR (deref (map_getById (objects st) cid)) (\<lambda>ca. bindR (toString fuel h st ca l) f) =
      bindR (deref (map_getById (objects st') cid)) (\<lambda>ca. bindR (toString fuel h' st' ca l) f)" for cid l and f :: "string \<Rightarrow> string result"
    using find[of cid] Suc.IH by (cases rule: option.rel_cases) auto
  show ?case unfolding toString.simps using g by (simp only: get_obj_Some bindR_Inr child)
qed

lemma loaded_same_shape:
  assumes wf: "storage_wf h st" "storage_wf h' st'" and ids: "map fst (objects st') = map fst (objects st)"
    and objs: "stored h' st' = map2 (go_img imgC) (map snd (objects st')) (stored h st)"
  shows "rel_option (same_shape (h, st) (h', st')) (map_getById (objects st) i) (map_getById (objects st') i)"
proof (cases "map_getById (objects st) i")
  case None
  then have "i \<notin> fst ` set (objects st')" using ids by (metis map_getById_def set_map smap_find_None_iff)
  then have "map_getById (objects st') i = None" by (simp add: map_getById_def smap_find_None_iff)
  then show ?thesis using None by simp
next
  case (Some a)
  have len: "length (objects st') = length (objects st)" using arg_cong[OF ids, of length] by simp
  have "(i, a) \<in> set (objects st)" using Some by (simp add: map_getById_def smap_find_in_set)
  then obtain k where k: "k < length (objects st)" "objects st ! k = (i, a)" by (auto simp: in_set_conv_nth)
  obtain a' where a': "objects st' ! k = (i, a')"
    using nth_map[of k "objects st'" fst] nth_map[of k "objects st" fst] ids k len by (metis fst_conv prod.collapse)
  have in': "(i, a') \<in> set (objects st')" using a' k(1) len nth_mem by metis
  then have find': "map_getById (objects st') i = Some a'"
    using wf(2) by (simp add: map_getById_def smap_find_Some_iff storage_wf_def)
  obtain g where g: "cells h a = Some g" using storage_wf_lookup[OF wf(1) Some] by blast
  obtain g' where g': "cells h' a' = Some g'" using storage_wf_lookup[OF wf(2) find'] by blast
  have "stored h' st' ! k = go_img imgC a' (stored h st ! k)"
    using objs k(1) len a' by (simp add: stored_def)
  then have "g' = go_img imgC a' g" using k a' g g' len by (simp add: stored_def)
  then show ?thesis using Some find' g g' by (simp add: same_shape_def go_img_def)
qed


section \<open>The whole test program\<close>

definition test_tree :: string where
  "test_tree = ''0'' @ [CHR 0x09] @ ''->1'' @ [CHR 0x09] @ ''->2'' @ [CHR 0x09, CHR 0x0A, CHR 0x09, CHR 0x09] @
     ''->3'' @ [CHR 0x09] @ ''->4'' @ [CHR 0x09, CHR 0x0A, CHR 0x09] @ ''->5'' @ [CHR 0x09, CHR 0x0A, CHR 0x09] @
     ''->6'' @ [CHR 0x09, CHR 0x0A]"

lemma digit_chars: "char_of (48 :: nat) = CHR ''0''" "char_of (49 :: nat) = CHR ''1''" "char_of (50 :: nat) = CHR ''2''"
  "char_of (51 :: nat) = CHR ''3''" "char_of (52 :: nat) = CHR ''4''" "char_of (53 :: nat) = CHR ''5''"
  "char_of (54 :: nat) = CHR ''6''"
  by (simp_all add: char_of_def bit_0)

lemma tests_scene_cells:
  assumes "storage_wf h st" and "stored h st = test_objects" and "objects st = map (\<lambda>k. (int k, k)) [0..<7]"
    and "k < 7"
  shows "map_getById (objects st) (int k) = Some k" and "cells h k = Some (test_objects ! k)"
proof -
  have in_st: "(int k, k) \<in> set (objects st)" using assms(3,4) by auto
  then show f: "map_getById (objects st) (int k) = Some k"
    using assms(1) by (simp add: map_getById_def smap_find_Some_iff storage_wf_def)
  obtain g where "cells h k = Some g" using storage_wf_lookup[OF assms(1) f] by blast
  moreover have "stored h st ! k = the (cells h k)" using assms(3,4) by (simp add: stored_def del: upt_Suc)
  ultimately show "cells h k = Some (test_objects ! k)" using assms(2) by simp
qed

lemma tests_scene_prints:
  assumes "storage_wf h st" and "stored h st = test_objects" and "objects st = map (\<lambda>k. (int k, k)) [0..<7]"
    and "4 \<le> fuel"
  shows "toString fuel h st 0 0 = Inr test_tree"
proof -
  note at = tests_scene_cells[OF assms(1-3)]
  have c: "cells h 0 = Some (test_object 0 (-1) [1, 5, 6])" "cells h 1 = Some (test_object 1 0 [2, 3])"
      "cells h 2 = Some (test_object 2 1 [])" "cells h 3 = Some (test_object 3 1 [4])"
      "cells h 4 = Some (test_object 4 3 [])" "cells h 5 = Some (test_object 5 0 [])" "cells h 6 = Some (test_object 6 0 [])"
    using at(2)[of 0] at(2)[of 1] at(2)[of 2] at(2)[of 3] at(2)[of 4] at(2)[of 5] at(2)[of 6]
    by (simp_all add: test_objects_def)
  have m: "map_getById (objects st) 1 = Some 1" "map_getById (objects st) 2 = Some 2" "map_getById (objects st) 3 = Some 3"
      "map_getById (objects st) 4 = Some 4" "map_getById (objects st) 5 = Some 5" "map_getById (objects st) 6 = Some 6"
    using at(1)[of 1] at(1)[of 2] at(1)[of 3] at(1)[of 4] at(1)[of 5] at(1)[of 6] by simp_all
  obtain n where n: "fuel = Suc (Suc (Suc (Suc n)))" using assms(4) le_Suc_ex[of 4 fuel] by (auto simp: eval_nat_numeral)
  have o: "go_ID (test_object i p cs) = i" "childrenIds (test_object i p cs) = cs" for i p cs
    by (simp_all add: test_object_def)
  have leaf: "toString (Suc k) h st a l = Inr [char_of (nat ((i + 48) mod 256)), CHR 0x09, CHR 0x0A]"
    if "cells h a = Some (test_object i p [])" "int_ok (i + 48)" for k a l i p
    using that by (simp add: o checked_int_def)
  have two: "replicate 2 c = [c, c]" for c :: char by (simp add: numeral_2_eq_2)
  note run = o checked_int_def int_ok_def digit_chars
  have 4: "toString (Suc n) h st 4 3 = Inr (''4'' @ [CHR 0x09, CHR 0x0A])"
    using leaf[OF c(5), of n 3] by (simp add: int_ok_def digit_chars del: toString.simps)
  have 3: "toString (Suc (Suc n)) h st 3 2 = Inr (''3'' @ [CHR 0x09] @ ''->4'' @ [CHR 0x09, CHR 0x0A])"
    by (subst toString.simps) (simp add: run c(4) m(4) 4 del: toString.simps)
  have 2: "toString (Suc (Suc n)) h st 2 2 = Inr (''2'' @ [CHR 0x09, CHR 0x0A])"
    using leaf[OF c(3), of "Suc n" 2] by (simp add: int_ok_def digit_chars del: toString.simps)
  have 1: "toString (Suc (Suc (Suc n))) h st 1 1 = Inr (''1'' @ [CHR 0x09] @ ''->2'' @ [CHR 0x09, CHR 0x0A, CHR 0x09, CHR 0x09] @
      ''->3'' @ [CHR 0x09] @ ''->4'' @ [CHR 0x09, CHR 0x0A])"
    by (subst toString.simps) (simp add: run c(2) m(2,3) 2 3 two del: toString.simps One_nat_def)
  have 5: "toString (Suc (Suc (Suc n))) h st 5 1 = Inr (''5'' @ [CHR 0x09, CHR 0x0A])"
      "toString (Suc (Suc (Suc n))) h st 6 1 = Inr (''6'' @ [CHR 0x09, CHR 0x0A])"
    using leaf[OF c(6), of "Suc (Suc n)" 1] leaf[OF c(7), of "Suc (Suc n)" 1] by (simp_all add: int_ok_def digit_chars del: toString.simps)
  show ?thesis unfolding n
    by (subst toString.simps) (simp add: o c(1) m(1,5,6) 1 5 run test_tree_def del: toString.simps One_nat_def)
qed

text \<open>
  C13. On a disk where \<open>test.bin\<close> can be written the program of \<open>tests.cpp\<close> runs to its end, whatever was on
  the disk: it prints the tree of its scene, and after clearing the storage and loading the file the same tree
  again, and leaves the file with exactly the bytes that the repository has.
\<close>

theorem tests_main_prints_twice:
  assumes "writable fs ''test.bin''" and "4 \<le> fuel"
  shows "tests_main fuel fs = Inr (test_tree @ test_tree, fs\<lparr>files := (files fs)(''test.bin'' \<mapsto> test_bin)\<rparr>)"
proof -
  obtain h st where s: "tests_scene = Inr (0, h, st)" "storage_wf h st" "stored h st = test_objects"
      "objects st = map (\<lambda>k. (int k, k)) [0..<7]"
    using tests_scene_built by blast
  let ?fs = "fs\<lparr>files := (files fs)(''test.bin'' \<mapsto> test_bin)\<rparr>"
  have p: "toString fuel h st 0 0 = Inr test_tree" by (rule tests_scene_prints[OF s(2-4) assms(2)])
  obtain h1 where cl: "clear_storage h st = Inr (h1, new_storage)" using clear_storage_total[OF s(2)] by blast
  have ok: "list_all (go_ok (\<lambda>c. length (toPutInFile c) < 2147483648)) (stored h st)"
      "length (storage_enc file_class fileComponent_enc (stored h st)) < 2147483648"
    by (simp_all add: s(3) test_objects_ok test_objects_bytes length_test_bin)
  have save: "storage_serialize file_class h st [] = Inr test_bin"
    using appendsD[OF file_class.serialize_layout[OF s(2)], of "[]"]
    by (simp add: s(3) test_objects_ok test_objects_bytes length_test_bin)
  have eff: "fold (go_eff (\<lambda>c. createFileWith (filePath c) (toPutInFile c))) (rev (stored h st)) w = w" for w
    by (simp add: s(3) test_objects_def test_object_def go_eff_def new_game_object_def eff_vec_def)
  obtain h' st' where ld: "bindP pop_string (\<lambda>_. storage_set file_class (h1, new_storage)) (test_bin, ?fs) = Inr ((h', st'), ([], ?fs))"
      "map fst (objects st') = map fst (objects st)"
      "stored h' st' = map2 (go_img (\<lambda>c. c)) (map snd (objects st')) (stored h st)" "storage_wf h' st'"
    using file_class.storage_roundtrip[OF s(2) ok, of h1 ?fs] unfolding save eff by auto
  have shape: "rel_option (same_shape (h, st) (h', st')) (map_getById (objects st) i) (map_getById (objects st') i)" for i
    by (rule loaded_same_shape[OF s(2) ld(4,2,3)])
  have "map_getById (objects st) 0 = Some 0" using tests_scene_cells(1)[OF s(2-4), of 0] by simp
  then obtain a where a: "map_getById (objects st') 0 = Some a" "same_shape (h, st) (h', st') 0 a"
    using shape[of 0] by (auto simp: option_rel_Some1)
  have p': "toString fuel h' st' a 0 = Inr test_tree" using toString_same[OF shape a(2)] p by simp
  have wr: "writeToFile test_bin ''test.bin'' fs = ?fs" using assms(1) by (simp add: writeToFile_createFileWith createFileWith_eq)
  have rd: "readSerializedObjectFromFile ''test.bin'' ?fs = test_bin" by (simp add: readSerializedObjectFromFile_eq)
  obtain name q where q: "pop_string (test_bin, ?fs) = Inr (name, q)" "storage_set file_class (h1, new_storage) q = Inr ((h', st'), ([], ?fs))"
    using ld(1) by (auto simp: bindP_def)
  show ?thesis
    by (simp only: tests_main_def s(1) p save wr cl rd q a(1) p' Let_def bindR_Inr prod.case deref_simps)
qed

theorem tests_main_prints_twice_witness:
  "\<exists>fs. tests_main 4 \<lparr>files = Map.empty, writable = (\<lambda>_. True)\<rparr> = Inr (test_tree @ test_tree, fs) \<and>
     files fs ''test.bin'' = Some test_bin"
  using tests_main_prints_twice[of "\<lparr>files = Map.empty, writable = (\<lambda>_. True)\<rparr>" 4] by simp

end
