(* ===== verification/Ts_Queue.thy ===== *)
theory Ts_Queue
  imports Prelude
begin

text \<open>
  \<open>Netzwerk/tsQueue.h\<close>. Every member but \<open>wait\<close> runs under \<open>muxQueue\<close> and is one atomic operation
  on the deque; \<open>front\<close>, \<open>back\<close> and the two pops of an empty deque are undefined. The contract of
  the clients is the locale \<open>fifo\<close>. \<open>wait\<close> and \<open>push_back\<close> are then split into the steps between
  which another thread can run, to say what the condition variable guarantees and what it does not.
\<close>

type_synonym 'a tsqueue = "'a list"

definition tsq_front :: "'a tsqueue \<Rightarrow> 'a result" where
  "tsq_front q = (case q of [] \<Rightarrow> Inl (Undefined EmptyContainer) | x # _ \<Rightarrow> Inr x)"

definition tsq_back :: "'a tsqueue \<Rightarrow> 'a result" where
  "tsq_back q = (if q = [] then Inl (Undefined EmptyContainer) else Inr (last q))"

definition tsq_pop_front :: "'a tsqueue \<Rightarrow> ('a \<times> 'a tsqueue) result" where
  "tsq_pop_front q = (case q of [] \<Rightarrow> Inl (Undefined EmptyContainer) | x # xs \<Rightarrow> Inr (x, xs))"

definition tsq_pop_back :: "'a tsqueue \<Rightarrow> ('a \<times> 'a tsqueue) result" where
  "tsq_pop_back q = (if q = [] then Inl (Undefined EmptyContainer) else Inr (last q, butlast q))"

definition tsq_push_back :: "'a \<Rightarrow> 'a tsqueue \<Rightarrow> 'a tsqueue" where
  "tsq_push_back x q = q @ [x]"

definition tsq_push_front :: "'a \<Rightarrow> 'a tsqueue \<Rightarrow> 'a tsqueue" where
  "tsq_push_front x q = x # q"

definition tsq_empty :: "'a tsqueue \<Rightarrow> bool" where
  "tsq_empty q \<longleftrightarrow> q = []"

definition tsq_count :: "'a tsqueue \<Rightarrow> nat" where
  "tsq_count q = length q"

definition tsq_clear :: "'a tsqueue \<Rightarrow> 'a tsqueue" where
  "tsq_clear q = []"


section \<open>The contract of its clients\<close>

text \<open>The loop \<open>while (n < max && !empty()) ... pop_front()\<close> of a client.\<close>

fun drain :: "('q \<Rightarrow> bool) \<Rightarrow> ('q \<Rightarrow> ('a \<times> 'q) result) \<Rightarrow> nat \<Rightarrow> 'q \<Rightarrow> ('a list \<times> 'q) result" where
  "drain isEmpty deq 0 q = Inr ([], q)"
| "drain isEmpty deq (Suc n) q = (if isEmpty q then Inr ([], q)
     else bindR (deq q) (\<lambda>(x, q'). bindR (drain isEmpty deq n q') (\<lambda>(xs, q''). Inr (x # xs, q''))))"

locale fifo =
  fixes emp :: 'q
    and enq :: "'a \<Rightarrow> 'q \<Rightarrow> 'q"
    and deq :: "'q \<Rightarrow> ('a \<times> 'q) result"
    and isEmpty :: "'q \<Rightarrow> bool"
    and content :: "'q \<Rightarrow> 'a list"
  assumes content_emp: "content emp = []"
    and content_enq: "content (enq x q) = content q @ [x]"
    and deq_content: "content q = y # ys \<Longrightarrow> \<exists>q'. deq q = Inr (y, q') \<and> content q' = ys"
    and isEmpty_content: "isEmpty q \<longleftrightarrow> content q = []"
begin

lemma content_fold_enq: "content (fold enq xs q) = content q @ xs"
  by (induction xs arbitrary: q) (simp_all add: content_enq)

lemma drain_takes:
  "\<exists>q'. drain isEmpty deq n q = Inr (take n (content q), q') \<and> content q' = drop n (content q)"
proof (induction n arbitrary: q)
  case 0
  then show ?case by simp
next
  case (Suc n)
  show ?case
  proof (cases "content q")
    case Nil
    then have "isEmpty q" using isEmpty_content by blast
    then show ?thesis using Nil by simp
  next
    case (Cons y ys)
    obtain q1 where q1: "deq q = Inr (y, q1)" "content q1 = ys" using deq_content[OF Cons] by blast
    obtain q2 where "drain isEmpty deq n q1 = Inr (take n ys, q2)" "content q2 = drop n ys" using Suc[of q1] q1 by auto
    moreover have "\<not> isEmpty q" using Cons isEmpty_content[of q] by simp
    ultimately show ?thesis using Cons q1 by simp
  qed
qed

end

interpretation tsq: fifo "[]" tsq_push_back tsq_pop_front tsq_empty "\<lambda>q. q"
  by unfold_locales (simp_all add: tsq_push_back_def tsq_pop_front_def tsq_empty_def)

lemma tsq_Cons: "tsq_empty (x # q) = False" "tsq_pop_front (x # q) = Inr (x, q)" "tsq_front (x # q) = Inr x"
  by (simp_all add: tsq_empty_def tsq_pop_front_def tsq_front_def)

lemma tsq_push_pop_back: "tsq_pop_back (tsq_push_back x q) = Inr (x, q)"
  by (simp add: tsq_pop_back_def tsq_push_back_def)

lemma tsq_push_pop_front: "tsq_pop_front (tsq_push_front x q) = Inr (x, q)"
  by (simp add: tsq_pop_front_def tsq_push_front_def)


section \<open>\<open>wait\<close>\<close>

text \<open>
  The consumer tests \<open>empty()\<close>, locks \<open>muxBlocking\<close>, blocks in \<open>cvBlocking.wait(ul)\<close> (which releases
  it), is woken, locks it again and leaves the scope. A producer locks \<open>muxQueue\<close>, stores its item,
  locks \<open>muxBlocking\<close>, notifies and releases both. \<open>empty()\<close> needs \<open>muxQueue\<close>.
\<close>

datatype waiter = Test | Lock | Wait | Blocked | Relock | Unlock | Returned
datatype pusher = Idle | Stored | Notify

record 'a ts_state =
  deq :: "'a list"
  cons_pc :: waiter
  prod_pc :: pusher
  mux_blocking :: "bool option"

text \<open>\<open>mux_blocking\<close> is \<open>Some True\<close> while the consumer, \<open>Some False\<close> while the producer holds it;
  the producer holds \<open>muxQueue\<close> in \<open>Stored\<close> and \<open>Notify\<close>.\<close>

inductive wait_step :: "'a ts_state \<Rightarrow> 'a ts_state \<Rightarrow> bool" where
  w_test: "cons_pc s = Test \<Longrightarrow> prod_pc s = Idle \<Longrightarrow>
     wait_step s (s\<lparr>cons_pc := if tsq_empty (deq s) then Lock else Returned\<rparr>)"
| w_lock: "cons_pc s = Lock \<Longrightarrow> mux_blocking s = None \<Longrightarrow>
     wait_step s (s\<lparr>cons_pc := Wait, mux_blocking := Some True\<rparr>)"
| w_wait: "cons_pc s = Wait \<Longrightarrow> wait_step s (s\<lparr>cons_pc := Blocked, mux_blocking := None\<rparr>)"
| w_relock: "cons_pc s = Relock \<Longrightarrow> mux_blocking s = None \<Longrightarrow>
     wait_step s (s\<lparr>cons_pc := Unlock, mux_blocking := Some True\<rparr>)"
| w_unlock: "cons_pc s = Unlock \<Longrightarrow> wait_step s (s\<lparr>cons_pc := Test, mux_blocking := None\<rparr>)"
| p_lock_block: "prod_pc s = Stored \<Longrightarrow> mux_blocking s = None \<Longrightarrow>
     wait_step s (s\<lparr>prod_pc := Notify, mux_blocking := Some False\<rparr>)"
| p_notify: "prod_pc s = Notify \<Longrightarrow>
     wait_step s (s\<lparr>prod_pc := Idle, mux_blocking := None,
       cons_pc := if cons_pc s = Blocked then Relock else cons_pc s\<rparr>)"

text \<open>The steps nobody can count on: a further \<open>push_back\<close>, and a spurious wake-up.\<close>

inductive env_step :: "'a ts_state \<Rightarrow> 'a ts_state \<Rightarrow> bool" where
  p_push: "prod_pc s = Idle \<Longrightarrow>
     env_step s (s\<lparr>deq := tsq_push_back x (deq s), prod_pc := Stored\<rparr>)"
| w_spurious: "cons_pc s = Blocked \<Longrightarrow> env_step s (s\<lparr>cons_pc := Relock\<rparr>)"

inductive_cases wait_stepE: "wait_step s s'"
inductive_cases env_stepE: "env_step s s'"

inductive ts_reach :: "'a ts_state \<Rightarrow> bool" where
  ts_init: "ts_reach \<lparr>deq = [], cons_pc = Test, prod_pc = Idle, mux_blocking = None\<rparr>"
| ts_wait: "ts_reach s \<Longrightarrow> wait_step s s' \<Longrightarrow> ts_reach s'"
| ts_env: "ts_reach s \<Longrightarrow> env_step s s' \<Longrightarrow> ts_reach s'"

definition ts_inv :: "'a ts_state \<Rightarrow> bool" where
  "ts_inv s \<longleftrightarrow> (cons_pc s = Returned \<longrightarrow> deq s \<noteq> []) \<and> (prod_pc s \<noteq> Idle \<longrightarrow> deq s \<noteq> []) \<and>
     mux_blocking s = (if cons_pc s \<in> {Wait, Unlock} then Some True
                       else if prod_pc s = Notify then Some False else None) \<and>
     \<not> (cons_pc s \<in> {Wait, Unlock} \<and> prod_pc s = Notify)"

lemma ts_reach_inv: "ts_reach s \<Longrightarrow> ts_inv s"
proof (induction rule: ts_reach.induct)
  case ts_init
  then show ?case by (simp add: ts_inv_def)
next
  case (ts_wait s s')
  from ts_wait(2,3) show ?case
    by (cases rule: wait_step.cases) (auto simp: ts_inv_def tsq_empty_def split: if_splits)
next
  case (ts_env s s')
  from ts_env(2,3) show ?case
    by (cases rule: env_step.cases) (auto simp: ts_inv_def tsq_push_back_def split: if_splits)
qed

text \<open>The state after the lost wake-up: the item was pushed between \<open>empty()\<close> and \<open>wait(ul)\<close>.\<close>

definition stuck :: "'a \<Rightarrow> 'a ts_state" where
  "stuck x = \<lparr>deq = [x], cons_pc = Blocked, prod_pc = Idle, mux_blocking = None\<rparr>"

lemma stuck_reachable: "ts_reach (stuck x)"
proof -
  let ?s = "\<lambda>q c p m. \<lparr>deq = q, cons_pc = c, prod_pc = p, mux_blocking = m\<rparr> :: 'a ts_state"
  have "ts_reach (?s [] Test Idle None)" by (rule ts_init)
  then have "ts_reach (?s [] Lock Idle None)"
    by (rule ts_wait) (use w_test[of "?s [] Test Idle None"] in \<open>simp add: tsq_empty_def\<close>)
  then have "ts_reach (?s [x] Lock Stored None)"
    by (rule ts_env) (use p_push[of "?s [] Lock Idle None" x] in \<open>simp add: tsq_push_back_def\<close>)
  then have "ts_reach (?s [x] Lock Notify (Some False))"
    by (rule ts_wait) (use p_lock_block[of "?s [x] Lock Stored None"] in simp)
  then have "ts_reach (?s [x] Lock Idle None)"
    by (rule ts_wait) (use p_notify[of "?s [x] Lock Notify (Some False)"] in simp)
  then have "ts_reach (?s [x] Wait Idle (Some True))"
    by (rule ts_wait) (use w_lock[of "?s [x] Lock Idle None"] in simp)
  then have "ts_reach (?s [x] Blocked Idle None)"
    by (rule ts_wait) (use w_wait[of "?s [x] Wait Idle (Some True)"] in simp)
  then show ?thesis by (simp add: stuck_def)
qed

lemma stuck_no_step: "\<not> wait_step (stuck x) s"
  by (auto simp: stuck_def elim: wait_stepE)



section \<open>Properties\<close>

text \<open>
  When \<open>wait\<close> returns, the queue is not empty: whatever the interleaving with the producer and
  however often it is woken, the waiting consumer finds an item.
\<close>

theorem wait_returns_nonempty:
  assumes "ts_reach s" and "cons_pc s = Returned"
  shows "deq s \<noteq> []"
  using ts_reach_inv[OF assms(1)] assms(2) by (simp add: ts_inv_def)

theorem wait_returns_nonempty_witness: "deq \<lparr>deq = [7 :: nat], cons_pc = Returned, prod_pc = Idle, mux_blocking = None\<rparr> \<noteq> []"
proof (rule wait_returns_nonempty)
  let ?s = "\<lambda>c p m. \<lparr>deq = [7], cons_pc = c, prod_pc = p, mux_blocking = m\<rparr> :: nat ts_state"
  have "ts_reach (?s Test Stored None)"
    using ts_env[OF ts_init p_push[where x = "7 :: nat"]] by (simp add: tsq_push_back_def)
  then have "ts_reach (?s Test Notify (Some False))"
    by (rule ts_wait) (use p_lock_block[of "?s Test Stored None"] in simp)
  then have "ts_reach (?s Test Idle None)"
    by (rule ts_wait) (use p_notify[of "?s Test Notify (Some False)"] in simp)
  then show "ts_reach (?s Returned Idle None)"
    by (rule ts_wait) (use w_test[of "?s Test Idle None"] in \<open>simp add: tsq_empty_def\<close>)
qed simp

text \<open>
  C23. A wake-up can be lost: when the item is pushed between the test of \<open>empty\<close> and the call of the
  condition variable, the consumer sleeps on a non-empty queue and no step of consumer or producer
  wakes it; only a further push or a spurious wake-up does.
\<close>

theorem wakeup_can_be_lost:
  "\<exists>s. ts_reach s \<and> deq s = [x] \<and> cons_pc s = Blocked \<and> prod_pc s = Idle \<and> (\<forall>s'. \<not> wait_step s s')"
  using stuck_reachable[of x] stuck_no_step[of x] by (intro exI[of _ "stuck x"]) (simp add: stuck_def)


end
