(* ===== verification/Message.thy ===== *)
theory Message
  imports Codec Ts_Queue
begin

text \<open>
  \<open>Netzwerk/Message.h\<close>. The identifier type \<open>T\<close> of the template is carried as its object
  representation; its size is a multiple of four (an enumeration over \<open>int\<close>), so that
  \<open>message_header\<close> has no padding and is the representation followed by the four bytes of \<open>size\<close>.
\<close>

record message_header =
  hd_id :: "byte list"
  hd_size :: "32 word"

record message =
  header :: message_header
  body :: "byte list"

definition new_message :: "byte list \<Rightarrow> message" where
  "new_message i = \<lparr>header = \<lparr>hd_id = i, hd_size = 0\<rparr>, body = []\<rparr>"

definition msg_size :: "message \<Rightarrow> nat" where
  "msg_size m = length (body m)"

text \<open>\<open>header.size = msg.size()\<close> keeps the low 32 bits.\<close>

definition set_size :: "message \<Rightarrow> message" where
  "set_size m = m\<lparr>header := (header m)\<lparr>hd_size := word_of_nat (msg_size m)\<rparr>\<rparr>"

definition msg_push :: "byte list \<Rightarrow> message \<Rightarrow> message result" where
  "msg_push data msg =
     (let i = length (body msg) in
      bindR (vec_resize (i + length data) (body msg)) (\<lambda>b.
      bindR (memcpy_in b (int i) data) (\<lambda>b.
      Inr (set_size (msg\<lparr>body := b\<rparr>)))))"

text \<open>\<open>i\<close> wraps when the body is shorter than the value, and the copy then starts outside of it.\<close>

definition msg_pop :: "nat \<Rightarrow> message \<Rightarrow> (byte list \<times> message) result" where
  "msg_pop n msg =
     (let i = size_of_int (int (length (body msg)) - int n) in
      bindR (memcpy_out (body msg) (int i) n) (\<lambda>data.
      bindR (vec_resize i (body msg)) (\<lambda>b.
      Inr (data, set_size (msg\<lparr>body := b\<rparr>)))))"

definition header_bytes :: "message_header \<Rightarrow> byte list" where
  "header_bytes hr = hd_id hr @ le_nat 4 (unat (hd_size hr))"

definition bytes_header :: "byte list \<Rightarrow> message_header" where
  "bytes_header bs = \<lparr>hd_id = take (length bs - 4) bs, hd_size = word_of_nat (nat_le (drop (length bs - 4) bs))\<rparr>"

lemma bytes_header_bytes [simp]: "bytes_header (header_bytes hr) = hr"
proof -
  have "unat (hd_size hr) < 2 ^ LENGTH(32)" by (rule unsigned_less)
  then have "unat (hd_size hr) mod 4294967296 = unat (hd_size hr)" by simp
  then show ?thesis by (simp add: bytes_header_def header_bytes_def)
qed

lemma length_header_bytes [simp]: "length (header_bytes hr) = length (hd_id hr) + 4"
  by (simp add: header_bytes_def)


section \<open>The invariant of a message and its operators\<close>

definition msg_ok :: "nat \<Rightarrow> message \<Rightarrow> bool" where
  "msg_ok k m \<longleftrightarrow> length (hd_id (header m)) = k \<and> unat (hd_size (header m)) = length (body m)"

lemma unat_of_length: "n < 4294967296 \<Longrightarrow> unat (word_of_nat n :: 32 word) = n"
  by (simp add: unat_of_nat)

lemma msg_ok_new: "msg_ok (length i) (new_message i)"
  by (simp add: msg_ok_def new_message_def)

lemma msg_push_body:
  assumes "length (body m) + length data < 4294967296"
  shows "msg_push data m = Inr (set_size (m\<lparr>body := body m @ data\<rparr>))"
proof -
  have "vec_resize (length (body m) + length data) (body m) = Inr (body m @ replicate (length data) 0)"
    by (rule vec_resize_grow) (use assms in simp)
  then show ?thesis by (simp add: msg_push_def memcpy_in_tail)
qed

lemma msg_pop_body:
  assumes "body m = b @ data" and "length (body m) < 4294967296"
  shows "msg_pop (length data) m = Inr (data, set_size (m\<lparr>body := b\<rparr>))"
proof -
  show ?thesis
    using assms memcpy_out_tail[of "length data" data "int (length b)" b "[]"]
    by (simp add: msg_pop_def size_of_int_def vec_resize_prefix)
qed

lemma msg_pop_underflow:
  assumes "length (body m) < n" and "n < 9223372036854775808"
  shows "msg_pop n m = Inl (Undefined OutOfBounds)"
proof -
  have "(int (length (body m)) - int n + 18446744073709551616) mod 18446744073709551616
      = int (length (body m)) - int n + 18446744073709551616"
    by (rule mod_pos_pos_trivial) (use assms in simp_all)
  then have "(int (length (body m)) - int n) mod 18446744073709551616
      = int (length (body m)) - int n + 18446744073709551616" by simp
  then have "int (size_of_int (int (length (body m)) - int n)) + int n > int (length (body m))"
    using assms by (simp add: size_of_int_def)
  then show ?thesis by (simp add: msg_pop_def Let_def memcpy_out_def)
qed

lemma msg_ok_set_size: "length (hd_id (header m)) = k \<Longrightarrow> length (body m) < 4294967296 \<Longrightarrow> msg_ok k (set_size m)"
  by (simp add: msg_ok_def set_size_def msg_size_def unat_of_length)



section \<open>Properties\<close>

text \<open>
  A message is a stack of values: what \<open><<\<close> put last, \<open>>>\<close> takes back, and leaves body and size
  field as they were; the size field always counts the body.
\<close>

theorem message_push_pop:
  assumes "msg_ok k m" and "length (body m) + length data < 4294967296"
  shows "\<exists>m'. msg_push data m = Inr m' \<and> msg_ok k m' \<and> msg_pop (length data) m' = Inr (data, m)"
proof -
  let ?m = "set_size (m\<lparr>body := body m @ data\<rparr>)"
  have id: "length (hd_id (header m)) = k" using assms(1) by (simp add: msg_ok_def)
  have "length (body m) = unat (hd_size (header m))" using assms(1) by (simp add: msg_ok_def)
  then have sz: "word_of_nat (length (body m)) = hd_size (header m)" by (simp add: of_nat_unat)
  have "msg_pop (length data) ?m = Inr (data, set_size (?m\<lparr>body := body m\<rparr>))"
    by (rule msg_pop_body) (use assms(2) in \<open>simp_all add: set_size_def\<close>)
  moreover have "set_size (?m\<lparr>body := body m\<rparr>) = m"
    using sz by (simp add: set_size_def msg_size_def)
  moreover have "msg_ok k ?m" by (rule msg_ok_set_size) (use id assms(2) in simp_all)
  ultimately show ?thesis using msg_push_body[OF assms(2)] by auto
qed

theorem message_push_pop_witness:
  "\<exists>m'. msg_push [1, 2] (new_message [0, 0, 0, 0]) = Inr m' \<and> msg_ok 4 m' \<and>
     msg_pop 2 m' = Inr ([1, 2], new_message [0, 0, 0, 0])"
  using message_push_pop[of 4 "new_message [0, 0, 0, 0]" "[1, 2]"]
  by (simp add: msg_ok_def new_message_def numeral_2_eq_2)

end
