(* ===== verification/Connection.thy ===== *)
theory Connection
  imports Message "HOL-Library.Sublist"
begin

text \<open>
  \<open>Netzwerk/Connection.h\<close>. A connection is a state machine driven by the handlers that asio runs,
  one at a time, on the thread of the \<open>io_context\<close>. asio itself is the environment: \<open>posted\<close> are the
  handlers given to \<open>asio::post\<close>, \<open>pending_write\<close>, \<open>pending_read\<close> and \<open>pending_connect\<close> the
  asynchronous operations that were started and have not completed. An operation refers to the
  buffer it was given; the bytes are those in the buffer when it completes. The handlers of the code
  capture the raw \<open>this\<close>; the model has no end of a connection's life, so what it shows of handlers holds as long
  as the \<open>shared_ptr\<close> that the server or client keeps outlives them. A server that drops a client while a
  handler of its connection is outstanding leaves that handler with a dangling \<open>this\<close>; that is not modelled.
\<close>

datatype owner = Server | Client
datatype write_op = WriteHeaderOp | WriteBodyOp
datatype read_op = ReadHeaderOp | ReadBodyOp
datatype task = SendTask message | CloseTask

record connection =
  m_nOwnerType :: owner
  conn_id :: "32 word"
  is_open :: bool
  m_qMessagesOut :: "message tsqueue"
  m_msgTemporaryIn :: message
  m_disconecting :: bool
  posted :: "task list"
  pending_write :: "write_op list"
  pending_read :: "read_op list"
  pending_connect :: nat

record owned_message =
  remote :: "nat option"
  omsg :: message

definition new_connection :: "owner \<Rightarrow> byte list \<Rightarrow> bool \<Rightarrow> connection" where
  "new_connection parent idRep sock = \<lparr>m_nOwnerType = parent, conn_id = 0, is_open = sock, m_qMessagesOut = [],
     m_msgTemporaryIn = new_message idRep, m_disconecting = False, posted = [], pending_write = [],
     pending_read = [], pending_connect = 0\<rparr>"

definition IsConnected :: "connection \<Rightarrow> bool" where
  "IsConnected c = is_open c"


section \<open>Writing\<close>

text \<open>\<open>asio::buffer(&front().header, ...)\<close> dereferences the front of the queue.\<close>

definition WriteHeader :: "connection \<Rightarrow> connection result" where
  "WriteHeader c = bindR (tsq_front (m_qMessagesOut c)) (\<lambda>_.
     Inr (c\<lparr>pending_write := pending_write c @ [WriteHeaderOp]\<rparr>))"

definition WriteBody :: "connection \<Rightarrow> connection result" where
  "WriteBody c = bindR (tsq_front (m_qMessagesOut c)) (\<lambda>_.
     Inr (c\<lparr>pending_write := pending_write c @ [WriteBodyOp]\<rparr>))"

definition close_socket :: "connection \<Rightarrow> connection" where
  "close_socket c = c\<lparr>is_open := False\<rparr>"

definition pop_and_continue :: "connection \<Rightarrow> connection result" where
  "pop_and_continue c =
     bindR (tsq_pop_front (m_qMessagesOut c)) (\<lambda>(_, q).
     let c = c\<lparr>m_qMessagesOut := q\<rparr> in
     if \<not> tsq_empty q then WriteHeader c else Inr c)"

text \<open>The completion handlers; \<open>ec\<close> says that the operation failed.\<close>

definition on_header_written :: "bool \<Rightarrow> connection \<Rightarrow> connection result" where
  "on_header_written ec c =
     (if \<not> ec
      then bindR (tsq_front (m_qMessagesOut c)) (\<lambda>m.
           if 0 < length (body m) then WriteBody c else pop_and_continue c)
      else Inr (close_socket c))"

definition on_body_written :: "bool \<Rightarrow> connection \<Rightarrow> connection result" where
  "on_body_written ec c = (if \<not> ec then pop_and_continue c else Inr (close_socket c))"

definition Send :: "message \<Rightarrow> connection \<Rightarrow> connection" where
  "Send m c = c\<lparr>posted := posted c @ [SendTask m]\<rparr>"

definition Disconnect :: "connection \<Rightarrow> connection" where
  "Disconnect c = (if IsConnected c then c\<lparr>posted := posted c @ [CloseTask]\<rparr> else c)"

definition run_task :: "task \<Rightarrow> connection \<Rightarrow> connection result" where
  "run_task t c =
     (case t of
        SendTask m \<Rightarrow>
          (let bWritingMessage = \<not> tsq_empty (m_qMessagesOut c);
               c = c\<lparr>m_qMessagesOut := tsq_push_back m (m_qMessagesOut c)\<rparr> in
           if \<not> bWritingMessage then WriteHeader c else Inr c)
      | CloseTask \<Rightarrow> Inr (close_socket c))"


section \<open>Reading\<close>

definition ReadHeader :: "connection \<Rightarrow> connection" where
  "ReadHeader c = c\<lparr>pending_read := pending_read c @ [ReadHeaderOp]\<rparr>"

definition ReadBody :: "connection \<Rightarrow> connection" where
  "ReadBody c = c\<lparr>pending_read := pending_read c @ [ReadBodyOp]\<rparr>"

definition AddToIncomingMessageQueue ::
    "nat \<Rightarrow> connection \<Rightarrow> owned_message tsqueue \<Rightarrow> connection \<times> owned_message tsqueue" where
  "AddToIncomingMessageQueue self c qIn =
     (let om = (if m_nOwnerType c = Server then \<lparr>remote = Some self, omsg = m_msgTemporaryIn c\<rparr>
                else \<lparr>remote = None, omsg = m_msgTemporaryIn c\<rparr>) in
      (ReadHeader c, tsq_push_back om qIn))"

definition on_header_read ::
    "nat \<Rightarrow> bool \<Rightarrow> connection \<Rightarrow> owned_message tsqueue \<Rightarrow> (connection \<times> owned_message tsqueue) result" where
  "on_header_read self ec c qIn =
     (if \<not> ec
      then let tmp = m_msgTemporaryIn c in
           if 0 < unat (hd_size (header tmp))
           then bindR (vec_resize (unat (hd_size (header tmp))) (body tmp)) (\<lambda>b.
                Inr (ReadBody (c\<lparr>m_msgTemporaryIn := tmp\<lparr>body := b\<rparr>\<rparr>), qIn))
           else Inr (AddToIncomingMessageQueue self c qIn)
      else Inr (close_socket c, qIn))"

definition on_body_read ::
    "nat \<Rightarrow> bool \<Rightarrow> connection \<Rightarrow> owned_message tsqueue \<Rightarrow> (connection \<times> owned_message tsqueue) result" where
  "on_body_read self ec c qIn =
     (if \<not> ec then Inr (AddToIncomingMessageQueue self c qIn) else Inr (close_socket c, qIn))"


section \<open>Connecting\<close>

definition ConnectToClient :: "32 word \<Rightarrow> connection \<Rightarrow> connection" where
  "ConnectToClient uid c =
     (if m_nOwnerType c = Server then (if is_open c then ReadHeader (c\<lparr>conn_id := uid\<rparr>) else c) else c)"

definition ConnectToServer :: "connection \<Rightarrow> connection" where
  "ConnectToServer c = (if m_nOwnerType c = Client then c\<lparr>pending_connect := Suc (pending_connect c)\<rparr> else c)"

definition on_connected :: "bool \<Rightarrow> connection \<Rightarrow> connection" where
  "on_connected ec c = (if \<not> ec then ReadHeader (c\<lparr>is_open := True\<rparr>) else c)"


section \<open>What asio does with the operations\<close>

text \<open>
  A write transfers the whole buffer, a read waits for exactly the size of its buffer; then the
  handler runs. A failing operation may have transferred a part.
\<close>

definition write_buffer :: "write_op \<Rightarrow> connection \<Rightarrow> byte list result" where
  "write_buffer op c = bindR (tsq_front (m_qMessagesOut c)) (\<lambda>m.
     Inr (case op of WriteHeaderOp \<Rightarrow> header_bytes (header m) | WriteBodyOp \<Rightarrow> body m))"

definition on_written :: "write_op \<Rightarrow> bool \<Rightarrow> connection \<Rightarrow> connection result" where
  "on_written op ec c = (case op of WriteHeaderOp \<Rightarrow> on_header_written ec c | WriteBodyOp \<Rightarrow> on_body_written ec c)"

definition read_length :: "nat \<Rightarrow> read_op \<Rightarrow> connection \<Rightarrow> nat" where
  "read_length k op c = (case op of ReadHeaderOp \<Rightarrow> k + 4 | ReadBodyOp \<Rightarrow> length (body (m_msgTemporaryIn c)))"

definition fill :: "read_op \<Rightarrow> byte list \<Rightarrow> connection \<Rightarrow> connection" where
  "fill op bs c = c\<lparr>m_msgTemporaryIn := (case op of
      ReadHeaderOp \<Rightarrow> (m_msgTemporaryIn c)\<lparr>header := bytes_header bs\<rparr>
    | ReadBodyOp \<Rightarrow> (m_msgTemporaryIn c)\<lparr>body := bs\<rparr>)\<rparr>"

definition on_read ::
    "nat \<Rightarrow> read_op \<Rightarrow> bool \<Rightarrow> connection \<Rightarrow> owned_message tsqueue \<Rightarrow> (connection \<times> owned_message tsqueue) result" where
  "on_read self op ec c qIn =
     (case op of ReadHeaderOp \<Rightarrow> on_header_read self ec c qIn | ReadBodyOp \<Rightarrow> on_body_read self ec c qIn)"

end
