(* ===== verification/Transport.thy ===== *)
theory Transport
  imports Connection
begin

text \<open>
  Two connections joined by a TCP stream: what one side is asked to \<open>Send\<close> and what arrives in the
  queue of the other. \<open>k\<close> is \<open>sizeof(T)\<close>. The steps are the calls of the user, the posted handlers,
  and the completions of the pending operations, in any order; failures and \<open>Disconnect\<close> included.
  \<open>sent\<close>, \<open>written\<close> and \<open>consumed\<close> only record what happened.
\<close>

record link =
  snd_c :: connection
  rcv_c :: connection
  wire :: "byte list"
  inbox :: "owned_message tsqueue"
  sent :: "message list"
  consumed :: "byte list"
  failed :: bool

definition link_init :: "byte list \<Rightarrow> 32 word \<Rightarrow> link" where
  "link_init i uid = \<lparr>snd_c = on_connected False (ConnectToServer (new_connection Client i False)),
     rcv_c = ConnectToClient uid (new_connection Server i True), wire = [], inbox = [], sent = [],
     consumed = [], failed = False\<rparr>"

inductive link_step :: "nat \<Rightarrow> nat \<Rightarrow> link \<Rightarrow> link \<Rightarrow> bool" for k self where
  l_send: "msg_ok k m \<Longrightarrow> link_step k self s (s\<lparr>snd_c := Send m (snd_c s), sent := sent s @ [m]\<rparr>)"
| l_disconnect: "link_step k self s (s\<lparr>snd_c := Disconnect (snd_c s), failed := True\<rparr>)"
| l_task: "posted (snd_c s) = t # ts \<Longrightarrow> run_task t ((snd_c s)\<lparr>posted := ts\<rparr>) = Inr c \<Longrightarrow>
    link_step k self s (s\<lparr>snd_c := c\<rparr>)"
| l_write: "pending_write (snd_c s) = op # ops \<Longrightarrow> write_buffer op (snd_c s) = Inr bs \<Longrightarrow>
    on_written op False ((snd_c s)\<lparr>pending_write := ops\<rparr>) = Inr c \<Longrightarrow>
    link_step k self s (s\<lparr>snd_c := c, wire := wire s @ bs\<rparr>)"
| l_write_error: "pending_write (snd_c s) = op # ops \<Longrightarrow> write_buffer op (snd_c s) = Inr bs \<Longrightarrow> prefix p bs \<Longrightarrow>
    on_written op True ((snd_c s)\<lparr>pending_write := ops\<rparr>) = Inr c \<Longrightarrow>
    link_step k self s (s\<lparr>snd_c := c, wire := wire s @ p, failed := True\<rparr>)"
| l_read: "pending_read (rcv_c s) = op # ops \<Longrightarrow> wire s = bs @ rest \<Longrightarrow> length bs = read_length k op (rcv_c s) \<Longrightarrow>
    on_read self op False (fill op bs ((rcv_c s)\<lparr>pending_read := ops\<rparr>)) (inbox s) = Inr (c, q) \<Longrightarrow>
    link_step k self s (s\<lparr>rcv_c := c, inbox := q, wire := rest, consumed := consumed s @ bs\<rparr>)"
| l_read_error: "pending_read (rcv_c s) = op # ops \<Longrightarrow> wire s = bs @ rest \<Longrightarrow>
    on_read self op True ((rcv_c s)\<lparr>pending_read := ops\<rparr>) (inbox s) = Inr (c, q) \<Longrightarrow>
    link_step k self s (s\<lparr>rcv_c := c, inbox := q, wire := rest, consumed := consumed s @ bs, failed := True\<rparr>)"

inductive link_reach :: "nat \<Rightarrow> nat \<Rightarrow> link \<Rightarrow> bool" for k self where
  r_init: "length i = k \<Longrightarrow> link_reach k self (link_init i uid)"
| r_step: "link_reach k self s \<Longrightarrow> link_step k self s s' \<Longrightarrow> link_reach k self s'"


section \<open>The byte stream of a list of messages\<close>

definition msg_bytes :: "message \<Rightarrow> byte list" where
  "msg_bytes m = header_bytes (header m) @ body m"

definition stream :: "message list \<Rightarrow> byte list" where
  "stream ms = concat (map msg_bytes ms)"

lemma stream_simps [simp]: "stream [] = []" "stream (m # ms) = msg_bytes m @ stream ms"
    "stream (xs @ ys) = stream xs @ stream ys"
  by (simp_all add: stream_def)

lemma msg_bytes_prefix_eq:
  assumes "msg_ok k a" and "msg_ok k b" and "prefix (msg_bytes a @ xs) (msg_bytes b @ ys)"
  shows "a = b \<and> prefix xs ys"
proof -
  obtain zs where z: "msg_bytes b @ ys = (msg_bytes a @ xs) @ zs" using assms(3) by (auto simp: prefix_def)
  have l: "length (header_bytes (header a)) = length (header_bytes (header b))"
    using assms(1,2) by (simp add: msg_ok_def)
  have "header_bytes (header b) = header_bytes (header a) \<and> body b @ ys = body a @ xs @ zs"
    using z l by (simp add: msg_bytes_def)
  then have h: "header a = header b" and r: "body b @ ys = body a @ xs @ zs"
    by (metis bytes_header_bytes, simp)
  have "length (body a) = length (body b)" using assms(1,2) h by (simp add: msg_ok_def)
  then show ?thesis using r h by simp
qed

lemma stream_prefix:
  assumes "list_all (msg_ok k) ms" and "list_all (msg_ok k) ns" and "prefix (stream ms) (stream ns)"
  shows "prefix ms ns"
  using assms
proof (induction ms arbitrary: ns)
  case Nil
  then show ?case by simp
next
  case (Cons m ms)
  show ?case
  proof (cases ns)
    case Nil
    then have "msg_bytes m = []" using Cons.prems(3) by simp
    then have "length (header_bytes (header m)) = 0" by (simp add: msg_bytes_def)
    then show ?thesis by simp
  next
    case (Cons n ns')
    then have "m = n \<and> prefix (stream ms) (stream ns')"
      using msg_bytes_prefix_eq[of k m n "stream ms" "stream ns'"] Cons.prems by simp
    then show ?thesis using Cons.IH[of ns'] Cons.prems Cons by simp
  qed
qed


section \<open>The sending side\<close>

definition task_msgs :: "task list \<Rightarrow> message list" where
  "task_msgs ts = concat (map (\<lambda>t. case t of SendTask m \<Rightarrow> [m] | CloseTask \<Rightarrow> []) ts)"

definition writing :: "connection \<Rightarrow> byte list \<Rightarrow> message list \<Rightarrow> bool" where
  "writing c w fin \<longleftrightarrow>
     (pending_write c = [] \<and> m_qMessagesOut c = [] \<and> w = stream fin) \<or>
     (pending_write c = [WriteHeaderOp] \<and> m_qMessagesOut c \<noteq> [] \<and> w = stream fin) \<or>
     (pending_write c = [WriteBodyOp] \<and> m_qMessagesOut c \<noteq> [] \<and>
        w = stream fin @ header_bytes (header (hd (m_qMessagesOut c))))"

definition stopped :: "connection \<Rightarrow> byte list \<Rightarrow> message list \<Rightarrow> bool" where
  "stopped c w fin \<longleftrightarrow> pending_write c = [] \<and> m_qMessagesOut c \<noteq> [] \<and>
     prefix w (stream (fin @ m_qMessagesOut c))"

definition send_inv :: "nat \<Rightarrow> link \<Rightarrow> bool" where
  "send_inv k s \<longleftrightarrow> list_all (msg_ok k) (sent s) \<and>
     (\<exists>fin. sent s = fin @ m_qMessagesOut (snd_c s) @ task_msgs (posted (snd_c s)) \<and>
        (writing (snd_c s) (consumed s @ wire s) fin \<or>
         failed s \<and> stopped (snd_c s) (consumed s @ wire s) fin))"


lemma task_msgs_simps [simp]:
  "task_msgs [] = []" "task_msgs (SendTask m # ts) = m # task_msgs ts" "task_msgs (CloseTask # ts) = task_msgs ts"
  "task_msgs (ts @ us) = task_msgs ts @ task_msgs us"
  by (simp_all add: task_msgs_def)

lemma pop_and_continue_run:
  "m_qMessagesOut c = m # q \<Longrightarrow> pop_and_continue c =
     Inr (c\<lparr>m_qMessagesOut := q, pending_write := pending_write c @ (if q = [] then [] else [WriteHeaderOp])\<rparr>)"
  by (cases q) (simp_all add: pop_and_continue_def tsq_pop_front_def WriteHeader_def tsq_front_def tsq_empty_def)

lemma on_written_run:
  assumes "m_qMessagesOut c = m # q"
  shows "on_written WriteHeaderOp False c = (if body m \<noteq> []
      then Inr (c\<lparr>pending_write := pending_write c @ [WriteBodyOp]\<rparr>)
      else Inr (c\<lparr>m_qMessagesOut := q, pending_write := pending_write c @ (if q = [] then [] else [WriteHeaderOp])\<rparr>))"
    and "on_written WriteBodyOp False c =
      Inr (c\<lparr>m_qMessagesOut := q, pending_write := pending_write c @ (if q = [] then [] else [WriteHeaderOp])\<rparr>)"
    and "on_written op True c = Inr (close_socket c)"
  using assms
  by (cases op; simp add: on_written_def on_header_written_def on_body_written_def tsq_front_def WriteBody_def
      pop_and_continue_run)+

lemma run_send_task: "run_task (SendTask m) c =
   Inr (c\<lparr>m_qMessagesOut := m_qMessagesOut c @ [m],
          pending_write := pending_write c @ (if m_qMessagesOut c = [] then [WriteHeaderOp] else [])\<rparr>)"
  by (cases "m_qMessagesOut c")
     (simp_all add: run_task_def WriteHeader_def tsq_front_def tsq_empty_def tsq_push_back_def)

lemma run_close_task: "run_task CloseTask c = Inr (close_socket c)"
  by (simp add: run_task_def)

text \<open>The effect of a completed write on the bytes written so far.\<close>

lemma write_completes:
  assumes w: "writing c w fin" and p: "pending_write c = op # ops" and b: "write_buffer op c = Inr bs"
    and c': "on_written op False (c\<lparr>pending_write := ops\<rparr>) = Inr c'"
  shows "posted c' = posted c \<and> (\<exists>fin'. fin' @ m_qMessagesOut c' = fin @ m_qMessagesOut c \<and> writing c' (w @ bs) fin')"
proof -
  have ops: "ops = []" and q: "m_qMessagesOut c \<noteq> []" using w p by (auto simp: writing_def)
  then obtain m q where mq: "m_qMessagesOut c = m # q" by (cases "m_qMessagesOut c") auto
  then have mq': "m_qMessagesOut (c\<lparr>pending_write := ops\<rparr>) = m # q" by simp
  show ?thesis
  proof (cases "op = WriteHeaderOp \<and> body m \<noteq> []")
    case True
    then have "c' = c\<lparr>pending_write := [WriteBodyOp]\<rparr>" "bs = header_bytes (header m)"
      using c' b mq ops on_written_run(1)[OF mq'] by (simp_all add: write_buffer_def tsq_front_def)
    then show ?thesis using w p mq True by (intro conjI exI[of _ fin]) (auto simp: writing_def)
  next
    case False
    then have c'': "c' = c\<lparr>m_qMessagesOut := q, pending_write := (if q = [] then [] else [WriteHeaderOp])\<rparr>"
      using c' ops on_written_run(1,2)[OF mq'] by (cases op) simp_all
    have "w @ bs = stream fin @ msg_bytes m"
      using False w p b mq by (cases op) (auto simp: writing_def write_buffer_def tsq_front_def msg_bytes_def)
    then show ?thesis using c'' mq by (intro conjI exI[of _ "fin @ [m]"]) (auto simp: writing_def)
  qed
qed

lemma write_fails:
  assumes w: "writing c w fin" and p: "pending_write c = op # ops" and b: "write_buffer op c = Inr bs"
    and pb: "prefix p bs" and c': "on_written op True (c\<lparr>pending_write := ops\<rparr>) = Inr c'"
  shows "posted c' = posted c \<and> m_qMessagesOut c' = m_qMessagesOut c \<and> stopped c' (w @ p) fin"
proof -
  have ops: "ops = []" and q: "m_qMessagesOut c \<noteq> []" using w p by (auto simp: writing_def)
  then obtain m q where mq: "m_qMessagesOut c = m # q" by (cases "m_qMessagesOut c") auto
  then have "c' = c\<lparr>pending_write := [], is_open := False\<rparr>"
    using c' ops by (simp add: on_written_run(3)[where q = q and m = m] close_socket_def)
  moreover obtain rest where "bs = p @ rest" using pb by (auto simp: prefix_def)
  ultimately show ?thesis using w p b mq
    by (cases op) (auto simp: writing_def stopped_def write_buffer_def tsq_front_def msg_bytes_def)
qed

lemma send_task_writing:
  assumes "writing c w fin \<or> stopped c w fin"
  shows "\<exists>c'. run_task (SendTask m) c = Inr c' \<and> posted c' = posted c \<and>
    m_qMessagesOut c' = m_qMessagesOut c @ [m] \<and>
    (writing c w fin \<longrightarrow> writing c' w fin) \<and> (stopped c w fin \<longrightarrow> stopped c' w fin)"
proof -
  have "prefix w (stream fin @ stream (m_qMessagesOut c) @ msg_bytes m)"
    if "prefix w (stream fin @ stream (m_qMessagesOut c))"
    using prefix_prefix[OF that, of "msg_bytes m"] by simp
  then show ?thesis using assms by (auto simp: run_send_task writing_def stopped_def)
qed

lemma writing_close: "writing (close_socket c) w fin = writing c w fin"
    "stopped (close_socket c) w fin = stopped c w fin"
  by (simp_all add: close_socket_def writing_def stopped_def)

lemma link_step_send_inv:
  assumes "link_step k self s s'" and "send_inv k s"
  shows "send_inv k s'"
proof -
  obtain fin where fin: "sent s = fin @ m_qMessagesOut (snd_c s) @ task_msgs (posted (snd_c s))"
      "writing (snd_c s) (consumed s @ wire s) fin \<or> failed s \<and> stopped (snd_c s) (consumed s @ wire s) fin"
    and ok: "list_all (msg_ok k) (sent s)"
    using assms(2) by (auto simp: send_inv_def)
  have frame: "writing (c\<lparr>posted := x\<rparr>) w d = writing c w d" "stopped (c\<lparr>posted := x\<rparr>) w d = stopped c w d" for c x w d
    by (simp_all add: writing_def stopped_def)
  from assms(1) show ?thesis
  proof cases
    case (l_send m)
    then show ?thesis using fin ok unfolding send_inv_def
      by (intro conjI exI[of _ fin]) (auto simp: Send_def frame)
  next
    case l_disconnect
    then show ?thesis using fin ok unfolding send_inv_def
      by (intro conjI exI[of _ fin]) (auto simp: Disconnect_def frame)
  next
    case (l_task t ts c)
    show ?thesis
    proof (cases t)
      case (SendTask m)
      have "writing ((snd_c s)\<lparr>posted := ts\<rparr>) (consumed s @ wire s) fin \<or>
          stopped ((snd_c s)\<lparr>posted := ts\<rparr>) (consumed s @ wire s) fin"
        using fin by (auto simp: frame)
      from send_task_writing[OF this, of m] obtain c' where c': "run_task t ((snd_c s)\<lparr>posted := ts\<rparr>) = Inr c'"
          "posted c' = ts" "m_qMessagesOut c' = m_qMessagesOut (snd_c s) @ [m]"
          "writing (snd_c s) (consumed s @ wire s) fin \<longrightarrow> writing c' (consumed s @ wire s) fin"
          "stopped (snd_c s) (consumed s @ wire s) fin \<longrightarrow> stopped c' (consumed s @ wire s) fin"
        using SendTask by (auto simp: frame)
      then have "c' = c" using l_task by simp
      then show ?thesis using c' fin ok l_task SendTask unfolding send_inv_def
        by (intro conjI exI[of _ fin]) auto
    next
      case CloseTask
      then have "c = close_socket ((snd_c s)\<lparr>posted := ts\<rparr>)" using l_task by (simp add: run_close_task)
      then show ?thesis using fin ok l_task CloseTask unfolding send_inv_def
        by (intro conjI exI[of _ fin]) (auto simp: writing_close frame, auto simp: close_socket_def)
    qed
  next
    case (l_write op ops bs c)
    then have "writing (snd_c s) (consumed s @ wire s) fin" using fin by (auto simp: stopped_def)
    from write_completes[OF this l_write(2,3,4)] obtain fin' where "posted c = posted (snd_c s)"
        "fin' @ m_qMessagesOut c = fin @ m_qMessagesOut (snd_c s)" "writing c ((consumed s @ wire s) @ bs) fin'" by blast
    then show ?thesis using fin(1) ok l_write(1) unfolding send_inv_def
      by (intro conjI exI[of _ fin']) (simp_all flip: append_assoc)
  next
    case (l_write_error op ops bs p c)
    then have "writing (snd_c s) (consumed s @ wire s) fin" using fin by (auto simp: stopped_def)
    from write_fails[OF this l_write_error(2,3,4,5)] fin(1) ok l_write_error(1) show ?thesis
      unfolding send_inv_def by auto
  next
    case (l_read op ops bs rest c q)
    then show ?thesis using fin ok unfolding send_inv_def by auto
  next
    case (l_read_error op ops bs rest c q)
    then show ?thesis using fin ok unfolding send_inv_def by auto
  qed
qed




section \<open>The receiving side\<close>

text \<open>
  What the receiver makes of the messages: a message without a body does not touch the body of
  \<open>m_msgTemporaryIn\<close>, so it is delivered with the body of the message before it.
\<close>

fun delivered :: "byte list \<Rightarrow> message list \<Rightarrow> message list" where
  "delivered b [] = []"
| "delivered b (m # ms) =
     (if hd_size (header m) = 0 then m\<lparr>body := b\<rparr> # delivered b ms else m # delivered (body m) ms)"

fun last_body :: "byte list \<Rightarrow> message list \<Rightarrow> byte list" where
  "last_body b [] = b"
| "last_body b (m # ms) = last_body (if hd_size (header m) = 0 then b else body m) ms"

lemma delivered_append: "delivered b (ms @ ns) = delivered b ms @ delivered (last_body b ms) ns"
  by (induction ms arbitrary: b) simp_all

lemma last_body_append: "last_body b (ms @ ns) = last_body (last_body b ms) ns"
  by (induction ms arbitrary: b) simp_all

lemma delivered_headers: "map header (delivered b ms) = map header ms"
  by (induction ms arbitrary: b) simp_all

lemma delivered_id: "\<forall>m \<in> set ms. hd_size (header m) \<noteq> 0 \<Longrightarrow> delivered b ms = ms"
  by (induction ms arbitrary: b) simp_all

definition recv_inv :: "nat \<Rightarrow> nat \<Rightarrow> link \<Rightarrow> bool" where
  "recv_inv k self s \<longleftrightarrow> m_nOwnerType (rcv_c s) = Server \<and>
     (\<exists>ms. list_all (msg_ok k) ms \<and>
        inbox s = map (\<lambda>m. \<lparr>remote = Some self, omsg = m\<rparr>) (delivered [] ms) \<and>
        (pending_read (rcv_c s) = [ReadHeaderOp] \<and> consumed s = stream ms \<and>
           body (m_msgTemporaryIn (rcv_c s)) = last_body [] ms
       \<or> pending_read (rcv_c s) = [ReadBodyOp] \<and> hd_size (header (m_msgTemporaryIn (rcv_c s))) \<noteq> 0 \<and>
           length (hd_id (header (m_msgTemporaryIn (rcv_c s)))) = k \<and>
           length (body (m_msgTemporaryIn (rcv_c s))) = unat (hd_size (header (m_msgTemporaryIn (rcv_c s)))) \<and>
           consumed s = stream ms @ header_bytes (header (m_msgTemporaryIn (rcv_c s)))
       \<or> failed s \<and> pending_read (rcv_c s) = [] \<and> prefix (stream ms) (consumed s)))"

lemma header_bytes_bytes: "length bs = k + 4 \<Longrightarrow> header_bytes (bytes_header bs) = bs"
proof -
  assume l: "length bs = k + 4"
  have "unat (word_of_nat (nat_le (drop k bs)) :: 32 word) = nat_le (drop k bs)"
    using nat_le_bound[of "drop k bs"] l by (simp add: unat_of_nat)
  moreover have "header_bytes (bytes_header bs)
      = take k bs @ le_nat 4 (unat (word_of_nat (nat_le (drop k bs)) :: 32 word))"
    using l by (simp add: header_bytes_def bytes_header_def)
  ultimately have "header_bytes (bytes_header bs) = take k bs @ le_nat 4 (nat_le (drop k bs))" by (simp only:)
  then show ?thesis using l by simp
qed

lemma link_step_recv_inv:
  assumes "link_step k self s s'" and "recv_inv k self s"
  shows "recv_inv k self s'"
proof -
  let ?c = "rcv_c s"
  let ?t = "m_msgTemporaryIn ?c"
  obtain ms where srv: "m_nOwnerType ?c = Server" and ok: "list_all (msg_ok k) ms"
    and inb: "inbox s = map (\<lambda>m. \<lparr>remote = Some self, omsg = m\<rparr>) (delivered [] ms)"
    and st: "pending_read ?c = [ReadHeaderOp] \<and> consumed s = stream ms \<and> body ?t = last_body [] ms
       \<or> pending_read ?c = [ReadBodyOp] \<and> hd_size (header ?t) \<noteq> 0 \<and> length (hd_id (header ?t)) = k \<and>
           length (body ?t) = unat (hd_size (header ?t)) \<and> consumed s = stream ms @ header_bytes (header ?t)
       \<or> failed s \<and> pending_read ?c = [] \<and> prefix (stream ms) (consumed s)"
    using assms(2) by (auto simp: recv_inv_def)
  from assms(1) show ?thesis
  proof cases
    case (l_read op ops bs rest c q)
    consider (hdr) "op = ReadHeaderOp" "ops = []" "consumed s = stream ms" "body ?t = last_body [] ms"
      | (bdy) "op = ReadBodyOp" "ops = []" "hd_size (header ?t) \<noteq> 0" "length (hd_id (header ?t)) = k"
        "length (body ?t) = unat (hd_size (header ?t))" "consumed s = stream ms @ header_bytes (header ?t)"
      using st l_read(2) by auto
    then show ?thesis
    proof cases
      case hdr
      let ?h = "bytes_header bs"
      have l: "length bs = k + 4" using l_read(4) hdr(1) by (simp add: read_length_def)
      have hb: "header_bytes ?h = bs" by (rule header_bytes_bytes[OF l])
      have lid: "length (hd_id ?h) = k" using l by (simp add: bytes_header_def)
      show ?thesis
      proof (cases "hd_size ?h = 0")
        case True
        let ?m = "\<lparr>header = ?h, body = []\<rparr>"
        have "msg_ok k ?m" using lid True by (simp add: msg_ok_def)
        moreover have "c = ?c\<lparr>m_msgTemporaryIn := ?t\<lparr>header := ?h\<rparr>, pending_read := [ReadHeaderOp]\<rparr>"
            and "q = inbox s @ [\<lparr>remote = Some self, omsg = ?t\<lparr>header := ?h\<rparr>\<rparr>]"
          using l_read(5) hdr(1,2) True srv
          by (simp_all add: on_read_def fill_def on_header_read_def AddToIncomingMessageQueue_def ReadHeader_def
              tsq_push_back_def Let_def)
        moreover have "?t\<lparr>header := ?h\<rparr> = \<lparr>header = ?h, body = last_body [] ms\<rparr>"
          using hdr(4) by simp
        ultimately show ?thesis
          using hdr ok inb srv True l_read(1) hb unfolding recv_inv_def
          by (intro conjI exI[of _ "ms @ [?m]"])
             (simp_all add: delivered_append last_body_append msg_bytes_def)
      next
        case False
        then have pos: "0 < unat (hd_size ?h)" by (simp add: unat_gt_0)
        have "unat (hd_size ?h) < 2 ^ LENGTH(32)" by (rule unsigned_less)
        then obtain b where b: "vec_resize (unat (hd_size ?h)) (body ?t) = Inr b" "length b = unat (hd_size ?h)"
          by (simp add: vec_resize_def)
        then have "c = ?c\<lparr>m_msgTemporaryIn := ?t\<lparr>header := ?h, body := b\<rparr>, pending_read := [ReadBodyOp]\<rparr>" and "q = inbox s"
          using l_read(5) hdr(1,2) pos srv
          by (simp_all add: on_read_def fill_def on_header_read_def ReadBody_def Let_def)
        then show ?thesis using hdr ok inb srv False l_read(1) hb b(2) lid unfolding recv_inv_def
          by (intro conjI exI[of _ ms]) simp_all
      qed
    next
      case bdy
      let ?m = "?t\<lparr>body := bs\<rparr>"
      have l: "length bs = unat (hd_size (header ?t))" using l_read(4) bdy(1,5) by (simp add: read_length_def)
      have "msg_ok k ?m" using bdy(4) l by (simp add: msg_ok_def)
      moreover have "c = ?c\<lparr>m_msgTemporaryIn := ?m, pending_read := [ReadHeaderOp]\<rparr>"
          and "q = inbox s @ [\<lparr>remote = Some self, omsg = ?m\<rparr>]"
        using l_read(5) bdy(1,2) srv
        by (simp_all add: on_read_def fill_def on_body_read_def AddToIncomingMessageQueue_def ReadHeader_def
            tsq_push_back_def Let_def)
      ultimately show ?thesis using bdy ok inb srv l_read(1) unfolding recv_inv_def
        by (intro conjI exI[of _ "ms @ [?m]"])
           (simp_all add: delivered_append last_body_append msg_bytes_def)
    qed
  next
    case (l_read_error op ops bs rest c q)
    then have "ops = []" using st by auto
    have cq: "c = close_socket (?c\<lparr>pending_read := []\<rparr>)" "q = inbox s"
      using l_read_error(4) \<open>ops = []\<close>
      by (cases op; simp add: on_read_def on_header_read_def on_body_read_def)+
    have "prefix (stream ms) (consumed s @ bs)" using st by (auto simp: prefix_def)
    then show ?thesis using cq ok inb srv l_read_error(1) unfolding recv_inv_def
      by (intro conjI exI[of _ ms]) (simp_all add: close_socket_def)
  qed (use assms(2) in \<open>auto simp: recv_inv_def\<close>)
qed

lemma link_reach_inv: "link_reach k self s \<Longrightarrow> send_inv k s \<and> recv_inv k self s"
proof (induction rule: link_reach.induct)
  case (r_init i uid)
  then show ?case
    by (simp add: send_inv_def recv_inv_def link_init_def on_connected_def ConnectToServer_def ConnectToClient_def
        new_connection_def ReadHeader_def writing_def new_message_def exI[of _ "[]"])
next
  case (r_step s s')
  then show ?case using link_step_send_inv link_step_recv_inv by blast
qed


section \<open>What is delivered\<close>

lemma sent_stream:
  assumes "send_inv k s"
  shows "prefix (consumed s @ wire s) (stream (sent s))"
proof -
  obtain fin where s: "sent s = fin @ m_qMessagesOut (snd_c s) @ task_msgs (posted (snd_c s))"
      "writing (snd_c s) (consumed s @ wire s) fin \<or> stopped (snd_c s) (consumed s @ wire s) fin"
    using assms by (auto simp: send_inv_def)
  from s(2) show ?thesis
  proof
    assume "writing (snd_c s) (consumed s @ wire s) fin"
    then show ?thesis using s(1) by (cases "m_qMessagesOut (snd_c s)") (auto simp: writing_def msg_bytes_def)
  next
    assume "stopped (snd_c s) (consumed s @ wire s) fin"
    then have "prefix (consumed s @ wire s) (stream (fin @ m_qMessagesOut (snd_c s)))" by (simp add: stopped_def)
    from prefix_prefix[OF this] s(1) show ?thesis by simp
  qed
qed

lemma delivered_prefix:
  assumes "link_reach k self s"
  shows "\<exists>ms. prefix ms (sent s) \<and> inbox s = map (\<lambda>m. \<lparr>remote = Some self, omsg = m\<rparr>) (delivered [] ms)"
proof -
  have inv: "send_inv k s" "recv_inv k self s" using link_reach_inv[OF assms] by auto
  then obtain ms where ms: "list_all (msg_ok k) ms" "prefix (stream ms) (consumed s)"
      "inbox s = map (\<lambda>m. \<lparr>remote = Some self, omsg = m\<rparr>) (delivered [] ms)"
    by (auto simp: recv_inv_def)
  have "prefix (stream ms) (stream (sent s))"
    using ms(2) sent_stream[OF inv(1)] by (meson append_prefixD prefix_order.trans)
  moreover have "list_all (msg_ok k) (sent s)" using inv(1) by (simp add: send_inv_def)
  ultimately show ?thesis using stream_prefix[OF ms(1)] ms(3) by blast
qed

text \<open>No handler can run any more: nothing is posted, no write is pending, and too few bytes wait to be read.\<close>

definition quiet :: "nat \<Rightarrow> link \<Rightarrow> bool" where
  "quiet k s \<longleftrightarrow> posted (snd_c s) = [] \<and> pending_write (snd_c s) = [] \<and>
     (\<forall>op ops. pending_read (rcv_c s) = op # ops \<longrightarrow> length (wire s) < read_length k op (rcv_c s))"

lemma delivered_all:
  assumes "link_reach k self s" and "quiet k s" and "\<not> failed s"
  shows "inbox s = map (\<lambda>m. \<lparr>remote = Some self, omsg = m\<rparr>) (delivered [] (sent s))"
proof -
  let ?t = "m_msgTemporaryIn (rcv_c s)"
  have inv: "send_inv k s" "recv_inv k self s" using link_reach_inv[OF assms(1)] by auto
  have sent: "consumed s @ wire s = stream (sent s)" and ok: "list_all (msg_ok k) (sent s)"
    using inv(1) assms(2,3) by (auto simp: send_inv_def writing_def quiet_def)
  from inv(2) obtain ms where ms: "list_all (msg_ok k) ms"
      "inbox s = map (\<lambda>m. \<lparr>remote = Some self, omsg = m\<rparr>) (delivered [] ms)"
      "pending_read (rcv_c s) = [ReadHeaderOp] \<and> consumed s = stream ms
       \<or> pending_read (rcv_c s) = [ReadBodyOp] \<and> length (hd_id (header ?t)) = k \<and>
         length (body ?t) = unat (hd_size (header ?t)) \<and> consumed s = stream ms @ header_bytes (header ?t)"
    using assms(3) by (auto simp: recv_inv_def)
  then have pre: "prefix ms (sent s)"
    using stream_prefix[OF ms(1) ok] sent by (metis append_assoc prefixI)
  then obtain ns where ns: "sent s = ms @ ns" by (auto simp: prefix_def)
  show ?thesis
  proof (cases ns)
    case Nil
    then show ?thesis using ns ms(2) by simp
  next
    case (Cons n ns')
    have n: "msg_ok k n" using ok ns Cons by simp
    from ms(3) show ?thesis
    proof
      assume r: "pending_read (rcv_c s) = [ReadHeaderOp] \<and> consumed s = stream ms"
      then have "wire s = msg_bytes n @ stream ns'" using sent ns Cons by simp
      then have "k + 4 \<le> length (wire s)" using n by (simp add: msg_bytes_def msg_ok_def)
      then show ?thesis using assms(2) r by (simp add: quiet_def read_length_def)
    next
      assume r: "pending_read (rcv_c s) = [ReadBodyOp] \<and> length (hd_id (header ?t)) = k \<and>
         length (body ?t) = unat (hd_size (header ?t)) \<and> consumed s = stream ms @ header_bytes (header ?t)"
      then have e: "header_bytes (header ?t) @ wire s = header_bytes (header n) @ body n @ stream ns'"
        using sent ns Cons by (simp add: msg_bytes_def)
      moreover have "length (header_bytes (header ?t)) = length (header_bytes (header n))"
        using r n by (simp add: msg_ok_def)
      ultimately have "header_bytes (header ?t) = header_bytes (header n)" "wire s = body n @ stream ns'" by simp_all
      then have "header ?t = header n" by (metis bytes_header_bytes)
      then have "length (body ?t) \<le> length (wire s)" using r n \<open>wire s = _\<close> by (simp add: msg_ok_def)
      then show ?thesis using assms(2) r by (simp add: quiet_def read_length_def)
    qed
  qed
qed



text \<open>No handler meets an empty queue, and no two operations of one direction overlap.\<close>

lemma handlers_defined:
  assumes "link_reach k self s"
  shows "length (pending_write (snd_c s)) \<le> 1" and "length (pending_read (rcv_c s)) \<le> 1"
    and "posted (snd_c s) = t # ts \<Longrightarrow> \<exists>c. run_task t ((snd_c s)\<lparr>posted := ts\<rparr>) = Inr c"
    and "pending_write (snd_c s) = op # ops \<Longrightarrow> \<exists>bs c. write_buffer op (snd_c s) = Inr bs \<and>
      on_written op ec ((snd_c s)\<lparr>pending_write := ops\<rparr>) = Inr c"
    and "pending_read (rcv_c s) = rop # rops \<Longrightarrow> length bs = read_length k rop (rcv_c s) \<Longrightarrow>
      \<exists>c. on_read self rop ec (fill rop bs ((rcv_c s)\<lparr>pending_read := rops\<rparr>)) (inbox s) = Inr c"
proof -
  have inv: "send_inv k s" "recv_inv k self s" using link_reach_inv[OF assms] by auto
  show "length (pending_write (snd_c s)) \<le> 1"
    using inv(1) by (auto simp: send_inv_def writing_def stopped_def)
  show "length (pending_read (rcv_c s)) \<le> 1"
    using inv(2) by (auto simp: recv_inv_def)
  show "\<exists>c. run_task t ((snd_c s)\<lparr>posted := ts\<rparr>) = Inr c"
    by (cases t) (simp_all add: run_send_task run_close_task)
  show "\<exists>bs c. write_buffer op (snd_c s) = Inr bs \<and> on_written op ec ((snd_c s)\<lparr>pending_write := ops\<rparr>) = Inr c"
    if "pending_write (snd_c s) = op # ops"
  proof -
    have "m_qMessagesOut (snd_c s) \<noteq> []"
      using inv(1) that by (auto simp: send_inv_def writing_def stopped_def)
    then obtain m q where mq: "m_qMessagesOut (snd_c s) = m # q" by (cases "m_qMessagesOut (snd_c s)") auto
    then have mq': "m_qMessagesOut ((snd_c s)\<lparr>pending_write := ops\<rparr>) = m # q" by simp
    show ?thesis using mq on_written_run[OF mq']
      by (cases ec; cases op) (simp_all add: write_buffer_def tsq_front_def)
  qed
  show "\<exists>c. on_read self rop ec (fill rop bs ((rcv_c s)\<lparr>pending_read := rops\<rparr>)) (inbox s) = Inr c"
  proof -
    have "\<not> 9223372036854775808 \<le> unat n" for n :: "32 word"
      using unsigned_less[of n, where ?'a = nat] by simp
    then show ?thesis
      by (cases rop) (auto simp: on_read_def on_header_read_def on_body_read_def vec_resize_def Let_def
          simp del: bindR_eq_Inr)
  qed
qed


section \<open>A schedule that delivers everything\<close>

definition idle :: "link \<Rightarrow> bool" where
  "idle s \<longleftrightarrow> posted (snd_c s) = [] \<and> pending_write (snd_c s) = [] \<and> m_qMessagesOut (snd_c s) = [] \<and>
     wire s = [] \<and> pending_read (rcv_c s) = [ReadHeaderOp] \<and> \<not> failed s"

lemma idle_quiet: "idle s \<Longrightarrow> quiet k s"
  by (auto simp: idle_def quiet_def read_length_def)

lemma idle_write:
  assumes r: "link_reach k self s" and i: "idle s" and m: "msg_ok k m"
  shows "\<exists>s'. link_reach k self s' \<and> posted (snd_c s') = [] \<and> pending_write (snd_c s') = [] \<and>
    m_qMessagesOut (snd_c s') = [] \<and> wire s' = msg_bytes m \<and> rcv_c s' = rcv_c s \<and> inbox s' = inbox s \<and>
    \<not> failed s' \<and> sent s' = sent s @ [m]"
proof -
  let ?s1 = "s\<lparr>snd_c := Send m (snd_c s), sent := sent s @ [m]\<rparr>"
  have r1: "link_reach k self ?s1" by (rule r_step[OF r link_step.l_send[OF m]])
  obtain c2 where c2: "run_task (SendTask m) ((snd_c ?s1)\<lparr>posted := []\<rparr>) = Inr c2" "posted c2 = []"
      "m_qMessagesOut c2 = [m]" "pending_write c2 = [WriteHeaderOp]"
    using i by (simp add: run_send_task idle_def Send_def)
  let ?s2 = "?s1\<lparr>snd_c := c2\<rparr>"
  have r2: "link_reach k self ?s2"
    by (rule r_step[OF r1 link_step.l_task[where t = "SendTask m" and ts = "[]"]]) (use i c2 in \<open>simp_all add: idle_def Send_def\<close>)
  have q: "m_qMessagesOut (c2\<lparr>pending_write := []\<rparr>) = m # []" using c2 by simp
  have h: "write_buffer WriteHeaderOp (snd_c ?s2) = Inr (header_bytes (header m))"
    using c2 by (simp add: write_buffer_def tsq_front_def)
  show ?thesis
  proof (cases "body m = []")
    case True
    let ?s3 = "?s2\<lparr>snd_c := c2\<lparr>m_qMessagesOut := [], pending_write := []\<rparr>, wire := wire ?s2 @ header_bytes (header m)\<rparr>"
    have "link_reach k self ?s3"
      by (rule r_step[OF r2 link_step.l_write[where op = WriteHeaderOp and ops = "[]"]])
         (use c2 h True on_written_run(1)[OF q] in simp_all)
    then show ?thesis using i c2 True by (intro exI[of _ ?s3]) (simp add: idle_def msg_bytes_def)
  next
    case False
    let ?c3 = "c2\<lparr>pending_write := [WriteBodyOp]\<rparr>"
    let ?s3 = "?s2\<lparr>snd_c := ?c3, wire := wire ?s2 @ header_bytes (header m)\<rparr>"
    have r3: "link_reach k self ?s3"
      by (rule r_step[OF r2 link_step.l_write[where op = WriteHeaderOp and ops = "[]"]])
         (use c2 h False on_written_run(1)[OF q] in simp_all)
    have q3: "m_qMessagesOut (?c3\<lparr>pending_write := []\<rparr>) = m # []" using c2 by simp
    let ?s4 = "?s3\<lparr>snd_c := ?c3\<lparr>m_qMessagesOut := [], pending_write := []\<rparr>, wire := wire ?s3 @ body m\<rparr>"
    have "link_reach k self ?s4"
      by (rule r_step[OF r3 link_step.l_write[where op = WriteBodyOp and ops = "[]"]])
         (use c2 on_written_run(2)[OF q3] in \<open>simp_all add: write_buffer_def tsq_front_def\<close>)
    then show ?thesis using i c2 by (intro exI[of _ ?s4]) (simp add: idle_def msg_bytes_def)
  qed
qed

lemma idle_read:
  assumes r: "link_reach k self s" and m: "msg_ok k m"
    and i: "posted (snd_c s) = []" "pending_write (snd_c s) = []" "m_qMessagesOut (snd_c s) = []"
      "wire s = msg_bytes m" "pending_read (rcv_c s) = [ReadHeaderOp]" "\<not> failed s"
  shows "\<exists>s'. link_reach k self s' \<and> idle s' \<and> sent s' = sent s"
proof -
  let ?c = "fill ReadHeaderOp (header_bytes (header m)) ((rcv_c s)\<lparr>pending_read := []\<rparr>)"
  have l: "length (header_bytes (header m)) = read_length k ReadHeaderOp (rcv_c s)"
    using m by (simp add: read_length_def msg_ok_def)
  obtain c2 q2 where c2: "on_read self ReadHeaderOp False ?c (inbox s) = Inr (c2, q2)"
    using handlers_defined(5)[OF r i(5) l] by fast
  let ?s2 = "s\<lparr>rcv_c := c2, inbox := q2, wire := body m, consumed := consumed s @ header_bytes (header m)\<rparr>"
  have r2: "link_reach k self ?s2"
    by (rule r_step[OF r link_step.l_read[where op = ReadHeaderOp and ops = "[]"]])
       (use i l c2 in \<open>simp_all add: msg_bytes_def\<close>)
  have hs: "unat (hd_size (header m)) = length (body m)" using m by (simp add: msg_ok_def)
  have small: "unat (hd_size (header m)) < 9223372036854775808"
    using unsigned_less[of "hd_size (header m)", where ?'a = nat] by simp
  show ?thesis
  proof (cases "body m = []")
    case True
    then have "pending_read c2 = [ReadHeaderOp]"
      using c2 hs by (auto simp: on_read_def on_header_read_def fill_def AddToIncomingMessageQueue_def ReadHeader_def Let_def)
    then show ?thesis using r2 i True by (intro exI[of _ ?s2]) (simp add: idle_def)
  next
    case False
    have c2': "pending_read c2 = [ReadBodyOp]" "length (body (m_msgTemporaryIn c2)) = length (body m)"
      using c2 hs small False
      by (auto simp: on_read_def on_header_read_def fill_def ReadBody_def Let_def vec_resize_def)
    then have l2: "length (body m) = read_length k ReadBodyOp (rcv_c ?s2)" by (simp add: read_length_def)
    obtain c3 q3 where c3: "on_read self ReadBodyOp False (fill ReadBodyOp (body m) (c2\<lparr>pending_read := []\<rparr>)) q2 = Inr (c3, q3)"
      using handlers_defined(5)[OF r2, of ReadBodyOp "[]" "body m"] c2' l2 by fastforce
    let ?s3 = "?s2\<lparr>rcv_c := c3, inbox := q3, wire := [], consumed := consumed ?s2 @ body m\<rparr>"
    have "link_reach k self ?s3"
      by (rule r_step[OF r2 link_step.l_read[where op = ReadBodyOp and ops = "[]"]])
         (use c2' l2 c3 in simp_all)
    moreover have "pending_read c3 = [ReadHeaderOp]"
      using c3 by (auto simp: on_read_def on_body_read_def fill_def AddToIncomingMessageQueue_def ReadHeader_def Let_def)
    ultimately show ?thesis using i by (intro exI[of _ ?s3]) (simp add: idle_def)
  qed
qed

lemma schedule_exists:
  assumes "list_all (msg_ok k) ms"
  shows "\<exists>s. link_reach k self s \<and> idle s \<and> sent s = ms"
  using assms
proof (induction ms rule: rev_induct)
  case Nil
  have "link_reach k self (link_init (replicate k 0) 0)" by (rule r_init) simp
  moreover have "idle (link_init (replicate k 0) 0) \<and> sent (link_init (replicate k 0) 0) = []"
    by (simp add: idle_def link_init_def on_connected_def ConnectToServer_def ConnectToClient_def
        new_connection_def ReadHeader_def)
  ultimately show ?case by blast
next
  case (snoc m ms)
  then obtain s where s: "link_reach k self s" "idle s" "sent s = ms" by auto
  have m: "msg_ok k m" using snoc.prems by simp
  obtain s' where s': "link_reach k self s'" "posted (snd_c s') = []" "pending_write (snd_c s') = []"
      "m_qMessagesOut (snd_c s') = []" "wire s' = msg_bytes m" "rcv_c s' = rcv_c s" "\<not> failed s'"
      "sent s' = ms @ [m]"
    using idle_write[OF s(1,2) m] s(3) by blast
  then show ?case using idle_read[OF s'(1) m s'(2,3,4,5)] s(2) by (auto simp: idle_def)
qed




section \<open>Properties\<close>

definition letter :: "byte list \<Rightarrow> message" where
  "letter bs = set_size (new_message [0, 0, 0, 0]\<lparr>body := bs\<rparr>)"

lemma letter_ok: "length bs < 4294967296 \<Longrightarrow> msg_ok 4 (letter bs)"
  unfolding letter_def by (rule msg_ok_set_size) (simp_all add: new_message_def)

text \<open>
  C3. Whatever the order of calls, handlers and failures, the receiving queue holds a prefix of the
  messages passed to \<open>Send\<close>, in order, tagged with the connection: identifiers and sizes exactly, and
  the bodies too when no message of the prefix is empty.
\<close>

theorem delivered_in_order:
  assumes "link_reach k self s"
  shows "\<exists>ms. prefix ms (sent s) \<and>
    map (\<lambda>m. header (omsg m)) (inbox s) = map header ms \<and> (\<forall>m \<in> set (inbox s). remote m = Some self) \<and>
    ((\<forall>m \<in> set ms. hd_size (header m) \<noteq> 0) \<longrightarrow> map omsg (inbox s) = ms)"
proof -
  obtain ms where ms: "prefix ms (sent s)" "inbox s = map (\<lambda>m. \<lparr>remote = Some self, omsg = m\<rparr>) (delivered [] ms)"
    using delivered_prefix[OF assms] by blast
  have "map omsg (inbox s) = delivered [] ms" unfolding ms(2) by (simp add: o_def)
  moreover have "map (\<lambda>m. header (omsg m)) (inbox s) = map header ms"
    using delivered_headers[of "[]" ms] unfolding ms(2) by (simp add: o_def)
  ultimately show ?thesis using ms delivered_id[of ms "[]"] by (intro exI[of _ ms]) auto
qed

theorem delivered_in_order_witness:
  "\<exists>s ms. link_reach 4 0 s \<and> sent s = [letter [1]] \<and> prefix ms (sent s) \<and> map (\<lambda>m. header (omsg m)) (inbox s) = map header ms"
proof -
  have "list_all (msg_ok 4) [letter [1]]" by (simp add: letter_ok)
  from schedule_exists[OF this, of 0] obtain s where s: "link_reach 4 0 s" "sent s = [letter [1]]" by blast
  obtain ms where "prefix ms (sent s)" "map (\<lambda>m. header (omsg m)) (inbox s) = map header ms"
    using delivered_in_order[OF s(1)] by auto
  then show ?thesis using s by (intro exI[of _ s] exI[of _ ms]) simp
qed

text \<open>
  C7. Nothing is lost without a failure: once no posted handler and no write is left and too few bytes
  wait for the pending read, every sent message has been delivered; and such a state is reachable
  for every list of messages.
\<close>

theorem delivered_completely:
  assumes "list_all (msg_ok k) ms"
  shows "(\<exists>s. link_reach k self s \<and> quiet k s \<and> \<not> failed s \<and> sent s = ms) \<and>
    (\<forall>s. link_reach k self s \<and> quiet k s \<and> \<not> failed s \<and> sent s = ms \<longrightarrow>
       inbox s = map (\<lambda>m. \<lparr>remote = Some self, omsg = m\<rparr>) (delivered [] ms))"
proof -
  obtain s where "link_reach k self s" "idle s" "sent s = ms" using schedule_exists[OF assms] by blast
  then have "\<exists>s. link_reach k self s \<and> quiet k s \<and> \<not> failed s \<and> sent s = ms"
    using idle_quiet by (auto simp: idle_def)
  then show ?thesis using delivered_all by blast
qed

theorem delivered_completely_witness:
  "\<exists>s. link_reach 4 0 s \<and> sent s = [letter [1], letter [2, 3]] \<and>
     inbox s = [\<lparr>remote = Some 0, omsg = letter [1]\<rparr>, \<lparr>remote = Some 0, omsg = letter [2, 3]\<rparr>]"
proof -
  have "list_all (msg_ok 4) [letter [1], letter [2, 3]]" by (simp add: letter_ok)
  from delivered_completely[OF this, of 0] show ?thesis
    by (auto simp: letter_def set_size_def msg_size_def)
qed

text \<open>
  C17. In every reachable state at most one write and one read are in flight, every posted handler and
  every completion of a pending operation runs without undefined behaviour.
\<close>

theorem connection_handlers_safe:
  assumes "link_reach k self s"
  shows "length (pending_write (snd_c s)) \<le> 1 \<and> length (pending_read (rcv_c s)) \<le> 1 \<and>
    (\<forall>t ts. posted (snd_c s) = t # ts \<longrightarrow> (\<exists>c. run_task t ((snd_c s)\<lparr>posted := ts\<rparr>) = Inr c)) \<and>
    (\<forall>op ops ec. pending_write (snd_c s) = op # ops \<longrightarrow>
       (\<exists>bs c. write_buffer op (snd_c s) = Inr bs \<and> on_written op ec ((snd_c s)\<lparr>pending_write := ops\<rparr>) = Inr c)) \<and>
    (\<forall>op ops ec bs. pending_read (rcv_c s) = op # ops \<and> length bs = read_length k op (rcv_c s) \<longrightarrow>
       (\<exists>c. on_read self op ec (fill op bs ((rcv_c s)\<lparr>pending_read := ops\<rparr>)) (inbox s) = Inr c))"
  using handlers_defined[OF assms] by blast

theorem connection_handlers_safe_witness:
  "length (pending_write (snd_c (link_init [0, 0, 0, 0] 1000))) \<le> 1"
  using connection_handlers_safe[OF r_init[of "[0, 0, 0, 0]" 4 0 1000]] by simp

text \<open>
  C22. A message without a body does not arrive as it was sent: the receiver delivers its header
  together with the body of the message before it.
\<close>

theorem empty_message_gets_old_body:
  assumes "msg_ok k a" and "msg_ok k e" and "body a \<noteq> []" and "body e = []"
  shows "\<exists>s. link_reach k self s \<and> sent s = [a, e] \<and>
    inbox s = [\<lparr>remote = Some self, omsg = a\<rparr>, \<lparr>remote = Some self, omsg = e\<lparr>body := body a\<rparr>\<rparr>]"
proof -
  have "list_all (msg_ok k) [a, e]" using assms by simp
  then obtain s where s: "link_reach k self s" "idle s" "sent s = [a, e]" using schedule_exists by blast
  have "hd_size (header a) \<noteq> 0" "hd_size (header e) = 0"
    using assms by (auto simp: msg_ok_def unat_eq_zero)
  then show ?thesis using s delivered_all[OF s(1) idle_quiet[OF s(2)]]
    by (intro exI[of _ s]) (simp add: idle_def)
qed

theorem empty_message_gets_old_body_witness:
  "\<exists>s. link_reach 4 0 s \<and> sent s = [letter [9], letter []] \<and>
    inbox s = [\<lparr>remote = Some 0, omsg = letter [9]\<rparr>, \<lparr>remote = Some 0, omsg = (letter [])\<lparr>body := [9]\<rparr>\<rparr>]"
  using empty_message_gets_old_body[of 4 "letter [9]" "letter []" 0] letter_ok[of "[9]"] letter_ok[of "[]"]
  by (simp add: letter_def set_size_def)


end
