(* ===== verification/Server_Base.thy ===== *)
theory Server_Base
  imports Transport
begin

text \<open>
  \<open>Netzwerk/ServerBase.h\<close>. Connections live in a store, a \<open>shared_ptr\<close> is an address or null. The
  virtual functions of the derived server are the fields of \<open>server_callbacks\<close>; they may change the
  whole server. \<open>fuel\<close> bounds the nesting of \<open>MessageAllClients\<close>, which calls itself for the farewell
  messages of the clients it found disconnected.
\<close>

type_synonym conn_ptr = "nat option"

record 'w server =
  conns :: "nat \<Rightarrow> connection option"
  next_conn :: nat
  m_deqConnections :: "conn_ptr list"
  m_qMessagesIn :: "owned_message tsqueue"
  nIDCounter :: "32 word"
  pending_accept :: nat
  context_stopped :: bool
  thread_running :: bool
  s_world :: 'w

record 'w server_callbacks =
  OnClientConnect :: "conn_ptr \<Rightarrow> 'w server \<Rightarrow> 'w server result"
  OnClientRequestConnect :: "conn_ptr \<Rightarrow> 'w server \<Rightarrow> (bool \<times> 'w server) result"
  OnClientDisconnect :: "conn_ptr \<Rightarrow> 'w server \<Rightarrow> (message \<times> 'w server) result"
  OnMessage :: "conn_ptr \<Rightarrow> message \<Rightarrow> 'w server \<Rightarrow> 'w server result"

definition new_server :: "'w \<Rightarrow> 'w server" where
  "new_server w = \<lparr>conns = (\<lambda>_. None), next_conn = 0, m_deqConnections = [], m_qMessagesIn = [],
     nIDCounter = 1000, pending_accept = 0, context_stopped = False, thread_running = False, s_world = w\<rparr>"

definition get_conn :: "conn_ptr \<Rightarrow> 'w server \<Rightarrow> connection result" where
  "get_conn p s = bindR (deref p) (\<lambda>a. case conns s a of None \<Rightarrow> Inl (Undefined Dangling) | Some c \<Rightarrow> Inr c)"

definition put_conn :: "conn_ptr \<Rightarrow> connection \<Rightarrow> 'w server \<Rightarrow> 'w server result" where
  "put_conn p c s = bindR (deref p) (\<lambda>a. Inr (s\<lparr>conns := (conns s)(a \<mapsto> c)\<rparr>))"

text \<open>\<open>client && client->IsConnected()\<close> and \<open>client->Send(msg)\<close>.\<close>

definition alive :: "conn_ptr \<Rightarrow> 'w server \<Rightarrow> bool result" where
  "alive p s = (if p = None then Inr False else bindR (get_conn p s) (\<lambda>c. Inr (IsConnected c)))"

definition send_to :: "conn_ptr \<Rightarrow> message \<Rightarrow> 'w server \<Rightarrow> 'w server result" where
  "send_to p msg s = bindR (get_conn p s) (\<lambda>c. put_conn p (Send msg c) s)"


section \<open>Start, stop, accept\<close>

definition WaitForClientConnection :: "'w server \<Rightarrow> 'w server" where
  "WaitForClientConnection s = s\<lparr>pending_accept := Suc (pending_accept s)\<rparr>"

text \<open>\<open>threadOk\<close>: creating the thread did not throw.\<close>

definition Start :: "bool \<Rightarrow> 'w server \<Rightarrow> bool \<times> 'w server" where
  "Start threadOk s =
     (let s = WaitForClientConnection s in
      if threadOk then (True, s\<lparr>thread_running := True\<rparr>) else (False, s))"

definition Stop :: "'w server \<Rightarrow> 'w server" where
  "Stop s = s\<lparr>context_stopped := True, thread_running := False\<rparr>"

definition on_accept ::
    "'w server_callbacks \<Rightarrow> byte list \<Rightarrow> bool \<Rightarrow> bool \<Rightarrow> 'w server \<Rightarrow> 'w server result" where
  "on_accept cb idRep ec sock s =
     bindR (if \<not> ec
       then let a = next_conn s; newconn = Some a;
                s = s\<lparr>conns := (conns s)(a \<mapsto> new_connection Server idRep sock), next_conn := Suc a\<rparr> in
            bindR (OnClientRequestConnect cb newconn s) (\<lambda>(ok, s).
            if ok
            then let s = s\<lparr>m_deqConnections := m_deqConnections s @ [newconn]\<rparr> in
                 bindR (get_conn newconn s) (\<lambda>c.
                 bindR (put_conn newconn (ConnectToClient (nIDCounter s) c) s) (\<lambda>s.
                 OnClientConnect cb newconn (s\<lparr>nIDCounter := nIDCounter s + 1\<rparr>)))
            else Inr s)
       else Inr s) (\<lambda>s. Inr (WaitForClientConnection s))"


section \<open>Sending\<close>

definition erase_null :: "'w server \<Rightarrow> 'w server" where
  "erase_null s = s\<lparr>m_deqConnections := filter (\<lambda>p. p \<noteq> None) (m_deqConnections s)\<rparr>"

text \<open>One turn of \<open>for (auto& client : m_deqConnections)\<close>: \<open>client.reset()\<close> clears the entry in place.\<close>

definition all_turn ::
    "'w server_callbacks \<Rightarrow> message \<Rightarrow> conn_ptr \<Rightarrow> nat \<Rightarrow> 'w server \<times> message list \<times> bool \<Rightarrow>
     ('w server \<times> message list \<times> bool) result" where
  "all_turn cb msg pIgnoreClient i = (\<lambda>(s, bye, bad).
     bindR (vec_at (m_deqConnections s) i) (\<lambda>client.
     if client \<noteq> pIgnoreClient
     then bindR (alive client s) (\<lambda>ok.
          if ok then bindR (send_to client msg s) (\<lambda>s. Inr (s, bye, bad))
          else bindR (OnClientDisconnect cb client s) (\<lambda>(m, s).
               Inr (s\<lparr>m_deqConnections := (m_deqConnections s)[i := None]\<rparr>, bye @ [m], True)))
     else Inr (s, bye, bad)))"

fun MessageAllClients ::
    "nat \<Rightarrow> 'w server_callbacks \<Rightarrow> message \<Rightarrow> conn_ptr \<Rightarrow> 'w server \<Rightarrow> 'w server result" where
  "MessageAllClients 0 cb msg pIgnoreClient s = Inl (Undefined NoReturn)"
| "MessageAllClients (Suc fuel) cb msg pIgnoreClient s =
     bindR (foldR (all_turn cb msg pIgnoreClient) [0..<length (m_deqConnections s)] (s, [], False))
       (\<lambda>(s, afterDisconectSend, bInvalidClientExists).
     if bInvalidClientExists
     then foldR (\<lambda>m s. MessageAllClients fuel cb m None s) afterDisconectSend (erase_null s)
     else Inr s)"

definition MessageClient ::
    "nat \<Rightarrow> 'w server_callbacks \<Rightarrow> conn_ptr \<Rightarrow> message \<Rightarrow> 'w server \<Rightarrow> 'w server result" where
  "MessageClient fuel cb client msg s =
     bindR (alive client s) (\<lambda>ok.
     if ok then send_to client msg s
     else bindR (OnClientDisconnect cb client s) (\<lambda>(toSend, s).
          MessageAllClients fuel cb toSend None (erase_null s)))"

definition group_turn ::
    "'w server_callbacks \<Rightarrow> message \<Rightarrow> conn_ptr \<Rightarrow> 'w server \<times> message list \<times> bool \<Rightarrow>
     ('w server \<times> message list \<times> bool) result" where
  "group_turn cb msg client = (\<lambda>(s, bye, bad).
     bindR (alive client s) (\<lambda>ok.
     if ok then bindR (send_to client msg s) (\<lambda>s. Inr (s, bye, bad))
     else bindR (OnClientDisconnect cb client s) (\<lambda>(m, s). Inr (s, bye @ [m], True))))"

definition MessageClientGroup ::
    "nat \<Rightarrow> 'w server_callbacks \<Rightarrow> message \<Rightarrow> conn_ptr list \<Rightarrow> 'w server \<Rightarrow> 'w server result" where
  "MessageClientGroup fuel cb msg clients s =
     bindR (foldR (group_turn cb msg) clients (s, [], False)) (\<lambda>(s, afterDisconectSend, bInvalidClientExists).
     if bInvalidClientExists
     then foldR (\<lambda>m s. MessageAllClients fuel cb m None s) afterDisconectSend (erase_null s)
     else Inr s)"


section \<open>Receiving\<close>

text \<open>\<open>n\<close> is \<open>nMaxMessages - nMessageCount\<close>.\<close>

fun update_loop :: "'w server_callbacks \<Rightarrow> nat \<Rightarrow> 'w server \<Rightarrow> 'w server result" where
  "update_loop cb 0 s = Inr s"
| "update_loop cb (Suc n) s =
     (if \<not> tsq_empty (m_qMessagesIn s)
      then bindR (tsq_pop_front (m_qMessagesIn s)) (\<lambda>(msg, q).
           bindR (OnMessage cb (remote msg) (omsg msg) (s\<lparr>m_qMessagesIn := q\<rparr>)) (\<lambda>s.
           update_loop cb n s))
      else Inr s)"

text \<open>With \<open>bWait\<close> and an empty queue the call returns only after another thread has pushed.\<close>

definition Update :: "'w server_callbacks \<Rightarrow> nat \<Rightarrow> bool \<Rightarrow> 'w server \<Rightarrow> 'w server result" where
  "Update cb nMaxMessages bWait s =
     (if bWait \<and> tsq_empty (m_qMessagesIn s) then Inl (Undefined NoReturn) else update_loop cb nMaxMessages s)"

text \<open>The virtual functions of the base class.\<close>

definition base_callbacks :: "byte list \<Rightarrow> 'w server_callbacks" where
  "base_callbacks idRep = \<lparr>OnClientConnect = (\<lambda>client s. Inr s), OnClientRequestConnect = (\<lambda>client s. Inr (False, s)),
     OnClientDisconnect = (\<lambda>client s. Inr (new_message idRep, s)), OnMessage = (\<lambda>client msg s. Inr s)\<rparr>"


section \<open>Broadcast\<close>

declare MessageAllClients.simps [simp del]

definition open_in :: "'w server \<Rightarrow> nat \<Rightarrow> bool" where
  "open_in s a \<longleftrightarrow> (\<exists>c. conns s a = Some c \<and> is_open c)"

definition server_wf :: "'w server \<Rightarrow> nat list \<Rightarrow> bool" where
  "server_wf s as \<longleftrightarrow> m_deqConnections s = map Some as \<and> distinct as \<and> (\<forall>a \<in> set as. conns s a \<noteq> None)"

text \<open>\<open>ms\<close> are posted, in this order, to every open connection of \<open>as\<close>.\<close>

definition post_all :: "message list \<Rightarrow> nat list \<Rightarrow> (nat \<Rightarrow> connection option) \<Rightarrow> nat \<Rightarrow> connection option" where
  "post_all ms as cs = (\<lambda>a. if a \<in> set as then map_option (\<lambda>c. if is_open c
      then c\<lparr>posted := posted c @ map SendTask ms\<rparr> else c) (cs a) else cs a)"

definition logs_disconnects :: "'w list server_callbacks \<Rightarrow> (conn_ptr \<Rightarrow> 'w \<times> message) \<Rightarrow> bool" where
  "logs_disconnects cb bye \<longleftrightarrow> (\<forall>p s. OnClientDisconnect cb p s =
     Inr (snd (bye p), s\<lparr>s_world := s_world s @ [fst (bye p)]\<rparr>))"

lemma post_all_open: "(\<exists>c. post_all ms as cs a = Some c \<and> is_open c) \<longleftrightarrow> (\<exists>c. cs a = Some c \<and> is_open c)"
  by (cases "cs a") (auto simp: post_all_def)

lemma post_all_post_all: "post_all ms as (post_all ns as cs) = post_all (ns @ ms) as cs"
  by (rule ext) (auto simp: post_all_def map_option_case split: option.split)

lemma post_all_Nil [simp]: "post_all [] as cs = cs" "post_all ms [] cs = cs"
  by (rule ext, auto simp: post_all_def map_option_case split: option.split)+

text \<open>The loop of \<open>MessageAllClients\<close> after its first turns, on the connections \<open>as\<close>.\<close>

lemma all_turns:
  assumes cb: "logs_disconnects cb bye" and wf: "server_wf s as" and k: "k \<le> length as"
  shows "foldR (all_turn cb msg None) [0..<k] (s, [], False) = Inr (s\<lparr>
      conns := post_all [msg] (take k as) (conns s),
      m_deqConnections := map (\<lambda>a. if open_in s a then Some a else None) (take k as) @ map Some (drop k as),
      s_world := s_world s @ map (\<lambda>a. fst (bye (Some a))) (filter (\<lambda>a. \<not> open_in s a) (take k as))\<rparr>,
      map (\<lambda>a. snd (bye (Some a))) (filter (\<lambda>a. \<not> open_in s a) (take k as)),
      \<exists>a \<in> set (take k as). \<not> open_in s a)"
  using k
proof (induction k)
  case 0
  then show ?case using wf by (simp add: server_wf_def)
next
  case (Suc k)
  let ?a = "as ! k"
  have k: "k < length as" using Suc.prems by simp
  have tk: "take (Suc k) as = take k as @ [?a]" using k by (simp add: take_Suc_conv_app_nth)
  have dk: "drop k as = ?a # drop (Suc k) as" using k by (simp add: Cons_nth_drop_Suc)
  have new: "?a \<notin> set (take k as)"
    using wf k tk by (metis append_take_drop_id distinct_append disjoint_insert(1) list.simps(15) server_wf_def dk)
  have "?a \<in> set as" using k by simp
  then obtain c where c: "conns s ?a = Some c" using wf by (auto simp: server_wf_def)
  have sel: "post_all [msg] (take k as) (conns s) ?a = Some c" using new c by (simp add: post_all_def)
  have upd: "(post_all [msg] (take k as) (conns s))(?a := post_all [msg] [?a] (conns s) ?a)
      = post_all [msg] (take k as @ [?a]) (conns s)"
    by (rule ext) (simp add: post_all_def)
  show ?case
  proof (cases "is_open c")
    case True
    then have o: "open_in s ?a" using c by (simp add: open_in_def)
    have "post_all [msg] [?a] (conns s) ?a = Some (Send msg c)" using c True by (simp add: post_all_def Send_def)
    then show ?thesis using Suc k sel c True o upd
      by (simp add: foldR_append all_turn_def tk dk nth_append alive_def get_conn_def IsConnected_def send_to_def
          put_conn_def)
  next
    case False
    then have o: "\<not> open_in s ?a" using c by (simp add: open_in_def)
    have "post_all [msg] [?a] (conns s) ?a = Some c" using c False by (simp add: post_all_def)
    then have same: "post_all [msg] (take k as @ [?a]) (conns s) = post_all [msg] (take k as) (conns s)"
      using upd sel by (metis fun_upd_triv)
    show ?thesis using Suc k sel c False o same cb[unfolded logs_disconnects_def]
      by (simp add: foldR_append all_turn_def tk dk nth_append alive_def get_conn_def IsConnected_def
          list_update_append)
  qed
qed


lemma all_turns_end:
  assumes cb: "logs_disconnects cb bye" and wf: "server_wf s as"
  shows "foldR (all_turn cb msg None) [0..<length (m_deqConnections s)] (s, [], False) = Inr (s\<lparr>
      conns := post_all [msg] as (conns s),
      m_deqConnections := map (\<lambda>a. if open_in s a then Some a else None) as,
      s_world := s_world s @ map (\<lambda>a. fst (bye (Some a))) (filter (\<lambda>a. \<not> open_in s a) as)\<rparr>,
      map (\<lambda>a. snd (bye (Some a))) (filter (\<lambda>a. \<not> open_in s a) as),
      \<exists>a \<in> set as. \<not> open_in s a)"
proof -
  have l: "length (m_deqConnections s) = length as" using wf by (simp add: server_wf_def)
  show ?thesis using all_turns[OF cb wf, of "length as" msg] unfolding l by simp
qed

lemma MessageAllClients_all_open:
  assumes cb: "logs_disconnects cb bye" and wf: "server_wf s as" and o: "\<forall>a \<in> set as. open_in s a"
  shows "MessageAllClients (Suc n) cb msg None s = Inr (s\<lparr>conns := post_all [msg] as (conns s)\<rparr>)"
proof -
  have "filter (\<lambda>a. \<not> open_in s a) as = []" using o by (simp add: filter_empty_conv)
  moreover have "map (\<lambda>a. if open_in s a then Some a else None) as = m_deqConnections s"
    using o wf by (simp add: server_wf_def cong: map_cong)
  ultimately show ?thesis using all_turns_end[OF cb wf, of msg] o by (simp add: MessageAllClients.simps)
qed

lemma server_wf_post: "server_wf (s\<lparr>conns := post_all ms as (conns s)\<rparr>) as = server_wf s as"
  by (auto simp: server_wf_def post_all_def)

lemma open_in_post: "open_in (s\<lparr>conns := post_all ms as (conns s)\<rparr>) a = open_in s a"
  using post_all_open[of ms as "conns s" a] by (simp add: open_in_def)

lemma farewells:
  assumes cb: "logs_disconnects cb bye"
  shows "server_wf s as \<Longrightarrow> \<forall>a \<in> set as. open_in s a \<Longrightarrow>
    foldR (\<lambda>m s. MessageAllClients (Suc n) cb m None s) ms s = Inr (s\<lparr>conns := post_all ms as (conns s)\<rparr>)"
proof (induction ms arbitrary: s)
  case Nil
  then show ?case by simp
next
  case (Cons m ms)
  let ?s = "s\<lparr>conns := post_all [m] as (conns s)\<rparr>"
  have "foldR (\<lambda>m s. MessageAllClients (Suc n) cb m None s) ms ?s
      = Inr (?s\<lparr>conns := post_all ms as (conns ?s)\<rparr>)"
    by (rule Cons.IH) (use Cons.prems in \<open>simp_all only: server_wf_post open_in_post\<close>)
  then show ?case using MessageAllClients_all_open[OF cb Cons.prems, of n m]
    by (simp add: post_all_post_all)
qed

text \<open>
  The whole broadcast: the connections that are closed are reported once each and dropped, every
  open one gets the message and then the farewells, in order.
\<close>

definition broadcast :: "(conn_ptr \<Rightarrow> 'w \<times> message) \<Rightarrow> message \<Rightarrow> nat list \<Rightarrow> 'w list server \<Rightarrow> 'w list server" where
  "broadcast bye msg as s =
     (let live = filter (open_in s) as; dead = filter (\<lambda>a. \<not> open_in s a) as in
      s\<lparr>s_world := s_world s @ map (\<lambda>a. fst (bye (Some a))) dead,
        m_deqConnections := map Some live,
        conns := post_all (msg # map (\<lambda>a. snd (bye (Some a))) dead) live (conns s)\<rparr>)"

lemma post_all_live: "post_all ms (filter (open_in s) as) (conns s) = post_all ms as (conns s)"
  by (rule ext) (auto simp: post_all_def open_in_def map_option_case split: option.split)

lemma MessageAllClients_broadcast:
  assumes cb: "logs_disconnects cb bye" and wf: "server_wf s as"
  shows "MessageAllClients (Suc (Suc n)) cb msg None s = Inr (broadcast bye msg as s)"
proof (cases "\<exists>a \<in> set as. \<not> open_in s a")
  case False
  then have "filter (open_in s) as = as" and "filter (\<lambda>a. \<not> open_in s a) as = []"
    by (simp_all add: filter_id_conv filter_empty_conv)
  then show ?thesis using MessageAllClients_all_open[OF cb wf, of "Suc n" msg] False wf
    by (simp add: broadcast_def server_wf_def)
next
  case True
  let ?live = "filter (open_in s) as" and ?dead = "filter (\<lambda>a. \<not> open_in s a) as"
  let ?bye = "map (\<lambda>a. snd (bye (Some a))) ?dead"
  let ?s1 = "s\<lparr>conns := post_all [msg] as (conns s),
      s_world := s_world s @ map (\<lambda>a. fst (bye (Some a))) ?dead, m_deqConnections := map Some ?live\<rparr>"
  have keep: "filter (\<lambda>p. p \<noteq> None) (map (\<lambda>a. if open_in s a then Some a else None) as) = map Some ?live"
    by (induction as) auto
  have wf1: "server_wf ?s1 ?live" using wf by (auto simp: server_wf_def post_all_def)
  have o1: "\<forall>a \<in> set ?live. open_in ?s1 a"
    using post_all_open[of "[msg]" as "conns s"] by (auto simp: open_in_def)
  have "MessageAllClients (Suc (Suc n)) cb msg None s
      = foldR (\<lambda>m s. MessageAllClients (Suc n) cb m None s) ?bye ?s1"
    using all_turns_end[OF cb wf, of msg] True keep MessageAllClients.simps(2)[of "Suc n" cb msg None s]
    by (simp add: erase_null_def)
  also have "\<dots> = Inr (?s1\<lparr>conns := post_all ?bye ?live (conns ?s1)\<rparr>)"
    by (rule farewells[OF cb wf1 o1])
  also have "post_all ?bye ?live (conns ?s1) = post_all (msg # ?bye) ?live (conns s)"
    using post_all_post_all[of ?bye ?live "[msg]" "conns s"] by (simp add: post_all_live)
  finally show ?thesis by (simp add: broadcast_def Let_def)
qed

text \<open>
  Sending to one client that has gone: \<open>client.reset()\<close> empties the parameter, not the entry of the
  list, so \<open>erase\<close> finds nothing and the broadcast of the farewell meets the same client again.
\<close>

lemma MessageClient_gone:
  assumes cb: "logs_disconnects cb bye" and wf: "server_wf s as" and a: "a \<in> set as" "\<not> open_in s a"
  shows "MessageClient (Suc (Suc n)) cb (Some a) msg s =
    Inr (broadcast bye (snd (bye (Some a))) as (s\<lparr>s_world := s_world s @ [fst (bye (Some a))]\<rparr>))"
proof -
  let ?s = "s\<lparr>s_world := s_world s @ [fst (bye (Some a))]\<rparr>"
  obtain c where c: "conns s a = Some c" "\<not> is_open c"
    using wf a by (auto simp: server_wf_def open_in_def)
  have e: "erase_null ?s = ?s" using wf by (simp add: erase_null_def server_wf_def filter_map o_def)
  have "server_wf ?s as" using wf by (simp add: server_wf_def)
  from MessageAllClients_broadcast[OF cb this] show ?thesis
    using c e cb[unfolded logs_disconnects_def]
    by (simp add: MessageClient_def alive_def get_conn_def IsConnected_def)
qed

lemma MessageClient_alive:
  assumes "conns s a = Some c" and "is_open c"
  shows "MessageClient n cb (Some a) msg s = Inr (s\<lparr>conns := (conns s)(a \<mapsto> Send msg c)\<rparr>)"
  using assms by (simp add: MessageClient_def alive_def get_conn_def IsConnected_def send_to_def put_conn_def)


section \<open>Receiving in order\<close>

definition handles :: "'w server_callbacks \<Rightarrow> (owned_message \<Rightarrow> 'w \<Rightarrow> 'w) \<Rightarrow> bool" where
  "handles cb f \<longleftrightarrow> (\<forall>p m s. OnMessage cb p m s = Inr (s\<lparr>s_world := f \<lparr>remote = p, omsg = m\<rparr> (s_world s)\<rparr>))"

text \<open>The loop takes messages like \<open>drain\<close> does and hands each to \<open>OnMessage\<close>.\<close>

lemma update_loop_drain:
  assumes f: "handles cb f" and d: "drain tsq_empty tsq_pop_front n (m_qMessagesIn s) = Inr (ms, q)"
  shows "update_loop cb n s = Inr (s\<lparr>m_qMessagesIn := q, s_world := fold f ms (s_world s)\<rparr>)"
  using d
proof (induction n arbitrary: s ms)
  case 0
  then show ?case by simp
next
  case (Suc n)
  show ?case
  proof (cases "m_qMessagesIn s")
    case Nil
    then show ?thesis using Suc.prems by (simp add: tsq_empty_def)
  next
    case (Cons m q1)
    obtain ms' where ms': "drain tsq_empty tsq_pop_front n q1 = Inr (ms', q)" "ms = m # ms'"
      using Suc.prems Cons by (auto simp: tsq_Cons)
    let ?s = "s\<lparr>m_qMessagesIn := q1, s_world := f m (s_world s)\<rparr>"
    have "update_loop cb n ?s = Inr (?s\<lparr>m_qMessagesIn := q, s_world := fold f ms' (s_world ?s)\<rparr>)"
      by (rule Suc.IH) (use ms' in simp)
    then show ?thesis using Cons f ms'(2) by (cases m) (simp add: tsq_Cons handles_def)
  qed
qed


section \<open>Accepting clients\<close>

definition ids_ok :: "'w server \<Rightarrow> nat list \<Rightarrow> bool" where
  "ids_ok s as \<longleftrightarrow> server_wf s as \<and> (\<forall>a. next_conn s \<le> a \<longrightarrow> conns s a = None) \<and>
     (\<forall>a \<in> set as. \<forall>c. conns s a = Some c \<longrightarrow> unat (conn_id c) < unat (nIDCounter s)) \<and>
     (\<forall>a \<in> set as. \<forall>b \<in> set as. \<forall>c d. conns s a = Some c \<longrightarrow> conns s b = Some d \<longrightarrow>
        conn_id c = conn_id d \<longrightarrow> a = b)"

definition admits :: "'w server_callbacks \<Rightarrow> bool" where
  "admits cb \<longleftrightarrow> (\<forall>p s. OnClientRequestConnect cb p s = Inr (True, s) \<and> OnClientConnect cb p s = Inr s)"

lemma on_accept_admits:
  assumes cb: "admits cb" and inv: "ids_ok s as" and n: "unat (nIDCounter s) < 4294967295"
  shows "\<exists>s'. on_accept cb idRep False True s = Inr s' \<and> ids_ok s' (as @ [next_conn s]) \<and>
    conns s' (next_conn s) = Some (ConnectToClient (nIDCounter s) (new_connection Server idRep True)) \<and>
    pending_accept s' = Suc (pending_accept s)"
proof -
  let ?a = "next_conn s" and ?c = "ConnectToClient (nIDCounter s) (new_connection Server idRep True)"
  let ?s = "s\<lparr>next_conn := Suc ?a, m_deqConnections := m_deqConnections s @ [Some ?a],
      conns := (conns s)(?a \<mapsto> ?c), nIDCounter := nIDCounter s + 1, pending_accept := Suc (pending_accept s)\<rparr>"
  have r: "on_accept cb idRep False True s = Inr ?s"
    using cb by (simp add: on_accept_def admits_def get_conn_def put_conn_def WaitForClientConnection_def
        Let_def)
  have cid: "conn_id ?c = nIDCounter s"
    by (simp add: ConnectToClient_def new_connection_def ReadHeader_def)
  have fresh: "?a \<notin> set as" using inv by (auto simp: ids_ok_def server_wf_def)
  have suc: "unat (nIDCounter s + 1) = Suc (unat (nIDCounter s))"
    using n by (simp add: unat_word_ariths)
  have "ids_ok ?s (as @ [?a])"
    using inv fresh cid suc
    by (auto simp: ids_ok_def server_wf_def less_Suc_eq)
  then show ?thesis using r by auto
qed

text \<open>The base class refuses every client; the acceptor is armed again all the same.\<close>

lemma on_accept_base:
  "on_accept (base_callbacks idRep') idRep ec sock s = Inr s' \<Longrightarrow>
   m_deqConnections s' = m_deqConnections s \<and> nIDCounter s' = nIDCounter s \<and>
   pending_accept s' = Suc (pending_accept s)"
  by (auto simp: on_accept_def base_callbacks_def WaitForClientConnection_def Let_def split: if_splits)




section \<open>Properties\<close>

text \<open>Callbacks that log, and a server with an open client 0 and a closed client 1.\<close>

definition log_callbacks :: "nat list server_callbacks" where
  "log_callbacks = \<lparr>OnClientConnect = (\<lambda>client s. Inr s), OnClientRequestConnect = (\<lambda>client s. Inr (True, s)),
     OnClientDisconnect = (\<lambda>client s. Inr (new_message [case client of None \<Rightarrow> 0 | Some a \<Rightarrow> word_of_nat a],
       s\<lparr>s_world := s_world s @ [case client of None \<Rightarrow> 0 | Some a \<Rightarrow> a]\<rparr>)),
     OnMessage = (\<lambda>client msg s. Inr (s\<lparr>s_world := s_world s @ [length (body msg)]\<rparr>))\<rparr>"

definition log_bye :: "conn_ptr \<Rightarrow> nat \<times> message" where
  "log_bye client = (case client of None \<Rightarrow> 0 | Some a \<Rightarrow> a,
     new_message [case client of None \<Rightarrow> 0 | Some a \<Rightarrow> word_of_nat a])"

definition two_clients :: "nat list server" where
  "two_clients = (new_server [])\<lparr>conns := [0 \<mapsto> new_connection Server [0] True, 1 \<mapsto> new_connection Server [0] False],
     next_conn := 2, m_deqConnections := [Some 0, Some 1], nIDCounter := 1002\<rparr>"

lemma log_callbacks_log: "logs_disconnects log_callbacks log_bye"
  by (simp add: logs_disconnects_def log_callbacks_def log_bye_def)

lemma two_clients_wf: "server_wf two_clients [0, 1]" "open_in two_clients 0" "\<not> open_in two_clients 1"
    "\<not> open_in two_clients (Suc 0)"
  by (simp_all add: server_wf_def open_in_def two_clients_def new_connection_def)

text \<open>
  C6. A broadcast reports every closed connection exactly once and drops it, and posts to every open
  connection the message followed by the farewell messages of the dropped ones, in the order of
  the list; two levels of the recursion are enough.
\<close>

theorem broadcast_reaches_all:
  assumes "logs_disconnects cb bye" and "server_wf s as"
  shows "MessageAllClients (Suc (Suc n)) cb msg None s = Inr (broadcast bye msg as s)"
  by (rule MessageAllClients_broadcast[OF assms])

theorem broadcast_reaches_all_witness:
  "\<exists>s. MessageAllClients 2 log_callbacks (new_message [9]) None two_clients = Inr s \<and>
     m_deqConnections s = [Some 0] \<and> s_world s = [1] \<and>
     map_option posted (conns s 0) = Some [SendTask (new_message [9]), SendTask (new_message [1])]"
  using broadcast_reaches_all[OF log_callbacks_log two_clients_wf(1), of 0 "new_message [9]"]
  by (simp add: numeral_2_eq_2 broadcast_def two_clients_wf Let_def)
     (simp add: two_clients_def post_all_def new_server_def new_connection_def log_bye_def)

text \<open>
  C21. \<open>MessageClient\<close> to a client that is gone clears only its own copy of the pointer: the entry stays
  in the list, so the client is reported disconnected once here and again by the broadcast of its
  farewell message, and the others get that farewell twice.
\<close>

theorem gone_client_reported_twice:
  assumes "logs_disconnects cb bye" and "server_wf s as" and "a \<in> set as" and "\<not> open_in s a"
  shows "\<exists>s'. MessageClient (Suc (Suc n)) cb (Some a) msg s = Inr s' \<and> m_deqConnections s' = map Some (filter (open_in s) as) \<and>
    s_world s' = s_world s @ fst (bye (Some a)) # map (\<lambda>b. fst (bye (Some b))) (filter (\<lambda>b. \<not> open_in s b) as) \<and>
    (\<forall>b \<in> set as. open_in s b \<longrightarrow> map_option posted (conns s' b) = map_option (\<lambda>c. posted c @
       SendTask (snd (bye (Some a))) # map (\<lambda>d. SendTask (snd (bye (Some d)))) (filter (\<lambda>b. \<not> open_in s b) as)) (conns s b))"
proof -
  have o: "open_in (s\<lparr>s_world := w\<rparr>) = open_in s" for w by (rule ext) (simp add: open_in_def)
  let ?ms = "snd (bye (Some a)) # map (\<lambda>d. snd (bye (Some d))) (filter (\<lambda>b. \<not> open_in s b) as)"
  have p: "map_option posted (post_all ?ms (filter (open_in s) as) (conns s) b)
      = map_option (\<lambda>c. posted c @ map SendTask ?ms) (conns s b)" if "b \<in> set as" "open_in s b" for b
    using that by (auto simp: post_all_def open_in_def)
  show ?thesis using MessageClient_gone[OF assms, of n msg] p
    by (simp add: broadcast_def Let_def o o_def)
qed

theorem gone_client_reported_twice_witness:
  "\<exists>s'. MessageClient 2 log_callbacks (Some 1) (new_message [9]) two_clients = Inr s' \<and> s_world s' = [1, 1]"
  using gone_client_reported_twice[OF log_callbacks_log two_clients_wf(1), of 1 0 "new_message [9]"]
  by (auto simp: numeral_2_eq_2 two_clients_wf log_bye_def) (simp add: two_clients_def new_server_def)

text \<open>
  \<open>Update\<close> hands the oldest messages, at most \<open>nMaxMessages\<close> of them, to \<open>OnMessage\<close> in the order of
  their arrival and leaves the others queued.
\<close>

theorem update_handles_in_order:
  assumes "handles cb f" and "m_qMessagesIn s \<noteq> [] \<or> \<not> bWait"
  shows "Update cb n bWait s = Inr (s\<lparr>m_qMessagesIn := drop n (m_qMessagesIn s),
    s_world := fold f (take n (m_qMessagesIn s)) (s_world s)\<rparr>)"
proof -
  obtain q where q: "drain tsq_empty tsq_pop_front n (m_qMessagesIn s) = Inr (take n (m_qMessagesIn s), q)"
      "q = drop n (m_qMessagesIn s)" using tsq.drain_takes[of n "m_qMessagesIn s"] by blast
  show ?thesis using update_loop_drain[OF assms(1) q(1)] q(2) assms(2) by (auto simp: Update_def tsq_empty_def)
qed

theorem update_handles_in_order_witness:
  "\<exists>s. Update log_callbacks 1 True (two_clients\<lparr>m_qMessagesIn :=
     [\<lparr>remote = Some 0, omsg = new_message [0]\<rparr>, \<lparr>remote = Some 1, omsg = new_message [0]\<rparr>]\<rparr>) = Inr s \<and>
     length (m_qMessagesIn s) = 1 \<and> s_world s = [0]"
proof -
  have "handles log_callbacks (\<lambda>m w. w @ [length (body (omsg m))])"
    by (simp add: handles_def log_callbacks_def)
  from update_handles_in_order[OF this] show ?thesis
    by (simp add: two_clients_def new_server_def new_message_def)
qed

text \<open>
  Accepting a client that the server admits appends it to the list under the next identifier,
  starts reading its messages, keeps all identifiers distinct as long as the counter has not
  wrapped, and arms the acceptor again.
\<close>

theorem accepted_clients_distinct:
  assumes "admits cb" and "ids_ok s as" and "unat (nIDCounter s) < 4294967295"
  shows "\<exists>s'. on_accept cb idRep False True s = Inr s' \<and> ids_ok s' (as @ [next_conn s]) \<and>
    conns s' (next_conn s) = Some (ConnectToClient (nIDCounter s) (new_connection Server idRep True)) \<and>
    pending_accept s' = Suc (pending_accept s)"
  by (rule on_accept_admits[OF assms])

theorem accepted_clients_distinct_witness:
  "\<exists>s'. on_accept log_callbacks [0] False True (new_server []) = Inr s' \<and> ids_ok s' [0]"
proof -
  have "admits log_callbacks" by (simp add: admits_def log_callbacks_def)
  moreover have "ids_ok (new_server ([] :: nat list)) []" by (simp add: ids_ok_def server_wf_def new_server_def)
  moreover have "unat (nIDCounter (new_server ([] :: nat list))) < 4294967295" by (simp add: new_server_def)
  ultimately show ?thesis using accepted_clients_distinct[of log_callbacks "new_server []" "[]" "[0]"]
    by (auto simp: new_server_def)
qed

end
