(* ===== verification/Server_Delivery.thy ===== *)
theory Server_Delivery
  imports Server_Base
begin

text \<open>
  One client and the whole server: the connection of the client, the stream, the connection object \<open>self\<close>
  in the server's store, the queue all connections of the server share, and the thread that calls
  \<open>Update\<close>. Other clients come in as messages they push and as changes to their connections.
\<close>

section \<open>The composed system\<close>

abbreviation from_client :: "nat \<Rightarrow> owned_message list \<Rightarrow> owned_message list" where
  "from_client self \<equiv> filter (\<lambda>m. remote m = Some self)"

inductive served ::
    "nat \<Rightarrow> nat \<Rightarrow> 'w server_callbacks \<Rightarrow> 'w \<Rightarrow> link \<Rightarrow> 'w server \<Rightarrow> bool" for k self cb w0 where
  v_init: "length i = k \<Longrightarrow> conns v self = Some (rcv_c (link_init i uid)) \<Longrightarrow> from_client self (m_qMessagesIn v) = [] \<Longrightarrow>
    s_world v = w0 \<Longrightarrow> served k self cb w0 (link_init i uid) v"
| v_link: "served k self cb w0 s v \<Longrightarrow> conns v self = Some c \<Longrightarrow>
    link_step k self (s\<lparr>rcv_c := c, inbox := m_qMessagesIn v\<rparr>) s' \<Longrightarrow>
    served k self cb w0 s' (v\<lparr>conns := (conns v)(self \<mapsto> rcv_c s'), m_qMessagesIn := inbox s'\<rparr>)"
| v_other: "served k self cb w0 s v \<Longrightarrow> remote m \<noteq> Some self \<Longrightarrow>
    served k self cb w0 s (v\<lparr>m_qMessagesIn := tsq_push_back m (m_qMessagesIn v)\<rparr>)"
| v_conns: "served k self cb w0 s v \<Longrightarrow> a \<noteq> self \<Longrightarrow> served k self cb w0 s (v\<lparr>conns := (conns v)(a := x)\<rparr>)"
| v_update: "served k self cb w0 s v \<Longrightarrow> Update cb n bWait v = Inr v' \<Longrightarrow> served k self cb w0 s v'"


section \<open>The connection does not look at the queue\<close>

lemma on_read_inbox:
  assumes "on_read self op ec c q = Inr (c', q')" and "m_nOwnerType c = Server"
  shows "\<exists>new. q' = q @ new \<and> from_client self new = new \<and> (\<forall>p. on_read self op ec c p = Inr (c', p @ new))"
proof (cases op)
  case ReadHeaderOp
  then show ?thesis using assms
    by (auto simp: on_read_def on_header_read_def AddToIncomingMessageQueue_def tsq_push_back_def Let_def split: if_splits)
next
  case ReadBodyOp
  then show ?thesis using assms
    by (auto simp: on_read_def on_body_read_def AddToIncomingMessageQueue_def tsq_push_back_def Let_def split: if_splits)
qed

lemma link_step_inbox:
  assumes "link_step k self s s'" and own: "m_nOwnerType (rcv_c s) = Server"
  shows "\<exists>new. inbox s' = inbox s @ new \<and> from_client self new = new \<and>
    (\<forall>p. link_step k self (s\<lparr>inbox := p\<rparr>) (s'\<lparr>inbox := p @ new\<rparr>))"
  using assms(1)
proof cases
  case (l_send m)
  then show ?thesis using link_step.l_send[of k m self "s\<lparr>inbox := p\<rparr>" for p] by (intro exI[of _ "[]"], cases s) simp
next
  case l_disconnect
  then show ?thesis using link_step.l_disconnect[of k self "s\<lparr>inbox := p\<rparr>" for p] by (intro exI[of _ "[]"], cases s) simp
next
  case (l_task t ts c)
  then show ?thesis using link_step.l_task[of "s\<lparr>inbox := p\<rparr>" t ts c k self for p] by (intro exI[of _ "[]"], cases s) simp
next
  case (l_write op ops bs c)
  then show ?thesis using link_step.l_write[of "s\<lparr>inbox := p\<rparr>" op ops bs c k self for p] by (intro exI[of _ "[]"], cases s) simp
next
  case (l_write_error op ops bs p' c)
  then show ?thesis using link_step.l_write_error[of "s\<lparr>inbox := p\<rparr>" op ops bs p' c k self for p]
    by (intro exI[of _ "[]"], cases s) simp
next
  case (l_read op ops bs rest c q)
  obtain new where new: "q = inbox s @ new" "from_client self new = new"
    "\<And>p. on_read self op False (fill op bs ((rcv_c s)\<lparr>pending_read := ops\<rparr>)) p = Inr (c, p @ new)"
    using on_read_inbox[OF l_read(5)] own by (auto simp: fill_def)
  then show ?thesis using l_read link_step.l_read[of "s\<lparr>inbox := p\<rparr>" op ops bs rest k self c "p @ new" for p]
    by (intro exI[of _ new], cases s) simp
next
  case (l_read_error op ops bs rest c q)
  obtain new where new: "q = inbox s @ new" "from_client self new = new"
    "\<And>p. on_read self op True ((rcv_c s)\<lparr>pending_read := ops\<rparr>) p = Inr (c, p @ new)"
    using on_read_inbox[OF l_read_error(4)] own by auto
  then show ?thesis using l_read_error link_step.l_read_error[of "s\<lparr>inbox := p\<rparr>" op ops bs rest self c "p @ new" k for p]
    by (intro exI[of _ new], cases s) simp
qed


section \<open>The server is the link with a longer queue\<close>

definition heard :: "nat \<Rightarrow> nat \<Rightarrow> (owned_message \<Rightarrow> 'w \<Rightarrow> 'w) \<Rightarrow> 'w \<Rightarrow> link \<Rightarrow> 'w server \<Rightarrow> bool" where
  "heard k self f w0 s v \<longleftrightarrow> (\<exists>hs c. s_world v = fold f hs w0 \<and> conns v self = Some c \<and>
     link_reach k self (s\<lparr>rcv_c := c, inbox := from_client self (hs @ m_qMessagesIn v)\<rparr>))"

lemma update_takes:
  assumes "handles cb f" and "Update cb n bWait v = Inr v'"
  shows "v' = v\<lparr>m_qMessagesIn := drop n (m_qMessagesIn v), s_world := fold f (take n (m_qMessagesIn v)) (s_world v)\<rparr>"
proof -
  have "m_qMessagesIn v \<noteq> [] \<or> \<not> bWait" using assms(2) by (auto simp: Update_def tsq_empty_def split: if_splits)
  then show ?thesis using update_handles_in_order[OF assms(1), of v bWait n] assms(2) by simp
qed

lemma served_heard:
  assumes cb: "handles cb f"
  shows "served k self cb w0 s v \<Longrightarrow> heard k self f w0 s v"
proof (induction rule: served.induct)
  case (v_init i v uid)
  have "(link_init i uid)\<lparr>rcv_c := rcv_c (link_init i uid), inbox := []\<rparr> = link_init i uid" by (simp add: link_init_def)
  then have "link_reach k self ((link_init i uid)\<lparr>rcv_c := rcv_c (link_init i uid), inbox := []\<rparr>)"
    using r_init[OF v_init(1)] by simp
  then show ?case using v_init(2-4) unfolding heard_def by (intro exI[of _ "[]"] exI) auto
next
  case (v_link s v c s')
  obtain hs where hs: "s_world v = fold f hs w0"
    and reach: "link_reach k self (s\<lparr>rcv_c := c, inbox := from_client self (hs @ m_qMessagesIn v)\<rparr>)"
    using v_link.IH v_link.hyps(2) unfolding heard_def by auto
  have "m_nOwnerType c = Server" using link_reach_inv[OF reach] by (simp add: recv_inv_def)
  then obtain new where new: "inbox s' = m_qMessagesIn v @ new" "from_client self new = new"
    "\<And>p. link_step k self (s\<lparr>rcv_c := c, inbox := p\<rparr>) (s'\<lparr>inbox := p @ new\<rparr>)"
    using link_step_inbox[OF v_link.hyps(3)] by auto
  have "link_reach k self (s'\<lparr>inbox := from_client self (hs @ m_qMessagesIn v) @ new\<rparr>)"
    by (rule r_step[OF reach new(3)])
  then have "link_reach k self (s'\<lparr>rcv_c := rcv_c s', inbox := from_client self (hs @ inbox s')\<rparr>)" using new(1,2) by simp
  then show ?case using hs unfolding heard_def by (intro exI[of _ hs] exI[of _ "rcv_c s'"]) simp
next
  case (v_other s v m)
  then show ?case unfolding heard_def by (simp add: tsq_push_back_def)
next
  case (v_conns s v a x)
  then show ?case unfolding heard_def by simp
next
  case (v_update s v n bWait v')
  obtain hs c where hs: "s_world v = fold f hs w0" "conns v self = Some c"
    "link_reach k self (s\<lparr>rcv_c := c, inbox := from_client self (hs @ m_qMessagesIn v)\<rparr>)"
    using v_update.IH unfolding heard_def by blast
  show ?case unfolding update_takes[OF cb v_update.hyps(2)] heard_def
    by (intro exI[of _ "hs @ take n (m_qMessagesIn v)"] exI[of _ c])
      (use hs in \<open>simp add: filter_append[symmetric] del: filter_append\<close>)
qed

text \<open>And every run of the link is a run of the server that has not updated yet.\<close>

definition server_of :: "nat \<Rightarrow> 'w \<Rightarrow> link \<Rightarrow> 'w server" where
  "server_of self w s = (new_server w)\<lparr>conns := [self \<mapsto> rcv_c s], m_qMessagesIn := inbox s\<rparr>"

lemma link_served: "link_reach k self s \<Longrightarrow> served k self cb w (s :: link) (server_of self w s)"
proof (induction rule: link_reach.induct)
  case (r_init i uid)
  then show ?case by (intro v_init) (simp_all add: server_of_def new_server_def link_init_def)
next
  case (r_step s s')
  have "s\<lparr>rcv_c := rcv_c s, inbox := m_qMessagesIn (server_of self w s)\<rparr> = s" by (simp add: server_of_def)
  then have "link_step k self (s\<lparr>rcv_c := rcv_c s, inbox := m_qMessagesIn (server_of self w s)\<rparr>) s'" using r_step(2) by simp
  from v_link[OF r_step.IH _ this] show ?case by (simp add: server_of_def)
qed

lemma server_hears_all:
  assumes "handles cb f" and "list_all (msg_ok k) ms" and "length ms \<le> n"
  shows "\<exists>s v. served k self cb w s v \<and> sent s = ms \<and> m_qMessagesIn v = [] \<and>
    s_world v = fold f (map (\<lambda>m. \<lparr>remote = Some self, omsg = m\<rparr>) (delivered [] ms)) w"
proof -
  obtain s where s: "link_reach k self s" "idle s" "sent s = ms" using schedule_exists[OF assms(2)] by blast
  let ?q = "map (\<lambda>m. \<lparr>remote = Some self, omsg = m\<rparr>) (delivered [] ms)" and ?v = "server_of self w s"
  have q: "m_qMessagesIn ?v = ?q"
    using delivered_all[OF s(1) idle_quiet[OF s(2)]] s(2,3) by (simp add: idle_def server_of_def)
  have l: "length (delivered [] ms) \<le> n" using assms(3) arg_cong[OF delivered_headers[of "[]" ms], of length] by simp
  obtain v' where v': "Update cb n False ?v = Inr v'"
    using update_loop_drain[OF assms(1)] tsq.drain_takes[of n "m_qMessagesIn ?v"] by (auto simp: Update_def)
  have "v' = ?v\<lparr>m_qMessagesIn := [], s_world := fold f ?q w\<rparr>"
    using update_takes[OF assms(1) v'] q l by (simp add: server_of_def new_server_def)
  then show ?thesis using v_update[OF link_served[OF s(1)] v'] s(3) by (intro exI[of _ s] exI[of _ v']) simp
qed

text \<open>
  C4. The messages of a client reach \<open>OnMessage\<close> in the order of its calls of \<open>Send\<close>: in every state of a
  server whose \<open>OnMessage\<close> handles messages by \<open>f\<close>, whatever other clients push in between, whichever
  operations fail, and however \<open>Update\<close> is called, what \<open>OnMessage\<close> has handled of this client and what still
  waits in the queue is together a prefix of what the client sent: the headers exactly, the bodies too when
  no message of the prefix is empty.
\<close>

theorem server_handles_in_order:
  assumes "handles cb f" and "served k self cb w0 s v"
  shows "\<exists>hs ms. s_world v = fold f hs w0 \<and> prefix ms (sent s) \<and>
    map (\<lambda>m. header (omsg m)) (from_client self hs @ from_client self (m_qMessagesIn v)) = map header ms \<and>
    ((\<forall>m \<in> set ms. hd_size (header m) \<noteq> 0) \<longrightarrow>
       map omsg (from_client self hs @ from_client self (m_qMessagesIn v)) = ms)"
proof -
  obtain hs c where hs: "s_world v = fold f hs w0"
    "link_reach k self (s\<lparr>rcv_c := c, inbox := from_client self (hs @ m_qMessagesIn v)\<rparr>)"
    using served_heard[OF assms] unfolding heard_def by blast
  obtain ms where ms: "prefix ms (sent s)"
    "from_client self hs @ from_client self (m_qMessagesIn v) = map (\<lambda>m. \<lparr>remote = Some self, omsg = m\<rparr>) (delivered [] ms)"
    using delivered_prefix[OF hs(2)] by auto
  have "map (\<lambda>m. header (omsg m)) (from_client self hs @ from_client self (m_qMessagesIn v)) = map header ms"
    unfolding ms(2) using delivered_headers[of "[]" ms] by (simp add: o_def)
  moreover have "map omsg (from_client self hs @ from_client self (m_qMessagesIn v)) = delivered [] ms"
    unfolding ms(2) by (simp add: o_def)
  ultimately show ?thesis using hs(1) ms(1) delivered_id[of ms "[]"] by metis
qed

text \<open>Two letters, both handled.\<close>

theorem server_handles_in_order_witness:
  "\<exists>s v hs ms. served 4 0 log_callbacks [] s v \<and> sent s = [letter [1], letter [2, 3]] \<and> s_world v = [1, 2] \<and>
    s_world v = fold (\<lambda>m w. w @ [length (body (omsg m))]) hs [] \<and> prefix ms (sent s) \<and>
    map (\<lambda>m. header (omsg m)) (from_client 0 hs @ from_client 0 (m_qMessagesIn v)) = map header ms"
proof -
  have h: "handles log_callbacks (\<lambda>m w. w @ [length (body (omsg m))])" by (simp add: handles_def log_callbacks_def)
  have "list_all (msg_ok 4) [letter [1], letter [2, 3]]" by (simp add: letter_ok)
  from server_hears_all[OF h this, of 2 0 "[]"] obtain s v where
    s: "served 4 0 log_callbacks [] s v" "sent s = [letter [1], letter [2, 3]]" "s_world v = [1, 2]"
    by (auto simp: letter_def set_size_def msg_size_def new_message_def)
  from server_handles_in_order[OF h s(1)] show ?thesis
    by (elim exE conjE, intro exI conjI) (rule s(1), rule s(2), rule s(3), assumption, assumption, assumption)
qed

end
