(* ===== verification/Client_Base.thy ===== *)
theory Client_Base
  imports Transport
begin

text \<open>
  \<open>Netzwerk/ClientBase.h\<close>. The client owns an \<open>io_context\<close>, the thread that runs it and one
  connection. Handlers of the connection run only while that thread is inside \<open>run()\<close> and the
  context is not stopped. \<open>leaked\<close> records connections that nobody owns any more.
\<close>

record client =
  m_connection :: "connection option"
  cl_stopped :: bool
  thrContext :: bool
  cl_qMessagesIn :: "owned_message tsqueue"
  leaked :: "connection list"

definition new_client :: client where
  "new_client = \<lparr>m_connection = None, cl_stopped = False, thrContext = False, cl_qMessagesIn = [], leaked = []\<rparr>"

text \<open>
  \<open>resolveOk\<close> and \<open>threadOk\<close>: the calls that can throw inside the \<open>try\<close>. Assigning to a joinable
  \<open>std::thread\<close> calls \<open>std::terminate\<close>.
\<close>

definition Connect :: "bool \<Rightarrow> bool \<Rightarrow> byte list \<Rightarrow> client \<Rightarrow> (bool \<times> client) result" where
  "Connect resolveOk threadOk idRep cl =
     (if \<not> resolveOk then Inr (False, cl)
      else
        let cl = cl\<lparr>m_connection := Some (ConnectToServer (new_connection Client idRep False))\<rparr> in
        if \<not> threadOk then Inr (False, cl)
        else if thrContext cl then Inl (Exception ''terminate'')
        else Inr (True, cl\<lparr>thrContext := True\<rparr>))"

definition cl_IsConnected :: "client \<Rightarrow> bool" where
  "cl_IsConnected cl = (case m_connection cl of Some c \<Rightarrow> IsConnected c | None \<Rightarrow> False)"

definition cl_Disconnect :: "client \<Rightarrow> client" where
  "cl_Disconnect cl =
     (let cl = (if cl_IsConnected cl then cl\<lparr>m_connection := map_option Disconnect (m_connection cl)\<rparr> else cl);
          cl = cl\<lparr>cl_stopped := True, thrContext := False\<rparr> in
      cl\<lparr>m_connection := None, leaked := leaked cl @ (case m_connection cl of None \<Rightarrow> [] | Some c \<Rightarrow> [c])\<rparr>)"

definition cl_Send :: "message \<Rightarrow> client \<Rightarrow> client" where
  "cl_Send msg cl = (if cl_IsConnected cl then cl\<lparr>m_connection := map_option (Send msg) (m_connection cl)\<rparr> else cl)"

definition Incoming :: "client \<Rightarrow> owned_message tsqueue" where
  "Incoming cl = cl_qMessagesIn cl"

text \<open>
  \<open>m_context.run()\<close> executes ready handlers; \<open>io_context::run\<close> returns at once on a stopped context
  that was not restarted, and nothing in the repository calls \<open>restart\<close>.
\<close>

inductive client_step :: "client \<Rightarrow> client \<Rightarrow> bool" where
  c_connected: "thrContext cl \<Longrightarrow> \<not> cl_stopped cl \<Longrightarrow> m_connection cl = Some c \<Longrightarrow> pending_connect c = Suc n \<Longrightarrow>
     client_step cl (cl\<lparr>m_connection := Some (on_connected ec (c\<lparr>pending_connect := n\<rparr>))\<rparr>)"
| c_task: "thrContext cl \<Longrightarrow> \<not> cl_stopped cl \<Longrightarrow> m_connection cl = Some c \<Longrightarrow> posted c = t # ts \<Longrightarrow>
     run_task t (c\<lparr>posted := ts\<rparr>) = Inr c' \<Longrightarrow> client_step cl (cl\<lparr>m_connection := Some c'\<rparr>)"
| c_write: "thrContext cl \<Longrightarrow> \<not> cl_stopped cl \<Longrightarrow> m_connection cl = Some c \<Longrightarrow> pending_write c = op # ops \<Longrightarrow>
     on_written op ec (c\<lparr>pending_write := ops\<rparr>) = Inr c' \<Longrightarrow> client_step cl (cl\<lparr>m_connection := Some c'\<rparr>)"
| c_read: "thrContext cl \<Longrightarrow> \<not> cl_stopped cl \<Longrightarrow> m_connection cl = Some c \<Longrightarrow> pending_read c = rop # rops \<Longrightarrow>
     on_read 0 rop ec (fill rop bs (c\<lparr>pending_read := rops\<rparr>)) (cl_qMessagesIn cl) = Inr (c', q) \<Longrightarrow>
     client_step cl (cl\<lparr>m_connection := Some c', cl_qMessagesIn := q\<rparr>)"

inductive_cases client_stepE: "client_step cl cl'"

lemma client_step_running: "client_step cl cl' \<Longrightarrow> thrContext cl \<and> \<not> cl_stopped cl"
  by (erule client_step.cases) simp_all

text \<open>The connection can be used: connecting succeeded and a handler has run.\<close>

lemma connect_then_read:
  assumes "Connect True True i new_client = Inr (b, cl)"
  shows "b \<and> \<not> cl_IsConnected cl \<and> (\<exists>cl'. client_step cl cl' \<and> cl_IsConnected cl')"
proof -
  let ?c = "ConnectToServer (new_connection Client i False)"
  have cl: "cl = new_client\<lparr>m_connection := Some ?c, thrContext := True\<rparr>" and b: b
    using assms by (simp_all add: Connect_def new_client_def)
  have "pending_connect ?c = Suc 0" by (simp add: ConnectToServer_def new_connection_def)
  then have "client_step cl (cl\<lparr>m_connection := Some (on_connected False (?c\<lparr>pending_connect := 0\<rparr>))\<rparr>)"
    by (intro client_step.c_connected) (simp_all add: cl new_client_def)
  moreover have "\<not> cl_IsConnected cl"
    by (simp add: cl cl_IsConnected_def IsConnected_def ConnectToServer_def new_connection_def)
  ultimately show ?thesis using b
    by (auto simp: cl_IsConnected_def IsConnected_def on_connected_def ReadHeader_def
        intro!: exI[of _ "cl\<lparr>m_connection := Some (on_connected False (?c\<lparr>pending_connect := 0\<rparr>))\<rparr>"])
qed

lemma disconnect_stops: "\<not> client_step (cl_Disconnect cl) cl'"
  using client_step_running[of "cl_Disconnect cl" cl'] by (auto simp: cl_Disconnect_def Let_def)

lemma disconnect_leaks:
  assumes "m_connection cl = Some c" and "is_open c"
  shows "leaked (cl_Disconnect cl) = leaked cl @ [c\<lparr>posted := posted c @ [CloseTask]\<rparr>]"
  using assms by (simp add: cl_Disconnect_def cl_IsConnected_def IsConnected_def Disconnect_def Let_def)

lemma reconnect_dead:
  assumes "Connect True True i (cl_Disconnect cl) = Inr (b, cl')"
  shows "b \<and> \<not> client_step cl' cl''"
  using assms client_step_running[of cl' cl'']
  by (auto simp: Connect_def cl_Disconnect_def Let_def split: if_splits)



section \<open>Properties\<close>

text \<open>
  \<open>Disconnect\<close> posts the closing of the socket and then stops the context before it can run: no
  handler ever runs again, and the released connection is left over with its socket still open.
\<close>

theorem disconnect_never_closes:
  assumes "m_connection cl = Some c" and "is_open c"
  shows "\<not> cl_IsConnected (cl_Disconnect cl) \<and>
    leaked (cl_Disconnect cl) = leaked cl @ [c\<lparr>posted := posted c @ [CloseTask]\<rparr>] \<and>
    (\<forall>cl'. \<not> client_step (cl_Disconnect cl) cl')"
  using disconnect_leaks[OF assms] disconnect_stops[of cl] by (simp add: cl_Disconnect_def cl_IsConnected_def Let_def)

theorem disconnect_never_closes_witness:
  "\<exists>cl. cl_IsConnected cl \<and> (\<exists>c. leaked (cl_Disconnect cl) = [c] \<and> is_open c) \<and> (\<forall>cl'. \<not> client_step (cl_Disconnect cl) cl')"
proof -
  let ?c = "new_connection Client [0] True" and ?cl = "new_client\<lparr>m_connection := Some (new_connection Client [0] True)\<rparr>"
  have "m_connection ?cl = Some ?c" "is_open ?c" by (simp_all add: new_connection_def)
  from disconnect_never_closes[OF this] show ?thesis
    by (intro exI[of _ ?cl]) (simp add: cl_IsConnected_def IsConnected_def new_connection_def new_client_def)
qed

text \<open>
  C26. A client that was disconnected once cannot be used again: \<open>Connect\<close> reports success, but the
  stopped context runs no handler, so the connection is never established.
\<close>

theorem reconnect_is_dead:
  assumes "Connect True True i (cl_Disconnect cl) = Inr (b, cl')"
  shows "b \<and> \<not> cl_IsConnected cl' \<and> \<not> client_step cl' cl''"
proof -
  have "b \<and> \<not> cl_IsConnected cl'"
    using assms by (auto simp: Connect_def Let_def cl_IsConnected_def IsConnected_def ConnectToServer_def new_connection_def
        split: if_splits)
  then show ?thesis using reconnect_dead[OF assms] by blast
qed

theorem reconnect_is_dead_witness:
  "\<exists>cl. Connect True True [0] (cl_Disconnect new_client) = Inr (True, cl) \<and> \<not> cl_IsConnected cl \<and> (\<forall>cl'. \<not> client_step cl cl')"
proof -
  obtain cl where cl: "Connect True True [0] (cl_Disconnect new_client) = Inr (True, cl)"
    by (simp add: Connect_def cl_Disconnect_def new_client_def Let_def)
  then show ?thesis using reconnect_is_dead[OF cl] by blast
qed


end
