(* ===== verification/Inventar.thy ===== *)
theory Inventar
  imports Base_Storage
begin

text \<open>
  \<open>Application/SiedlerServer/Inventar.h\<close>: the items of the players. Sizes are \<open>size_t\<close>, so
  \<open>inventorys.size() - 1\<close> wraps on an empty vector; counts are \<open>int\<close> and must not overflow.
  Members without an initialiser are \<open>None\<close>.
\<close>

record item =
  item_id :: int
  item_name :: string
  valueMarcet :: int
  valueHabour :: int

record player_inventory =
  playerID :: int
  streetCount :: "int option"
  cityCount :: "int option"
  villageCount :: "int option"
  ownedItems :: "(item \<times> int) list"
  hasHabour :: "bool list"

record inventar =
  knownItems :: "item list"
  inventorys :: "player_inventory list"

definition new_inventar :: inventar where
  "new_inventar = \<lparr>knownItems = [], inventorys = []\<rparr>"

definition getMaxItemCount :: "inventar \<Rightarrow> int" where
  "getMaxItemCount iv = int_of_size (length (knownItems iv))"

text \<open>The constructor copies the known items of the singleton; \<open>playerID\<close> is set by the caller.\<close>

definition new_playerInventory :: "inventar \<Rightarrow> int \<Rightarrow> player_inventory" where
  "new_playerInventory iv i = \<lparr>playerID = i, streetCount = None, cityCount = None, villageCount = None,
     ownedItems = map (\<lambda>k. (knownItems iv ! k, 0)) [0..<nat (getMaxItemCount iv)],
     hasHabour = replicate (nat (getMaxItemCount iv)) False\<rparr>"

definition addPlayer :: "inventar \<Rightarrow> nat \<times> inventar" where
  "addPlayer iv =
     (let n = length (inventorys iv) in
      (n, iv\<lparr>inventorys := inventorys iv @ [new_playerInventory iv (int_of_size n)]\<rparr>))"

definition size_minus_1 :: "nat \<Rightarrow> nat" where
  "size_minus_1 n = (if n = 0 then 18446744073709551615 else n - 1)"

text \<open>The two guards that open all three operations; both compare with the number of players.\<close>

definition rejects :: "int \<Rightarrow> (int \<times> int) list \<Rightarrow> inventar \<Rightarrow> bool" where
  "rejects i count iv \<longleftrightarrow>
     (i < 0 \<or> size_minus_1 (length (inventorys iv)) < size_of_int i) \<or>
     size_minus_1 (length (inventorys iv)) < length count"

definition owned_at :: "int \<Rightarrow> int \<Rightarrow> inventar \<Rightarrow> int result" where
  "owned_at i k iv =
     bindR (vec_at (inventorys iv) (size_of_int i)) (\<lambda>p.
     bindR (vec_at (ownedItems p) (size_of_int k)) (\<lambda>e. Inr (snd e)))"

definition set_owned :: "int \<Rightarrow> int \<Rightarrow> int \<Rightarrow> inventar \<Rightarrow> inventar result" where
  "set_owned i k v iv =
     bindR (vec_at (inventorys iv) (size_of_int i)) (\<lambda>p.
     bindR (vec_at (ownedItems p) (size_of_int k)) (\<lambda>e.
     Inr (iv\<lparr>inventorys := (inventorys iv)[size_of_int i :=
        p\<lparr>ownedItems := (ownedItems p)[size_of_int k := (fst e, v)]\<rparr>]\<rparr>)))"

fun has_loop :: "int \<Rightarrow> (int \<times> int) list \<Rightarrow> inventar \<Rightarrow> bool result" where
  "has_loop i [] iv = Inr True"
| "has_loop i (c # cs) iv =
     bindR (owned_at i (fst c) iv) (\<lambda>n. if n < snd c then Inr False else has_loop i cs iv)"

definition hasPlayerItems :: "int \<Rightarrow> (int \<times> int) list \<Rightarrow> inventar \<Rightarrow> bool result" where
  "hasPlayerItems i count iv = (if rejects i count iv then Inr False else has_loop i count iv)"

definition remove_turn :: "int \<Rightarrow> int \<times> int \<Rightarrow> inventar \<Rightarrow> inventar result" where
  "remove_turn i c iv =
     bindR (owned_at i (fst c) iv) (\<lambda>n.
     bindR (checked_int (n - snd c)) (\<lambda>v.
     bindR (set_owned i (fst c) v iv) (\<lambda>iv.
     if v < 0 then set_owned i (fst c) 0 iv else Inr iv)))"

definition removeItemFromPlayer :: "int \<Rightarrow> (int \<times> int) list \<Rightarrow> inventar \<Rightarrow> inventar result" where
  "removeItemFromPlayer i count iv = (if rejects i count iv then Inr iv else foldR (remove_turn i) count iv)"

definition add_turn :: "int \<Rightarrow> int \<times> int \<Rightarrow> inventar \<Rightarrow> inventar result" where
  "add_turn i c iv =
     bindR (owned_at i (fst c) iv) (\<lambda>n.
     bindR (checked_int (n + snd c)) (\<lambda>v. set_owned i (fst c) v iv))"

definition addItemtoPlayer :: "int \<Rightarrow> (int \<times> int) list \<Rightarrow> inventar \<Rightarrow> inventar result" where
  "addItemtoPlayer i count iv = (if rejects i count iv then Inr iv else foldR (add_turn i) count iv)"


section \<open>The table of counts\<close>

text \<open>The abstract state: how many of item \<open>k\<close> player \<open>i\<close> owns.\<close>

definition owns :: "inventar \<Rightarrow> nat \<Rightarrow> nat \<Rightarrow> int option" where
  "owns iv i k = (if i < length (inventorys iv) \<and> k < length (ownedItems (inventorys iv ! i))
     then Some (snd (ownedItems (inventorys iv ! i) ! k)) else None)"

lemma owned_at_owns:
  assumes "int_ok (int i)" and "int_ok (int k)" and "owns iv i k = Some n"
  shows "owned_at (int i) (int k) iv = Inr n"
  using assms by (auto simp: owns_def owned_at_def prod_eq_iff split: if_splits)

lemma set_owned_owns:
  assumes "int_ok (int i)" and "int_ok (int k)" and "owns iv i k = Some n"
  shows "\<exists>iv'. set_owned (int i) (int k) v iv = Inr iv' \<and> owns iv' = (\<lambda>a b. if a = i \<and> b = k then Some v else owns iv a b) \<and>
    length (inventorys iv') = length (inventorys iv)"
proof -
  have i: "i < length (inventorys iv)" and k: "k < length (ownedItems (inventorys iv ! i))"
    using assms(3) by (auto simp: owns_def split: if_splits)
  let ?p = "inventorys iv ! i"
  let ?iv = "iv\<lparr>inventorys := (inventorys iv)[i := ?p\<lparr>ownedItems := (ownedItems ?p)[k := (fst (ownedItems ?p ! k), v)]\<rparr>]\<rparr>"
  have "set_owned (int i) (int k) v iv = Inr ?iv"
    using assms(1,2) i k by (simp add: set_owned_def)
  moreover have "owns ?iv = (\<lambda>a b. if a = i \<and> b = k then Some v else owns iv a b)"
    using i k by (auto simp: owns_def fun_eq_iff nth_list_update)
  ultimately show ?thesis by simp
qed

text \<open>The items of a request exist, and neither its amounts nor the counts they meet are negative.\<close>

definition amounts_ok :: "inventar \<Rightarrow> nat \<Rightarrow> (int \<times> int) list \<Rightarrow> bool" where
  "amounts_ok iv i count \<longleftrightarrow> int_ok (int i) \<and>
     list_all (\<lambda>(k, c). 0 \<le> k \<and> int_ok k \<and> 0 \<le> c \<and> int_ok c \<and>
        (case owns iv i (nat k) of None \<Rightarrow> False | Some n \<Rightarrow> 0 \<le> n \<and> int_ok n)) count"

text \<open>A request that also names every item once.\<close>

definition request_ok :: "inventar \<Rightarrow> nat \<Rightarrow> (int \<times> int) list \<Rightarrow> bool" where
  "request_ok iv i count \<longleftrightarrow> amounts_ok iv i count \<and> distinct (map fst count)"

text \<open>Adding them does not overflow.\<close>

definition room_for :: "inventar \<Rightarrow> nat \<Rightarrow> (int \<times> int) list \<Rightarrow> bool" where
  "room_for iv i count \<longleftrightarrow> list_all (\<lambda>(k, c). \<forall>n. owns iv i (nat k) = Some n \<longrightarrow> int_ok (n + c)) count"

lemmas request_defs = request_ok_def amounts_ok_def

definition count_of :: "(int \<times> int) list \<Rightarrow> nat \<Rightarrow> int" where
  "count_of count k = (case map_of count (int k) of None \<Rightarrow> 0 | Some c \<Rightarrow> c)"

lemma request_Cons:
  assumes "request_ok iv i ((k, c) # count)"
  shows "\<exists>m n. k = int m \<and> int_ok (int i) \<and> int_ok (int m) \<and> 0 \<le> c \<and> int_ok c \<and> owns iv i m = Some n \<and> 0 \<le> n \<and> int_ok n \<and>
    int m \<notin> fst ` set count \<and> request_ok iv i count"
proof -
  have "0 \<le> k" using assms by (simp add: request_defs)
  then have "k = int (nat k)" by simp
  moreover obtain n where "owns iv i (nat k) = Some n"
    using assms by (auto simp: request_defs split: option.splits)
  ultimately show ?thesis using assms
    by (intro exI[of _ "nat k"] exI[of _ n]) (auto simp: request_defs)
qed

lemma request_frame:
  assumes "request_ok iv i count" and "int m \<notin> fst ` set count"
    and "owns iv' = (\<lambda>a b. if a = i \<and> b = m then Some v else owns iv a b)"
  shows "request_ok iv' i count"
proof -
  have "owns iv' i (nat k) = owns iv i (nat k)" if "(k, c) \<in> set count" "0 \<le> k" for k c
    using that assms(2,3) by (auto simp: image_iff)
  then show ?thesis using assms(1) by (auto simp: request_defs list_all_iff)
qed

lemma has_loop_iff:
  assumes "request_ok iv i count"
  shows "has_loop (int i) count iv = Inr (\<forall>(k, c) \<in> set count. \<exists>n. owns iv i (nat k) = Some n \<and> c \<le> n)"
  using assms
proof (induction count)
  case Nil
  then show ?case by simp
next
  case (Cons p count)
  obtain k c where p: "p = (k, c)" by (cases p)
  obtain m n where m: "k = int m" "int_ok (int i)" "int_ok (int m)" "owns iv i m = Some n" "request_ok iv i count"
    using request_Cons[of iv i k c count] Cons.prems p by blast
  then show ?case using owned_at_owns[OF m(2,3,4)] Cons.IH p by auto
qed

lemma room_frame:
  assumes "room_for iv i count" and "request_ok iv i count" and "int m \<notin> fst ` set count"
    and "owns iv' = (\<lambda>a b. if a = i \<and> b = m then Some v else owns iv a b)"
  shows "room_for iv' i count"
proof -
  have "owns iv' i (nat k) = owns iv i (nat k)" if "(k, c) \<in> set count" for k c
  proof -
    have "0 \<le> k" using assms(2) that by (auto simp: request_defs list_all_iff)
    then show ?thesis using that assms(3,4) by (auto simp: image_iff)
  qed
  then show ?thesis using assms(1) by (fastforce simp: room_for_def list_all_iff)
qed

lemma add_loop:
  assumes "request_ok iv i count" and "room_for iv i count"
  shows "\<exists>iv'. foldR (add_turn (int i)) count iv = Inr iv' \<and> length (inventorys iv') = length (inventorys iv) \<and>
    owns iv' = (\<lambda>a b. if a = i then map_option (\<lambda>n. n + count_of count b) (owns iv a b) else owns iv a b)"
  using assms
proof (induction count arbitrary: iv)
  case Nil
  have "map_option (\<lambda>n. n) x = x" for x :: "int option" by (cases x) simp_all
  then show ?case by (simp add: count_of_def fun_eq_iff)
next
  case (Cons p count)
  obtain k c where p: "p = (k, c)" by (cases p)
  obtain m n where m: "k = int m" "int_ok (int i)" "int_ok (int m)" "owns iv i m = Some n" "int_ok (n + c)"
      "int m \<notin> fst ` set count" "request_ok iv i count"
  proof -
    obtain m n where *: "k = int m" "int_ok (int i)" "int_ok (int m)" "owns iv i m = Some n"
        "int m \<notin> fst ` set count" "request_ok iv i count"
      using request_Cons[of iv i k c count] Cons.prems(1) p by blast
    moreover have "int_ok (n + c)" using Cons.prems(2) p *(1,4) by (simp add: room_for_def)
    ultimately show thesis using that by blast
  qed
  have rm: "room_for iv i count" using Cons.prems(2) by (simp add: room_for_def)
  obtain inv1 where inv1: "set_owned (int i) (int m) (n + c) iv = Inr inv1"
      "owns inv1 = (\<lambda>a b. if a = i \<and> b = m then Some (n + c) else owns iv a b)"
      "length (inventorys inv1) = length (inventorys iv)"
    using set_owned_owns[OF m(2,3,4)] by blast
  then have "add_turn (int i) p iv = Inr inv1"
    using owned_at_owns[OF m(2,3,4)] m(1,5) p by (simp add: add_turn_def)
  moreover obtain iv' where iv': "foldR (add_turn (int i)) count inv1 = Inr iv'"
      "length (inventorys iv') = length (inventorys inv1)"
      "owns iv' = (\<lambda>a b. if a = i then map_option (\<lambda>n. n + count_of count b) (owns inv1 a b) else owns inv1 a b)"
    using Cons.IH[OF request_frame[OF m(7,6) inv1(2)] room_frame[OF rm m(7,6) inv1(2)]] by blast
  moreover have none: "map_of count (int m) = None" using m(6) by (simp add: map_of_eq_None_iff)
  moreover have "owns iv' = (\<lambda>a b. if a = i then map_option (\<lambda>n. n + count_of (p # count) b) (owns iv a b) else owns iv a b)"
    unfolding iv'(3) inv1(2) using m(1,4) p none by (auto simp: fun_eq_iff count_of_def)
  ultimately show ?case using inv1(3) by auto
qed

lemma remove_turn_owns:
  assumes "int_ok (int i)" "int_ok (int k)" and n: "owns iv i k = Some n" and "int_ok (n - c)"
  shows "\<exists>iv'. remove_turn (int i) (int k, c) iv = Inr iv' \<and> length (inventorys iv') = length (inventorys iv) \<and>
    owns iv' = (\<lambda>a b. if a = i \<and> b = k then Some (max 0 (n - c)) else owns iv a b)"
proof -
  obtain inv0 where inv0: "set_owned (int i) (int k) (n - c) iv = Inr inv0"
      "owns inv0 = (\<lambda>a b. if a = i \<and> b = k then Some (n - c) else owns iv a b)"
      "length (inventorys inv0) = length (inventorys iv)"
    using set_owned_owns[OF assms(1-3)] by blast
  have "owns inv0 i k = Some (n - c)" using inv0(2) by simp
  from set_owned_owns[OF assms(1,2) this, of 0] obtain inv00 where inv00: "set_owned (int i) (int k) 0 inv0 = Inr inv00"
      "owns inv00 = (\<lambda>a b. if a = i \<and> b = k then Some 0 else owns inv0 a b)"
      "length (inventorys inv00) = length (inventorys inv0)" by blast
  let ?iv = "if n - c < 0 then inv00 else inv0"
  have "remove_turn (int i) (int k, c) iv = Inr ?iv"
    using owned_at_owns[OF assms(1-3)] assms(4) inv0(1) inv00(1) by (simp add: remove_turn_def)
  moreover have "owns ?iv = (\<lambda>a b. if a = i \<and> b = k then Some (max 0 (n - c)) else owns iv a b)"
    using inv0(2) inv00(2) by (auto simp: fun_eq_iff)
  ultimately show ?thesis using inv0(3) inv00(3) by auto
qed

lemma remove_loop:
  assumes "request_ok iv i count"
  shows "\<exists>iv'. foldR (remove_turn (int i)) count iv = Inr iv' \<and> length (inventorys iv') = length (inventorys iv) \<and>
    owns iv' = (\<lambda>a b. if a = i \<and> int b \<in> fst ` set count
       then map_option (\<lambda>n. max 0 (n - count_of count b)) (owns iv a b) else owns iv a b)"
  using assms
proof (induction count arbitrary: iv)
  case Nil
  then show ?case by (simp add: fun_eq_iff)
next
  case (Cons p count)
  obtain k c where p: "p = (k, c)" by (cases p)
  obtain m n where m: "k = int m" "int_ok (int i)" "int_ok (int m)" "owns iv i m = Some n" "0 \<le> c" "0 \<le> n" "int_ok n"
      "int_ok c" "int m \<notin> fst ` set count" "request_ok iv i count"
    using request_Cons[of iv i k c count] Cons.prems p by blast
  have nc: "int_ok (n - c)" using m by (simp add: int_ok_def)
  obtain inv1 where inv1: "remove_turn (int i) p iv = Inr inv1"
      "owns inv1 = (\<lambda>a b. if a = i \<and> b = m then Some (max 0 (n - c)) else owns iv a b)"
      "length (inventorys inv1) = length (inventorys iv)"
    using remove_turn_owns[OF m(2,3,4) nc] p m(1) by auto
  moreover obtain iv' where iv': "foldR (remove_turn (int i)) count inv1 = Inr iv'"
      "length (inventorys iv') = length (inventorys inv1)"
      "owns iv' = (\<lambda>a b. if a = i \<and> int b \<in> fst ` set count
       then map_option (\<lambda>n. max 0 (n - count_of count b)) (owns inv1 a b) else owns inv1 a b)"
    using Cons.IH[OF request_frame[OF m(10,9) inv1(2)]] by blast
  moreover have "owns iv' = (\<lambda>a b. if a = i \<and> int b \<in> fst ` set (p # count)
       then map_option (\<lambda>n. max 0 (n - count_of (p # count) b)) (owns iv a b) else owns iv a b)"
    unfolding iv'(3) inv1(2) using m(1,4,9) p by (auto simp: fun_eq_iff count_of_def)
  ultimately show ?case using inv1(1,3) by auto
qed



section \<open>The operations on the table\<close>

lemma rejects_range:
  assumes "int_ok (int i)" and "0 < length (inventorys iv)"
  shows "rejects (int i) count iv \<longleftrightarrow> length (inventorys iv) \<le> i \<or> length (inventorys iv) \<le> length count"
proof -
  have "size_minus_1 (length (inventorys iv)) < m \<longleftrightarrow> length (inventorys iv) \<le> m" for m
    using assms(2) unfolding size_minus_1_def by (cases "length (inventorys iv)") auto
  then show ?thesis using assms(1) by (simp add: rejects_def)
qed

lemma hasPlayerItems_iff:
  assumes "request_ok iv i count" and "\<not> rejects (int i) count iv"
  shows "hasPlayerItems (int i) count iv = Inr (\<forall>(k, c) \<in> set count. \<exists>n. owns iv i (nat k) = Some n \<and> c \<le> n)"
  using has_loop_iff[OF assms(1)] assms(2) by (simp add: hasPlayerItems_def)

lemma add_owns:
  assumes "request_ok iv i count" and "room_for iv i count" and "\<not> rejects (int i) count iv"
  shows "\<exists>iv'. addItemtoPlayer (int i) count iv = Inr iv' \<and> length (inventorys iv') = length (inventorys iv) \<and>
    owns iv' = (\<lambda>a b. if a = i then map_option (\<lambda>n. n + count_of count b) (owns iv a b) else owns iv a b)"
  using add_loop[OF assms(1,2)] assms(3) by (simp add: addItemtoPlayer_def)

lemma remove_owns:
  assumes "request_ok iv i count" and "\<not> rejects (int i) count iv"
  shows "\<exists>iv'. removeItemFromPlayer (int i) count iv = Inr iv' \<and> length (inventorys iv') = length (inventorys iv) \<and>
    owns iv' = (\<lambda>a b. if a = i \<and> int b \<in> fst ` set count
       then map_option (\<lambda>n. max 0 (n - count_of count b)) (owns iv a b) else owns iv a b)"
  using remove_loop[OF assms(1)] assms(2) by (simp add: removeItemFromPlayer_def)

lemma count_of_notin: "int b \<notin> fst ` set count \<Longrightarrow> count_of count b = 0"
  using map_of_eq_None_iff[of count "int b"] by (simp add: count_of_def)

text \<open>A purchase that \<open>hasPlayerItems\<close> allows takes exactly the requested amounts.\<close>

lemma pay:
  assumes r: "request_ok iv i count" and n: "\<not> rejects (int i) count iv"
    and h: "hasPlayerItems (int i) count iv = Inr True"
  shows "\<exists>iv'. removeItemFromPlayer (int i) count iv = Inr iv' \<and>
    owns iv' = (\<lambda>a b. if a = i then map_option (\<lambda>n. n - count_of count b) (owns iv a b) else owns iv a b)"
proof -
  obtain iv' where iv': "removeItemFromPlayer (int i) count iv = Inr iv'"
    "owns iv' = (\<lambda>a b. if a = i \<and> int b \<in> fst ` set count
       then map_option (\<lambda>n. max 0 (n - count_of count b)) (owns iv a b) else owns iv a b)"
    using remove_owns[OF r n] by blast
  have all: "\<forall>(k, c) \<in> set count. \<exists>n. owns iv i (nat k) = Some n \<and> c \<le> n"
    using h hasPlayerItems_iff[OF r n] by simp
  have "count_of count b \<le> m" if "int b \<in> fst ` set count" "owns iv i b = Some m" for b m
  proof -
    from that(1) have "\<exists>c. (int b, c) \<in> set count" by auto
    then obtain c where c: "(int b, c) \<in> set count" by blast
    then have "map_of count (int b) = Some c" using r by (simp add: request_defs)
    then show ?thesis using bspec[OF all c] that(2) by (simp add: count_of_def)
  qed
  moreover have "map_option (\<lambda>n. n) x = x" for x :: "int option" by (cases x) simp_all
  ultimately have "owns iv' = (\<lambda>a b. if a = i then map_option (\<lambda>n. n - count_of count b) (owns iv a b) else owns iv a b)"
    unfolding iv'(2)
    by (auto simp: fun_eq_iff map_option_case max_def count_of_notin split: option.split)
  then show ?thesis using iv'(1) by blast
qed

text \<open>The guard counts players, not items: a lone player is refused every request.\<close>

lemma lone_player_gets_nothing:
  assumes "length (inventorys iv) = 1" and "count \<noteq> []"
  shows "addItemtoPlayer i count iv = Inr iv" and "hasPlayerItems i count iv = Inr False"
proof -
  have "rejects i count iv" using assms by (cases count) (simp_all add: rejects_def size_minus_1_def)
  then show "addItemtoPlayer i count iv = Inr iv" and "hasPlayerItems i count iv = Inr False"
    by (simp_all add: addItemtoPlayer_def hasPlayerItems_def)
qed

text \<open>Without any player the wrapped bound lets every identifier through.\<close>

lemma no_player_undefined:
  assumes "inventorys iv = []" and "0 \<le> i" "int_ok i" and "length (c # cs) < 18446744073709551615"
  shows "hasPlayerItems i (c # cs) iv = Inl (Undefined OutOfBounds)"
  using assms by (simp add: hasPlayerItems_def rejects_def size_minus_1_def owned_at_def int_ok_def)




section \<open>Properties\<close>

text \<open>Two players; player 0 owns three of item 0 and one of item 1.\<close>

definition two_players :: inventar where
  "two_players = (let k = \<lparr>item_id = 0, item_name = ''holz'', valueMarcet = 1, valueHabour = 1\<rparr>;
     p = \<lparr>playerID = 0, streetCount = None, cityCount = None, villageCount = None,
          ownedItems = [(k, 3), (k, 1)], hasHabour = [False, False]\<rparr> in
     \<lparr>knownItems = [k, k], inventorys = [p, p\<lparr>playerID := 1\<rparr>]\<rparr>)"

lemma two_players_ok: "request_ok two_players 0 [(0, 2)]" "\<not> rejects (int 0) [(0, 2)] two_players"
  by (simp_all add: request_defs two_players_def owns_def rejects_def size_minus_1_def int_ok_def Let_def)

text \<open>
  C28. A request that names every item once, with amounts and counts that are not negative, and that
  \<open>hasPlayerItems\<close> grants can be paid: \<open>removeItemFromPlayer\<close> takes exactly the requested amounts from
  that player and touches nothing else, so no count is cut off at zero.
\<close>

theorem granted_request_is_paid:
  assumes "amounts_ok iv i count" and "distinct (map fst count)" and "\<not> rejects (int i) count iv" and "hasPlayerItems (int i) count iv = Inr True"
  shows "\<exists>iv'. removeItemFromPlayer (int i) count iv = Inr iv' \<and>
    owns iv' = (\<lambda>a b. if a = i then map_option (\<lambda>n. n - count_of count b) (owns iv a b) else owns iv a b)"
  by (rule pay[OF _ assms(3,4)]) (simp add: request_ok_def assms(1,2))

theorem granted_request_is_paid_witness:
  "\<exists>iv'. removeItemFromPlayer 0 [(0, 2)] two_players = Inr iv' \<and> owns iv' 0 0 = Some 1"
proof -
  have "hasPlayerItems (int 0) [(0, 2)] two_players = Inr True"
    unfolding hasPlayerItems_iff[OF two_players_ok] by (simp add: owns_def two_players_def Let_def)
  moreover have "amounts_ok two_players 0 [(0, 2)]" using two_players_ok(1) by (simp add: request_ok_def)
  ultimately obtain iv' where
    iv': "removeItemFromPlayer (int 0) [(0, 2)] two_players = Inr iv'"
    "owns iv' = (\<lambda>a b. if a = 0 then map_option (\<lambda>n. n - count_of [(0, 2)] b) (owns two_players a b)
       else owns two_players a b)"
    using granted_request_is_paid[of two_players 0 "[(0, 2)]"] two_players_ok(2) by auto
  moreover have "owns two_players 0 0 = Some 3" by (simp add: owns_def two_players_def Let_def)
  ultimately show ?thesis by (simp add: count_of_def)
qed

text \<open>
  C29. The check compares each entry of a request by itself with what the player owns, so an item named twice
  is granted although the two amounts together exceed the count; the removal then cuts the count off at
  zero, and the player has paid less than was granted. Nothing else changes.
\<close>

theorem repeated_item_is_underpaid:
  assumes "int_ok (int i)" "int_ok (int k)" and "owns iv i k = Some n" "int_ok n"
    and "0 \<le> c" "c \<le> n" "0 \<le> d" "d \<le> n" "n < c + d" and "\<not> rejects (int i) [(int k, c), (int k, d)] iv"
  shows "hasPlayerItems (int i) [(int k, c), (int k, d)] iv = Inr True \<and>
    (\<exists>iv'. removeItemFromPlayer (int i) [(int k, c), (int k, d)] iv = Inr iv' \<and>
       owns iv' = (\<lambda>a b. if a = i \<and> b = k then Some 0 else owns iv a b))"
proof
  show "hasPlayerItems (int i) [(int k, c), (int k, d)] iv = Inr True"
    using owned_at_owns[OF assms(1-3)] assms(6,8,10) by (simp add: hasPlayerItems_def)
  have first: "int_ok (n - c)" using assms(4-6) by (simp add: int_ok_def)
  obtain iv1 where iv1: "remove_turn (int i) (int k, c) iv = Inr iv1"
    "owns iv1 = (\<lambda>a b. if a = i \<and> b = k then Some (max 0 (n - c)) else owns iv a b)"
    using remove_turn_owns[OF assms(1-3) first] by blast
  have "int_ok (max 0 (n - c) - d)" using assms(4-8) by (simp add: int_ok_def)
  then obtain iv2 where iv2: "remove_turn (int i) (int k, d) iv1 = Inr iv2"
    "owns iv2 = (\<lambda>a b. if a = i \<and> b = k then Some (max 0 (max 0 (n - c) - d)) else owns iv1 a b)"
    using remove_turn_owns[OF assms(1,2), of iv1 "max 0 (n - c)" d] iv1(2) by auto
  have "removeItemFromPlayer (int i) [(int k, c), (int k, d)] iv = Inr iv2"
    using iv1(1) iv2(1) assms(10) by (simp add: removeItemFromPlayer_def)
  moreover have "owns iv2 = (\<lambda>a b. if a = i \<and> b = k then Some 0 else owns iv a b)"
    unfolding iv2(2) iv1(2) using assms(6,9) by (auto simp: fun_eq_iff)
  ultimately show "\<exists>iv'. removeItemFromPlayer (int i) [(int k, c), (int k, d)] iv = Inr iv' \<and>
       owns iv' = (\<lambda>a b. if a = i \<and> b = k then Some 0 else owns iv a b)" by blast
qed

text \<open>Three owned, two and two requested: granted, and three paid.\<close>

definition three_owned :: inventar where
  "three_owned = two_players\<lparr>inventorys := inventorys two_players @ [inventorys two_players ! 1]\<rparr>"

theorem repeated_item_is_underpaid_witness:
  "hasPlayerItems 0 [(0, 2), (0, 2)] three_owned = Inr True \<and>
    (\<exists>iv'. removeItemFromPlayer 0 [(0, 2), (0, 2)] three_owned = Inr iv' \<and>
       owns three_owned 0 0 = Some 3 \<and> owns iv' 0 0 = Some 0)"
proof -
  have "owns three_owned 0 0 = Some 3" by (simp add: owns_def three_owned_def two_players_def Let_def)
  moreover have "\<not> rejects (int 0) [(int 0, 2), (int 0, 2)] three_owned"
    by (simp add: rejects_def size_minus_1_def three_owned_def two_players_def Let_def int_ok_def)
  ultimately show ?thesis
    using repeated_item_is_underpaid[of 0 0 three_owned 3 2 2] by (auto simp: int_ok_def)
qed

text \<open>
  Adding items and removing the same items again restores every count of every player.
\<close>

theorem add_then_remove:
  assumes "request_ok iv i count" and "room_for iv i count" and "\<not> rejects (int i) count iv"
  shows "\<exists>iv1 iv2. addItemtoPlayer (int i) count iv = Inr iv1 \<and>
    removeItemFromPlayer (int i) count iv1 = Inr iv2 \<and> owns iv2 = owns iv"
proof -
  obtain iv1 where iv1: "addItemtoPlayer (int i) count iv = Inr iv1" "length (inventorys iv1) = length (inventorys iv)"
    "owns iv1 = (\<lambda>a b. if a = i then map_option (\<lambda>n. n + count_of count b) (owns iv a b) else owns iv a b)"
    using add_owns[OF assms] by blast
  have cnt: "count_of count (nat k) = c" if "(k, c) \<in> set count" "0 \<le> k" for k c
    using that assms(1) by (simp add: request_defs count_of_def)
  have r: "request_ok iv1 i count"
    using assms(1,2) cnt unfolding request_defs room_for_def iv1(3)
    by (fastforce simp: list_all_iff split: option.splits)
  have "rejects (int i) count iv1 = rejects (int i) count iv" by (simp add: rejects_def iv1(2))
  then obtain iv2 where iv2: "removeItemFromPlayer (int i) count iv1 = Inr iv2"
    "owns iv2 = (\<lambda>a b. if a = i \<and> int b \<in> fst ` set count
       then map_option (\<lambda>n. max 0 (n - count_of count b)) (owns iv1 a b) else owns iv1 a b)"
    using remove_owns[OF r] assms(3) by auto
  have pos: "0 \<le> n" if b: "int b \<in> fst ` set count" and n: "owns iv i b = Some n" for b n
  proof -
    from b have "\<exists>c. (int b, c) \<in> set count" by auto
    then show ?thesis using assms(1) n by (auto simp: request_defs list_all_iff)
  qed
  have "owns iv2 a b = owns iv a b" for a b
  proof (cases "a = i \<and> int b \<in> fst ` set count")
    case True
    then show ?thesis using pos[of b] unfolding iv2(2) iv1(3) by (cases "owns iv a b") (simp_all add: max_def)
  next
    case False
    then show ?thesis using count_of_notin[of b count] unfolding iv2(2) iv1(3) by (cases "owns iv a b") auto
  qed
  then show ?thesis using iv1(1) iv2(1) by (auto simp: fun_eq_iff)
qed

theorem add_then_remove_witness:
  "\<exists>iv1 iv2. addItemtoPlayer (int 0) [(0, 2)] two_players = Inr iv1 \<and>
    removeItemFromPlayer (int 0) [(0, 2)] iv1 = Inr iv2 \<and> owns iv2 = owns two_players"
  by (rule add_then_remove[OF two_players_ok(1) _ two_players_ok(2)])
     (simp add: room_for_def two_players_def owns_def int_ok_def Let_def)

text \<open>
  The guard of the three operations compares the number of requested items with the number of
  players: with a single player every non-empty request is refused, so that player can never be
  given an item.
\<close>

theorem lone_player_refused:
  assumes "length (inventorys iv) = 1" and "count \<noteq> []"
  shows "addItemtoPlayer i count iv = Inr iv \<and> hasPlayerItems i count iv = Inr False"
  using lone_player_gets_nothing[OF assms] by blast

theorem lone_player_refused_witness:
  "addItemtoPlayer 0 [(0, 1)] (snd (addPlayer new_inventar)) = Inr (snd (addPlayer new_inventar)) \<and>
   hasPlayerItems 0 [(0, 1)] (snd (addPlayer new_inventar)) = Inr False"
  by (rule lone_player_refused) (simp_all add: addPlayer_def new_inventar_def Let_def)


end
