(* ===== verification/Siedler_Map.thy ===== *)
theory Siedler_Map
  imports Inventar
begin

text \<open>
  \<open>Application/SiedlerServer/Map.h\<close> and its \<open>Main.cpp\<close>: tiles on a board, and the villages and
  streets around them. A \<open>tile*\<close> is null, the member \<open>emptyTile\<close> or an element of \<open>allTiles\<close>.
  \<open>TileAt n i\<close> is the address of element \<open>i\<close> in the buffer \<open>allTiles\<close> had when it held \<open>n\<close> tiles: a
  \<open>push_back\<close> may move the vector (how often is the library's choice), so the model lets every one of
  them invalidate the pointers taken before. The program reads a \<open>tile*\<close> only right after taking it.
  Copying a member that was never set, as the copies of \<open>getVillages\<close> do with \<open>x\<close>, keeps the marker \<open>None\<close>
  and is no error of the model; C++ calls already the copy of such an \<open>int\<close> undefined.
  Index arithmetic is on \<open>int\<close>, the comparison with \<open>size()\<close> on \<open>size_t\<close>. \<open>resize\<close> fills with
  default-constructed elements.
\<close>

datatype tile_ptr = EmptyTile | TileAt nat nat

record tile =
  emptyTile :: bool
  tileId :: int
  itemIDs :: "int list"

record place =
  p_tile :: "tile_ptr option"
  p_number :: int
  p_x :: int
  p_y :: int
  p_index :: int

record village =
  v_isInitialized :: bool
  isCity :: bool
  v_playerID :: int
  v_x :: "int option"
  v_y :: int
  v_index :: int
  connectingTiles :: "tile_ptr list"

record street =
  s_isInitialized :: bool
  s_playerID :: int
  s_x :: int
  s_y :: int
  s_index :: int

record siedler_map =
  maxSizeX :: "int option"
  maxSizeY :: "int option"
  m_emptyTile :: tile
  allTiles :: "tile list"
  allTilePlaces :: "place list"
  villages :: "village list"
  streets :: "street list"

definition new_tile :: tile where
  "new_tile = \<lparr>emptyTile = True, tileId = -1, itemIDs = []\<rparr>"

definition new_place :: place where
  "new_place = \<lparr>p_tile = None, p_number = -1, p_x = -1, p_y = -1, p_index = -1\<rparr>"

text \<open>The constructor of \<open>village\<close> sets \<open>isInitialized\<close>, also for the elements \<open>resize\<close> creates.\<close>

definition new_village :: village where
  "new_village = \<lparr>v_isInitialized = True, isCity = False, v_playerID = -1, v_x = None, v_y = -1, v_index = -1,
     connectingTiles = []\<rparr>"

definition new_street :: street where
  "new_street = \<lparr>s_isInitialized = False, s_playerID = -1, s_x = 0, s_y = 0, s_index = 0\<rparr>"

definition new_map :: siedler_map where
  "new_map = \<lparr>maxSizeX = None, maxSizeY = None, m_emptyTile = new_tile, allTiles = [], allTilePlaces = [],
     villages = [], streets = []\<rparr>"

definition setMaxSize :: "int \<Rightarrow> int \<Rightarrow> siedler_map \<Rightarrow> siedler_map" where
  "setMaxSize x y m = m\<lparr>maxSizeX := Some x, maxSizeY := Some y\<rparr>"


section \<open>Vectors that grow to an index\<close>

definition read_member :: "'a option \<Rightarrow> 'a result" where
  "read_member v = (case v of None \<Rightarrow> Inl (Undefined Uninit) | Some x \<Rightarrow> Inr x)"

text \<open>\<open>if (v.size() <= index) v.resize(index + 1)\<close> with an \<open>int\<close> index.\<close>

definition grow_to :: "'a \<Rightarrow> int \<Rightarrow> 'a list \<Rightarrow> 'a list result" where
  "grow_to d index v =
     (if length v \<le> size_of_int index
      then bindR (checked_int (index + 1)) (\<lambda>n.
           if 9223372036854775808 \<le> size_of_int n then Inl (Exception ''length_error'')
           else Inr (take (size_of_int n) v @ replicate (size_of_int n - length v) d))
      else Inr v)"

definition vec_put :: "'a list \<Rightarrow> int \<Rightarrow> 'a \<Rightarrow> 'a list result" where
  "vec_put v index x = (if size_of_int index < length v then Inr (v[size_of_int index := x])
     else Inl (Undefined OutOfBounds))"

text \<open>\<open>a * (max * 2 + 2) + b\<close> in \<open>int\<close>.\<close>

definition row_index :: "int \<Rightarrow> int \<Rightarrow> int \<Rightarrow> int result" where
  "row_index a mx b =
     bindR (checked_int (mx * 2)) (\<lambda>w.
     bindR (checked_int (w + 2)) (\<lambda>w.
     bindR (checked_int (a * w)) (\<lambda>r. checked_int (r + b))))"


section \<open>Villages and streets\<close>

definition addVillage :: "int \<Rightarrow> int \<Rightarrow> tile_ptr \<Rightarrow> siedler_map \<Rightarrow> siedler_map result" where
  "addVillage x y t m =
     bindR (read_member (maxSizeX m)) (\<lambda>mx.
     bindR (row_index y mx x) (\<lambda>index.
     bindR (grow_to new_village index (villages m)) (\<lambda>vs.
     bindR (vec_at vs (size_of_int index)) (\<lambda>v.
     let v = (if \<not> v_isInitialized v then new_village\<lparr>v_x := Some x, v_y := y, v_index := index\<rparr> else v) in
     bindR (vec_put vs index (v\<lparr>connectingTiles := connectingTiles v @ [t]\<rparr>)) (\<lambda>vs.
     Inr (m\<lparr>villages := vs\<rparr>))))))"

definition addStreet :: "int \<Rightarrow> int \<Rightarrow> siedler_map \<Rightarrow> siedler_map result" where
  "addStreet x y m =
     bindR (read_member (maxSizeY m)) (\<lambda>my.
     bindR (row_index x my y) (\<lambda>index.
     bindR (grow_to new_street index (streets m)) (\<lambda>ss.
     bindR (vec_at ss (size_of_int index)) (\<lambda>s.
     if \<not> s_isInitialized s
     then bindR (vec_put ss index (new_street\<lparr>s_index := index, s_x := x, s_y := y, s_isInitialized := True\<rparr>)) (\<lambda>ss.
          Inr (m\<lparr>streets := ss\<rparr>))
     else Inr (m\<lparr>streets := ss\<rparr>)))))"

definition deref_tile :: "tile_ptr \<Rightarrow> siedler_map \<Rightarrow> tile result" where
  "deref_tile t m = (case t of EmptyTile \<Rightarrow> Inr (m_emptyTile m)
     | TileAt n i \<Rightarrow> (if n = length (allTiles m) \<and> i < n then Inr (allTiles m ! i) else Inl (Undefined Dangling)))"

definition place_afterSet :: "place \<Rightarrow> siedler_map \<Rightarrow> siedler_map result" where
  "place_afterSet p m =
     bindR (deref (p_tile p)) (\<lambda>tp.
     bindR (deref_tile tp m) (\<lambda>t.
     if emptyTile t then Inr m
     else
       bindR (checked_int (p_x p * 2)) (\<lambda>x2.
       bindR (checked_int (p_y p * 2)) (\<lambda>y2.
       bindR (addVillage (x2 + 0) (p_y p + 0) tp m) (\<lambda>m.
       bindR (addVillage (x2 + 1) (p_y p + 0) tp m) (\<lambda>m.
       bindR (addVillage (x2 + 2) (p_y p + 0) tp m) (\<lambda>m.
       bindR (addVillage (x2 + 0) (p_y p + 1) tp m) (\<lambda>m.
       bindR (addVillage (x2 + 1) (p_y p + 1) tp m) (\<lambda>m.
       bindR (addVillage (x2 + 2) (p_y p + 1) tp m) (\<lambda>m.
       bindR (addStreet (p_x p + 0) (y2 - 1) m) (\<lambda>m.
       bindR (addStreet (p_x p + 0) (y2 - 0) m) (\<lambda>m.
       bindR (addStreet (p_x p + 0) (y2 + 1) m) (\<lambda>m.
       bindR (addStreet (p_x p + 1) (y2 - 1) m) (\<lambda>m.
       bindR (addStreet (p_x p + 1) (y2 - 0) m) (\<lambda>m.
       addStreet (p_x p + 1) (y2 + 1) m)))))))))))))))"


section \<open>Tiles\<close>

text \<open>The inner loop of \<open>setTile\<close>: the lists have the same length and agree at every index.\<close>

definition items_hit :: "int list \<Rightarrow> int list \<Rightarrow> bool" where
  "items_hit xs ys \<longleftrightarrow> length xs = length ys \<and> list_all (\<lambda>j. xs ! j = ys ! j) [0..<length ys]"

definition find_or_add_tile :: "int list \<Rightarrow> siedler_map \<Rightarrow> tile_ptr \<times> siedler_map" where
  "find_or_add_tile items m =
     (case find_index (\<lambda>t. items_hit (itemIDs t) items) (allTiles m) of
        Some i \<Rightarrow> (TileAt (length (allTiles m)) i, m)
      | None \<Rightarrow>
          let n = length (allTiles m) in
          (TileAt (Suc n) n, m\<lparr>allTiles := allTiles m @
             [\<lparr>emptyTile = False, tileId = int_of_size n, itemIDs = items\<rparr>]\<rparr>))"

definition setTile :: "int \<Rightarrow> int \<Rightarrow> int list \<Rightarrow> int \<Rightarrow> bool \<Rightarrow> siedler_map \<Rightarrow> siedler_map result" where
  "setTile x y items number isEmpty m =
     (let (currentTile, m) = (if isEmpty then (EmptyTile, m) else find_or_add_tile items m) in
      bindR (read_member (maxSizeY m)) (\<lambda>my.
      bindR (checked_int (x * my)) (\<lambda>r.
      bindR (checked_int (r + y)) (\<lambda>index.
      let p = \<lparr>p_tile = Some currentTile, p_number = number, p_x = x, p_y = y, p_index = index\<rparr> in
      bindR (grow_to new_place index (allTilePlaces m)) (\<lambda>ps.
      bindR (vec_put ps index p) (\<lambda>ps.
      place_afterSet p (m\<lparr>allTilePlaces := ps\<rparr>)))))))"

definition getTiles :: "siedler_map \<Rightarrow> place list" where
  "getTiles m = filter (\<lambda>p. p_tile p \<noteq> None) (allTilePlaces m)"

definition getVillages :: "siedler_map \<Rightarrow> village list" where
  "getVillages m = filter v_isInitialized (villages m)"

definition getStreets :: "siedler_map \<Rightarrow> street list" where
  "getStreets m = filter s_isInitialized (streets m)"

text \<open>\<open>Main.cpp\<close>: the three numbers it prints.\<close>

definition server_main :: "(nat \<times> nat \<times> nat) result" where
  "server_main =
     bindR (setTile 2 2 [0] 0 False (setMaxSize 5 5 new_map)) (\<lambda>m.
     bindR (setTile 2 3 [0] 0 False m) (\<lambda>m.
     Inr (length (getTiles m), length (getStreets m), length (getVillages m))))"


section \<open>The board\<close>

lemma items_hit_eq [simp]: "items_hit xs ys \<longleftrightarrow> xs = ys"
proof
  assume "items_hit xs ys"
  then show "xs = ys" unfolding items_hit_def list_all_iff by (intro nth_equalityI) auto
qed (simp add: items_hit_def list_all_iff)

lemma grow_to_ok:
  assumes "int_ok (index + 1)" and "0 \<le> index"
  shows "grow_to d index v = Inr (v @ replicate (Suc (nat index) - length v) d)"
proof -
  have i: "size_of_int index = nat index" "size_of_int (index + 1) = Suc (nat index)"
    using assms by (simp_all add: size_of_int_def int_ok_def nat_add_distrib)
  have "nat index < 9223372036854775807" using assms by (simp add: int_ok_def)
  then show ?thesis using assms i by (simp add: grow_to_def)
qed

lemma vec_put_ok: "int_ok index \<Longrightarrow> 0 \<le> index \<Longrightarrow> nat index < length v \<Longrightarrow> vec_put v index x = Inr (v[nat index := x])"
  by (simp add: vec_put_def)

text \<open>Every street knows its place in the vector, and every place its index.\<close>

definition board_ok :: "siedler_map \<Rightarrow> bool" where
  "board_ok m \<longleftrightarrow>
     (\<forall>i < length (streets m). s_isInitialized (streets m ! i) \<longrightarrow> s_index (streets m ! i) = int i \<and>
        (\<exists>my. maxSizeY m = Some my \<and> int i = s_x (streets m ! i) * (my * 2 + 2) + s_y (streets m ! i))) \<and>
     (\<forall>i < length (allTilePlaces m). p_tile (allTilePlaces m ! i) \<noteq> None \<longrightarrow> p_index (allTilePlaces m ! i) = int i \<and>
        (\<exists>my. maxSizeY m = Some my \<and> int i = p_x (allTilePlaces m ! i) * my + p_y (allTilePlaces m ! i)))"


lemma row_index_Inr: "row_index a mx b = Inr i \<Longrightarrow> i = a * (mx * 2 + 2) + b \<and> int_ok i"
  by (auto simp: row_index_def checked_int_eq_Inr)

lemma size_of_int_neg:
  assumes "int_ok i" and "i < 0"
  shows "9223372036854775808 \<le> size_of_int i"
proof -
  have "(i + 18446744073709551616) mod 18446744073709551616 = i + 18446744073709551616"
    by (rule mod_pos_pos_trivial) (use assms in \<open>simp_all add: int_ok_def\<close>)
  then have "i mod 18446744073709551616 = i + 18446744073709551616" by simp
  then show ?thesis using assms by (simp add: size_of_int_def int_ok_def)
qed

text \<open>A negative index never yields a usable vector: it throws, or empties the vector.\<close>

lemma grow_to_Inr:
  assumes "grow_to d index v = Inr v'" and "int_ok index"
  shows "0 \<le> index \<and> v' = v @ replicate (Suc (nat index) - length v) d \<or>
    index = -1 \<and> v' = [] \<or> index < 0 \<and> 9223372036854775808 < length v"
proof (cases "0 \<le> index")
  case True
  then have i: "size_of_int index = nat index" using assms(2) by simp
  show ?thesis
  proof (cases "length v \<le> nat index")
    case True': True
    then have ok: "int_ok (index + 1)" using assms(1) i by (auto simp: grow_to_def checked_int_eq_Inr)
    show ?thesis using grow_to_ok[OF ok True, of d v] assms(1) True by auto
  next
    case False
    then show ?thesis using assms(1) i True by (simp add: grow_to_def)
  qed
next
  case False
  have s: "9223372036854775808 \<le> size_of_int index" by (rule size_of_int_neg) (use assms(2) False in auto)
  have ok: "int_ok (index + 1)" using assms(2) False by (simp add: int_ok_def)
  show ?thesis
  proof (cases "length v \<le> size_of_int index")
    case True
    show ?thesis
    proof (cases "index = -1")
      case True
      then show ?thesis using assms(1) \<open>length v \<le> size_of_int index\<close> by (simp add: grow_to_def int_ok_def)
    next
      case f: False
      then have "9223372036854775808 \<le> size_of_int (index + 1)"
        using size_of_int_neg[OF ok] False by simp
      then show ?thesis using assms(1) True ok by (simp add: grow_to_def)
    qed
  next
    case False': False
    then show ?thesis using s False by simp
  qed
qed

lemma grow_then_at:
  assumes g: "grow_to d index v = Inr v'" and "int_ok index" and "size_of_int index < length v'"
    and l: "length v \<le> 9223372036854775808"
  shows "0 \<le> index \<and> v' = v @ replicate (Suc (nat index) - length v) d"
  using grow_to_Inr[OF g assms(2)] assms(3) l by auto

lemma grown_nth:
  "i < length (v @ replicate n d) \<Longrightarrow> (v @ replicate n d) ! i = (if i < length v then v ! i else d)"
  by (auto simp: nth_append)

lemma addVillage_frame:
  assumes "addVillage x y t m = Inr m'"
  shows "streets m' = streets m \<and> allTilePlaces m' = allTilePlaces m \<and> maxSizeY m' = maxSizeY m \<and>
    maxSizeX m' = maxSizeX m \<and> allTiles m' = allTiles m"
  using assms by (auto simp: addVillage_def Let_def)

text \<open>Memory holds fewer than \<open>2 ^ 63\<close> elements, so a vector that exists is within the bound.\<close>

definition fits :: "siedler_map \<Rightarrow> bool" where
  "fits m \<longleftrightarrow> length (streets m) \<le> 9223372036854775808 \<and> length (allTilePlaces m) \<le> 9223372036854775808"

definition street_ok :: "int option \<Rightarrow> nat \<Rightarrow> street \<Rightarrow> bool" where
  "street_ok my i s \<longleftrightarrow> s_isInitialized s \<longrightarrow> s_index s = int i \<and>
     (\<exists>h. my = Some h \<and> int i = s_x s * (h * 2 + 2) + s_y s)"

definition place_ok :: "int option \<Rightarrow> nat \<Rightarrow> place \<Rightarrow> bool" where
  "place_ok my i p \<longleftrightarrow> p_tile p \<noteq> None \<longrightarrow> p_index p = int i \<and>
     (\<exists>h. my = Some h \<and> int i = p_x p * h + p_y p)"

lemma board_ok_iff: "board_ok m \<longleftrightarrow>
    (\<forall>i < length (streets m). street_ok (maxSizeY m) i (streets m ! i)) \<and>
    (\<forall>i < length (allTilePlaces m). place_ok (maxSizeY m) i (allTilePlaces m ! i))"
  by (simp add: board_ok_def street_ok_def place_ok_def)

lemma street_ok_new [simp]: "street_ok my i new_street"
  by (simp add: street_ok_def new_street_def)

lemma place_ok_new [simp]: "place_ok my i new_place"
  by (simp add: place_ok_def new_place_def)

lemma all_nth_grow_put:
  assumes "\<forall>i < length v. P i (v ! i)" and "\<And>i. P i d" and "P k x"
  shows "\<forall>i < length ((v @ replicate n d)[k := x]). P i ((v @ replicate n d)[k := x] ! i)"
proof (intro allI impI)
  fix i
  assume "i < length ((v @ replicate n d)[k := x])"
  then show "P i ((v @ replicate n d)[k := x] ! i)"
    using assms by (cases "k = i") (auto simp: nth_append)
qed

lemma addStreet_board:
  assumes "addStreet x y m = Inr m'" and b: "board_ok m" and f: "fits m"
  shows "board_ok m' \<and> fits m' \<and> maxSizeY m' = maxSizeY m \<and> allTiles m' = allTiles m"
proof -
  obtain my index ss where my: "maxSizeY m = Some my" and idx: "row_index x my y = Inr index"
    and ss: "grow_to new_street index (streets m) = Inr ss" and at: "size_of_int index < length ss"
    and r: "(if \<not> s_isInitialized (ss ! size_of_int index)
     then bindR (vec_put ss index (new_street\<lparr>s_index := index, s_x := x, s_y := y, s_isInitialized := True\<rparr>)) (\<lambda>ss.
          Inr (m\<lparr>streets := ss\<rparr>))
     else Inr (m\<lparr>streets := ss\<rparr>)) = (Inr m' :: siedler_map result)"
    using assms(1) by (auto simp: addStreet_def read_member_def vec_at_def split: option.splits if_splits)
  have i: "index = x * (my * 2 + 2) + y" "int_ok index" using row_index_Inr[OF idx] by blast+
  have g: "0 \<le> index" "ss = streets m @ replicate (Suc (nat index) - length (streets m)) new_street"
    using grow_then_at[OF ss i(2) at] f by (simp_all add: fits_def)
  let ?s = "new_street\<lparr>s_index := index, s_x := x, s_y := y, s_isInitialized := True\<rparr>"
  have "length ss = max (length (streets m)) (Suc (nat index))" unfolding g(2) by simp
  moreover have "nat index \<le> 2147483647" using i(2) by (simp add: int_ok_def nat_le_iff)
  ultimately have ln: "length ss \<le> 9223372036854775808" using f by (simp add: fits_def)
  have all: "\<forall>j < length (streets m). street_ok (maxSizeY m) j (streets m ! j)" using b by (simp add: board_ok_iff)
  show ?thesis
  proof (cases "s_isInitialized (ss ! size_of_int index)")
    case True
    then have m': "m' = m\<lparr>streets := ss\<rparr>" using r by simp
    have "\<forall>j < length ss. street_ok (maxSizeY m) j (ss ! j)"
      using all g(2) by (auto simp: nth_append)
    then show ?thesis using m' b f ln by (simp add: board_ok_iff fits_def)
  next
    case False
    then have m': "m' = m\<lparr>streets := ss[nat index := ?s]\<rparr>"
      using r at g(1) i(2) by (simp add: vec_put_def)
    have "street_ok (maxSizeY m) (nat index) ?s" using g(1) i(1) my by (simp add: street_ok_def)
    from all_nth_grow_put[OF all _ this, of new_street] have
      "\<forall>j < length (ss[nat index := ?s]). street_ok (maxSizeY m) j (ss[nat index := ?s] ! j)"
      unfolding g(2) by simp
    then show ?thesis using m' b f ln by (simp add: board_ok_iff fits_def)
  qed
qed

lemma afterSet_board:
  assumes "place_afterSet p m = Inr m'" and "board_ok m" and "fits m"
  shows "board_ok m' \<and> fits m'"
proof -
  define ok where "ok m \<longleftrightarrow> board_ok m \<and> fits m" for m
  have v: "ok b" if "addVillage x y tp a = Inr b" "ok a" for x y tp a b
    using addVillage_frame[OF that(1)] that(2) by (simp add: ok_def board_ok_iff fits_def)
  have s: "ok b" if "addStreet x y a = Inr b" "ok a" for x y a b
    using addStreet_board[OF that(1)] that(2) by (simp add: ok_def)
  have m: "ok m" using assms(2,3) by (simp add: ok_def)
  have "ok m'" using assms(1) unfolding place_afterSet_def
    apply (elim bindR_eq_InrE)
    apply (split if_split_asm)
    subgoal using m by simp
    subgoal
      apply (elim bindR_eq_InrE)
      apply (drule v, rule m)
      apply (drule (1) v)+
      apply (drule (1) s)+
      apply assumption
      done
    done
  then show ?thesis by (simp add: ok_def)
qed


lemma find_or_add_frame: "find_or_add_tile items m = (t, m') \<Longrightarrow>
    streets m' = streets m \<and> allTilePlaces m' = allTilePlaces m \<and> maxSizeY m' = maxSizeY m \<and> maxSizeX m' = maxSizeX m"
  by (auto simp: find_or_add_tile_def Let_def split: option.splits)

lemma setTile_board:
  assumes "setTile x y items n e m = Inr m'" and b: "board_ok m" and f: "fits m"
  shows "board_ok m' \<and> fits m'"
proof -
  obtain t m1 where m1: "(if e then (EmptyTile, m) else find_or_add_tile items m) = (t, m1)" by fastforce
  then have fr: "streets m1 = streets m" "allTilePlaces m1 = allTilePlaces m" "maxSizeY m1 = maxSizeY m"
    using find_or_add_frame[of items m t m1] by (auto split: if_splits)
  define index where "index = x * the (maxSizeY m) + y"
  let ?p = "\<lparr>p_tile = Some t, p_number = n, p_x = x, p_y = y, p_index = index\<rparr>"
  obtain my ps ps' where my: "maxSizeY m = Some my" and io: "int_ok index"
    and g: "grow_to new_place index (allTilePlaces m) = Inr ps" and pt: "vec_put ps index ?p = Inr ps'"
    and r: "place_afterSet ?p (m1\<lparr>allTilePlaces := ps'\<rparr>) = Inr m'"
    using assms(1) m1 fr
    by (auto simp: setTile_def read_member_def checked_int_eq_Inr index_def Let_def split: option.splits)
  have "size_of_int index < length ps" using pt by (auto simp: vec_put_def split: if_splits)
  from grow_then_at[OF g io this] f have ps: "0 \<le> index"
      "ps = allTilePlaces m @ replicate (Suc (nat index) - length (allTilePlaces m)) new_place"
    by (simp_all add: fits_def)
  have ps': "ps' = ps[nat index := ?p]" using pt ps(1) io by (auto simp: vec_put_def split: if_splits)
  have all: "\<forall>j < length (allTilePlaces m). place_ok (maxSizeY m) j (allTilePlaces m ! j)" using b by (simp add: board_ok_iff)
  have "place_ok (maxSizeY m) (nat index) ?p" using ps(1) my by (simp add: place_ok_def index_def)
  from all_nth_grow_put[OF all _ this, of new_place]
  have "\<forall>j < length ps'. place_ok (maxSizeY m) j (ps' ! j)" unfolding ps' ps(2) by simp
  then have b1: "board_ok (m1\<lparr>allTilePlaces := ps'\<rparr>)" using b fr by (simp add: board_ok_iff)
  have "length ps' = max (length (allTilePlaces m)) (Suc (nat index))" unfolding ps' ps(2) by simp
  moreover have "nat index \<le> 2147483647" using io by (simp add: int_ok_def nat_le_iff)
  ultimately have "fits (m1\<lparr>allTilePlaces := ps'\<rparr>)" using f fr by (simp add: fits_def)
  then show ?thesis using afterSet_board[OF r b1] by blast
qed

text \<open>Tiles are shared: no two entries of \<open>allTiles\<close> have the same items.\<close>

definition tiles_ok :: "siedler_map \<Rightarrow> bool" where
  "tiles_ok m \<longleftrightarrow> distinct (map itemIDs (allTiles m)) \<and>
     (\<forall>i < length (allTiles m). tileId (allTiles m ! i) = int_of_size i \<and> \<not> emptyTile (allTiles m ! i))"

lemma find_or_add_ok:
  assumes "tiles_ok m" and "find_or_add_tile items m = (t, m')"
  shows "tiles_ok m' \<and> (\<exists>i. t = TileAt (length (allTiles m')) i \<and> i < length (allTiles m') \<and> itemIDs (allTiles m' ! i) = items)"
proof (cases "find_index (\<lambda>t. items_hit (itemIDs t) items) (allTiles m)")
  case None
  then have "items \<notin> itemIDs ` set (allTiles m)" by auto
  moreover have "t = TileAt (Suc (length (allTiles m))) (length (allTiles m))" "m' = m\<lparr>allTiles := allTiles m @
      [\<lparr>emptyTile = False, tileId = int_of_size (length (allTiles m)), itemIDs = items\<rparr>]\<rparr>"
    using assms(2) unfolding find_or_add_tile_def None by (simp_all add: Let_def)
  ultimately show ?thesis using assms(1) by (auto simp: tiles_ok_def nth_append less_Suc_eq)
next
  case (Some i)
  then have t: "t = TileAt (length (allTiles m)) i" and m': "m' = m" using assms(2) unfolding find_or_add_tile_def Some by auto
  show ?thesis unfolding t m' using assms(1) find_index_SomeD[OF Some] by simp
qed

text \<open>The corner tile asks for the street \<open>(0, -1)\<close>: index \<open>-1\<close> empties the vector and reads it.\<close>

lemma addStreet_corner:
  assumes "maxSizeY m = Some my" and "0 \<le> my" and "my \<le> 1000000000" and "length (streets m) \<le> 9223372036854775808"
  shows "addStreet 0 (-1) m = Inl (Undefined OutOfBounds)"
proof -
  have "row_index 0 my (-1) = Inr (-1)" using assms(2,3) by (simp add: row_index_def int_ok_def)
  moreover have "size_of_int (-1) = 18446744073709551615" by (simp add: size_of_int_def)
  moreover have "grow_to new_street (-1) (streets m) = Inr []"
    using assms(4) \<open>size_of_int (-1) = _\<close> by (simp add: grow_to_def int_ok_def)
  ultimately show ?thesis using assms(1) by (simp add: addStreet_def read_member_def)
qed


section \<open>What a tile adds\<close>

definition occupied :: "siedler_map \<Rightarrow> nat set" where
  "occupied m = {i. i < length (streets m) \<and> s_isInitialized (streets m ! i)}"

lemma length_getStreets: "length (getStreets m) = card (occupied m)"
  by (simp add: getStreets_def occupied_def length_filter_conv_card)

text \<open>\<open>resize\<close> creates initialised villages, so every slot of the vector counts as one.\<close>

definition villages_init :: "siedler_map \<Rightarrow> bool" where
  "villages_init m \<longleftrightarrow> list_all v_isInitialized (villages m)"

lemma length_getVillages: "villages_init m \<Longrightarrow> length (getVillages m) = length (villages m)"
  by (simp add: villages_init_def getVillages_def list_all_iff filter_id_conv)

text \<open>Coordinates and sizes for which no index overflows.\<close>

definition small :: "int \<Rightarrow> bool" where
  "small i \<longleftrightarrow> 0 \<le> i \<and> i \<le> 10000"

lemma row_index_small:
  assumes "0 \<le> a" "a \<le> 10001" "small mx" "-1 \<le> b" "b \<le> 20002"
  shows "row_index a mx b = Inr (a * (mx * 2 + 2) + b) \<and> int_ok (a * (mx * 2 + 2) + b + 1) \<and> int_ok (a * (mx * 2 + 2) + b)"
proof -
  define r where "r = a * (mx * 2 + 2)"
  have "0 \<le> r" unfolding r_def using assms by (simp add: small_def)
  moreover have "r \<le> 10001 * 20002"
    unfolding r_def by (rule mult_mono) (use assms in \<open>simp_all add: small_def\<close>)
  ultimately have "checked_int r = Inr r \<and> checked_int (r + b) = Inr (r + b) \<and> int_ok (r + b + 1) \<and> int_ok (r + b)"
    using assms by (simp add: checked_int_def int_ok_def)
  moreover have "checked_int (mx * 2) = Inr (mx * 2) \<and> checked_int (mx * 2 + 2) = Inr (mx * 2 + 2)"
    using assms by (simp add: checked_int_def int_ok_def small_def)
  ultimately show ?thesis by (simp add: row_index_def flip: r_def)
qed

lemma addVillage_total:
  assumes "maxSizeX m = Some mx" and "row_index y mx x = Inr index" and "0 \<le> index" and "int_ok (index + 1)" "int_ok index"
    and i: "villages_init m"
  shows "\<exists>m'. addVillage x y t m = Inr m' \<and> villages_init m' \<and>
    length (villages m') = max (length (villages m)) (Suc (nat index)) \<and> occupied m' = occupied m \<and>
    maxSizeX m' = maxSizeX m \<and> maxSizeY m' = maxSizeY m \<and> allTilePlaces m' = allTilePlaces m \<and>
    allTiles m' = allTiles m"
proof -
  let ?vs = "villages m @ replicate (Suc (nat index) - length (villages m)) new_village"
  have l: "length ?vs = max (length (villages m)) (Suc (nat index))" by simp
  then have at: "nat index < length ?vs" by simp
  have init: "list_all v_isInitialized ?vs"
    using i by (auto simp: villages_init_def new_village_def list_all_iff)
  then have vi: "v_isInitialized (?vs ! nat index)" using at by (simp only: list_all_length)
  let ?v = "?vs ! nat index"
  let ?vs' = "?vs[nat index := ?v\<lparr>connectingTiles := connectingTiles ?v @ [t]\<rparr>]"
  have "addVillage x y t m = Inr (m\<lparr>villages := ?vs'\<rparr>)"
    using assms(1-5) at vi by (simp add: addVillage_def read_member_def grow_to_ok vec_put_ok Let_def del: length_append)
  moreover have "list_all v_isInitialized ?vs'"
    using init at vi by (simp add: list_all_length nth_list_update del: length_append)
  ultimately show ?thesis using l by (simp add: villages_init_def occupied_def)
qed

lemma addStreet_total:
  assumes "maxSizeY m = Some my" and "row_index x my y = Inr index" and "0 \<le> index" and "int_ok (index + 1)" "int_ok index"
  shows "\<exists>m'. addStreet x y m = Inr m' \<and> villages m' = villages m \<and> occupied m' = insert (nat index) (occupied m) \<and>
    maxSizeX m' = maxSizeX m \<and> maxSizeY m' = maxSizeY m \<and> allTilePlaces m' = allTilePlaces m \<and>
    allTiles m' = allTiles m"
proof -
  let ?ss = "streets m @ replicate (Suc (nat index) - length (streets m)) new_street"
  let ?s = "new_street\<lparr>s_index := index, s_x := x, s_y := y, s_isInitialized := True\<rparr>"
  have l: "length ?ss = max (length (streets m)) (Suc (nat index))" by simp
  then have at: "nat index < length ?ss" by simp
  have occ: "{i. i < length ?ss \<and> s_isInitialized (?ss ! i)} = occupied m"
  proof -
    have "?ss ! j = (if j < length (streets m) then streets m ! j else new_street)" if "j < length ?ss" for j
      using that by (auto simp: nth_append)
    then show ?thesis by (auto simp: occupied_def new_street_def split: if_splits)
  qed
  show ?thesis
  proof (cases "s_isInitialized (?ss ! nat index)")
    case True
    then have "addStreet x y m = Inr (m\<lparr>streets := ?ss\<rparr>)"
      using assms at by (simp add: addStreet_def read_member_def grow_to_ok del: length_append)
    moreover have "nat index \<in> occupied m" using True at occ by blast
    ultimately show ?thesis using occ by (simp add: occupied_def insert_absorb)
  next
    case False
    then have "addStreet x y m = Inr (m\<lparr>streets := ?ss[nat index := ?s]\<rparr>)"
      using assms at by (simp add: addStreet_def read_member_def grow_to_ok vec_put_ok del: length_append)
    moreover have "{i. i < length (?ss[nat index := ?s]) \<and> s_isInitialized (?ss[nat index := ?s] ! i)}
        = insert (nat index) (occupied m)"
      using at by (auto simp: nth_list_update simp flip: occ simp del: length_append)
    ultimately show ?thesis by (simp add: occupied_def)
  qed
qed


text \<open>The slots a non-empty tile at \<open>(x, y)\<close> touches.\<close>

definition street_slots :: "int \<Rightarrow> int \<Rightarrow> int \<Rightarrow> nat set" where
  "street_slots my x y = (\<lambda>(a, b). nat (a * (my * 2 + 2) + b)) `
     {(x, y * 2 - 1), (x, y * 2), (x, y * 2 + 1), (x + 1, y * 2 - 1), (x + 1, y * 2), (x + 1, y * 2 + 1)}"

definition village_end :: "int \<Rightarrow> int \<Rightarrow> int \<Rightarrow> nat" where
  "village_end mx x y = Suc (nat ((y + 1) * (mx * 2 + 2) + (x * 2 + 2)))"

text \<open>\<open>n\<close> village slots are known to exist, \<open>S\<close> are the initialised streets.\<close>

definition board_state :: "int \<Rightarrow> int \<Rightarrow> place list \<Rightarrow> nat \<Rightarrow> nat set \<Rightarrow> siedler_map \<Rightarrow> bool" where
  "board_state mx my ps n S m \<longleftrightarrow> maxSizeX m = Some mx \<and> maxSizeY m = Some my \<and> allTilePlaces m = ps \<and>
     villages_init m \<and> length (villages m) = n \<and> occupied m = S \<and> tiles_ok m"

lemma addVillage_state:
  assumes s: "board_state mx my ps n S m" and "small mx" "0 \<le> y" "y \<le> 10001" "0 \<le> x" "x \<le> 20002"
  shows "\<exists>m'. addVillage x y t m = Inr m' \<and> board_state mx my ps (max n (Suc (nat (y * (mx * 2 + 2) + x)))) S m'"
proof -
  have r: "row_index y mx x = Inr (y * (mx * 2 + 2) + x) \<and> int_ok (y * (mx * 2 + 2) + x + 1) \<and> int_ok (y * (mx * 2 + 2) + x)"
    by (rule row_index_small) (use assms in simp_all)
  have "0 \<le> y * (mx * 2 + 2) + x" using assms by (simp add: small_def)
  moreover have "tiles_ok m' \<longleftrightarrow> tiles_ok m" if "allTiles m' = allTiles m" for m'
    using that by (simp add: tiles_ok_def)
  ultimately show ?thesis using addVillage_total[of m mx y x, where t = t] r s unfolding board_state_def by fastforce
qed

lemma addStreet_state:
  assumes s: "board_state mx my ps n S m" and "small my" "0 \<le> x" "x \<le> 10001" "-1 \<le> y" "y \<le> 20002" "1 \<le> x \<or> 0 \<le> y"
  shows "\<exists>m'. addStreet x y m = Inr m' \<and> board_state mx my ps n (insert (nat (x * (my * 2 + 2) + y)) S) m'"
proof -
  have r: "row_index x my y = Inr (x * (my * 2 + 2) + y) \<and> int_ok (x * (my * 2 + 2) + y + 1) \<and> int_ok (x * (my * 2 + 2) + y)"
    by (rule row_index_small) (use assms in simp_all)
  have "0 \<le> x * (my * 2 + 2) + y"
  proof (cases "1 \<le> x")
    case True
    then have "1 * 2 \<le> x * (my * 2 + 2)" by (intro mult_mono) (use assms in \<open>simp_all add: small_def\<close>)
    then show ?thesis using assms by simp
  next
    case False
    then have "x = 0" "0 \<le> y" using assms by auto
    then show ?thesis by simp
  qed
  moreover have "villages_init m' \<longleftrightarrow> villages_init m" if "villages m' = villages m" for m'
    using that by (simp add: villages_init_def)
  moreover have "tiles_ok m' \<longleftrightarrow> tiles_ok m" if "allTiles m' = allTiles m" for m'
    using that by (simp add: tiles_ok_def)
  ultimately show ?thesis using addStreet_total[of m my x y] r s unfolding board_state_def by fastforce
qed

lemma max_absorbs: "n \<le> m \<Longrightarrow> m \<le> max n e \<Longrightarrow> a \<le> e \<Longrightarrow> b \<le> e \<Longrightarrow> max (max (max m a) b) e = max n (e :: nat)"
  by linarith

lemma afterSet_state:
  assumes s: "board_state mx my ps n S m" and sz: "small mx" "small my" and xy: "small x" "small y" "1 \<le> x \<or> 1 \<le> y"
    and p: "p_tile p = Some tp" "p_x p = x" "p_y p = y" and t: "deref_tile tp m = Inr t" "\<not> emptyTile t"
  shows "\<exists>m'. place_afterSet p m = Inr m' \<and>
    board_state mx my ps (max n (village_end mx x y)) (street_slots my x y \<union> S) m'"
proof -
  have ck: "checked_int (x * 2) = Inr (x * 2)" "checked_int (y * 2) = Inr (y * 2)"
    using xy by (simp_all add: checked_int_def int_ok_def small_def)
  have b: "0 \<le> x" "x \<le> 10000" "0 \<le> y" "y \<le> 10000" using xy by (simp_all add: small_def)
  note v = addVillage_state[where t = tp, OF _ sz(1)] and st = addStreet_state[OF _ sz(2)]
  have c: "0 \<le> y" "y \<le> 10001" "0 \<le> y + 1" "y + 1 \<le> 10001"
      "0 \<le> x * 2" "x * 2 \<le> 20002" "0 \<le> x * 2 + 1" "x * 2 + 1 \<le> 20002" "0 \<le> x * 2 + 2" "x * 2 + 2 \<le> 20002"
    using b by simp_all
  have d: "0 \<le> x" "x \<le> 10001" "0 \<le> x + 1" "x + 1 \<le> 10001" "-1 \<le> y * 2 - 1" "y * 2 - 1 \<le> 20002"
      "-1 \<le> y * 2" "y * 2 \<le> 20002" "-1 \<le> y * 2 + 1" "y * 2 + 1 \<le> 20002"
      "1 \<le> x \<or> 0 \<le> y * 2 - 1" "1 \<le> x \<or> 0 \<le> y * 2" "1 \<le> x \<or> 0 \<le> y * 2 + 1"
      "1 \<le> x + 1 \<or> 0 \<le> y * 2 - 1" "1 \<le> x + 1 \<or> 0 \<le> y * 2" "1 \<le> x + 1 \<or> 0 \<le> y * 2 + 1"
    using b xy(3) by auto
  let ?w = "\<lambda>a b. Suc (nat (b * (mx * 2 + 2) + a))"
  from v[OF s c(1,2,5,6)] obtain m1 where m1: "addVillage (x * 2) y tp m = Inr m1"
      "board_state mx my ps (max n (?w (x * 2) y)) S m1" by blast
  from v[OF m1(2) c(1,2,7,8)] obtain m2 where m2: "addVillage (x * 2 + 1) y tp m1 = Inr m2"
      "board_state mx my ps (max (max n (?w (x * 2) y)) (?w (x * 2 + 1) y)) S m2" by blast
  from v[OF m2(2) c(1,2,9,10)] obtain m3 where m3: "addVillage (x * 2 + 2) y tp m2 = Inr m3"
      "board_state mx my ps (max (max (max n (?w (x * 2) y)) (?w (x * 2 + 1) y)) (?w (x * 2 + 2) y)) S m3" by blast
  define n3 where "n3 = max (max (max n (?w (x * 2) y)) (?w (x * 2 + 1) y)) (?w (x * 2 + 2) y)"
  from v[OF m3(2)[folded n3_def] c(3,4,5,6)] obtain m4 where m4: "addVillage (x * 2) (y + 1) tp m3 = Inr m4"
      "board_state mx my ps (max n3 (?w (x * 2) (y + 1))) S m4" by blast
  from v[OF m4(2) c(3,4,7,8)] obtain m5 where m5: "addVillage (x * 2 + 1) (y + 1) tp m4 = Inr m5"
      "board_state mx my ps (max (max n3 (?w (x * 2) (y + 1))) (?w (x * 2 + 1) (y + 1))) S m5" by blast
  from v[OF m5(2) c(3,4,9,10)] obtain m6 where m6: "addVillage (x * 2 + 2) (y + 1) tp m5 = Inr m6"
      "board_state mx my ps (max (max (max n3 (?w (x * 2) (y + 1))) (?w (x * 2 + 1) (y + 1))) (?w (x * 2 + 2) (y + 1))) S m6"
    by blast
  have mono: "y * (mx * 2 + 2) \<le> (y + 1) * (mx * 2 + 2)"
    by (rule mult_right_mono) (use sz in \<open>simp_all add: small_def\<close>)
  have w: "?w a b \<le> village_end mx x y" if "a \<le> x * 2 + 2" "b * (mx * 2 + 2) \<le> (y + 1) * (mx * 2 + 2)" for a b
    unfolding village_end_def Suc_le_mono by (rule nat_mono) (use that in linarith)
  have n3: "n3 \<le> max n (village_end mx x y)" "n \<le> n3"
    unfolding n3_def using w[OF _ mono, of "x * 2"] w[OF _ mono, of "x * 2 + 1"] w[OF _ mono, of "x * 2 + 2"]
    by (cases "n \<le> village_end mx x y"; simp add: le_max_iff_disj)+
  have mx: "max (max (max n3 (?w (x * 2) (y + 1))) (?w (x * 2 + 1) (y + 1))) (?w (x * 2 + 2) (y + 1)) = max n (village_end mx x y)"
    unfolding village_end_def[symmetric]
    by (rule max_absorbs[OF n3(2,1)]) (use w[OF _ order_refl, of "x * 2"] w[OF _ order_refl, of "x * 2 + 1"] in simp_all)
  let ?s = "\<lambda>a b. nat (a * (my * 2 + 2) + b)"
  from st[OF m6(2)[unfolded mx] d(1,2,5,6,11)] obtain m7 where m7: "addStreet x (y * 2 - 1) m6 = Inr m7"
      "board_state mx my ps (max n (village_end mx x y)) (insert (?s x (y * 2 - 1)) S) m7" by blast
  from st[OF m7(2) d(1,2,7,8,12)] obtain m8 where m8: "addStreet x (y * 2) m7 = Inr m8"
      "board_state mx my ps (max n (village_end mx x y)) (insert (?s x (y * 2)) (insert (?s x (y * 2 - 1)) S)) m8" by blast
  from st[OF m8(2) d(1,2,9,10,13)] obtain m9 where m9: "addStreet x (y * 2 + 1) m8 = Inr m9"
      "board_state mx my ps (max n (village_end mx x y))
        (insert (?s x (y * 2 + 1)) (insert (?s x (y * 2)) (insert (?s x (y * 2 - 1)) S))) m9" by blast
  define S9 where "S9 = insert (?s x (y * 2 + 1)) (insert (?s x (y * 2)) (insert (?s x (y * 2 - 1)) S))"
  from st[OF m9(2)[folded S9_def] d(3,4,5,6,14)] obtain ma where ma: "addStreet (x + 1) (y * 2 - 1) m9 = Inr ma"
      "board_state mx my ps (max n (village_end mx x y)) (insert (?s (x + 1) (y * 2 - 1)) S9) ma" by blast
  from st[OF ma(2) d(3,4,7,8,15)] obtain mb where mb: "addStreet (x + 1) (y * 2) ma = Inr mb"
      "board_state mx my ps (max n (village_end mx x y))
        (insert (?s (x + 1) (y * 2)) (insert (?s (x + 1) (y * 2 - 1)) S9)) mb" by blast
  from st[OF mb(2) d(3,4,9,10,16)] obtain mc where mc: "addStreet (x + 1) (y * 2 + 1) mb = Inr mc"
      "board_state mx my ps (max n (village_end mx x y))
        (insert (?s (x + 1) (y * 2 + 1)) (insert (?s (x + 1) (y * 2)) (insert (?s (x + 1) (y * 2 - 1)) S9))) mc" by blast
  have "place_afterSet p m = Inr mc"
    using p t ck m1(1) m2(1) m3(1) m4(1) m5(1) m6(1) m7(1) m8(1) m9(1) ma(1) mb(1) mc(1)
    by (simp add: place_afterSet_def)
  moreover have "insert (?s (x + 1) (y * 2 + 1)) (insert (?s (x + 1) (y * 2)) (insert (?s (x + 1) (y * 2 - 1)) S9))
      = street_slots my x y \<union> S"
    by (auto simp: street_slots_def S9_def)
  ultimately show ?thesis using mc(2) by simp
qed

lemma setTile_state:
  assumes s: "board_state mx my ps n S m" and sz: "small mx" "small my"
    and xy: "small x" "small y" "1 \<le> x \<or> 1 \<le> y"
  shows "\<exists>m' tp. setTile x y items number False m = Inr m' \<and>
    board_state mx my ((ps @ replicate (Suc (nat (x * my + y)) - length ps) new_place)[nat (x * my + y) :=
        \<lparr>p_tile = Some tp, p_number = number, p_x = x, p_y = y, p_index = x * my + y\<rparr>])
      (max n (village_end mx x y)) (street_slots my x y \<union> S) m'"
proof -
  have tk: "tiles_ok m" using s by (simp add: board_state_def)
  obtain tp m1 where m1: "find_or_add_tile items m = (tp, m1)" by fastforce
  have fr: "streets m1 = streets m" "villages m1 = villages m" "allTilePlaces m1 = allTilePlaces m"
      "maxSizeY m1 = maxSizeY m" "maxSizeX m1 = maxSizeX m"
    using m1 by (auto simp: find_or_add_tile_def Let_def split: option.splits)
  obtain i where i: "tp = TileAt (length (allTiles m1)) i" "i < length (allTiles m1)" and tk1: "tiles_ok m1"
    using find_or_add_ok[OF tk m1] by blast
  let ?index = "x * my + y"
  have "x * my \<le> 10000 * 10000"
    by (rule mult_mono) (use xy sz in \<open>simp_all add: small_def\<close>)
  moreover have "0 \<le> x * my" using xy sz by (simp add: small_def)
  ultimately have m0: "0 \<le> x * my" "x * my \<le> 100000000" by simp_all
  then have ck: "checked_int (x * my) = Inr (x * my)" "checked_int ?index = Inr ?index"
    and io: "int_ok ?index" "int_ok (?index + 1)" "0 \<le> ?index"
    using xy by (auto simp: checked_int_def int_ok_def small_def)
  let ?p = "\<lparr>p_tile = Some tp, p_number = number, p_x = x, p_y = y, p_index = ?index\<rparr>"
  let ?ps = "(ps @ replicate (Suc (nat ?index) - length ps) new_place)[nat ?index := ?p]"
  let ?m = "m1\<lparr>allTilePlaces := ?ps\<rparr>"
  have st: "board_state mx my ?ps n S ?m"
    using s fr tk1 by (simp add: board_state_def villages_init_def occupied_def tiles_ok_def)
  have t: "deref_tile tp ?m = Inr (allTiles m1 ! i)" "\<not> emptyTile (allTiles m1 ! i)"
    using i tk1 by (simp_all add: deref_tile_def tiles_ok_def)
  obtain m' where m': "place_afterSet ?p ?m = Inr m'"
      "board_state mx my ?ps (max n (village_end mx x y)) (street_slots my x y \<union> S) m'"
    using afterSet_state[OF st sz xy, of ?p tp] t by auto
  have sel: "maxSizeY m1 = Some my" "allTilePlaces m1 = ps" using s fr by (simp_all add: board_state_def)
  have "setTile x y items number False m = Inr m'"
    using m1 sel ck io m'(1) by (simp add: setTile_def read_member_def grow_to_ok vec_put_ok Let_def)
  then show ?thesis using m'(2) by blast
qed



text \<open>Two neighbouring tiles: ten streets, and a village for every slot up to the last one used.\<close>

lemma server_main_prints: "server_main = Inr (2, 10, 55)"
proof -
  have s0: "board_state 5 5 [] 0 {} (setMaxSize 5 5 new_map)"
    by (simp add: board_state_def setMaxSize_def new_map_def villages_init_def occupied_def tiles_ok_def)
  have sm: "small 5" "small 2" "small 3" "1 \<le> (2 :: int) \<or> 1 \<le> (2 :: int)" "1 \<le> (2 :: int) \<or> 1 \<le> (3 :: int)"
    by (simp_all add: small_def)
  obtain m1 t1 where m1: "setTile 2 2 [0] 0 False (setMaxSize 5 5 new_map) = Inr m1"
    "board_state 5 5 (([] @ replicate (Suc (nat (2 * 5 + 2)) - length ([] :: place list)) new_place)[nat (2 * 5 + 2) :=
        \<lparr>p_tile = Some t1, p_number = 0, p_x = 2, p_y = 2, p_index = 2 * 5 + 2\<rparr>])
      (max 0 (village_end 5 2 2)) (street_slots 5 2 2 \<union> {}) m1"
    using setTile_state[OF s0 sm(1,1,2,2,4)] by blast
  obtain m2 t2 where m2: "setTile 2 3 [0] 0 False m1 = Inr m2" and st: "board_state 5 5
      ((([] @ replicate (Suc (nat (2 * 5 + 2)) - length ([] :: place list)) new_place)[nat (2 * 5 + 2) :=
        \<lparr>p_tile = Some t1, p_number = 0, p_x = 2, p_y = 2, p_index = 2 * 5 + 2\<rparr>] @
       replicate (Suc (nat (2 * 5 + 3)) - length (([] @ replicate (Suc (nat (2 * 5 + 2)) - length ([] :: place list)) new_place)[nat (2 * 5 + 2) :=
        \<lparr>p_tile = Some t1, p_number = 0, p_x = 2, p_y = 2, p_index = 2 * 5 + 2\<rparr>])) new_place)[nat (2 * 5 + 3) :=
        \<lparr>p_tile = Some t2, p_number = 0, p_x = 2, p_y = 3, p_index = 2 * 5 + 3\<rparr>])
      (max (max 0 (village_end 5 2 2)) (village_end 5 2 3)) (street_slots 5 2 3 \<union> (street_slots 5 2 2 \<union> {})) m2"
    using setTile_state[OF m1(2) sm(1,1,2,3,5)] by blast
  have "length (getTiles m2) = 2"
    using st by (simp add: board_state_def getTiles_def new_place_def eval_nat_numeral)
  moreover have "length (getVillages m2) = 55"
    using st length_getVillages[of m2] by (simp add: board_state_def village_end_def)
  moreover have "occupied m2 = {27, 28, 29, 30, 31, 39, 40, 41, 42, 43}"
    using st by (auto simp: board_state_def street_slots_def)
  then have "length (getStreets m2) = 10" by (simp add: length_getStreets)
  ultimately show ?thesis using m1(1) m2 by (simp add: server_main_def)
qed



section \<open>Properties\<close>

text \<open>
  Setting a tile keeps the board consistent: each initialised street sits at the index of its
  coordinates and carries it, each set place likewise, and no index arithmetic goes unnoticed.
\<close>

theorem setTile_keeps_board:
  assumes "setTile x y items n e m = Inr m'" and "board_ok m" and "fits m"
  shows "board_ok m' \<and> fits m'"
  by (rule setTile_board[OF assms])

theorem setTile_keeps_board_witness:
  "\<exists>m'. setTile 1 1 [0] 4 True (setMaxSize 5 5 new_map) = Inr m' \<and> board_ok m'"
proof -
  have "\<exists>m'. setTile 1 1 [0] 4 True (setMaxSize 5 5 new_map) = Inr m'"
    by (simp add: setTile_def setMaxSize_def new_map_def read_member_def checked_int_def int_ok_def grow_to_ok vec_put_ok
        place_afterSet_def deref_tile_def new_tile_def)
  then obtain m' where m': "setTile 1 1 [0] 4 True (setMaxSize 5 5 new_map) = Inr m'" by blast
  show ?thesis using setTile_keeps_board[OF m'] m'
    by (simp add: board_ok_def fits_def setMaxSize_def new_map_def)
qed

text \<open>
  C10. A tile anywhere but in the corner \<open>(0, 0)\<close>, on a board of at most ten thousand rows and columns,
  is always set: it takes its slot among the places, initialises exactly its six streets, and
  extends the villages to the highest of its six.
\<close>

theorem setTile_succeeds:
  assumes "board_state mx my ps n S m" and "small mx" "small my" and "small x" "small y" and "1 \<le> x \<or> 1 \<le> y"
  shows "\<exists>m' tp. setTile x y items number False m = Inr m' \<and>
    board_state mx my ((ps @ replicate (Suc (nat (x * my + y)) - length ps) new_place)[nat (x * my + y) :=
        \<lparr>p_tile = Some tp, p_number = number, p_x = x, p_y = y, p_index = x * my + y\<rparr>])
      (max n (village_end mx x y)) (street_slots my x y \<union> S) m'"
  by (rule setTile_state[OF assms])

theorem setTile_succeeds_witness:
  "\<exists>m'. setTile 2 2 [0] 0 False (setMaxSize 5 5 new_map) = Inr m' \<and> occupied m' = {27, 28, 29, 39, 40, 41}"
proof -
  have "board_state 5 5 [] 0 {} (setMaxSize 5 5 new_map)"
    by (simp add: board_state_def setMaxSize_def new_map_def villages_init_def occupied_def tiles_ok_def)
  from setTile_succeeds[OF this, of 2 2 "[0]" 0] show ?thesis
    by (auto simp: small_def board_state_def street_slots_def)
qed

text \<open>
  The corner tile asks for the street with index \<open>-1\<close>; the comparison with \<open>size()\<close> turns it into a
  huge number, the vector is resized to zero and then read: undefined on every board.
\<close>

theorem corner_street_undefined:
  assumes "maxSizeY m = Some my" and "0 \<le> my" and "my \<le> 1000000000" and "length (streets m) \<le> 9223372036854775808"
  shows "addStreet 0 (0 * 2 - 1) m = Inl (Undefined OutOfBounds)"
  using addStreet_corner[OF assms] by simp

theorem corner_street_undefined_witness:
  "addStreet 0 (0 * 2 - 1) (setMaxSize 5 5 new_map) = Inl (Undefined OutOfBounds)"
  by (rule corner_street_undefined[where my = 5]) (simp_all add: setMaxSize_def new_map_def)

text \<open>
  The server's \<open>main\<close> sets two neighbouring tiles and prints 2 tiles, 10 streets and 55 villages (lemma
  \<open>server_main_prints\<close>): nine villages surround the tiles, the others are slots that \<open>resize\<close> filled.
  Both tiles have the same items, so its stored pointers stay valid. A tile with new items moves the
  vector and leaves every pointer stored before it dangling.
\<close>

lemma stored_tile_dangles:
  assumes "items \<notin> itemIDs ` set (allTiles m)" and "find_or_add_tile items m = (t, m')" and "n \<le> length (allTiles m)"
  shows "deref_tile (TileAt n i) m' = Inl (Undefined Dangling)"
proof (cases "find_index (\<lambda>t. items_hit (itemIDs t) items) (allTiles m)")
  case None
  then have "m' = m\<lparr>allTiles := allTiles m @
      [\<lparr>emptyTile = False, tileId = int_of_size (length (allTiles m)), itemIDs = items\<rparr>]\<rparr>"
    using assms(2) unfolding find_or_add_tile_def None by (simp add: Let_def)
  then show ?thesis using assms(3) by (simp add: deref_tile_def)
next
  case (Some j)
  then show ?thesis using assms(1) by (auto dest: find_index_SomeD)
qed

end
