(* ===== verification/Spec2Isabelle.thy ===== *)
theory Spec2Isabelle
  imports Viewer_Run Device_Life Demo_Program Serializer_Tests Object_Queries Event_System Server_Delivery Client_Base Siedler_Map
begin

text \<open>
  \<^bold>\<open>BackupEngine\<close>: a serializer with a tree of game objects and components, an event system, a message
  transport over asio, a small Direct3D 11 engine on top of the objects, and the applications: a viewer for
  scenes and a server for a board game.

  \<^bold>\<open>How the parts interact.\<close> Everything that is saved writes itself to a \<open>SerializedObject\<close>, a byte vector used
  as a stack: each object writes its members in the reverse order of reading and its class name last. A
  storage of game objects reads the names back and creates components through a factory of registered
  classes. The engine's classes (transform, camera, button, renderer, the five drawables and their instances)
  and the viewer's classes are such components; they refer to each other by pointers, saved as the identifier
  of an object and a rank among its components and resolved by \<open>afterSet\<close>. The renderer owns the Direct3D
  objects; the event system offers queued events to the components that listen. The network side is separate:
  clients and server exchange messages through connections, queues and handlers that asio runs.

  \<^bold>\<open>Conventions.\<close> A computation that can fail returns \<open>error + 'a\<close>: \<open>Exception\<close> for a \<open>throw\<close>, \<open>Undefined\<close> for
  what C++ leaves undefined (null or dangling pointers, uninitialised members, indices out of bounds, erasing
  the end iterator, signed overflow), so a theorem that an operation returns \<open>Inr\<close> also says that it is free of
  them. A member that the code leaves unset is \<open>None\<close>: to decide by it, to compute with it, to write it out or to
  follow it is the error \<open>Uninit\<close>, while copying it copies the marker, although C++ calls already the copy of
  an unset scalar undefined (\<open>addComponent\<close> copies \<open>isActiv\<close> of the object, \<open>getVillages\<close> and every growth of the
  vector of villages copy \<open>x\<close>). \<open>int\<close> is an integer with the overflow checked, \<open>byte\<close> and the headers of messages are words, \<open>float\<close> is
  the 32-bit pattern with IEEE rounding. Objects live on a heap, a component is addressed by its object and its
  index (\<open>cref\<close>). Virtual functions are arguments or a case distinction over the class.

  \<^bold>\<open>Serializer (\<open>src/Serializer\<close>).\<close>
  \<open>Prelude\<close> (results, C++ integers, byte buffers, vectors), \<open>Std_Map\<close> (\<open>std::map\<close>), \<open>Serializer\<close>
  (\<open>Serializer.h\<close>: every operator \<open><<\<close> and \<open>>>\<close>), \<open>Codec\<close> (what the operators promise: \<open>appends\<close> and \<open>reads\<close>,
  composed by rules), \<open>File_Writer\<close> (\<open>FileWriter.h\<close> over a map from paths to contents), \<open>Base_Storage\<close>
  (\<open>baseSingleton.h\<close>, \<open>baseFactory.h\<close>), \<open>Objects\<close> (\<open>Objects.h\<close>: \<open>GameObject\<close>, \<open>ObjectStorrage\<close>, all their operations),
  \<open>File_Component\<close> (the contract of one class, \<open>class_codec\<close>, and the class \<open>FileComponent\<close>), \<open>Object_Tree\<close> (the
  abstract view from identifiers to objects, its invariant, and the refinement of the operations to it; \<open>scene\<close> is
  the reachable states: objects created, moved, renamed, cleared, given components whose members may then be
  written at will, and saved scenes loaded back; the raw setters \<open>setID\<close>, \<open>addChild\<close>, \<open>remChild\<close> and a
  \<open>setParrentID\<close> that throws can break the invariant and are not among its steps), \<open>Object_Queries\<close> (searching,
  \<open>toString\<close>, \<open>addComponent\<close>, a storage with a gap in its identifiers), \<open>Object_Roundtrip\<close> (saving and
  loading of storages from the contract of the classes, \<open>component_codec\<close>), \<open>Serializer_Tests\<close> (the program of
  \<open>tests.cpp\<close> and its \<open>test.bin\<close>; the round trip through a file).

  \<^bold>\<open>Events (\<open>src/EventSystem\<close>).\<close> \<open>Event_System\<close>: listeners, instant and queued triggers, one update as a loop that
  reads its bounds again each time.

  \<^bold>\<open>Network (\<open>src/Netzwerk\<close>).\<close> \<open>Ts_Queue\<close> (\<open>tsQueue.h\<close>; \<open>wait\<close> and \<open>push_back\<close> as interleaved steps), \<open>Message\<close>,
  \<open>Connection\<close> (the handlers of \<open>Connection.h\<close>; asio is the set of pending operations, which complete in any order,
  whole or with an error), \<open>Transport\<close> (two connections and a stream as a step relation, with its invariant),
  \<open>Server_Base\<close>, \<open>Server_Delivery\<close> (one client and the whole server: what reaches \<open>OnMessage\<close>, from the invariant of
  \<open>Transport\<close>), \<open>Client_Base\<close>.

  \<^bold>\<open>Engine (\<open>src/Engine\<close>).\<close> \<open>Float32\<close> (floats), \<open>Engine_Base\<close> (the records of all component classes and access through
  pointers; the matrices and functions of xnamath are a record of parameters), \<open>Graphics\<close> (Direct3D and Win32: the
  program's calls and their answers as a history), \<open>Transform\<close>, \<open>Renderer\<close> (\<open>Kamera.h\<close>, \<open>Dx11Base.h\<close> and the shaders of
  \<open>DrawableRenderer.h\<close>), \<open>Button\<close>, \<open>Drawables\<close> and \<open>String_Renderer\<close> (the five drawables), \<open>Render_Loop\<close> (\<open>LoadContent\<close>,
  \<open>UnloadContent\<close>, \<open>Render\<close>, \<open>clear\<close>), \<open>Text_Tables\<close> (the table readers of \<open>InstancedTeilSpriteFactory.h\<close>). Their proofs:
  \<open>Resources\<close> (which handles are owned: every one is released once; a small calculus \<open>runs\<close> for the engine's
  actions), \<open>Device_Life\<close> (\<open>Initialize\<close>, frames, \<open>Terminate\<close>: nothing is lost over the life of a device),
  \<open>Shader_Cache\<close>, \<open>Engine_Codecs\<close> and \<open>Engine_Scene\<close> (the class table; the contract of saving for every
  class but \<open>ButtonChecker\<close>, which gives the round trip of whole engine scenes; the lonely classes, of which an
  object has at most one instance, and the load that breaks this).

  \<^bold>\<open>Applications (\<open>src/Application\<close>).\<close> \<open>Viewer_Components\<close> (\<open>DragMover\<close>, \<open>ButtonChecker\<close>, \<open>objectKlicker\<close>), \<open>Scene_Display\<close>
  (\<open>addGameobjectDisplayer\<close>), \<open>Display_Layout\<close> (the layout of a tree, and the recursion as the fold over it),
  \<open>Viewer_Main\<close> (\<open>WndProc\<close>, \<open>wWinMain\<close> and its loop), \<open>Viewer_Scene\<close> (the random tree is a tree of all objects, each
  shown once), \<open>Viewer_Run\<close> (the scene that is built, a turn of the wheel, members left unset); \<open>Demo_Program\<close> (the
  two demo programs, which are one file: its window, its loop and its empty \<open>klicked\<close>); \<open>Inventar\<close> and
  \<open>Siedler_Map\<close> (\<open>SiedlerServer\<close>: inventory, board and the main program).

  \<^bold>\<open>Interfaces.\<close> Ordered maps, the codecs of a class and of a set of classes, and the contract between a button and
  its actors are locales, each interpreted on the code's definitions where they are provided.

  \<^bold>\<open>Fuel and bounds.\<close> Recursion through pointers and loops that read their bounds again take fuel; running out of
  it is the error \<open>NoReturn\<close>, so theorems that an operation returns state how much is enough (the number of
  listeners and events plus one, the height of a tree, the length of a chain of transforms), and \<open>toString\<close> is
  shown to run out of any fuel on a cycle or to overflow its layer. Buffers are below \<open>2 ^ 31\<close> bytes, as the code keeps sizes in \<open>int\<close>.
  Layouts are bounded by 20000000 rows and columns, where \<open>80 * row\<close> still fits an \<open>int\<close>; the program shows 500
  objects. Whole numbers in \<open>float\<close> are exact below \<open>2 ^ 24\<close>.

  \<^bold>\<open>Not modelled.\<close> asio itself, the constant fields of Direct3D descriptors, logging, the painting of the window and,
  in the viewer, its creation, operators that only print, \<open>NetzwerkSumm.h\<close>, \<open>Engine_Include.h\<close> and empty main
  programs. The life of objects in memory is modelled where the code ends it (\<open>clear\<close>, deleted events, moved
  vectors), but not for connections: their handlers hold a raw \<open>this\<close>, and nothing is said of a handler that runs
  after its connection is gone. The loops that write files count in an \<open>int\<close> and are modelled for contents below
  \<open>2 ^ 31\<close> bytes. The reader of glyph tables is modelled on any text, and the building of the viewer is shown
  from tables whose numbers are written without leading zeros; the shipped \<open>charStellen.txt\<close> pads its numbers with
  them. Threads appear as interleavings where the code synchronises them (\<open>Ts_Queue\<close>) and as the order of
  handlers in the network; the memory model of C++ does not.
\<close>

end
